(* ===== verification/Prelude.thy ===== *)
theory Prelude
  imports Main "HOL-Library.AList"
begin

text \<open>
  Shared vocabulary of the development.  Identifiers are the 64-bit keys of the database, which the
  code only compares, so they are modelled as integers; instants are integers too (seconds).
  A Go map is an association list with the library's \<open>AList.update\<close> and \<open>AList.delete\<close>, a database
  table is a list of rows, and a primary key is a function from rows to keys.  The locale
  \<open>keyed_update\<close> is the contract of an INSERT with ON DUPLICATE KEY UPDATE: the update part does not
  touch the key.
\<close>

type_synonym id = int
type_synonym time = int
type_synonym ('k, 'v) gomap = "('k \<times> 'v) list"

named_theorems db_simps \<open>how the operations act on the tables of the database\<close>
named_theorems plan_simps \<open>unfolding of transition plans\<close>

section \<open>Instants\<close>

text \<open>The two constants '9999-12-31 23:59:59' and '1000-01-01 00:00:00' used as "never" and "long ago".\<close>

definition max_time :: time where
  "max_time = 253402300799"

definition min_time :: time where
  "min_time = - 30610224000"

lemma min_less_max_time: "min_time < max_time"
  by (simp add: min_time_def max_time_def)

section \<open>Tables with a primary key\<close>

definition tbl_has :: "('r \<Rightarrow> 'k) \<Rightarrow> 'k \<Rightarrow> 'r list \<Rightarrow> bool" where
  "tbl_has key k t = (\<exists>r \<in> set t. key r = k)"

definition tbl_find :: "('r \<Rightarrow> 'k) \<Rightarrow> 'k \<Rightarrow> 'r list \<Rightarrow> 'r option" where
  "tbl_find key k t = find (\<lambda>r. key r = k) t"

definition tbl_delete :: "('r \<Rightarrow> bool) \<Rightarrow> 'r list \<Rightarrow> 'r list" where
  "tbl_delete P t = filter (\<lambda>r. \<not> P r) t"

definition tbl_upsert :: "('r \<Rightarrow> 'k) \<Rightarrow> ('r \<Rightarrow> 'r) \<Rightarrow> 'r \<Rightarrow> 'r list \<Rightarrow> 'r list" where
  "tbl_upsert key upd r t =
     (if tbl_has key (key r) t
      then map (\<lambda>x. if key x = key r then upd x else x) t
      else t @ [r])"

definition tbl_unique :: "('r \<Rightarrow> 'k) \<Rightarrow> 'r list \<Rightarrow> bool" where
  "tbl_unique key t = distinct (map key t)"

lemma find_append:
  "find P (xs @ ys) = (case find P xs of None \<Rightarrow> find P ys | Some x \<Rightarrow> Some x)"
  by (induction xs) auto

lemma find_filter: "find P (filter Q xs) = find (\<lambda>x. Q x \<and> P x) xs"
  by (induction xs) auto

lemma tbl_find_Some: "tbl_find key k t = Some r \<Longrightarrow> r \<in> set t \<and> key r = k"
  by (auto simp: tbl_find_def find_Some_iff)

lemma tbl_find_None: "tbl_find key k t = None \<longleftrightarrow> (\<forall>r \<in> set t. key r \<noteq> k)"
  by (auto simp: tbl_find_def find_None_iff)

lemma tbl_has_find: "tbl_has key k t \<longleftrightarrow> tbl_find key k t \<noteq> None"
  by (auto simp: tbl_has_def tbl_find_None)

lemma tbl_unique_find:
  assumes "tbl_unique key t" and "r \<in> set t"
  shows "tbl_find key (key r) t = Some r"
  using assms by (induction t) (auto simp: tbl_unique_def tbl_find_def image_iff)

lemma tbl_find_in_iff:
  assumes "tbl_unique key t"
  shows "tbl_find key k t = Some r \<longleftrightarrow> r \<in> set t \<and> key r = k"
  using assms tbl_unique_find tbl_find_Some by metis

lemma tbl_unique_filter: "tbl_unique key t \<Longrightarrow> tbl_unique key (filter P t)"
  by (induction t) (auto simp: tbl_unique_def)

lemma tbl_unique_delete [intro]: "tbl_unique key t \<Longrightarrow> tbl_unique key (tbl_delete P t)"
  by (simp add: tbl_delete_def tbl_unique_filter)

lemma set_tbl_delete [simp]: "set (tbl_delete P t) = {r \<in> set t. \<not> P r}"
  by (auto simp: tbl_delete_def)

lemma tbl_find_delete_key:
  assumes "\<And>r. r \<in> set t \<Longrightarrow> P r \<longleftrightarrow> Q (key r)"
  shows "tbl_find key k (tbl_delete P t) = (if Q k then None else tbl_find key k t)"
  using assms by (induction t) (auto simp: tbl_find_def tbl_delete_def)

lemma tbl_find_delete:
  assumes "tbl_unique key t"
  shows "tbl_find key k (tbl_delete P t) = (case tbl_find key k t of None \<Rightarrow> None | Some r \<Rightarrow> if P r then None else Some r)"
proof (cases "tbl_find key k t")
  case None
  then have "tbl_find key k (tbl_delete P t) = None" by (simp add: tbl_find_None)
  with None show ?thesis by simp
next
  case (Some r)
  then have r: "r \<in> set t" "key r = k" using tbl_find_Some by metis+
  show ?thesis
  proof (cases "P r")
    case True
    have "x = r" if "x \<in> set t" "key x = k" for x
      using tbl_unique_find [OF assms that(1)] Some that(2) by simp
    with True have "tbl_find key k (tbl_delete P t) = None" by (auto simp: tbl_find_None)
    with True Some show ?thesis by simp
  next
    case False
    then have "tbl_find key k (tbl_delete P t) = Some r"
      using tbl_unique_find [OF tbl_unique_delete [OF assms], of r P] r by simp
    with False Some show ?thesis by simp
  qed
qed

lemma tbl_find_append_new:
  "tbl_find key k (t @ [r]) =
     (case tbl_find key k t of None \<Rightarrow> (if key r = k then Some r else None) | Some x \<Rightarrow> Some x)"
  by (simp add: tbl_find_def find_append split: option.split)

lemma tbl_unique_append:
  "tbl_unique key (t @ [r]) \<longleftrightarrow> tbl_unique key t \<and> \<not> tbl_has key (key r) t"
  by (auto simp: tbl_unique_def tbl_has_def dest: sym)

lemma filter_key_unique:
  assumes "tbl_unique key t"
  shows "filter (\<lambda>r. key r = k) t = (case tbl_find key k t of None \<Rightarrow> [] | Some r \<Rightarrow> [r])"
  using assms
proof (induction t)
  case Nil
  then show ?case by (simp add: tbl_find_def)
next
  case (Cons x t)
  then have u: "tbl_unique key t" by (simp add: tbl_unique_def)
  show ?case
  proof (cases "key x = k")
    case True
    with Cons.prems have "tbl_find key k t = None"
      unfolding tbl_find_None tbl_unique_def by (metis distinct.simps(2) image_eqI list.map(2) list.set_map)
    with True Cons.IH [OF u] show ?thesis by (simp add: tbl_find_def)
  next
    case False
    with Cons.IH [OF u] show ?thesis by (simp add: tbl_find_def)
  qed
qed

text \<open>The contract of ON DUPLICATE KEY UPDATE, and what follows from it for every keyed table.\<close>

locale keyed_update =
  fixes key :: "'r \<Rightarrow> 'k" and upd :: "'r \<Rightarrow> 'r"
  assumes key_upd: "key (upd x) = key x"
begin

lemma map_key_upd: "map key (map (\<lambda>x. if key x = k then upd x else x) t) = map key t"
  by (induction t) (auto simp: key_upd)

lemma upsert_unique:
  "tbl_unique key t \<Longrightarrow> tbl_unique key (tbl_upsert key upd r t)"
  unfolding tbl_upsert_def
  by (simp add: tbl_unique_append) (simp only: tbl_unique_def map_key_upd simp_thms)

lemma find_map_upd:
  "tbl_find key k (map (\<lambda>x. if key x = j then upd x else x) t) =
     (if k = j then map_option upd (tbl_find key k t) else tbl_find key k t)"
  by (induction t) (auto simp: tbl_find_def key_upd)

lemma filter_other_key:
  "filter (\<lambda>x. key x \<noteq> k) (map (\<lambda>x. if key x = k then upd x else x) t) = filter (\<lambda>x. key x \<noteq> k) t"
  by (induction t) (auto simp: key_upd)

lemma upsert_find:
  "tbl_find key k (tbl_upsert key upd r t) =
     (if k = key r
      then (case tbl_find key k t of None \<Rightarrow> Some r | Some x \<Rightarrow> Some (upd x))
      else tbl_find key k t)"
proof (cases "tbl_has key (key r) t")
  case True
  then have found: "tbl_find key (key r) t \<noteq> None"
    by (simp add: tbl_has_find)
  show ?thesis
  proof (cases "k = key r")
    case True
    with found show ?thesis
      by (cases "tbl_find key k t") (simp_all add: tbl_upsert_def \<open>tbl_has key (key r) t\<close> find_map_upd)
  next
    case False
    then show ?thesis by (simp add: tbl_upsert_def \<open>tbl_has key (key r) t\<close> find_map_upd)
  qed
next
  case False
  then have "tbl_find key (key r) t = None"
    by (simp add: tbl_has_find)
  with False show ?thesis
    by (auto simp: tbl_upsert_def tbl_find_append_new split: option.splits)
qed

lemma upsert_has: "tbl_has key k (tbl_upsert key upd r t) \<longleftrightarrow> k = key r \<or> tbl_has key k t"
  by (auto simp: tbl_has_find upsert_find split: option.splits)

lemma set_upsert:
  "set (tbl_upsert key upd r t) =
     (if tbl_has key (key r) t then (\<lambda>x. if key x = key r then upd x else x) ` set t else insert r (set t))"
  by (auto simp: tbl_upsert_def)

end

section \<open>Go maps\<close>

lemma map_of_update [simp]: "map_of (AList.update k v m) = (map_of m)(k \<mapsto> v)"
  by (rule update_conv')

lemma map_of_delete [simp]: "map_of (AList.delete k m) = (map_of m)(k := None)"
  by (rule delete_conv')

lemma in_keys_iff: "k \<in> fst ` set m \<longleftrightarrow> map_of m k \<noteq> None"
  by (induction m) auto

text \<open>A state change over the elements of a list, one by one, stopping at the first error.\<close>

fun fold_result :: "('a \<Rightarrow> 's \<Rightarrow> 'e + 's) \<Rightarrow> 'a list \<Rightarrow> 's \<Rightarrow> 'e + 's" where
  "fold_result f [] s = Inr s"
| "fold_result f (x # xs) s = (case f x s of Inl e \<Rightarrow> Inl e | Inr s' \<Rightarrow> fold_result f xs s')"

lemma fold_result_invariant:
  assumes "fold_result f xs s = Inr s'" and "I s"
    and "\<And>x t t'. x \<in> set xs \<Longrightarrow> I t \<Longrightarrow> f x t = Inr t' \<Longrightarrow> I t'"
  shows "I s'"
  using assms
proof (induction xs arbitrary: s)
  case Nil
  then show ?case by simp
next
  case (Cons x xs)
  then obtain t where "f x s = Inr t" and "fold_result f xs t = Inr s'"
    by (auto split: sum.splits)
  with Cons.IH [of t] Cons.prems(2,3) show ?case
    by (metis list.set_intros)
qed

lemma fold_invariant:
  assumes "I s" and "\<And>x t. x \<in> set xs \<Longrightarrow> I t \<Longrightarrow> I (f x t)"
  shows "I (fold f xs s)"
  using assms by (induction xs arbitrary: s) auto

text \<open>Go's early return on an error.\<close>

fun bind_result :: "'e + 'a \<Rightarrow> ('a \<Rightarrow> 'e + 'b) \<Rightarrow> 'e + 'b" where
  "bind_result (Inl e) f = Inl e"
| "bind_result (Inr x) f = f x"

lemma bind_result_case [code_unfold]: "bind_result r f = (case r of Inl e \<Rightarrow> Inl e | Inr x \<Rightarrow> f x)"
  by (cases r) simp_all

lemma bind_result_Inr: "bind_result r f = Inr y \<longleftrightarrow> (\<exists>x. r = Inr x \<and> f x = Inr y)"
  by (cases r) auto

text \<open>Members of a list comprehension with guards, as the joins are written.\<close>

lemma in_concat_if: "x \<in> set (concat (map (\<lambda>r. if P r then f r else []) xs)) \<longleftrightarrow> (\<exists>r \<in> set xs. P r \<and> x \<in> set (f r))"
  by auto

text \<open>The rows of a join of two tables.\<close>

lemma set_join2:
  "z \<in> set [f x y. x \<leftarrow> xs, y \<leftarrow> ys x, P x y] \<longleftrightarrow> (\<exists>x y. x \<in> set xs \<and> y \<in> set (ys x) \<and> P x y \<and> z = f x y)"
  by (induction xs) auto

lemma in_singleton: "x \<in> set [y] \<longleftrightarrow> x = y"
  by simp

section \<open>Strings\<close>

text \<open>\<open>strings.Split\<close> with a separator of one character.\<close>

fun split_on :: "char \<Rightarrow> string \<Rightarrow> string list" where
  "split_on d [] = [[]]"
| "split_on d (c # cs) =
     (if c = d then [] # split_on d cs
      else case split_on d cs of [] \<Rightarrow> [[c]] | w # ws \<Rightarrow> (c # w) # ws)"

lemma split_on_nonempty [simp]: "split_on d s \<noteq> []"
  by (induction s) (auto split: list.split)

end
