(* ===== verification/Database.thy ===== *)
theory Database
  imports Prelude
begin

text \<open>
  The tables the modelled stores work on, as lists of rows, in one record \<open>db\<close>.  Primary keys are
  the functions \<open>gg_key\<close>, \<open>pr_key\<close>, \<open>pg_key\<close>, \<open>pgen_key\<close>; \<open>db_now\<close> is MySQL's NOW() of the transaction.
  The views \<open>groups_groups_active\<close> and \<open>groups_ancestors_active\<close> keep the rows with \<open>NOW() < expires_at\<close>.
  Database errors and Go panics (which the stores recover into errors, rolling the transaction back)
  are values of \<open>db_error\<close>.
\<close>

datatype db_error =
    RecordNotFound
  | DuplicateEntry
  | ForeignKeyConstraint
  | GoPanic string

datatype group_type =
  Class | Team | Club | Friends | Other | User | Session | Base | ContestParticipants

datatype personal_info_requirement = RequireNone | RequireView | RequireEdit

record group_row =
  g_id :: id
  g_type :: group_type
  g_is_public :: bool
  g_root_activity_id :: "id option"
  g_root_skill_id :: "id option"
  g_require_personal_info_access_approval :: personal_info_requirement
  g_require_lock_membership_approval_until :: "time option"
  g_require_watch_approval :: bool
  g_enforce_max_participants :: bool
  g_max_participants :: "int option"
  g_frozen_membership :: bool
  g_code :: "string option"
  g_code_expires_at :: "time option"
  g_code_lifetime :: "time option"
  g_is_official_session :: bool

record gg_row =
  gg_parent :: id
  gg_child :: id
  gg_expires_at :: time
  gg_personal_info_view_approved_at :: "time option"
  gg_lock_membership_approved_at :: "time option"
  gg_watch_approved_at :: "time option"
  gg_is_team_membership :: bool

definition gg_key :: "gg_row \<Rightarrow> id \<times> id" where
  "gg_key r = (gg_parent r, gg_child r)"

record ancestor_row =
  ga_ancestor :: id
  ga_child :: id
  ga_expires_at :: time

datatype computation_state = Todo | Done

datatype pending_type = Invitation | JoinRequest | LeaveRequest

record pending_row =
  pr_group :: id
  pr_member :: id
  pr_type :: pending_type
  pr_personal_info_view_approved :: bool
  pr_lock_membership_approved :: bool
  pr_watch_approved :: bool
  pr_at :: time

definition pr_key :: "pending_row \<Rightarrow> id \<times> id" where
  "pr_key r = (pr_group r, pr_member r)"

record change_row =
  ch_group :: id
  ch_member :: id
  ch_action :: string
  ch_at :: time
  ch_initiator :: id

record manager_row =
  gm_group :: id
  gm_manager :: id
  gm_can_grant_group_access :: bool
  gm_can_watch_members :: bool
  gm_can_manage :: nat

datatype origin = GroupMembership | ItemUnlocking | SelfOrigin | OtherOrigin

text \<open>
  The levels are the numbers of the ENUM columns (\<open>can_view_value\<close> and so on), 1 standing for 'none'.
\<close>

record granted_row =
  pg_group :: id
  pg_item :: id
  pg_source_group :: id
  pg_origin :: origin
  pg_can_view :: nat
  pg_can_grant_view :: nat
  pg_can_watch :: nat
  pg_can_edit :: nat
  pg_can_make_session_official :: bool
  pg_is_owner :: bool
  pg_can_enter_from :: time
  pg_can_enter_until :: time
  pg_can_request_help_to :: "id option"
  pg_latest_update_at :: time

definition pg_key :: "granted_row \<Rightarrow> id \<times> id \<times> id \<times> origin" where
  "pg_key r = (pg_group r, pg_item r, pg_source_group r, pg_origin r)"

record generated_row =
  pgen_group :: id
  pgen_item :: id
  pgen_can_view :: nat
  pgen_can_grant_view :: nat
  pgen_can_watch :: nat
  pgen_can_edit :: nat
  pgen_is_owner :: bool

definition pgen_key :: "generated_row \<Rightarrow> id \<times> id" where
  "pgen_key r = (pgen_group r, pgen_item r)"

datatype propagate_to = Self | Children

datatype content_view_propagation = ViewNone | AsInfo | AsContent

datatype upper_view_levels_propagation =
  UseContentViewPropagation | AsContentWithDescendants | AsIs

datatype item_category = Undefined | Discovery | Application | Validation | Challenge

record items_items_row =
  ii_parent :: id
  ii_child :: id
  ii_child_order :: int
  ii_category :: item_category
  ii_content_view_propagation :: content_view_propagation
  ii_upper_view_levels_propagation :: upper_view_levels_propagation
  ii_grant_view_propagation :: bool
  ii_watch_propagation :: bool
  ii_edit_propagation :: bool
  ii_request_help_propagation :: bool
  ii_score_weight :: nat

definition ii_key :: "items_items_row \<Rightarrow> id \<times> id" where
  "ii_key r = (ii_parent r, ii_child r)"

record db =
  db_now :: time
  db_groups :: "group_row list"
  db_groups_groups :: "gg_row list"
  db_groups_ancestors :: "ancestor_row list"
  db_groups_propagate :: "(id, computation_state) gomap"
  db_pending :: "pending_row list"
  db_changes :: "change_row list"
  db_managers :: "manager_row list"
  db_permissions_granted :: "granted_row list"
  db_permissions_generated :: "generated_row list"
  db_permissions_propagate :: "(id \<times> id, propagate_to) gomap"
  db_items_items :: "items_items_row list"
  db_items_ancestors :: "(id \<times> id) list"
  db_items_propagate :: "(id, computation_state) gomap"
  db_permissions_scheduled :: bool
  db_results_scheduled :: bool

section \<open>Views and lookups\<close>

definition groups_groups_active :: "db \<Rightarrow> gg_row list" where
  "groups_groups_active d = filter (\<lambda>r. db_now d < gg_expires_at r) (db_groups_groups d)"

definition groups_ancestors_active :: "db \<Rightarrow> ancestor_row list" where
  "groups_ancestors_active d = filter (\<lambda>r. db_now d < ga_expires_at r) (db_groups_ancestors d)"

definition group_by_id :: "db \<Rightarrow> id \<Rightarrow> group_row option" where
  "group_by_id d i = tbl_find g_id i (db_groups d)"

definition group_exists :: "db \<Rightarrow> id \<Rightarrow> bool" where
  "group_exists d i = tbl_has g_id i (db_groups d)"

definition schedule_permissions_propagation :: "db \<Rightarrow> db" where
  "schedule_permissions_propagation d = d\<lparr>db_permissions_scheduled := True\<rparr>"

definition schedule_results_propagation :: "db \<Rightarrow> db" where
  "schedule_results_propagation d = d\<lparr>db_results_scheduled := True\<rparr>"

section \<open>Triggers of the tables\<close>

text \<open>
  \<open>before_insert_groups_groups\<close>, \<open>before_delete_groups_groups\<close> and \<open>after_update_groups_groups\<close> mark the child for the
  recomputation of its ancestors unless the row is a team membership;
  \<open>after_delete_permissions_granted\<close> and the like mark the pair for the recomputation of its permissions.
  The marking of results by the triggers is not modelled.
\<close>

definition mark_group_todo :: "id \<Rightarrow> db \<Rightarrow> db" where
  "mark_group_todo i d = d\<lparr>db_groups_propagate := AList.update i Todo (db_groups_propagate d)\<rparr>"

definition mark_permission_self :: "id \<Rightarrow> id \<Rightarrow> db \<Rightarrow> db" where
  "mark_permission_self g i d =
     d\<lparr>db_permissions_propagate := AList.update (g, i) Self (db_permissions_propagate d)\<rparr>"

text \<open>Deletion from \<open>groups_groups\<close>, with its trigger, and from \<open>permissions_granted\<close>, with its trigger.
  Both return the number of deleted rows.\<close>

definition delete_groups_groups :: "(gg_row \<Rightarrow> bool) \<Rightarrow> db \<Rightarrow> db \<times> nat" where
  "delete_groups_groups P d =
     (let gone = filter P (db_groups_groups d);
          d1 = fold (\<lambda>r. if gg_is_team_membership r then id else mark_group_todo (gg_child r)) gone d
      in (d1\<lparr>db_groups_groups := tbl_delete P (db_groups_groups d)\<rparr>, length gone))"

definition delete_permissions_granted :: "(granted_row \<Rightarrow> bool) \<Rightarrow> db \<Rightarrow> db \<times> nat" where
  "delete_permissions_granted P d =
     (let gone = filter P (db_permissions_granted d);
          d1 = fold (\<lambda>r. mark_permission_self (pg_group r) (pg_item r)) gone d
      in (d1\<lparr>db_permissions_granted := tbl_delete P (db_permissions_granted d)\<rparr>, length gone))"

definition set_gg_expires :: "time \<Rightarrow> gg_row \<Rightarrow> gg_row" where
  "set_gg_expires t r = r\<lparr>gg_expires_at := t\<rparr>"

text \<open>
  One row of an INSERT INTO \<open>groups_groups\<close> with ON DUPLICATE KEY UPDATE \<open>expires_at\<close>, with the triggers and the foreign
  key of the child; the trigger computes \<open>is_team_membership\<close> from the type of the parent.  The transitions set no end.
\<close>

definition upsert_groups_groups_until :: "time \<Rightarrow> gg_row \<Rightarrow> db \<Rightarrow> db_error + db" where
  "upsert_groups_groups_until t r d =
     (case group_by_id d (gg_parent r) of
        None \<Rightarrow> Inl ForeignKeyConstraint
      | Some p \<Rightarrow>
          if \<not> group_exists d (gg_child r) then Inl ForeignKeyConstraint
          else
            let team = (g_type p = Team);
                d1 = (if team then d else mark_group_todo (gg_child r) d)
            in Inr (d1\<lparr>db_groups_groups :=
                 tbl_upsert gg_key (set_gg_expires t) (r\<lparr>gg_is_team_membership := team\<rparr>) (db_groups_groups d)\<rparr>))"

definition upsert_groups_groups :: "gg_row \<Rightarrow> db \<Rightarrow> db_error + db" where
  "upsert_groups_groups = upsert_groups_groups_until max_time"

text \<open>One row of a plain INSERT INTO \<open>groups_groups\<close>.\<close>

definition insert_groups_groups :: "gg_row \<Rightarrow> db \<Rightarrow> db_error + db" where
  "insert_groups_groups r d =
     (case group_by_id d (gg_parent r) of
        None \<Rightarrow> Inl ForeignKeyConstraint
      | Some p \<Rightarrow>
          if \<not> group_exists d (gg_child r) then Inl ForeignKeyConstraint
          else if tbl_has gg_key (gg_key r) (db_groups_groups d) then Inl DuplicateEntry
          else
            let team = (g_type p = Team);
                d1 = (if team then d else mark_group_todo (gg_child r) d)
            in Inr (d1\<lparr>db_groups_groups := db_groups_groups d @ [r\<lparr>gg_is_team_membership := team\<rparr>]\<rparr>))"

text \<open>One row of a plain INSERT INTO \<open>group_pending_requests\<close>, with its key and foreign keys.\<close>

definition insert_pending :: "pending_row \<Rightarrow> db \<Rightarrow> db_error + db" where
  "insert_pending r d =
     (if tbl_has pr_key (pr_key r) (db_pending d) then Inl DuplicateEntry
      else if \<not> group_exists d (pr_group r) \<or> \<not> group_exists d (pr_member r) then Inl ForeignKeyConstraint
      else Inr (d\<lparr>db_pending := db_pending d @ [r]\<rparr>))"

definition delete_pending_rows :: "(pending_row \<Rightarrow> bool) \<Rightarrow> db \<Rightarrow> db" where
  "delete_pending_rows P d = d\<lparr>db_pending := tbl_delete P (db_pending d)\<rparr>"

interpretation gg: keyed_update gg_key "set_gg_expires t"
  by unfold_locales (simp add: gg_key_def set_gg_expires_def)

section \<open>Effects of the deletions\<close>

lemma fold_mark_group_todo [db_simps]:
  "db_groups_groups (fold (\<lambda>r. if gg_is_team_membership r then id else mark_group_todo (gg_child r)) rs d) = db_groups_groups d"
  "db_now (fold (\<lambda>r. if gg_is_team_membership r then id else mark_group_todo (gg_child r)) rs d) = db_now d"
  "db_groups (fold (\<lambda>r. if gg_is_team_membership r then id else mark_group_todo (gg_child r)) rs d) = db_groups d"
  "db_groups_ancestors (fold (\<lambda>r. if gg_is_team_membership r then id else mark_group_todo (gg_child r)) rs d) = db_groups_ancestors d"
  "db_pending (fold (\<lambda>r. if gg_is_team_membership r then id else mark_group_todo (gg_child r)) rs d) = db_pending d"
  "db_changes (fold (\<lambda>r. if gg_is_team_membership r then id else mark_group_todo (gg_child r)) rs d) = db_changes d"
  "db_permissions_granted (fold (\<lambda>r. if gg_is_team_membership r then id else mark_group_todo (gg_child r)) rs d) = db_permissions_granted d"
  by (induction rs arbitrary: d) (simp_all add: mark_group_todo_def)

lemma fold_mark_permission_self [db_simps]:
  "db_groups_groups (fold (\<lambda>r. mark_permission_self (pg_group r) (pg_item r)) rs d) = db_groups_groups d"
  "db_now (fold (\<lambda>r. mark_permission_self (pg_group r) (pg_item r)) rs d) = db_now d"
  "db_groups (fold (\<lambda>r. mark_permission_self (pg_group r) (pg_item r)) rs d) = db_groups d"
  "db_groups_ancestors (fold (\<lambda>r. mark_permission_self (pg_group r) (pg_item r)) rs d) = db_groups_ancestors d"
  "db_groups_propagate (fold (\<lambda>r. mark_permission_self (pg_group r) (pg_item r)) rs d) = db_groups_propagate d"
  "db_pending (fold (\<lambda>r. mark_permission_self (pg_group r) (pg_item r)) rs d) = db_pending d"
  "db_changes (fold (\<lambda>r. mark_permission_self (pg_group r) (pg_item r)) rs d) = db_changes d"
  by (induction rs arbitrary: d) (simp_all add: mark_permission_self_def)

lemma delete_groups_groups_effect [db_simps]:
  "db_groups_groups (fst (delete_groups_groups P d)) = tbl_delete P (db_groups_groups d)"
  "db_now (fst (delete_groups_groups P d)) = db_now d"
  "db_groups (fst (delete_groups_groups P d)) = db_groups d"
  "db_groups_ancestors (fst (delete_groups_groups P d)) = db_groups_ancestors d"
  "db_pending (fst (delete_groups_groups P d)) = db_pending d"
  "db_changes (fst (delete_groups_groups P d)) = db_changes d"
  "db_permissions_granted (fst (delete_groups_groups P d)) = db_permissions_granted d"
  by (simp_all add: delete_groups_groups_def Let_def db_simps)

lemma delete_permissions_granted_effect [db_simps]:
  "db_permissions_granted (fst (delete_permissions_granted P d)) = tbl_delete P (db_permissions_granted d)"
  "db_groups_groups (fst (delete_permissions_granted P d)) = db_groups_groups d"
  "db_now (fst (delete_permissions_granted P d)) = db_now d"
  "db_groups (fst (delete_permissions_granted P d)) = db_groups d"
  "db_groups_ancestors (fst (delete_permissions_granted P d)) = db_groups_ancestors d"
  "db_groups_propagate (fst (delete_permissions_granted P d)) = db_groups_propagate d"
  "db_pending (fst (delete_permissions_granted P d)) = db_pending d"
  "db_changes (fst (delete_permissions_granted P d)) = db_changes d"
  by (simp_all add: delete_permissions_granted_def Let_def db_simps)

lemma schedule_effect [db_simps]:
  "db_groups_groups (schedule_permissions_propagation d) = db_groups_groups d"
  "db_groups_groups (schedule_results_propagation d) = db_groups_groups d"
  "db_pending (schedule_permissions_propagation d) = db_pending d"
  "db_pending (schedule_results_propagation d) = db_pending d"
  "db_now (schedule_permissions_propagation d) = db_now d"
  "db_now (schedule_results_propagation d) = db_now d"
  "db_groups (schedule_permissions_propagation d) = db_groups d"
  "db_groups (schedule_results_propagation d) = db_groups d"
  "db_groups_ancestors (schedule_permissions_propagation d) = db_groups_ancestors d"
  "db_groups_ancestors (schedule_results_propagation d) = db_groups_ancestors d"
  "db_changes (schedule_permissions_propagation d) = db_changes d"
  "db_changes (schedule_results_propagation d) = db_changes d"
  by (simp_all add: schedule_permissions_propagation_def schedule_results_propagation_def)

end
