(* ===== verification/Ancestors.thy ===== *)
theory Ancestors
  imports Database
begin

text \<open>
  The recomputation of \<open>groups_ancestors\<close> and \<open>items_ancestors\<close>, \<open>DataStore.createNewAncestors\<close> in
  app/database/ancestors.go.  Objects marked 'todo' and their descendants are recomputed in rounds:
  a round takes the marked objects without a marked parent, rebuilds their ancestors from the rows
  of their parents and marks them 'done'; the loop ends when a round took none.  The two object kinds
  differ in the queries of a round (\<open>recompute_items\<close>, \<open>recompute_groups\<close>), so the correctness of the
  loop is proved once in the locale \<open>ancestor_recompute\<close> against the laws of a round, which both kinds
  then discharge.
\<close>

section \<open>The queries\<close>

abbreviation todo :: "(id, computation_state) gomap \<Rightarrow> id \<Rightarrow> bool" where
  "todo marks i \<equiv> map_of marks i = Some Todo"

text \<open>INSERT INTO \<open>*_propagate\<close> of all descendants of the marked objects, with ON DUPLICATE KEY UPDATE.\<close>

definition mark_descendants :: "(id \<times> id) list \<Rightarrow> (id, computation_state) gomap \<Rightarrow> (id, computation_state) gomap" where
  "mark_descendants pairs marks =
     fold (\<lambda>c. AList.update c Todo) [c. (a, c) \<leftarrow> pairs, todo marks a] marks"

text \<open>\<open>markAsProcessingQuery\<close>: the marked objects none of whose parents is marked.\<close>

definition mark_as_processing :: "(id \<times> id) list \<Rightarrow> (id, computation_state) gomap \<Rightarrow> id list" where
  "mark_as_processing edges marks =
     [i. i \<leftarrow> map fst marks, todo marks i \<and> \<not> (\<exists>(p, c) \<in> set edges. c = i \<and> todo marks p)]"

text \<open>\<open>markAsDoneQuery\<close>; the number of affected rows is zero exactly when nothing was processed.\<close>

definition mark_done :: "id list \<Rightarrow> (id, computation_state) gomap \<Rightarrow> (id, computation_state) gomap" where
  "mark_done proc marks = fold (\<lambda>i. AList.update i Done) proc marks"

text \<open>\<open>recomputeQueries\<close> for items: delete, insert through the parents, insert the parents; INSERT IGNORE skips known pairs.\<close>

definition recompute_items :: "(id \<times> id) list \<Rightarrow> id list \<Rightarrow> (id \<times> id) list \<Rightarrow> db_error + (id \<times> id) list" where
  "recompute_items edges proc anc =
     (let a1 = filter (\<lambda>(a, c). c \<notin> set proc) anc;
          a2 = fold List.insert [(a, c). (p, c) \<leftarrow> edges, (a, q) \<leftarrow> a1, q = p \<and> c \<in> set proc] a1;
          a3 = fold List.insert [(p, c). (p, c) \<leftarrow> edges, c \<in> set proc] a2
      in Inr a3)"

text \<open>
  \<open>recomputeQueries\<close> for groups: the self rows stay; the new rows are grouped by ancestor and child with
  MAX(LEAST(...)) of the expirations, over relations and ancestors that are still active.  The INSERT is
  not an INSERT IGNORE, so an existing key is an error.
\<close>

definition groups_joined :: "time \<Rightarrow> gg_row list \<Rightarrow> id list \<Rightarrow> ancestor_row list \<Rightarrow> (id \<times> id \<times> time) list" where
  "groups_joined now gg proc a1 =
     [(ga_ancestor a, gg_child e, min (ga_expires_at a) (gg_expires_at e)).
        e \<leftarrow> gg, a \<leftarrow> a1,
        ga_child a = gg_parent e \<and> gg_child e \<in> set proc \<and> \<not> gg_is_team_membership e \<and>
        now < gg_expires_at e \<and> now < ga_expires_at a]"

definition groups_grouped :: "(id \<times> id \<times> time) list \<Rightarrow> ancestor_row list" where
  "groups_grouped joined =
     map (\<lambda>(a, c). \<lparr>ga_ancestor = a, ga_child = c,
                    ga_expires_at = Max (set [x. (a', c', x) \<leftarrow> joined, a' = a \<and> c' = c])\<rparr>)
         (remdups (map (\<lambda>(a, c, x). (a, c)) joined))"

definition recompute_groups :: "time \<Rightarrow> gg_row list \<Rightarrow> id list \<Rightarrow> ancestor_row list \<Rightarrow> db_error + ancestor_row list" where
  "recompute_groups now gg proc anc =
     (let a1 = filter (\<lambda>r. \<not> (ga_child r \<in> set proc \<and> ga_ancestor r \<noteq> ga_child r)) anc;
          new = filter (\<lambda>r. now < ga_expires_at r) (groups_grouped (groups_joined now gg proc a1))
      in if \<exists>r \<in> set new. \<exists>r' \<in> set a1. ga_ancestor r' = ga_ancestor r \<and> ga_child r' = ga_child r
         then Inl DuplicateEntry else Inr (a1 @ new))"

section \<open>The loop\<close>

lemma map_of_mark_done: "map_of (mark_done proc marks) i = (if i \<in> set proc then Some Done else map_of marks i)"
  by (induction proc arbitrary: marks) (auto simp: mark_done_def)

lemma finite_todo: "finite {i. todo marks i}"
  by (rule finite_subset [of _ "fst ` set marks"]) (auto dest: map_of_SomeD intro: rev_image_eqI)

lemma set_mark_as_processing:
  "set (mark_as_processing edges marks) = {i. todo marks i \<and> (\<forall>p. (p, i) \<in> set edges \<longrightarrow> \<not> todo marks p)}"
  by (auto simp: mark_as_processing_def dest: map_of_SomeD intro: rev_image_eqI)

lemma todo_mark_done_processing:
  "{i. todo (mark_done proc marks) i} = {i. todo marks i} - set proc"
  by (auto simp: map_of_mark_done split: if_splits)

function ancestors_loop ::
  "(id list \<Rightarrow> 'r \<Rightarrow> db_error + 'r) \<Rightarrow> (id \<times> id) list \<Rightarrow> 'r \<Rightarrow> (id, computation_state) gomap
     \<Rightarrow> db_error + ('r \<times> (id, computation_state) gomap)" where
  "ancestors_loop rec edges rows marks =
     (case rec (mark_as_processing edges marks) rows of
        Inl e \<Rightarrow> Inl e
      | Inr rows' \<Rightarrow>
          if mark_as_processing edges marks = [] then Inr (rows', mark_done (mark_as_processing edges marks) marks)
          else ancestors_loop rec edges rows' (mark_done (mark_as_processing edges marks) marks))"
  by pat_completeness auto
termination
proof (relation "measure (\<lambda>(rec, edges, rows, marks). card {i. todo marks i})", goal_cases)
  case (2 rec edges rows marks rows')
  let ?proc = "mark_as_processing edges marks"
  obtain i where i: "i \<in> set ?proc"
    using 2 by (cases ?proc) auto
  then have "i \<in> {i. todo marks i}" by (simp add: set_mark_as_processing)
  with i show ?case
    by (auto simp: todo_mark_done_processing intro!: psubset_card_mono finite_todo)
qed simp

declare ancestors_loop.simps [simp del]

text \<open>
  \<open>createNewAncestors\<close> for both kinds; for groups only relations that are not team memberships count
  (\<open>additionalRelationCondition\<close>).
\<close>

definition group_edges :: "gg_row list \<Rightarrow> (id \<times> id) list" where
  "group_edges gg = [(gg_parent e, gg_child e). e \<leftarrow> gg, \<not> gg_is_team_membership e]"

definition create_new_ancestors_items ::
  "(id \<times> id) list \<Rightarrow> (id \<times> id) list \<Rightarrow> (id, computation_state) gomap
     \<Rightarrow> db_error + ((id \<times> id) list \<times> (id, computation_state) gomap)" where
  "create_new_ancestors_items edges anc marks =
     ancestors_loop (recompute_items edges) edges anc (mark_descendants anc marks)"

definition create_new_ancestors_groups ::
  "time \<Rightarrow> gg_row list \<Rightarrow> ancestor_row list \<Rightarrow> (id, computation_state) gomap
     \<Rightarrow> db_error + (ancestor_row list \<times> (id, computation_state) gomap)" where
  "create_new_ancestors_groups now gg anc marks =
     ancestors_loop (recompute_groups now gg) (group_edges gg) anc
       (mark_descendants (map (\<lambda>r. (ga_ancestor r, ga_child r)) anc) marks)"

text \<open>The two calls on the database.\<close>

definition items_create_new_ancestors :: "db \<Rightarrow> db_error + db" where
  "items_create_new_ancestors d =
     (case create_new_ancestors_items (map (\<lambda>e. (ii_parent e, ii_child e)) (db_items_items d))
             (db_items_ancestors d) (db_items_propagate d) of
        Inl e \<Rightarrow> Inl e
      | Inr (anc, marks) \<Rightarrow> Inr (d\<lparr>db_items_ancestors := anc, db_items_propagate := marks\<rparr>))"

definition groups_create_new_ancestors :: "db \<Rightarrow> db_error + db" where
  "groups_create_new_ancestors d =
     (case create_new_ancestors_groups (db_now d) (db_groups_groups d) (db_groups_ancestors d) (db_groups_propagate d) of
        Inl e \<Rightarrow> Inl e
      | Inr (anc, marks) \<Rightarrow> Inr (d\<lparr>db_groups_ancestors := anc, db_groups_propagate := marks\<rparr>))"

lemma todo_mark_descendants:
  "todo (mark_descendants pairs marks) c \<longleftrightarrow> todo marks c \<or> (\<exists>a. (a, c) \<in> set pairs \<and> todo marks a)"
proof -
  have "todo (fold (\<lambda>c. AList.update c Todo) cs m) c \<longleftrightarrow> todo m c \<or> c \<in> set cs" for cs m
    by (induction cs arbitrary: m) auto
  then show ?thesis
    by (auto simp: mark_descendants_def)
qed

section \<open>The contract of a round and the correctness of the loop\<close>

definition parents_outside :: "(id \<times> id) list \<Rightarrow> id list \<Rightarrow> bool" where
  "parents_outside edges proc = (\<forall>c \<in> set proc. \<forall>p. (p, c) \<in> set edges \<longrightarrow> p \<notin> set proc)"

lemma processing_parents_outside: "parents_outside edges (mark_as_processing edges marks)"
  by (auto simp: parents_outside_def set_mark_as_processing)

lemma processing_nonempty:
  assumes "acyclic (set edges)" and "todo marks c"
  shows "mark_as_processing edges marks \<noteq> []"
proof -
  have "wf (set edges)"
    using assms(1) by (rule finite_acyclic_wf [OF finite_set])
  then obtain m where "todo marks m" and "\<And>p. (p, m) \<in> set edges \<Longrightarrow> \<not> todo marks p"
    using assms(2) by (auto elim: wfE_min [where Q = "{i. todo marks i}"])
  then have "m \<in> set (mark_as_processing edges marks)"
    by (simp add: set_mark_as_processing)
  then show ?thesis by auto
qed

text \<open>
  \<open>up rows c\<close> are the ancestors the table gives for \<open>c\<close>, \<open>rel\<close> the relation whose transitive closure the
  table is to hold; \<open>edges\<close> are the relations the scheduling looks at.
\<close>

locale ancestor_recompute =
  fixes recompute :: "id list \<Rightarrow> 'r \<Rightarrow> db_error + 'r"
    and up :: "'r \<Rightarrow> id \<Rightarrow> id set"
    and edges :: "(id \<times> id) list"
    and rel :: "(id \<times> id) set"
    and ok :: "'r \<Rightarrow> bool"
  assumes rel_edges: "rel \<subseteq> set edges"
    and recompute_ok: "ok rows \<Longrightarrow> recompute proc rows = Inr rows' \<Longrightarrow> ok rows'"
    and up_processed: "ok rows \<Longrightarrow> parents_outside edges proc \<Longrightarrow> recompute proc rows = Inr rows' \<Longrightarrow>
      c \<in> set proc \<Longrightarrow> up rows' c = (\<Union>p \<in> {p. (p, c) \<in> rel}. insert p (up rows p))"
    and up_frame: "ok rows \<Longrightarrow> parents_outside edges proc \<Longrightarrow> recompute proc rows = Inr rows' \<Longrightarrow>
      c \<notin> set proc \<Longrightarrow> up rows' c = up rows c"
begin

definition right_at :: "'r \<Rightarrow> id \<Rightarrow> bool" where
  "right_at rows c \<longleftrightarrow> up rows c = {a. (a, c) \<in> rel\<^sup>+}"

lemma closure_unfold: "{a. (a, c) \<in> rel\<^sup>+} = (\<Union>p \<in> {p. (p, c) \<in> rel}. insert p {a. (a, p) \<in> rel\<^sup>+})"
  by (auto elim: tranclE intro: trancl_into_trancl)

lemma round_right:
  assumes "ok rows" and "\<And>c. \<not> todo marks c \<Longrightarrow> right_at rows c"
    and "recompute (mark_as_processing edges marks) rows = Inr rows'"
    and "\<not> todo (mark_done (mark_as_processing edges marks) marks) c"
  shows "right_at rows' c"
proof (cases "c \<in> set (mark_as_processing edges marks)")
  case True
  then have "\<And>p. (p, c) \<in> rel \<Longrightarrow> right_at rows p"
    using rel_edges assms(2) by (auto simp: set_mark_as_processing)
  then have "(\<Union>p \<in> {p. (p, c) \<in> rel}. insert p (up rows p)) = {a. (a, c) \<in> rel\<^sup>+}"
    unfolding closure_unfold [of c] by (auto simp: right_at_def)
  with up_processed [OF assms(1) processing_parents_outside assms(3) True] show ?thesis
    by (simp add: right_at_def)
next
  case False
  with assms(4) have "\<not> todo marks c"
    by (simp add: map_of_mark_done)
  with False up_frame [OF assms(1) processing_parents_outside assms(3) False] assms(2) show ?thesis
    by (simp add: right_at_def)
qed

lemma todo_decreases:
  assumes "mark_as_processing edges marks \<noteq> []"
  shows "card {i. todo (mark_done (mark_as_processing edges marks) marks) i} < card {i. todo marks i}"
proof -
  obtain i where "i \<in> set (mark_as_processing edges marks)"
    using assms by (cases "mark_as_processing edges marks") auto
  then show ?thesis
    by (auto simp: todo_mark_done_processing set_mark_as_processing intro!: psubset_card_mono finite_todo)
qed

lemma loop_right:
  assumes "ancestors_loop recompute edges rows marks = Inr (rows', marks')"
    and "acyclic (set edges)" and "ok rows" and "\<And>c. \<not> todo marks c \<Longrightarrow> right_at rows c"
  shows "ok rows' \<and> (\<forall>c. right_at rows' c) \<and> (\<forall>c. \<not> todo marks' c)"
  using assms(1,3,4)
proof (induction "card {i. todo marks i}" arbitrary: rows marks rule: less_induct)
  case less
  let ?proc = "mark_as_processing edges marks"
  from less.prems(1) obtain rows1 where r1: "recompute ?proc rows = Inr rows1"
    by (auto simp: ancestors_loop.simps [of recompute] split: sum.splits)
  note ok1 = recompute_ok [OF less.prems(2) r1]
  note right1 = round_right [OF less.prems(2) less.prems(3) r1]
  show ?case
  proof (cases "?proc = []")
    case True
    then have none: "\<not> todo marks c" for c
      using processing_nonempty [OF assms(2)] by blast
    from less.prems(1) r1 True have "rows' = rows1" and "marks' = mark_done ?proc marks"
      by (auto simp: ancestors_loop.simps [of recompute])
    with True none ok1 right1 show ?thesis
      by (auto simp: map_of_mark_done)
  next
    case False
    from less.prems(1) r1 False have "ancestors_loop recompute edges rows1 (mark_done ?proc marks) = Inr (rows', marks')"
      by (simp add: ancestors_loop.simps [of recompute edges rows])
    then show ?thesis
      using less.hyps [OF todo_decreases [OF False] _ ok1] right1 by blast
  qed
qed

text \<open>
  Before a change of the relation the table holds the closure of \<open>old\<close>, and the triggers have marked every
  object whose parents changed.  After the marking of the descendants the unmarked objects are right.
\<close>

lemma unmarked_right:
  assumes old: "\<And>c. up rows c = {a. (a, c) \<in> old\<^sup>+}"
    and changed: "\<And>p c. \<not> todo marks c \<Longrightarrow> (p, c) \<in> rel \<longleftrightarrow> (p, c) \<in> old"
    and pairs: "\<And>a c. a \<in> up rows c \<Longrightarrow> (a, c) \<in> set pairs"
    and c: "\<not> todo (mark_descendants pairs marks) c"
  shows "right_at rows c"
proof -
  define dirty where "dirty = {c. \<exists>a. todo marks a \<and> (a, c) \<in> old\<^sup>*}"
  have clean_todo: "\<not> todo marks z" if "z \<notin> dirty" for z
    using that by (auto simp: dirty_def)
  have parent: "y \<notin> dirty" if "(y, z) \<in> old" "z \<notin> dirty" for y z
    using that by (auto simp: dirty_def intro: rtrancl_into_rtrancl)
  have forth: "(a, z) \<in> old\<^sup>* \<Longrightarrow> z \<notin> dirty \<Longrightarrow> (a, z) \<in> rel\<^sup>*" for a z
  proof (induction rule: rtrancl_induct)
    case (step y z)
    then have "(y, z) \<in> rel" using clean_todo changed by blast
    with step parent show ?case by (blast intro: rtrancl_into_rtrancl)
  qed simp
  have parent': "y \<notin> dirty" if "(y, z) \<in> rel" "z \<notin> dirty" for y z
    using that parent clean_todo changed by blast
  have backward: "(a, z) \<in> rel\<^sup>* \<Longrightarrow> z \<notin> dirty \<Longrightarrow> (a, z) \<in> old\<^sup>*" for a z
  proof (induction rule: rtrancl_induct)
    case (step y z)
    then have "(y, z) \<in> old" using clean_todo changed by blast
    with step parent' show ?case by (blast intro: rtrancl_into_rtrancl)
  qed simp
  have "c \<notin> dirty"
    using c old pairs by (fastforce simp: dirty_def todo_mark_descendants rtrancl_eq_or_trancl)
  then have "(a, c) \<in> rel\<^sup>+ \<longleftrightarrow> (a, c) \<in> old\<^sup>+" for a
    using parent parent' clean_todo changed forth backward
    by (metis (no_types, lifting) rtrancl_into_trancl1 tranclD2)
  then show ?thesis
    by (simp add: right_at_def old)
qed

end

text \<open>The rounds of a kind that also never fail where the table is right.\<close>

locale ancestor_recompute_total = ancestor_recompute +
  assumes recompute_succeeds: "ok rows \<Longrightarrow> parents_outside edges proc \<Longrightarrow>
      (\<And>c p. c \<in> set proc \<Longrightarrow> (p, c) \<in> rel \<Longrightarrow> c \<noteq> p \<and> c \<notin> up rows p) \<Longrightarrow> \<exists>rows'. recompute proc rows = Inr rows'"
begin

lemma loop_succeeds:
  assumes "acyclic (set edges)" and "ok rows" and "\<And>c. \<not> todo marks c \<Longrightarrow> right_at rows c"
  shows "\<exists>rows' marks'. ancestors_loop recompute edges rows marks = Inr (rows', marks')"
  using assms(2,3)
proof (induction "card {i. todo marks i}" arbitrary: rows marks rule: less_induct)
  case less
  let ?proc = "mark_as_processing edges marks"
  have acyc: "acyclic rel"
    using assms(1) rel_edges by (rule acyclic_subset)
  have "c \<noteq> p \<and> c \<notin> up rows p" if "c \<in> set ?proc" "(p, c) \<in> rel" for c p
  proof -
    have "\<not> todo marks p"
      using that rel_edges by (auto simp: set_mark_as_processing)
    then have "up rows p = {a. (a, p) \<in> rel\<^sup>+}"
      using less.prems(2) by (simp add: right_at_def)
    then show ?thesis
      using acyc that(2) by (auto simp: acyclic_def dest: trancl_into_trancl)
  qed
  then obtain rows1 where r1: "recompute ?proc rows = Inr rows1"
    using recompute_succeeds [OF less.prems(1) processing_parents_outside] by blast
  note ok1 = recompute_ok [OF less.prems(1) r1]
  note right1 = round_right [OF less.prems r1]
  show ?case
  proof (cases "?proc = []")
    case True
    with r1 show ?thesis by (simp add: ancestors_loop.simps [of recompute])
  next
    case False
    have "\<exists>rows' marks'. ancestors_loop recompute edges rows1 (mark_done ?proc marks) = Inr (rows', marks')"
      using less.hyps [OF todo_decreases [OF False] ok1] right1 by blast
    with r1 False show ?thesis
      by (simp add: ancestors_loop.simps [of recompute edges rows])
  qed
qed

end

section \<open>Items\<close>

lemma set_fold_insert: "set (fold List.insert xs ys) = set xs \<union> set ys"
  by (induction xs arbitrary: ys) auto

definition items_up :: "(id \<times> id) list \<Rightarrow> id \<Rightarrow> id set" where
  "items_up anc c = {a. (a, c) \<in> set anc}"

lemma set_items_joined:
  "set [(a, c). (p, c) \<leftarrow> edges, (a, q) \<leftarrow> a1, q = p \<and> c \<in> set proc] =
     {(a, c). c \<in> set proc \<and> (\<exists>p. (p, c) \<in> set edges \<and> (a, p) \<in> set a1)}"
  "set [(p, c). (p, c) \<leftarrow> edges, c \<in> set proc] = {(p, c). (p, c) \<in> set edges \<and> c \<in> set proc}"
  by fastforce+

lemma recompute_items_set:
  assumes "recompute_items edges proc anc = Inr anc'" and "parents_outside edges proc"
  shows "(a, c) \<in> set anc' \<longleftrightarrow>
     (if c \<in> set proc then \<exists>p. (p, c) \<in> set edges \<and> (a = p \<or> (a, p) \<in> set anc) else (a, c) \<in> set anc)"
proof -
  have "set anc' = {(a, c). c \<notin> set proc \<and> (a, c) \<in> set anc} \<union>
      {(a, c). c \<in> set proc \<and> (\<exists>p. (p, c) \<in> set edges \<and> p \<notin> set proc \<and> (a, p) \<in> set anc)} \<union>
      {(p, c). (p, c) \<in> set edges \<and> c \<in> set proc}"
    using assms(1) unfolding recompute_items_def Let_def sum.inject set_fold_insert set_items_joined
    by (auto simp: set_fold_insert set_items_joined)
  with assms(2) show ?thesis
    by (auto simp: parents_outside_def)
qed

interpretation items: ancestor_recompute_total "recompute_items edges" items_up edges "set edges" "\<lambda>_. True"
proof unfold_locales
  fix proc rows rows' c
  assume r: "recompute_items edges proc rows = Inr rows'" and out: "parents_outside edges proc"
  show "c \<in> set proc \<Longrightarrow> items_up rows' c = (\<Union>p \<in> {p. (p, c) \<in> set edges}. insert p (items_up rows p))"
    by (auto simp: items_up_def recompute_items_set [OF r out])
  show "c \<notin> set proc \<Longrightarrow> items_up rows' c = items_up rows c"
    by (auto simp: items_up_def recompute_items_set [OF r out])
qed (auto simp: recompute_items_def Let_def)

section \<open>Groups\<close>

text \<open>
  At an instant \<open>u\<close> the view \<open>groups_ancestors_active\<close> gives the rows with \<open>u < expires_at\<close>; the contract is
  discharged for every instant from now on, so the table stays right when relations expire.
\<close>

definition groups_up :: "time \<Rightarrow> ancestor_row list \<Rightarrow> id \<Rightarrow> id set" where
  "groups_up u anc c = {a. a \<noteq> c \<and> (\<exists>r \<in> set anc. ga_ancestor r = a \<and> ga_child r = c \<and> u < ga_expires_at r)}"

definition groups_rel :: "time \<Rightarrow> gg_row list \<Rightarrow> (id \<times> id) set" where
  "groups_rel u gg = {(gg_parent e, gg_child e) |e. e \<in> set gg \<and> \<not> gg_is_team_membership e \<and> u < gg_expires_at e}"

definition has_self_row :: "time \<Rightarrow> ancestor_row list \<Rightarrow> id \<Rightarrow> bool" where
  "has_self_row u anc c = (\<exists>r \<in> set anc. ga_ancestor r = c \<and> ga_child r = c \<and> u < ga_expires_at r)"

definition self_rows_ok :: "time \<Rightarrow> gg_row list \<Rightarrow> ancestor_row list \<Rightarrow> bool" where
  "self_rows_ok u gg anc = (\<forall>(p, c) \<in> set (group_edges gg). has_self_row u anc p \<and> has_self_row u anc c)"

lemma set_groups_joined:
  "(a, c, x) \<in> set (groups_joined now gg proc a1) \<longleftrightarrow>
     (\<exists>e \<in> set gg. \<exists>r \<in> set a1. a = ga_ancestor r \<and> c = gg_child e \<and> x = min (ga_expires_at r) (gg_expires_at e) \<and>
        ga_child r = gg_parent e \<and> c \<in> set proc \<and> \<not> gg_is_team_membership e \<and>
        now < gg_expires_at e \<and> now < ga_expires_at r)"
  by (auto simp: groups_joined_def)

lemma groups_grouped_above:
  "(\<exists>r \<in> set (groups_grouped joined). ga_ancestor r = a \<and> ga_child r = c \<and> u < ga_expires_at r) \<longleftrightarrow>
     (\<exists>x. (a, c, x) \<in> set joined \<and> u < x)"
proof -
  let ?xs = "{x. (a, c, x) \<in> set joined}"
  have members: "set [x. (a', c', x) \<leftarrow> joined, a' = a \<and> c' = c] = ?xs"
    by force
  then have fin: "finite ?xs"
    by (metis finite_set)
  have "(\<exists>r \<in> set (groups_grouped joined). ga_ancestor r = a \<and> ga_child r = c \<and> u < ga_expires_at r) \<longleftrightarrow>
      ?xs \<noteq> {} \<and> u < Max ?xs"
    by (force simp: groups_grouped_def members [simplified])
  also have "\<dots> \<longleftrightarrow> (\<exists>x. (a, c, x) \<in> set joined \<and> u < x)"
    using Max_gr_iff [OF fin, of u] by (cases "?xs = {}") auto
  finally show ?thesis .
qed

lemma groups_grouped_key:
  "r \<in> set (groups_grouped joined) \<Longrightarrow> \<exists>x. (ga_ancestor r, ga_child r, x) \<in> set joined"
  by (auto simp: groups_grouped_def)

lemma recompute_groups_rows:
  assumes "recompute_groups now gg proc anc = Inr anc'" and "now \<le> u"
  shows "(\<exists>r \<in> set anc'. ga_ancestor r = a \<and> ga_child r = c \<and> u < ga_expires_at r) \<longleftrightarrow>
     (\<exists>r \<in> set anc. ga_ancestor r = a \<and> ga_child r = c \<and> u < ga_expires_at r \<and> (c \<in> set proc \<longrightarrow> a = c)) \<or>
     (\<exists>x. (a, c, x) \<in> set (groups_joined now gg proc
          (filter (\<lambda>r. \<not> (ga_child r \<in> set proc \<and> ga_ancestor r \<noteq> ga_child r)) anc)) \<and> u < x)"
  (is "?L \<longleftrightarrow> ?old \<or> ?new")
proof -
  let ?a1 = "filter (\<lambda>r. \<not> (ga_child r \<in> set proc \<and> ga_ancestor r \<noteq> ga_child r)) anc"
  let ?grouped = "groups_grouped (groups_joined now gg proc ?a1)"
  have "anc' = ?a1 @ filter (\<lambda>r. now < ga_expires_at r) ?grouped"
    using assms(1) by (auto simp: recompute_groups_def Let_def split: if_splits)
  then have "?L \<longleftrightarrow> ?old \<or> (\<exists>r \<in> set ?grouped. ga_ancestor r = a \<and> ga_child r = c \<and> u < ga_expires_at r)"
    using assms(2) by auto
  then show ?thesis
    by (simp only: groups_grouped_above)
qed

lemma recompute_groups_no_loop:
  assumes "recompute_groups now gg proc anc = Inr anc'" and "has_self_row u anc c"
    and "c \<in> set proc" and "now \<le> u"
  shows "(c, c, x) \<notin> set (groups_joined now gg proc
          (filter (\<lambda>r. \<not> (ga_child r \<in> set proc \<and> ga_ancestor r \<noteq> ga_child r)) anc))"
proof
  let ?a1 = "filter (\<lambda>r. \<not> (ga_child r \<in> set proc \<and> ga_ancestor r \<noteq> ga_child r)) anc"
  let ?joined = "groups_joined now gg proc ?a1"
  assume j: "(c, c, x) \<in> set ?joined"
  then have "now < x"
    by (auto simp: set_groups_joined)
  then obtain r where "r \<in> set (groups_grouped ?joined)" "ga_ancestor r = c" "ga_child r = c" "now < ga_expires_at r"
    using groups_grouped_above [of ?joined c c now] j by blast
  moreover obtain s where "s \<in> set ?a1" "ga_ancestor s = c" "ga_child s = c"
    using assms(2) by (auto simp: has_self_row_def)
  ultimately have "recompute_groups now gg proc anc = Inl DuplicateEntry"
    by (force simp: recompute_groups_def Let_def)
  with assms(1) show False by simp
qed

lemma recompute_groups_self:
  assumes "recompute_groups now gg proc anc = Inr anc'" and "has_self_row u anc c"
  shows "has_self_row u anc' c"
  using assms by (auto simp: recompute_groups_def Let_def has_self_row_def split: if_splits)

lemma group_edges_set:
  "(p, c) \<in> set (group_edges gg) \<longleftrightarrow> (\<exists>e \<in> set gg. gg_parent e = p \<and> gg_child e = c \<and> \<not> gg_is_team_membership e)"
  by (auto simp: group_edges_def)

lemma groups_up_processed:
  assumes ok: "self_rows_ok u gg anc" and out: "parents_outside (group_edges gg) proc"
    and r: "recompute_groups now gg proc anc = Inr anc'" and c: "c \<in> set proc" and u: "now \<le> u"
  shows "groups_up u anc' c = (\<Union>p \<in> {p. (p, c) \<in> groups_rel u gg}. insert p (groups_up u anc p))"
    (is "_ = ?R")
proof -
  let ?a1 = "filter (\<lambda>r. \<not> (ga_child r \<in> set proc \<and> ga_ancestor r \<noteq> ga_child r)) anc"
  let ?joined = "groups_joined now gg proc ?a1"
  have joined: "(\<exists>x. (a, c, x) \<in> set ?joined \<and> u < x) \<longleftrightarrow> a \<in> ?R" for a
  proof
    assume "\<exists>x. (a, c, x) \<in> set ?joined \<and> u < x"
    then obtain e r where "e \<in> set gg" "r \<in> set anc" "a = ga_ancestor r" "c = gg_child e" "ga_child r = gg_parent e"
      "\<not> gg_is_team_membership e" "u < gg_expires_at e" "u < ga_expires_at r"
      by (auto simp: set_groups_joined)
    then show "a \<in> ?R"
      by (auto simp: groups_rel_def groups_up_def)
  next
    assume "a \<in> ?R"
    then obtain e where e: "e \<in> set gg" "gg_child e = c" "\<not> gg_is_team_membership e" "u < gg_expires_at e"
        and a: "a = gg_parent e \<or> a \<in> groups_up u anc (gg_parent e)"
      by (auto simp: groups_rel_def)
    have edge: "(gg_parent e, c) \<in> set (group_edges gg)"
      using e by (auto simp: group_edges_set)
    then have "has_self_row u anc (gg_parent e)" and outp: "gg_parent e \<notin> set proc"
      using ok out c by (auto simp: self_rows_ok_def parents_outside_def)
    with a obtain r where "r \<in> set anc" "ga_ancestor r = a" "ga_child r = gg_parent e" "u < ga_expires_at r"
      by (auto simp: groups_up_def has_self_row_def)
    with e outp c u show "\<exists>x. (a, c, x) \<in> set ?joined \<and> u < x"
      by (intro exI [of _ "min (ga_expires_at r) (gg_expires_at e)"]) (force simp: set_groups_joined)
  qed
  have "c \<notin> ?R"
  proof
    assume "c \<in> ?R"
    moreover from this obtain p where "(p, c) \<in> set (group_edges gg)"
      by (auto simp: groups_rel_def group_edges_set)
    then have "has_self_row u anc c" using ok by (auto simp: self_rows_ok_def)
    ultimately show False
      using joined [of c] recompute_groups_no_loop [OF r _ c u] by blast
  qed
  then have "a \<in> groups_up u anc' c \<longleftrightarrow> a \<in> ?R" for a
    using recompute_groups_rows [OF r u, of a c] joined [of a] c unfolding groups_up_def by auto
  then show ?thesis by blast
qed

lemma groups_up_frame:
  assumes "recompute_groups now gg proc anc = Inr anc'" and "c \<notin> set proc" and "now \<le> u"
  shows "groups_up u anc' c = groups_up u anc c"
  using recompute_groups_rows [OF assms(1,3), of _ c] assms(2)
  by (auto simp: groups_up_def set_groups_joined)

interpretation groups: ancestor_recompute "recompute_groups now gg" "groups_up (now + int k)" "group_edges gg"
  "groups_rel (now + int k) gg" "self_rows_ok (now + int k) gg"
proof unfold_locales
  show "groups_rel (now + int k) gg \<subseteq> set (group_edges gg)"
    by (auto simp: groups_rel_def group_edges_set)
qed (auto simp: self_rows_ok_def groups_up_processed groups_up_frame intro: recompute_groups_self)

interpretation groups_now: ancestor_recompute_total "recompute_groups now gg" "groups_up now" "group_edges gg"
  "groups_rel now gg" "self_rows_ok now gg"
proof unfold_locales
  show "groups_rel now gg \<subseteq> set (group_edges gg)"
    by (auto simp: groups_rel_def group_edges_set)
  fix proc rows
  assume "\<And>c p. c \<in> set proc \<Longrightarrow> (p, c) \<in> groups_rel now gg \<Longrightarrow> c \<noteq> p \<and> c \<notin> groups_up now rows p"
  then have none: "(c, c, x) \<notin> set (groups_joined now gg proc a1)" if "set a1 \<subseteq> set rows" for c x a1
    using that by (auto simp: set_groups_joined groups_rel_def groups_up_def) (metis subsetD)
  let ?a1 = "filter (\<lambda>r. \<not> (ga_child r \<in> set proc \<and> ga_ancestor r \<noteq> ga_child r)) rows"
  have sep: "ga_ancestor r' \<noteq> ga_ancestor r \<or> ga_child r' \<noteq> ga_child r"
    if "r \<in> set (groups_grouped (groups_joined now gg proc ?a1))" "r' \<in> set ?a1" for r r'
  proof -
    note rows = that
    obtain x where x: "(ga_ancestor r, ga_child r, x) \<in> set (groups_joined now gg proc ?a1)"
      using groups_grouped_key [OF rows(1)] by blast
    then have "ga_child r \<in> set proc" by (auto simp: set_groups_joined)
    moreover have "ga_ancestor r \<noteq> ga_child r" using x none [of ?a1 "ga_child r" x] by auto
    ultimately show ?thesis using rows(2) by auto
  qed
  let ?new = "filter (\<lambda>r. now < ga_expires_at r) (groups_grouped (groups_joined now gg proc ?a1))"
  have "\<not> (\<exists>r \<in> set ?new. \<exists>r' \<in> set ?a1. ga_ancestor r' = ga_ancestor r \<and> ga_child r' = ga_child r)"
  proof (intro notI, elim bexE conjE)
    fix r r' assume "r \<in> set ?new" "r' \<in> set ?a1" "ga_ancestor r' = ga_ancestor r" "ga_child r' = ga_child r"
    then show False using sep [of r r'] by simp
  qed
  then show "\<exists>rows'. recompute_groups now gg proc rows = Inr rows'"
    unfolding recompute_groups_def Let_def if_not_P by simp
qed (auto simp: self_rows_ok_def groups_up_processed groups_up_frame intro: recompute_groups_self)

section \<open>What the two calls achieve\<close>

text \<open>
  If \<open>items_ancestors\<close> held the closure of the old relation and every item whose parents changed is marked,
  then for an acyclic new relation \<open>createNewAncestors\<close> ends without an error, no item is left marked, and
  the table holds exactly the transitive closure of the new relation.
\<close>

lemma items_ancestors_correct:
  assumes acyclic: "acyclic (set edges)"
    and old: "\<And>a c. (a, c) \<in> set anc \<longleftrightarrow> (a, c) \<in> (set old)\<^sup>+"
    and marked: "\<And>p c. \<not> todo marks c \<Longrightarrow> (p, c) \<in> set edges \<longleftrightarrow> (p, c) \<in> set old"
  shows "\<exists>anc' marks'. create_new_ancestors_items edges anc marks = Inr (anc', marks') \<and>
           set anc' = (set edges)\<^sup>+ \<and> (\<forall>c. \<not> todo marks' c)"
proof -
  have start: "items.right_at edges anc c" if "\<not> todo (mark_descendants anc marks) c" for c
    by (rule items.unmarked_right [OF _ marked _ that]) (auto simp: items_up_def old)
  have "\<exists>anc' marks'. create_new_ancestors_items edges anc marks = Inr (anc', marks')"
    unfolding create_new_ancestors_items_def
    by (rule items.loop_succeeds [OF acyclic TrueI]) (rule start)
  then obtain anc' marks' where run: "create_new_ancestors_items edges anc marks = Inr (anc', marks')"
    by blast
  have "items.right_at edges anc' c" and "\<not> todo marks' c" for c
    using items.loop_right [OF run [unfolded create_new_ancestors_items_def] acyclic TrueI] start by blast+
  with run show ?thesis
    by (fastforce simp: items.right_at_def items_up_def)
qed

lemma groups_ancestors_recomputed:
  assumes acyclic: "acyclic (set (group_edges gg))"
    and self: "\<And>u. now \<le> u \<Longrightarrow> u < max_time \<Longrightarrow> self_rows_ok u gg anc"
    and old: "\<And>u c. now \<le> u \<Longrightarrow> u < max_time \<Longrightarrow> groups_up u anc c = {a. (a, c) \<in> (groups_rel u old)\<^sup>+}"
    and marked: "\<And>u p c. now \<le> u \<Longrightarrow> \<not> todo marks c \<Longrightarrow> (p, c) \<in> groups_rel u gg \<longleftrightarrow> (p, c) \<in> groups_rel u old"
    and now: "now < max_time"
  shows "\<exists>anc' marks'. create_new_ancestors_groups now gg anc marks = Inr (anc', marks') \<and>
           (\<forall>u c. now \<le> u \<longrightarrow> u < max_time \<longrightarrow> groups_up u anc' c = {a. (a, c) \<in> (groups_rel u gg)\<^sup>+}) \<and>
           (\<forall>c. \<not> todo marks' c)"
proof -
  let ?pairs = "map (\<lambda>r. (ga_ancestor r, ga_child r)) anc"
  have pairs: "a \<in> groups_up u anc c \<Longrightarrow> (a, c) \<in> set ?pairs" for a u c
    by (auto simp: groups_up_def)
  have start: "groups_up u anc c = {a. (a, c) \<in> (groups_rel u gg)\<^sup>+}"
    if "\<not> todo (mark_descendants ?pairs marks) c" "now \<le> u" "u < max_time" for c u
  proof -
    have "groups.right_at now (nat (u - now)) gg anc c"
      by (rule groups.unmarked_right [OF _ _ pairs that(1), where old = "groups_rel u old"])
         (use that old marked in auto)
    then show ?thesis
      using that(2) by (simp add: groups_now.right_at_def)
  qed
  have "\<exists>anc' marks'. create_new_ancestors_groups now gg anc marks = Inr (anc', marks')"
    unfolding create_new_ancestors_groups_def
    by (rule groups_now.loop_succeeds [OF acyclic self]) (use now start in \<open>auto simp: groups_now.right_at_def\<close>)
  then obtain anc' marks' where run: "create_new_ancestors_groups now gg anc marks = Inr (anc', marks')"
    by blast
  have "groups_up u anc' c = {a. (a, c) \<in> (groups_rel u gg)\<^sup>+} \<and> \<not> todo marks' c"
    if u: "now \<le> u" "u < max_time" for u c
  proof -
    have "self_rows_ok (now + int (nat (u - now))) gg anc" using self u by simp
    moreover have "groups.right_at now (nat (u - now)) gg anc c" if "\<not> todo (mark_descendants ?pairs marks) c" for c
      using start [OF that u] u by (simp add: groups_now.right_at_def)
    ultimately have "groups.right_at now (nat (u - now)) gg anc' c" and "\<not> todo marks' c"
      using groups.loop_right [OF run [unfolded create_new_ancestors_groups_def] acyclic] by blast+
    then show ?thesis using u by (simp add: groups_now.right_at_def)
  qed
  with run now show ?thesis by blast
qed

text \<open>
  C20: the same for groups, for every instant \<open>u\<close> from now on: the view \<open>groups_ancestors_active\<close> read at \<open>u\<close> gives
  exactly the groups reachable through relations that are still active at \<open>u\<close>, so an expiring relation needs
  no recomputation.  Team memberships count for nothing, and no duplicate key stops the run.
\<close>

theorem groups_ancestors_correct:
  assumes acyclic: "acyclic (set (group_edges gg))"
    and self: "\<And>u. now \<le> u \<Longrightarrow> u < max_time \<Longrightarrow> self_rows_ok u gg anc"
    and old: "\<And>u c. now \<le> u \<Longrightarrow> u < max_time \<Longrightarrow> groups_up u anc c = {a. (a, c) \<in> (groups_rel u old)\<^sup>+}"
    and marked: "\<And>u p c. now \<le> u \<Longrightarrow> \<not> todo marks c \<Longrightarrow> (p, c) \<in> groups_rel u gg \<longleftrightarrow> (p, c) \<in> groups_rel u old"
    and now: "now < max_time"
  shows "\<exists>anc' marks'. create_new_ancestors_groups now gg anc marks = Inr (anc', marks') \<and>
           (\<forall>u c. now \<le> u \<longrightarrow> u < max_time \<longrightarrow> groups_up u anc' c = {a. (a, c) \<in> (groups_rel u gg)\<^sup>+}) \<and>
           (\<forall>c. \<not> todo marks' c)"
  by (rule groups_ancestors_recomputed [OF assms])

end
