(* ===== verification/Transitions.thy ===== *)
theory Transitions
  imports Ancestors
begin

text \<open>
  Memberships between groups, app/database/group_group_store_transitions.go: the actions, the table of
  transition rules, the transition plan with its checks (approvals, cycles, size limit) and the writes of
  \<open>GroupGroupStore.Transition\<close>.  The Go maps of the plan are association lists; \<open>map[int64]bool\<close> maps
  only ever hold true.  A panic of the store is recovered into the returned error and rolls the
  transaction back, so it is an \<open>Inl\<close> value.
\<close>

section \<open>Membership actions\<close>

text \<open>\<open>GroupMembershipAction\<close> is a string type: values that are none of the constants are \<open>UnknownAction\<close>.\<close>

datatype membership_action =
    NoRelation
  | InvitationCreated
  | JoinRequestCreated
  | InvitationAccepted
  | JoinRequestAccepted
  | LeaveRequestAccepted
  | InvitationRefused
  | InvitationWithdrawn
  | JoinedByBadge
  | JoinedByCode
  | JoinRequestRefused
  | JoinRequestWithdrawn
  | Removed
  | LeftGroup
  | IsMember
  | LeaveRequestCreated
  | LeaveRequestExpired
  | LeaveRequestRefused
  | LeaveRequestWithdrawn
  | RemovedDueToApprovalChange
  | UnknownAction string

fun action_string :: "membership_action \<Rightarrow> string" where
  "action_string NoRelation = ''''"
| "action_string InvitationCreated = ''invitation_created''"
| "action_string JoinRequestCreated = ''join_request_created''"
| "action_string InvitationAccepted = ''invitation_accepted''"
| "action_string JoinRequestAccepted = ''join_request_accepted''"
| "action_string LeaveRequestAccepted = ''leave_request_accepted''"
| "action_string InvitationRefused = ''invitation_refused''"
| "action_string InvitationWithdrawn = ''invitation_withdrawn''"
| "action_string JoinedByBadge = ''joined_by_badge''"
| "action_string JoinedByCode = ''joined_by_code''"
| "action_string JoinRequestRefused = ''join_request_refused''"
| "action_string JoinRequestWithdrawn = ''join_request_withdrawn''"
| "action_string Removed = ''removed''"
| "action_string LeftGroup = ''left''"
| "action_string IsMember = ''is_member''"
| "action_string LeaveRequestCreated = ''is_member,leave_request_created''"
| "action_string LeaveRequestExpired = ''leave_request_created''"
| "action_string LeaveRequestRefused = ''leave_request_refused''"
| "action_string LeaveRequestWithdrawn = ''leave_request_withdrawn''"
| "action_string RemovedDueToApprovalChange = ''removed_due_to_approval_change''"
| "action_string (UnknownAction s) = s"

definition known_actions :: "membership_action list" where
  "known_actions =
     [NoRelation, InvitationCreated, JoinRequestCreated, InvitationAccepted, JoinRequestAccepted, LeaveRequestAccepted,
      InvitationRefused, InvitationWithdrawn, JoinedByBadge, JoinedByCode, JoinRequestRefused, JoinRequestWithdrawn,
      Removed, LeftGroup, IsMember, LeaveRequestCreated, LeaveRequestExpired, LeaveRequestRefused,
      LeaveRequestWithdrawn, RemovedDueToApprovalChange]"

definition parse_action :: "string \<Rightarrow> membership_action" where
  "parse_action s = (case find (\<lambda>a. action_string a = s) known_actions of Some a \<Rightarrow> a | None \<Rightarrow> UnknownAction s)"

fun is_active :: "membership_action \<Rightarrow> bool" where
  "is_active JoinedByBadge = True"
| "is_active InvitationAccepted = True"
| "is_active JoinRequestAccepted = True"
| "is_active JoinedByCode = True"
| "is_active IsMember = True"
| "is_active LeaveRequestCreated = True"
| "is_active LeaveRequestWithdrawn = True"
| "is_active LeaveRequestRefused = True"
| "is_active _ = False"

fun is_pending :: "membership_action \<Rightarrow> bool" where
  "is_pending InvitationCreated = True"
| "is_pending JoinRequestCreated = True"
| "is_pending LeaveRequestCreated = True"
| "is_pending LeaveRequestExpired = True"
| "is_pending _ = False"

definition has_approvals :: "membership_action \<Rightarrow> bool" where
  "has_approvals a = (a = JoinRequestCreated)"

text \<open>\<open>PendingType\<close> panics outside of the three pending kinds.\<close>

fun pending_type_of :: "membership_action \<Rightarrow> db_error + pending_type" where
  "pending_type_of InvitationCreated = Inr Invitation"
| "pending_type_of JoinRequestCreated = Inr JoinRequest"
| "pending_type_of LeaveRequestCreated = Inr LeaveRequest"
| "pending_type_of _ = Inl (GoPanic ''groupMembershipAction should be of pending kind in PendingType()'')"

section \<open>The transition rules\<close>

datatype transition_action =
    AdminCreatesInvitation
  | UserCreatesJoinRequest
  | UserCreatesAcceptedJoinRequest
  | UserAcceptsInvitation
  | AdminAcceptsJoinRequest
  | AdminAcceptsLeaveRequest
  | AdminRefusesLeaveRequest
  | UserRefusesInvitation
  | AdminRefusesJoinRequest
  | AdminRemovesUser
  | AdminWithdrawsInvitation
  | UserLeavesGroup
  | UserCreatesLeaveRequest
  | UserCancelsJoinRequest
  | UserCancelsLeaveRequest
  | AdminRemovesDirectRelation
  | UserJoinsGroupByBadge
  | UserJoinsGroupByCode
  | AdminStrengthensApprovalWithEmpty
  | AdminStrengthensApprovalWithReinvite

fun rule_transitions :: "transition_action \<Rightarrow> (membership_action, membership_action) gomap" where
  "rule_transitions AdminCreatesInvitation =
     [(NoRelation, InvitationCreated), (InvitationCreated, InvitationCreated),
      (JoinRequestCreated, JoinRequestAccepted), (LeaveRequestExpired, InvitationCreated)]"
| "rule_transitions UserCreatesJoinRequest =
     [(NoRelation, JoinRequestCreated), (JoinRequestCreated, JoinRequestCreated),
      (LeaveRequestExpired, JoinRequestCreated)]"
| "rule_transitions UserCreatesAcceptedJoinRequest =
     [(NoRelation, JoinRequestAccepted), (JoinRequestCreated, JoinRequestAccepted),
      (InvitationCreated, JoinRequestAccepted), (LeaveRequestExpired, JoinRequestAccepted)]"
| "rule_transitions UserJoinsGroupByBadge =
     [(NoRelation, JoinedByBadge), (JoinRequestCreated, JoinedByBadge),
      (InvitationCreated, JoinedByBadge), (LeaveRequestExpired, JoinedByBadge)]"
| "rule_transitions UserJoinsGroupByCode =
     [(NoRelation, JoinedByCode), (JoinRequestCreated, JoinedByCode),
      (InvitationCreated, JoinedByCode), (LeaveRequestExpired, JoinedByCode)]"
| "rule_transitions UserAcceptsInvitation = [(InvitationCreated, InvitationAccepted)]"
| "rule_transitions AdminAcceptsJoinRequest = [(JoinRequestCreated, JoinRequestAccepted)]"
| "rule_transitions AdminAcceptsLeaveRequest = [(LeaveRequestCreated, LeaveRequestAccepted)]"
| "rule_transitions UserRefusesInvitation = [(InvitationCreated, InvitationRefused)]"
| "rule_transitions AdminRefusesJoinRequest = [(JoinRequestCreated, JoinRequestRefused)]"
| "rule_transitions AdminRefusesLeaveRequest = [(LeaveRequestCreated, LeaveRequestRefused)]"
| "rule_transitions AdminRemovesUser = [(IsMember, Removed), (LeaveRequestCreated, Removed)]"
| "rule_transitions AdminWithdrawsInvitation = [(InvitationCreated, InvitationWithdrawn)]"
| "rule_transitions UserLeavesGroup = [(IsMember, LeftGroup), (LeaveRequestCreated, LeftGroup)]"
| "rule_transitions UserCreatesLeaveRequest =
     [(IsMember, LeaveRequestCreated), (LeaveRequestCreated, LeaveRequestCreated)]"
| "rule_transitions UserCancelsJoinRequest = [(JoinRequestCreated, JoinRequestWithdrawn)]"
| "rule_transitions UserCancelsLeaveRequest = [(LeaveRequestCreated, LeaveRequestWithdrawn)]"
| "rule_transitions AdminRemovesDirectRelation =
     [(IsMember, NoRelation), (NoRelation, NoRelation), (LeaveRequestCreated, NoRelation)]"
| "rule_transitions AdminStrengthensApprovalWithEmpty =
     [(IsMember, RemovedDueToApprovalChange), (NoRelation, NoRelation), (JoinRequestCreated, NoRelation),
      (LeaveRequestCreated, RemovedDueToApprovalChange), (LeaveRequestExpired, RemovedDueToApprovalChange),
      (InvitationCreated, NoRelation)]"
| "rule_transitions AdminStrengthensApprovalWithReinvite =
     [(IsMember, InvitationCreated), (NoRelation, NoRelation), (JoinRequestCreated, NoRelation),
      (LeaveRequestCreated, RemovedDueToApprovalChange), (LeaveRequestExpired, RemovedDueToApprovalChange),
      (InvitationCreated, InvitationCreated)]"

text \<open>\<open>IfNotEnoughApprovalsDowngradeTo\<close>; the zero value of the field is the empty string.\<close>

fun rule_downgrade :: "transition_action \<Rightarrow> membership_action" where
  "rule_downgrade AdminCreatesInvitation = InvitationCreated"
| "rule_downgrade _ = NoRelation"

datatype transition_result = Cycle | Invalid | ApprovalsMissing | Full | Success | Unchanged

section \<open>Approvals\<close>

record group_approvals =
  ap_personal_info_view :: bool
  ap_lock_membership :: bool
  ap_watch :: bool

definition no_approvals :: group_approvals where
  "no_approvals = \<lparr>ap_personal_info_view = False, ap_lock_membership = False, ap_watch = False\<rparr>"

definition approvals_from_string :: "string \<Rightarrow> group_approvals \<Rightarrow> group_approvals" where
  "approvals_from_string s a0 =
     fold (\<lambda>w a. if w = ''personal_info_view'' then a\<lparr>ap_personal_info_view := True\<rparr>
                 else if w = ''lock_membership'' then a\<lparr>ap_lock_membership := True\<rparr>
                 else if w = ''watch'' then a\<lparr>ap_watch := True\<rparr> else a)
       (split_on (CHR '','') s) a0"

definition approvals_to_array :: "group_approvals \<Rightarrow> string list" where
  "approvals_to_array a =
     (if ap_personal_info_view a then [''personal_info_view''] else []) @
     (if ap_lock_membership a then [''lock_membership''] else []) @
     (if ap_watch a then [''watch''] else [])"

section \<open>States and limits\<close>

record state_info =
  si_child :: id
  si_action :: membership_action
  si_personal_info_view_approved_at :: "time option"
  si_lock_membership_approved_at :: "time option"
  si_watch_approved_at :: "time option"

text \<open>A missing key of \<open>oldActionsMap\<close> reads as the zero value of the struct.\<close>

definition zero_state :: state_info where
  "zero_state = \<lparr>si_child = 0, si_action = NoRelation, si_personal_info_view_approved_at = None,
     si_lock_membership_approved_at = None, si_watch_approved_at = None\<rparr>"

record limits =
  li_require_personal_info :: bool
  li_require_lock_membership :: bool
  li_require_watch :: bool
  li_enforce_max_participants :: bool
  li_max_participants :: int
  li_is_team :: bool

definition group_limits :: "time \<Rightarrow> group_row \<Rightarrow> limits" where
  "group_limits now g =
     \<lparr>li_require_personal_info = (g_require_personal_info_access_approval g \<noteq> RequireNone),
      li_require_lock_membership =
        (case g_require_lock_membership_approval_until g of None \<Rightarrow> False | Some t \<Rightarrow> now < t),
      li_require_watch = g_require_watch_approval g,
      li_enforce_max_participants = g_enforce_max_participants g,
      li_max_participants = (case g_max_participants g of None \<Rightarrow> 0 | Some m \<Rightarrow> m),
      li_is_team = (g_type g = Team)\<rparr>"

definition get_approvals :: "(id, group_approvals) gomap \<Rightarrow> id \<Rightarrow> group_approvals" where
  "get_approvals m i = (case map_of m i of None \<Rightarrow> no_approvals | Some a \<Rightarrow> a)"

definition get_state :: "(id, state_info) gomap \<Rightarrow> id \<Rightarrow> state_info" where
  "get_state m i = (case map_of m i of None \<Rightarrow> zero_state | Some s \<Rightarrow> s)"

text \<open>
  The current states: the union of the active relations and of the pending requests of the parent with the
  given children, grouped by child, GROUP_CONCAT joining the two possible rows of a child in this order.
\<close>

fun pending_action :: "pending_type \<Rightarrow> string" where
  "pending_action Invitation = ''invitation_created''"
| "pending_action JoinRequest = ''join_request_created''"
| "pending_action LeaveRequest = ''leave_request_created''"

definition status_rows :: "db \<Rightarrow> id \<Rightarrow> id \<Rightarrow> (string \<times> time option \<times> time option \<times> time option) list" where
  "status_rows d parent child =
     [(''is_member'', None, None, None). r \<leftarrow> groups_groups_active d, gg_parent r = parent \<and> gg_child r = child] @
     [(pending_action (pr_type r),
       if pr_personal_info_view_approved r then Some (pr_at r) else None,
       if pr_lock_membership_approved r then Some (pr_at r) else None,
       if pr_watch_approved r then Some (pr_at r) else None).
        r \<leftarrow> db_pending d, pr_group r = parent \<and> pr_member r = child]"

fun group_concat :: "string list \<Rightarrow> string" where
  "group_concat [] = []"
| "group_concat [s] = s"
| "group_concat (s # ss) = s @ '','' @ group_concat ss"

text \<open>MAX over a nullable column: NULLs are ignored.\<close>

fun sql_max :: "time option list \<Rightarrow> time option" where
  "sql_max [] = None"
| "sql_max (None # xs) = sql_max xs"
| "sql_max (Some x # xs) = (case sql_max xs of None \<Rightarrow> Some x | Some y \<Rightarrow> Some (max x y))"

definition old_state :: "db \<Rightarrow> id \<Rightarrow> id \<Rightarrow> state_info option" where
  "old_state d parent child =
     (let rows = status_rows d parent child in
      if rows = [] then None
      else Some \<lparr>si_child = child,
                 si_action = parse_action (group_concat (map (\<lambda>(a, _). a) rows)),
                 si_personal_info_view_approved_at = sql_max (map (\<lambda>(a, x, y, z). x) rows),
                 si_lock_membership_approved_at = sql_max (map (\<lambda>(a, x, y, z). y) rows),
                 si_watch_approved_at = sql_max (map (\<lambda>(a, x, y, z). z) rows)\<rparr>)"

definition old_actions_map :: "db \<Rightarrow> id \<Rightarrow> id list \<Rightarrow> (id, state_info) gomap" where
  "old_actions_map d parent children =
     [(c, s). c \<leftarrow> remdups children, s \<leftarrow> (case old_state d parent c of None \<Rightarrow> [] | Some s \<Rightarrow> [s])]"

section \<open>The transition plan\<close>

record plan =
  p_results :: "(id, transition_result) gomap"
  p_approvals_to_request :: "(id, group_approvals) gomap"
  p_insert_pending :: "(id, membership_action) gomap"
  p_insert_relation :: "(id, bool) gomap"
  p_check_cycle :: "(id, bool) gomap"
  p_delete_pending :: "(id, bool) gomap"
  p_delete_relation :: "(id, bool) gomap"
  p_changed :: "(id, membership_action) gomap"

definition empty_plan :: plan where
  "empty_plan = \<lparr>p_results = [], p_approvals_to_request = [], p_insert_pending = [], p_insert_relation = [],
     p_check_cycle = [], p_delete_pending = [], p_delete_relation = [], p_changed = []\<rparr>"

definition approvals_ok :: "state_info \<Rightarrow> limits \<Rightarrow> group_approvals \<Rightarrow> bool \<times> group_approvals" where
  "approvals_ok old li given =
     (let check = (if has_approvals (si_action old)
                   then \<lparr>ap_personal_info_view = (si_personal_info_view_approved_at old \<noteq> None),
                         ap_lock_membership = (si_lock_membership_approved_at old \<noteq> None),
                         ap_watch = (si_watch_approved_at old \<noteq> None)\<rparr>
                   else given);
          request = \<lparr>ap_personal_info_view = (li_require_personal_info li \<and> \<not> ap_personal_info_view check),
                     ap_lock_membership = (li_require_lock_membership li \<and> \<not> ap_lock_membership check),
                     ap_watch = (li_require_watch li \<and> \<not> ap_watch check)\<rparr>
      in (request = no_approvals, request))"

definition build_one_transition :: "id \<Rightarrow> membership_action \<Rightarrow> membership_action \<Rightarrow> plan \<Rightarrow> plan" where
  "build_one_transition i old to p =
     (if to \<noteq> old then
        p\<lparr>p_results := AList.update i Success (p_results p),
          p_changed := (if to \<noteq> NoRelation then AList.update i to (p_changed p) else p_changed p),
          p_delete_relation := (if is_active old \<and> \<not> is_active to
             then AList.update i True (p_delete_relation p) else p_delete_relation p),
          p_insert_relation := (if \<not> is_active old \<and> is_active to
             then AList.update i True (p_insert_relation p) else p_insert_relation p),
          p_check_cycle := (if \<not> is_active old \<and> (is_active to \<or> is_pending to)
             then AList.update i True (p_check_cycle p) else p_check_cycle p),
          p_delete_pending := (if is_pending old then AList.update i True (p_delete_pending p) else p_delete_pending p),
          p_insert_pending := (if is_pending to then AList.update i to (p_insert_pending p) else p_insert_pending p)\<rparr>
      else p\<lparr>p_results := AList.update i Unchanged (p_results p)\<rparr>)"

definition plan_child ::
  "id \<Rightarrow> (id, state_info) gomap \<Rightarrow> limits \<Rightarrow> (id, group_approvals) gomap \<Rightarrow> transition_action \<Rightarrow> id \<Rightarrow> plan \<Rightarrow> plan" where
  "plan_child parent olds li approvals action i p =
     (let p1 = p\<lparr>p_results := AList.update i Invalid (p_results p)\<rparr> in
      if i = parent then p1
      else
        let old = get_state olds i in
        case map_of (rule_transitions action) (si_action old) of
          None \<Rightarrow> p1
        | Some to \<Rightarrow>
            if is_active to \<and> \<not> is_active (si_action old) \<or> has_approvals to then
              (case approvals_ok old li (get_approvals approvals i) of
                 (ok, needed) \<Rightarrow>
                   if ok then build_one_transition i (si_action old) to p1
                   else if rule_downgrade action \<noteq> NoRelation
                   then build_one_transition i (si_action old) (rule_downgrade action) p1
                   else p1\<lparr>p_results := AList.update i ApprovalsMissing (p_results p1),
                           p_approvals_to_request := (if needed \<noteq> no_approvals
                             then AList.update i needed (p_approvals_to_request p1) else p_approvals_to_request p1)\<rparr>)
            else build_one_transition i (si_action old) to p1)"

definition build_transitions_plan ::
  "id \<Rightarrow> id list \<Rightarrow> (id, state_info) gomap \<Rightarrow> limits \<Rightarrow> (id, group_approvals) gomap \<Rightarrow> transition_action \<Rightarrow> plan" where
  "build_transitions_plan parent children olds li approvals action =
     fold (plan_child parent olds li approvals action) children empty_plan"

definition delete_id_from_plan :: "transition_result \<Rightarrow> id \<Rightarrow> plan \<Rightarrow> plan" where
  "delete_id_from_plan status i p =
     p\<lparr>p_results := AList.update i status (p_results p),
       p_insert_relation := AList.delete i (p_insert_relation p),
       p_insert_pending := AList.delete i (p_insert_pending p),
       p_delete_pending := AList.delete i (p_delete_pending p),
       p_delete_relation := AList.delete i (p_delete_relation p),
       p_changed := AList.delete i (p_changed p)\<rparr>"

definition delete_ids_from_plan :: "id list \<Rightarrow> transition_result \<Rightarrow> plan \<Rightarrow> plan" where
  "delete_ids_from_plan ids status p = fold (delete_id_from_plan status) ids p"

definition perform_cycles_checking :: "db \<Rightarrow> id \<Rightarrow> plan \<Rightarrow> plan" where
  "perform_cycles_checking d parent p =
     (let to_check = map fst (p_check_cycle p) in
      if to_check = [] then p
      else delete_ids_from_plan
             [ga_ancestor r. r \<leftarrow> db_groups_ancestors d, ga_child r = parent \<and> ga_ancestor r \<in> set to_check] Cycle p)"

definition limited_actions :: "transition_action list" where
  "limited_actions = [UserJoinsGroupByBadge, UserJoinsGroupByCode, UserCreatesJoinRequest,
     UserCreatesAcceptedJoinRequest, AdminCreatesInvitation, AdminAcceptsJoinRequest]"

definition is_participant :: "db \<Rightarrow> id \<Rightarrow> bool" where
  "is_participant d i = (case group_by_id d i of None \<Rightarrow> False | Some g \<Rightarrow> g_type g = User \<or> g_type g = Team)"

text \<open>
  The two counts; the library renders an empty list in \<open>NOT IN(?)\<close> as NULL, and no row satisfies \<open>x NOT IN (NULL)\<close>.
\<close>

definition not_in :: "id \<Rightarrow> id list \<Rightarrow> bool" where
  "not_in i ids = (ids \<noteq> [] \<and> i \<notin> set ids)"

definition active_relations_count :: "db \<Rightarrow> id \<Rightarrow> id list \<Rightarrow> int" where
  "active_relations_count d parent changed =
     int (length (filter (\<lambda>r. gg_parent r = parent \<and> is_participant d (gg_child r) \<and> not_in (gg_child r) changed)
                    (groups_groups_active d)))"

definition invitations_count :: "db \<Rightarrow> id \<Rightarrow> id list \<Rightarrow> int" where
  "invitations_count d parent changed =
     int (length (filter (\<lambda>r. pr_group r = parent \<and> pr_type r = Invitation \<and> not_in (pr_member r) changed) (db_pending d)))"

definition new_members_count :: "plan \<Rightarrow> int" where
  "new_members_count p = int (length (filter (\<lambda>(i, a). is_active a \<or> a = InvitationCreated) (p_changed p)))"

definition enforce_max_size :: "db \<Rightarrow> transition_action \<Rightarrow> id \<Rightarrow> limits \<Rightarrow> plan \<Rightarrow> plan" where
  "enforce_max_size d action parent li p =
     (if \<not> li_enforce_max_participants li \<or> action \<notin> set limited_actions then p
      else
        let changed = map fst (p_changed p);
            members = active_relations_count d parent changed + invitations_count d parent changed + new_members_count p
        in if members > li_max_participants li \<or> members = li_max_participants li \<and> action = UserCreatesJoinRequest
           then delete_ids_from_plan changed Full p else p)"

section \<open>The writes\<close>

definition delete_pending :: "id \<Rightarrow> plan \<Rightarrow> db \<Rightarrow> db" where
  "delete_pending parent p d =
     (let ids = map fst (p_delete_pending p) in
      if ids = [] then d else delete_pending_rows (\<lambda>r. pr_group r = parent \<and> pr_member r \<in> set ids) d)"

text \<open>The two flags are \<open>shouldCreateNewAncestors\<close> and \<open>shouldPropagatePermissions\<close>.\<close>

definition delete_relations :: "id \<Rightarrow> limits \<Rightarrow> plan \<Rightarrow> db \<Rightarrow> db \<times> bool \<times> bool" where
  "delete_relations parent li p d =
     (let ids = map fst (p_delete_relation p) in
      if ids = [] then (d, False, False)
      else
        let d1 = fst (delete_groups_groups (\<lambda>r. gg_parent r = parent \<and> gg_child r \<in> set ids) d);
            (d2, n) = delete_permissions_granted
              (\<lambda>r. pg_origin r = GroupMembership \<and> pg_source_group r = parent \<and> pg_group r \<in> set ids) d1
        in (d2, \<not> li_is_team li, n > 0))"

definition insert_group_pending_request :: "id \<Rightarrow> (id, group_approvals) gomap \<Rightarrow> id \<times> membership_action \<Rightarrow> db \<Rightarrow> db_error + db" where
  "insert_group_pending_request parent approvals ia d =
     (case pending_type_of (snd ia) of
        Inl e \<Rightarrow> Inl e
      | Inr t \<Rightarrow>
          let a = get_approvals approvals (fst ia) in
          insert_pending \<lparr>pr_group = parent, pr_member = fst ia, pr_type = t,
            pr_personal_info_view_approved = ap_personal_info_view a,
            pr_lock_membership_approved = ap_lock_membership a,
            pr_watch_approved = ap_watch a, pr_at = db_now d\<rparr> d)"

definition insert_group_pending_requests :: "id \<Rightarrow> (id, group_approvals) gomap \<Rightarrow> plan \<Rightarrow> db \<Rightarrow> db_error + db" where
  "insert_group_pending_requests parent approvals p d =
     fold_result (insert_group_pending_request parent approvals) (p_insert_pending p) d"

definition resolve_approval_times ::
  "time \<Rightarrow> (id, state_info) gomap \<Rightarrow> (id, group_approvals) gomap \<Rightarrow> id \<Rightarrow> time option \<times> time option \<times> time option" where
  "resolve_approval_times now olds approvals i =
     (let old = get_state olds i; a = get_approvals approvals i in
      if has_approvals (si_action old)
      then (si_personal_info_view_approved_at old, si_lock_membership_approved_at old, si_watch_approved_at old)
      else (if ap_personal_info_view a then Some now else None,
            if ap_lock_membership a then Some now else None,
            if ap_watch a then Some now else None))"

definition insert_relation ::
  "id \<Rightarrow> (id, state_info) gomap \<Rightarrow> (id, group_approvals) gomap \<Rightarrow> id \<Rightarrow> db \<Rightarrow> db_error + db" where
  "insert_relation parent olds approvals i d =
     (case resolve_approval_times (db_now d) olds approvals i of
        (x, y, z) \<Rightarrow>
          upsert_groups_groups \<lparr>gg_parent = parent, gg_child = i, gg_expires_at = max_time,
            gg_personal_info_view_approved_at = x, gg_lock_membership_approved_at = y, gg_watch_approved_at = z,
            gg_is_team_membership = False\<rparr> d)"

text \<open>The flags are \<open>shouldCreateNewAncestors\<close> and \<open>shouldPropagateResults\<close>.\<close>

definition insert_relations ::
  "id \<Rightarrow> limits \<Rightarrow> (id, state_info) gomap \<Rightarrow> (id, group_approvals) gomap \<Rightarrow> plan \<Rightarrow> db \<Rightarrow> db_error + (db \<times> bool \<times> bool)" where
  "insert_relations parent li olds approvals p d =
     (let ids = map fst (p_insert_relation p) in
      if ids = [] then Inr (d, False, False)
      else case fold_result (insert_relation parent olds approvals) ids d of
             Inl e \<Rightarrow> Inl e
           | Inr d' \<Rightarrow> Inr (d', \<not> li_is_team li, \<not> li_is_team li))"

text \<open>The logged action is the part of the string after the last comma.\<close>

definition after_last_comma :: "string \<Rightarrow> string" where
  "after_last_comma s = rev (takeWhile (\<lambda>c. c \<noteq> CHR '','') (rev s))"

definition insert_membership_changes :: "id \<Rightarrow> id \<Rightarrow> plan \<Rightarrow> db \<Rightarrow> db" where
  "insert_membership_changes parent performed_by p d =
     d\<lparr>db_changes := db_changes d @
        map (\<lambda>(i, a). \<lparr>ch_group = parent, ch_member = i, ch_action = after_last_comma (action_string a),
                       ch_at = db_now d, ch_initiator = performed_by\<rparr>) (p_changed p)\<rparr>"

text \<open>\<open>GroupGroupStore.Transition\<close>: the reads, the plan, and the writes.\<close>

definition transition_plan ::
  "transition_action \<Rightarrow> id \<Rightarrow> id list \<Rightarrow> (id, group_approvals) gomap \<Rightarrow> group_row \<Rightarrow> db \<Rightarrow> plan" where
  "transition_plan action parent children approvals g d =
     (let li = group_limits (db_now d) g;
          olds = old_actions_map d parent children;
          p0 = build_transitions_plan parent children olds li approvals action;
          p1 = perform_cycles_checking d parent p0
      in enforce_max_size d action parent li p1)"

definition transition_writes ::
  "id \<Rightarrow> id \<Rightarrow> limits \<Rightarrow> (id, state_info) gomap \<Rightarrow> (id, group_approvals) gomap \<Rightarrow> plan \<Rightarrow> db \<Rightarrow> db_error + db" where
  "transition_writes parent performed_by li olds approvals p d =
     (case delete_relations parent li p (delete_pending parent p d) of
        (d1, anc1, perm) \<Rightarrow>
          case insert_group_pending_requests parent approvals p d1 of
            Inl e \<Rightarrow> Inl e
          | Inr d2 \<Rightarrow>
              (case insert_relations parent li olds approvals p d2 of
                 Inl e \<Rightarrow> Inl e
               | Inr (d3, anc2, results) \<Rightarrow>
                   let d4 = insert_membership_changes parent performed_by p d3 in
                   (case (if anc1 \<or> anc2 then groups_create_new_ancestors d4 else Inr d4) of
                      Inl e \<Rightarrow> Inl e
                    | Inr d5 \<Rightarrow>
                        let d6 = (if perm then schedule_permissions_propagation d5 else d5)
                        in Inr (if results then schedule_results_propagation d6 else d6))))"

definition transition ::
  "transition_action \<Rightarrow> id \<Rightarrow> id list \<Rightarrow> (id, group_approvals) gomap \<Rightarrow> id \<Rightarrow> db
     \<Rightarrow> db_error + ((id, transition_result) gomap \<times> (id, group_approvals) gomap \<times> db)" where
  "transition action parent children approvals performed_by d =
     (case group_by_id d parent of
        None \<Rightarrow> Inl RecordNotFound
      | Some g \<Rightarrow>
          let p = transition_plan action parent children approvals g d in
          case transition_writes parent performed_by (group_limits (db_now d) g) (old_actions_map d parent children) approvals p d of
            Inl e \<Rightarrow> Inl e
          | Inr d' \<Rightarrow> Inr (p_results p, p_approvals_to_request p, d'))"

end
