(* ===== verification/Membership.thy ===== *)
theory Membership
  imports Transitions
begin

text \<open>
  What \<open>GroupGroupStore.Transition\<close> promises.  The abstract state of a pair of groups is its membership
  (\<open>membership\<close>), read off the tables the way the store reads it; \<open>settle\<close> maps an action to the state it
  is to lead to.  The transition plan is described per child (\<open>decision\<close>, \<open>plan_view\<close>), the writes per
  pair, and both meet in the refinement theorem: the tables after a transition hold, for every child,
  the state the rules prescribe.  Approvals, cycles, the size limit and the invariant of all
  reachable databases rest on the same two descriptions.
\<close>

section \<open>The abstract state of a pair\<close>

definition membership :: "db \<Rightarrow> id \<Rightarrow> id \<Rightarrow> membership_action" where
  "membership d parent child =
     (case old_state d parent child of None \<Rightarrow> NoRelation | Some s \<Rightarrow> si_action s)"

definition active_pair :: "db \<Rightarrow> id \<Rightarrow> id \<Rightarrow> bool" where
  "active_pair d parent child =
     (\<exists>r \<in> set (db_groups_groups d). gg_parent r = parent \<and> gg_child r = child \<and> db_now d < gg_expires_at r)"

definition pending_pair :: "db \<Rightarrow> id \<Rightarrow> id \<Rightarrow> pending_type option" where
  "pending_pair d parent child = map_option pr_type (tbl_find pr_key (parent, child) (db_pending d))"

fun combine :: "bool \<Rightarrow> pending_type option \<Rightarrow> membership_action" where
  "combine False None = NoRelation"
| "combine True None = IsMember"
| "combine False (Some Invitation) = InvitationCreated"
| "combine False (Some JoinRequest) = JoinRequestCreated"
| "combine False (Some LeaveRequest) = LeaveRequestExpired"
| "combine True (Some LeaveRequest) = LeaveRequestCreated"
| "combine True (Some Invitation) = UnknownAction ''is_member,invitation_created''"
| "combine True (Some JoinRequest) = UnknownAction ''is_member,join_request_created''"

definition keys_ok :: "db \<Rightarrow> bool" where
  "keys_ok d = (tbl_unique gg_key (db_groups_groups d) \<and> tbl_unique pr_key (db_pending d))"

lemma concat_map_if: "concat (map (\<lambda>x. if P x then [f x] else []) xs) = map f (filter P xs)"
  by (induction xs) auto

lemma active_rows:
  assumes "keys_ok d"
  shows "filter (\<lambda>r. gg_parent r = parent \<and> gg_child r = child) (groups_groups_active d) =
     (case tbl_find gg_key (parent, child) (groups_groups_active d) of None \<Rightarrow> [] | Some r \<Rightarrow> [r])"
    and "filter (\<lambda>r. pr_group r = parent \<and> pr_member r = child) (db_pending d) =
     (case tbl_find pr_key (parent, child) (db_pending d) of None \<Rightarrow> [] | Some r \<Rightarrow> [r])"
proof -
  have gg: "(\<lambda>r. gg_parent r = parent \<and> gg_child r = child) = (\<lambda>r. gg_key r = (parent, child))"
    and pr: "(\<lambda>r. pr_group r = parent \<and> pr_member r = child) = (\<lambda>r. pr_key r = (parent, child))"
    by (auto simp: gg_key_def pr_key_def)
  show "filter (\<lambda>r. gg_parent r = parent \<and> gg_child r = child) (groups_groups_active d) =
     (case tbl_find gg_key (parent, child) (groups_groups_active d) of None \<Rightarrow> [] | Some r \<Rightarrow> [r])"
    unfolding gg by (rule filter_key_unique) (use assms in \<open>simp add: keys_ok_def groups_groups_active_def tbl_unique_filter\<close>)
  show "filter (\<lambda>r. pr_group r = parent \<and> pr_member r = child) (db_pending d) =
     (case tbl_find pr_key (parent, child) (db_pending d) of None \<Rightarrow> [] | Some r \<Rightarrow> [r])"
    unfolding pr by (rule filter_key_unique) (use assms in \<open>simp add: keys_ok_def\<close>)
qed

lemma active_pair_find:
  "active_pair d parent child \<longleftrightarrow> tbl_find gg_key (parent, child) (groups_groups_active d) \<noteq> None"
  by (auto simp: active_pair_def tbl_find_None groups_groups_active_def gg_key_def)

lemma status_rows_eq:
  assumes "keys_ok d"
  shows "status_rows d parent child =
     (if active_pair d parent child then [(''is_member'', None, None, None)] else []) @
     (case tbl_find pr_key (parent, child) (db_pending d) of None \<Rightarrow> []
      | Some r \<Rightarrow> [(pending_action (pr_type r),
           if pr_personal_info_view_approved r then Some (pr_at r) else None,
           if pr_lock_membership_approved r then Some (pr_at r) else None,
           if pr_watch_approved r then Some (pr_at r) else None)])"
  unfolding status_rows_def concat_map_if active_rows [OF assms] active_pair_find
  by (auto split: option.splits)

lemma parse_concat:
  "parse_action ''is_member'' = IsMember"
  "parse_action ''invitation_created'' = InvitationCreated"
  "parse_action ''join_request_created'' = JoinRequestCreated"
  "parse_action ''leave_request_created'' = LeaveRequestExpired"
  "parse_action ''is_member,leave_request_created'' = LeaveRequestCreated"
  "parse_action ''is_member,invitation_created'' = UnknownAction ''is_member,invitation_created''"
  "parse_action ''is_member,join_request_created'' = UnknownAction ''is_member,join_request_created''"
  by (simp_all add: parse_action_def known_actions_def)

lemma membership_combine:
  assumes "keys_ok d"
  shows "membership d parent child = combine (active_pair d parent child) (pending_pair d parent child)"
  unfolding membership_def old_state_def status_rows_eq [OF assms] pending_pair_def Let_def
  by (cases "tbl_find pr_key (parent, child) (db_pending d)";
      cases "active_pair d parent child"; cases "pr_type (the (tbl_find pr_key (parent, child) (db_pending d)))")
     (simp_all add: parse_concat)

lemma get_state_action:
  assumes "child \<in> set children"
  shows "si_action (get_state (old_actions_map d parent children) child) = membership d parent child"
    and "old_state d parent child = Some s \<Longrightarrow> get_state (old_actions_map d parent children) child = s"
proof -
  have "map_of (old_actions_map d parent cs) child = (if child \<in> set cs then old_state d parent child else None)" for cs
  proof -
    have "map_of (concat (map (\<lambda>c. map (\<lambda>s. (c, s)) (case old_state d parent c of None \<Rightarrow> [] | Some s \<Rightarrow> [s])) xs)) child
        = (if child \<in> set xs then old_state d parent child else None)" for xs
      by (induction xs) (auto split: option.splits)
    from this [of "remdups cs"] show ?thesis
      by (simp add: old_actions_map_def)
  qed
  with assms show "si_action (get_state (old_actions_map d parent children) child) = membership d parent child"
    and "old_state d parent child = Some s \<Longrightarrow> get_state (old_actions_map d parent children) child = s"
    by (auto simp: get_state_def membership_def zero_state_def split: option.splits)
qed

section \<open>The plan, child by child\<close>

definition outcome :: "membership_action \<Rightarrow> membership_action \<Rightarrow> transition_result \<times> membership_action" where
  "outcome old to = (if to \<noteq> old then (Success, to) else (Unchanged, to))"

definition decision ::
  "id \<Rightarrow> state_info \<Rightarrow> limits \<Rightarrow> group_approvals \<Rightarrow> transition_action \<Rightarrow> id \<Rightarrow> transition_result \<times> membership_action" where
  "decision parent old li given action i =
     (if i = parent then (Invalid, NoRelation)
      else case map_of (rule_transitions action) (si_action old) of
        None \<Rightarrow> (Invalid, NoRelation)
      | Some to \<Rightarrow>
          if (is_active to \<and> \<not> is_active (si_action old) \<or> has_approvals to) \<and> \<not> fst (approvals_ok old li given)
          then if rule_downgrade action \<noteq> NoRelation then outcome (si_action old) (rule_downgrade action)
               else (ApprovalsMissing, NoRelation)
          else outcome (si_action old) to)"

text \<open>What the plan holds for one child: result, pending row to insert, relation to insert, cycle to check,
  pending row and relation to delete, logged change.\<close>

definition plan_view :: "plan \<Rightarrow> id \<Rightarrow> transition_result option \<times> membership_action option \<times> bool \<times> bool \<times> bool \<times> bool \<times> membership_action option" where
  "plan_view p i = (map_of (p_results p) i, map_of (p_insert_pending p) i, map_of (p_insert_relation p) i \<noteq> None,
     map_of (p_check_cycle p) i \<noteq> None, map_of (p_delete_pending p) i \<noteq> None, map_of (p_delete_relation p) i \<noteq> None,
     map_of (p_changed p) i)"

definition decision_view ::
  "membership_action \<Rightarrow> transition_result \<times> membership_action
     \<Rightarrow> transition_result option \<times> membership_action option \<times> bool \<times> bool \<times> bool \<times> bool \<times> membership_action option" where
  "decision_view old rt =
     (case rt of (res, to) \<Rightarrow>
        (Some res,
         if res = Success \<and> is_pending to then Some to else None,
         res = Success \<and> \<not> is_active old \<and> is_active to,
         res = Success \<and> \<not> is_active old \<and> (is_active to \<or> is_pending to),
         res = Success \<and> is_pending old,
         res = Success \<and> is_active old \<and> \<not> is_active to,
         if res = Success \<and> to \<noteq> NoRelation then Some to else None))"

lemma plan_view_empty: "plan_view empty_plan i = (None, None, False, False, False, False, None)"
  by (simp add: plan_view_def empty_plan_def)

lemma build_one_transition_view:
  "plan_view (build_one_transition j old to p) i =
     (if i = j then
        (if to \<noteq> old then
           (case plan_view p i of (r, ip, ir, cc, dp, dr, ch) \<Rightarrow>
              (Some Success, if is_pending to then Some to else ip, ir \<or> \<not> is_active old \<and> is_active to,
               cc \<or> \<not> is_active old \<and> (is_active to \<or> is_pending to), dp \<or> is_pending old,
               dr \<or> is_active old \<and> \<not> is_active to, if to \<noteq> NoRelation then Some to else ch))
         else (case plan_view p i of (r, rest) \<Rightarrow> (Some Unchanged, rest)))
      else plan_view p i)"
  by (auto simp: plan_view_def build_one_transition_def)

lemma plan_child_other: "i \<noteq> j \<Longrightarrow> plan_view (plan_child parent olds li approvals action j p) i = plan_view p i"
  unfolding plan_child_def Let_def
  by (auto simp: build_one_transition_view split: option.split prod.split) (auto simp: plan_view_def)

lemma set_result_view:
  "plan_view (p\<lparr>p_results := AList.update i r (p_results p)\<rparr>) i = (case plan_view p i of (_, rest) \<Rightarrow> (Some r, rest))"
  "plan_view (p\<lparr>p_results := AList.update i r (p_results p), p_approvals_to_request := q\<rparr>) i =
     (case plan_view p i of (_, rest) \<Rightarrow> (Some r, rest))"
  by (simp_all add: plan_view_def)

definition fresh_view :: "plan \<Rightarrow> id \<Rightarrow> bool" where
  "fresh_view p i = (\<exists>r. plan_view p i = (r, None, False, False, False, False, None))"

lemma build_outcome_view:
  assumes "fresh_view p i \<or> (\<exists>r. (case plan_view p i of (_, rest) \<Rightarrow> (r, rest)) = decision_view old (outcome old to))"
  shows "plan_view (build_one_transition i old to p) i = decision_view old (outcome old to)"
  using assms
proof
  assume "fresh_view p i"
  then show ?thesis
    by (auto simp: fresh_view_def build_one_transition_view decision_view_def outcome_def)
next
  assume "\<exists>r. (case plan_view p i of (_, rest) \<Rightarrow> (r, rest)) = decision_view old (outcome old to)"
  then show ?thesis
    by (cases "plan_view p i") (auto simp: build_one_transition_view decision_view_def outcome_def)
qed

lemma keep_outcome_view:
  assumes "fresh_view p i \<or> (\<exists>r. (case plan_view p i of (_, rest) \<Rightarrow> (r, rest)) = decision_view old (res, to))"
    and "res \<noteq> Success"
  shows "(case plan_view p i of (_, rest) \<Rightarrow> (Some res, rest)) = decision_view old (res, to)"
  using assms by (cases "plan_view p i") (auto simp: fresh_view_def decision_view_def)

lemma plan_child_same:
  assumes "fresh_view p i \<or> plan_view p i = decision_view (si_action (get_state olds i))
       (decision parent (get_state olds i) li (get_approvals approvals i) action i)"
  shows "plan_view (plan_child parent olds li approvals action i p) i =
     decision_view (si_action (get_state olds i))
       (decision parent (get_state olds i) li (get_approvals approvals i) action i)"
proof -
  let ?old = "get_state olds i" and ?given = "get_approvals approvals i"
  let ?p1 = "p\<lparr>p_results := AList.update i Invalid (p_results p)\<rparr>"
  let ?dec = "decision parent ?old li ?given action i"
  obtain ok needed where ap: "approvals_ok ?old li ?given = (ok, needed)"
    by (cases "approvals_ok ?old li ?given")
  have hyp: "fresh_view p i \<or> (\<exists>r. (case plan_view p i of (_, rest) \<Rightarrow> (r, rest)) = decision_view (si_action ?old) ?dec)"
    using assms by (cases "plan_view p i") auto
  have hyp1: "fresh_view ?p1 i \<or> (\<exists>r. (case plan_view ?p1 i of (_, rest) \<Rightarrow> (r, rest)) = decision_view (si_action ?old) ?dec)"
    using hyp by (cases "plan_view p i") (auto simp: set_result_view fresh_view_def)
  show ?thesis
  proof (cases "i = parent")
    case True
    then have "?dec = (Invalid, NoRelation)" by (simp add: decision_def)
    with keep_outcome_view [of p i "si_action ?old" Invalid NoRelation] hyp True show ?thesis
      by (simp add: plan_child_def set_result_view)
  next
    case False
    show ?thesis
    proof (cases "map_of (rule_transitions action) (si_action ?old)")
      case None
      with False have "?dec = (Invalid, NoRelation)" by (simp add: decision_def)
      with keep_outcome_view [of p i "si_action ?old" Invalid NoRelation] hyp False None show ?thesis
        by (simp add: plan_child_def set_result_view Let_def)
    next
      case (Some to)
      let ?guard = "is_active to \<and> \<not> is_active (si_action ?old) \<or> has_approvals to"
      consider (straight) "\<not> (?guard \<and> \<not> ok)" | (down) "?guard" "\<not> ok" "rule_downgrade action \<noteq> NoRelation"
        | (missing) "?guard" "\<not> ok" "rule_downgrade action = NoRelation" by blast
      then show ?thesis
      proof cases
        case straight
        then have "?dec = outcome (si_action ?old) to"
          using False Some ap by (auto simp: decision_def)
        moreover have "plan_child parent olds li approvals action i p = build_one_transition i (si_action ?old) to ?p1"
          using straight False Some ap by (auto simp: plan_child_def Let_def)
        ultimately show ?thesis
          using build_outcome_view hyp1 by simp
      next
        case down
        then have "?dec = outcome (si_action ?old) (rule_downgrade action)"
          using False Some ap by (auto simp: decision_def)
        moreover have "plan_child parent olds li approvals action i p =
            build_one_transition i (si_action ?old) (rule_downgrade action) ?p1"
          using down False Some ap by (auto simp: plan_child_def Let_def)
        ultimately show ?thesis
          using build_outcome_view hyp1 by simp
      next
        case missing
        then have dec: "?dec = (ApprovalsMissing, NoRelation)"
          using False Some ap by (auto simp: decision_def)
        have "plan_view (plan_child parent olds li approvals action i p) i =
            (case plan_view ?p1 i of (_, rest) \<Rightarrow> (Some ApprovalsMissing, rest))"
          using missing False Some ap by (simp add: plan_child_def Let_def) (simp add: plan_view_def)
        then show ?thesis
          using keep_outcome_view [of ?p1 i "si_action ?old" ApprovalsMissing NoRelation] hyp1 dec by simp
      qed
    qed
  qed
qed

lemma build_plan_view:
  "plan_view (build_transitions_plan parent children olds li approvals action) i =
     (if i \<in> set children
      then decision_view (si_action (get_state olds i))
             (decision parent (get_state olds i) li (get_approvals approvals i) action i)
      else (None, None, False, False, False, False, None))"
  unfolding build_transitions_plan_def
proof (induction children rule: rev_induct)
  case Nil
  then show ?case by (simp add: plan_view_empty)
next
  case (snoc j children)
  let ?p = "fold (plan_child parent olds li approvals action) children empty_plan"
  show ?case
  proof (cases "i = j")
    case True
    have "fresh_view ?p i \<or> plan_view ?p i = decision_view (si_action (get_state olds i))
       (decision parent (get_state olds i) li (get_approvals approvals i) action i)"
      using snoc by (auto simp: fresh_view_def split: if_splits)
    with True show ?thesis by (simp add: plan_child_same)
  next
    case False
    with snoc show ?thesis by (simp add: plan_child_other)
  qed
qed

lemma delete_id_view:
  "plan_view (delete_id_from_plan status j p) i =
     (if i = j then (Some status, None, False, map_of (p_check_cycle p) i \<noteq> None, False, False, None) else plan_view p i)"
  by (auto simp: plan_view_def delete_id_from_plan_def)

lemma delete_id_check [simp]: "p_check_cycle (delete_id_from_plan status j p) = p_check_cycle p"
  by (simp add: delete_id_from_plan_def)

lemma delete_ids_view:
  "plan_view (delete_ids_from_plan ids status p) i =
     (if i \<in> set ids then (Some status, None, False, map_of (p_check_cycle p) i \<noteq> None, False, False, None) else plan_view p i)"
  unfolding delete_ids_from_plan_def
  by (induction ids arbitrary: p) (auto simp: delete_id_view)

lemma keys_map_of: "i \<in> set (map fst m) \<longleftrightarrow> map_of m i \<noteq> None"
  by (simp only: set_map in_keys_iff)

lemma plan_view_fields:
  assumes "plan_view p i = (r, ip, ir, cc, dp, dr, ch)"
  shows "map_of (p_results p) i = r" and "map_of (p_insert_pending p) i = ip" and "map_of (p_insert_relation p) i \<noteq> None \<longleftrightarrow> ir"
    and "map_of (p_check_cycle p) i \<noteq> None \<longleftrightarrow> cc" and "map_of (p_delete_pending p) i \<noteq> None \<longleftrightarrow> dp"
    and "map_of (p_delete_relation p) i \<noteq> None \<longleftrightarrow> dr" and "map_of (p_changed p) i = ch"
  using assms by (simp_all add: plan_view_def)

lemma cycles_view:
  "plan_view (perform_cycles_checking d parent p) i =
     (if map_of (p_check_cycle p) i \<noteq> None \<and>
         (\<exists>r \<in> set (db_groups_ancestors d). ga_ancestor r = i \<and> ga_child r = parent)
      then (Some Cycle, None, False, True, False, False, None) else plan_view p i)"
proof (cases "map fst (p_check_cycle p) = []")
  case True
  then show ?thesis by (simp add: perform_cycles_checking_def)
next
  case False
  let ?keys = "set (map fst (p_check_cycle p))"
  let ?cyc = "[ga_ancestor r. r \<leftarrow> db_groups_ancestors d, ga_child r = parent \<and> ga_ancestor r \<in> ?keys]"
  have "i \<in> set ?cyc \<longleftrightarrow> (\<exists>r \<in> set (db_groups_ancestors d). ga_ancestor r = i \<and> ga_child r = parent) \<and> i \<in> ?keys"
    unfolding concat_map_if by auto
  then show ?thesis
    using False unfolding perform_cycles_checking_def Let_def if_not_P [OF False] delete_ids_view keys_map_of
    by (simp only: split: if_splits) blast
qed

lemma max_size_cases:
  "enforce_max_size d action parent li p = p \<or>
   enforce_max_size d action parent li p = delete_ids_from_plan (map fst (p_changed p)) Full p"
  by (simp add: enforce_max_size_def Let_def)

lemma max_size_view:
  "plan_view (enforce_max_size d action parent li p) i = plan_view p i \<or>
   map_of (p_changed p) i \<noteq> None \<and>
   plan_view (enforce_max_size d action parent li p) i =
     (Some Full, None, False, map_of (p_check_cycle p) i \<noteq> None, False, False, None)"
  using max_size_cases [of d action parent li p]
proof
  assume "enforce_max_size d action parent li p = delete_ids_from_plan (map fst (p_changed p)) Full p"
  then show ?thesis
    by (simp only: delete_ids_view keys_map_of) (simp split: if_split)
qed simp

text \<open>Summing up: a child follows its decision or is taken out of the plan.\<close>

lemma final_plan_view:
  assumes "i \<in> set children" and old: "old = get_state (old_actions_map d parent children) i"
  shows "plan_view (transition_plan action parent children approvals g d) i =
       decision_view (si_action old) (decision parent old (group_limits (db_now d) g) (get_approvals approvals i) action i) \<or>
     (\<exists>res cc. res \<in> {Cycle, Full} \<and>
        plan_view (transition_plan action parent children approvals g d) i = (Some res, None, False, cc, False, False, None))"
proof -
  let ?p0 = "build_transitions_plan parent children (old_actions_map d parent children) (group_limits (db_now d) g) approvals action"
  let ?p1 = "perform_cycles_checking d parent ?p0"
  have p0: "plan_view ?p0 i = decision_view (si_action old) (decision parent old (group_limits (db_now d) g) (get_approvals approvals i) action i)"
    using assms by (simp add: build_plan_view)
  have p1: "plan_view ?p1 i = plan_view ?p0 i \<or> plan_view ?p1 i = (Some Cycle, None, False, True, False, False, None)"
    unfolding cycles_view [of d parent ?p0] by (simp split: if_split)
  have p2: "transition_plan action parent children approvals g d = enforce_max_size d action parent (group_limits (db_now d) g) ?p1"
    by (simp add: transition_plan_def Let_def)
  define v v1 where "v = plan_view (enforce_max_size d action parent (group_limits (db_now d) g) ?p1) i" and "v1 = plan_view ?p1 i"
  then have "v = v1 \<or> (\<exists>cc. v = (Some Full, None, False, cc, False, False, None))"
    using max_size_view [of d action parent "group_limits (db_now d) g" ?p1 i] by (simp only:) blast
  then show ?thesis
    using p1 unfolding p2 p0 v_def [symmetric] v1_def [symmetric] by blast
qed

lemma final_plan_view_other:
  assumes "i \<notin> set children"
  shows "plan_view (transition_plan action parent children approvals g d) i = (None, None, False, False, False, False, None)"
proof -
  let ?p0 = "build_transitions_plan parent children (old_actions_map d parent children) (group_limits (db_now d) g) approvals action"
  let ?p1 = "perform_cycles_checking d parent ?p0"
  have p0: "plan_view ?p0 i = (None, None, False, False, False, False, None)"
    using assms by (simp add: build_plan_view)
  with plan_view_fields(4) [OF p0] have p1: "plan_view ?p1 i = (None, None, False, False, False, False, None)"
    unfolding cycles_view [of d parent ?p0] by simp
  show ?thesis
    using max_size_view [of d action parent "group_limits (db_now d) g" ?p1 i] plan_view_fields(7) [OF p1]
    unfolding transition_plan_def Let_def p1 by blast
qed

section \<open>The writes, pair by pair\<close>

lemma groups_create_new_ancestors_frame:
  assumes "groups_create_new_ancestors d = Inr d'"
  shows "db_groups_groups d' = db_groups_groups d" "db_pending d' = db_pending d" "db_now d' = db_now d"
    "db_groups d' = db_groups d" "db_changes d' = db_changes d"
  using assms by (auto simp: groups_create_new_ancestors_def split: sum.splits)

lemma delete_pending_effect [db_simps]:
  "db_groups_groups (delete_pending parent p d) = db_groups_groups d"
  "db_now (delete_pending parent p d) = db_now d"
  "db_groups (delete_pending parent p d) = db_groups d"
  "db_changes (delete_pending parent p d) = db_changes d"
  "tbl_find pr_key (q, c) (db_pending (delete_pending parent p d)) =
     (if q = parent \<and> map_of (p_delete_pending p) c \<noteq> None then None else tbl_find pr_key (q, c) (db_pending d))"
  "tbl_unique pr_key (db_pending d) \<Longrightarrow> tbl_unique pr_key (db_pending (delete_pending parent p d))"
proof -
  let ?ids = "map fst (p_delete_pending p)"
  have found: "tbl_find pr_key (q, c) (tbl_delete (\<lambda>r. pr_group r = parent \<and> pr_member r \<in> set ?ids) (db_pending d)) =
     (if q = parent \<and> c \<in> set ?ids then None else tbl_find pr_key (q, c) (db_pending d))"
    using tbl_find_delete_key [where key = pr_key and k = "(q, c)" and Q = "\<lambda>k. fst k = parent \<and> snd k \<in> set ?ids"]
    by (simp add: pr_key_def)
  have "tbl_find pr_key (q, c) (db_pending (delete_pending parent p d)) =
     (if q = parent \<and> c \<in> set ?ids then None else tbl_find pr_key (q, c) (db_pending d))"
    using found by (cases "?ids = []") (simp_all add: delete_pending_def delete_pending_rows_def)
  then show "tbl_find pr_key (q, c) (db_pending (delete_pending parent p d)) =
     (if q = parent \<and> map_of (p_delete_pending p) c \<noteq> None then None else tbl_find pr_key (q, c) (db_pending d))"
    by (simp only: keys_map_of)
qed (auto simp: delete_pending_def Let_def delete_pending_rows_def)

lemma delete_relations_effect [db_simps]:
  "db_pending (fst (delete_relations parent li p d)) = db_pending d"
  "db_now (fst (delete_relations parent li p d)) = db_now d"
  "db_groups (fst (delete_relations parent li p d)) = db_groups d"
  "db_changes (fst (delete_relations parent li p d)) = db_changes d"
  "tbl_find gg_key (q, c) (db_groups_groups (fst (delete_relations parent li p d))) =
     (if q = parent \<and> map_of (p_delete_relation p) c \<noteq> None then None else tbl_find gg_key (q, c) (db_groups_groups d))"
  "tbl_unique gg_key (db_groups_groups d) \<Longrightarrow> tbl_unique gg_key (db_groups_groups (fst (delete_relations parent li p d)))"
proof -
  let ?ids = "map fst (p_delete_relation p)"
  let ?P = "\<lambda>r. gg_parent r = parent \<and> gg_child r \<in> set ?ids"
  have tables: "db_groups_groups (fst (delete_relations parent li p d)) =
      (if ?ids = [] then db_groups_groups d else tbl_delete ?P (db_groups_groups d))"
    by (simp add: delete_relations_def Let_def case_prod_beta db_simps)
  have found: "tbl_find gg_key (q, c) (tbl_delete ?P (db_groups_groups d)) =
     (if q = parent \<and> c \<in> set ?ids then None else tbl_find gg_key (q, c) (db_groups_groups d))"
    using tbl_find_delete_key [where key = gg_key and k = "(q, c)" and Q = "\<lambda>k. fst k = parent \<and> snd k \<in> set ?ids"]
    by (simp add: gg_key_def)
  have "tbl_find gg_key (q, c) (db_groups_groups (fst (delete_relations parent li p d))) =
     (if q = parent \<and> c \<in> set ?ids then None else tbl_find gg_key (q, c) (db_groups_groups d))"
    using found unfolding tables by (cases "?ids = []") simp_all
  then show "tbl_find gg_key (q, c) (db_groups_groups (fst (delete_relations parent li p d))) =
     (if q = parent \<and> map_of (p_delete_relation p) c \<noteq> None then None else tbl_find gg_key (q, c) (db_groups_groups d))"
    by (simp only: keys_map_of)
  show "tbl_unique gg_key (db_groups_groups d) \<Longrightarrow> tbl_unique gg_key (db_groups_groups (fst (delete_relations parent li p d)))"
    unfolding tables by auto
qed (simp_all add: delete_relations_def Let_def case_prod_beta db_simps)

text \<open>Inserting the pending rows.\<close>

lemma insert_group_pending_request_effect:
  assumes "insert_group_pending_request parent approvals (i, a) d = Inr d'"
  shows "db_groups_groups d' = db_groups_groups d" "db_now d' = db_now d" "db_groups d' = db_groups d" "db_changes d' = db_changes d"
    and "pending_pair d' q c = (if q = parent \<and> c = i then (case pending_type_of a of Inl _ \<Rightarrow> None | Inr t \<Rightarrow> Some t) else pending_pair d q c)"
    and "tbl_unique pr_key (db_pending d) \<Longrightarrow> tbl_unique pr_key (db_pending d')"
  using assms
  by (auto simp: insert_group_pending_request_def insert_pending_def Let_def tbl_unique_append pending_pair_def
      tbl_find_append_new tbl_has_find pr_key_def split: sum.splits if_splits option.splits)

lemma insert_pending_rows_effect:
  assumes "fold_result (insert_group_pending_request parent approvals) ias d = Inr d'" and "distinct (map fst ias)"
  shows "db_groups_groups d' = db_groups_groups d \<and> db_now d' = db_now d \<and> db_groups d' = db_groups d \<and> db_changes d' = db_changes d \<and>
    pending_pair d' q c = (case (if q = parent then map_of ias c else None) of
        None \<Rightarrow> pending_pair d q c
      | Some a \<Rightarrow> (case pending_type_of a of Inl _ \<Rightarrow> None | Inr t \<Rightarrow> Some t)) \<and>
    (tbl_unique pr_key (db_pending d) \<longrightarrow> tbl_unique pr_key (db_pending d'))"
  using assms
proof (induction ias arbitrary: d)
  case Nil
  then show ?case by simp
next
  case (Cons ia ias)
  obtain i a where ia: "ia = (i, a)" by (cases ia)
  with Cons.prems obtain d1 where d1: "insert_group_pending_request parent approvals (i, a) d = Inr d1"
      and rest: "fold_result (insert_group_pending_request parent approvals) ias d1 = Inr d'"
    by (auto split: sum.splits)
  have new: "map_of ias i = None"
    using Cons.prems(2) ia by (simp add: map_of_eq_None_iff)
  show ?case
    using Cons.IH [OF rest] Cons.prems(2) insert_group_pending_request_effect [OF d1] new
    by (auto simp: ia split: option.splits)
qed

text \<open>Inserting the relations.\<close>

lemma upsert_groups_groups_effect:
  assumes "upsert_groups_groups r d = Inr d'"
  shows "db_pending d' = db_pending d" "db_now d' = db_now d" "db_groups d' = db_groups d" "db_changes d' = db_changes d"
    and "tbl_find gg_key k (db_groups_groups d') =
       (if k = gg_key r
        then (case tbl_find gg_key k (db_groups_groups d) of
                None \<Rightarrow> Some (r\<lparr>gg_is_team_membership := (map_option g_type (group_by_id d (gg_parent r)) = Some Team)\<rparr>)
              | Some x \<Rightarrow> Some (set_gg_expires max_time x))
        else tbl_find gg_key k (db_groups_groups d))"
    and "tbl_unique gg_key (db_groups_groups d) \<Longrightarrow> tbl_unique gg_key (db_groups_groups d')"
  using assms
  by (auto simp: upsert_groups_groups_def upsert_groups_groups_until_def Let_def mark_group_todo_def gg.upsert_find gg.upsert_unique gg_key_def
      split: option.splits if_splits)

lemma insert_relation_effect:
  assumes "insert_relation parent olds approvals i d = Inr d'"
  shows "db_pending d' = db_pending d" "db_now d' = db_now d" "db_groups d' = db_groups d" "db_changes d' = db_changes d"
    and "(q, c) \<noteq> (parent, i) \<Longrightarrow> tbl_find gg_key (q, c) (db_groups_groups d') = tbl_find gg_key (q, c) (db_groups_groups d)"
    and "\<exists>r. tbl_find gg_key (parent, i) (db_groups_groups d') = Some r \<and> gg_expires_at r = max_time"
    and "tbl_unique gg_key (db_groups_groups d) \<Longrightarrow> tbl_unique gg_key (db_groups_groups d')"
  using assms unfolding insert_relation_def
  by (auto dest: upsert_groups_groups_effect simp: upsert_groups_groups_effect(5) gg_key_def set_gg_expires_def
      split: prod.splits option.splits)

lemma insert_relation_rows_effect:
  assumes "fold_result (insert_relation parent olds approvals) ids d = Inr d'"
  shows "db_pending d' = db_pending d \<and> db_now d' = db_now d \<and> db_groups d' = db_groups d \<and> db_changes d' = db_changes d \<and>
    (q = parent \<and> c \<in> set ids \<longrightarrow> (\<exists>r. tbl_find gg_key (q, c) (db_groups_groups d') = Some r \<and> gg_expires_at r = max_time)) \<and>
    (\<not> (q = parent \<and> c \<in> set ids) \<longrightarrow> tbl_find gg_key (q, c) (db_groups_groups d') = tbl_find gg_key (q, c) (db_groups_groups d)) \<and>
    (tbl_unique gg_key (db_groups_groups d) \<longrightarrow> tbl_unique gg_key (db_groups_groups d'))"
  using assms
proof (induction ids arbitrary: d)
  case Nil
  then show ?case by simp
next
  case (Cons i ids)
  then obtain d1 where d1: "insert_relation parent olds approvals i d = Inr d1"
      and rest: "fold_result (insert_relation parent olds approvals) ids d1 = Inr d'"
    by (auto split: sum.splits)
  note e = insert_relation_effect [OF d1]
  show ?case
  proof (cases "q = parent \<and> c = i \<and> c \<notin> set ids")
    case True
    with Cons.IH [OF rest] e show ?thesis by auto
  next
    case False
    with Cons.IH [OF rest] e show ?thesis by auto
  qed
qed

end
