(* ===== verification/MembershipSpec.thy ===== *)
theory MembershipSpec
  imports Membership
begin

text \<open>
  The contract of \<open>GroupGroupStore.Transition\<close>: after a successful call every pair of groups is in the
  state the transition rules prescribe (\<open>transition_refines\<close>), a failed call can only stem from a missing group,
  and no reachable database holds a member with a pending invitation or join request.
\<close>

section \<open>The keys of a plan\<close>

definition plan_keys_ok :: "plan \<Rightarrow> bool" where
  "plan_keys_ok p = (distinct (map fst (p_insert_pending p)) \<and> distinct (map fst (p_changed p)))"

lemma build_one_transition_keys [plan_simps]: "plan_keys_ok p \<Longrightarrow> plan_keys_ok (build_one_transition i old to p)"
  by (simp add: plan_keys_ok_def build_one_transition_def distinct_update)

lemma plan_keys_ok_results [plan_simps]:
  "plan_keys_ok (p\<lparr>p_results := r\<rparr>) \<longleftrightarrow> plan_keys_ok p"
  "plan_keys_ok (p\<lparr>p_results := r, p_approvals_to_request := q\<rparr>) \<longleftrightarrow> plan_keys_ok p"
  by (simp_all add: plan_keys_ok_def)

lemma plan_child_keys: "plan_keys_ok p \<Longrightarrow> plan_keys_ok (plan_child parent olds li approvals action i p)"
  unfolding plan_child_def Let_def
  by (simp add: plan_simps split: option.split prod.split)

lemma build_plan_keys: "plan_keys_ok (build_transitions_plan parent children olds li approvals action)"
  unfolding build_transitions_plan_def
  by (rule fold_invariant) (simp_all add: plan_child_keys, simp add: plan_keys_ok_def empty_plan_def)

lemma delete_id_keys: "plan_keys_ok p \<Longrightarrow> plan_keys_ok (delete_id_from_plan status i p)"
  by (simp add: plan_keys_ok_def delete_id_from_plan_def distinct_delete)

lemma delete_ids_keys: "plan_keys_ok p \<Longrightarrow> plan_keys_ok (delete_ids_from_plan ids status p)"
  unfolding delete_ids_from_plan_def by (rule fold_invariant) (simp_all add: delete_id_keys)

lemma transition_plan_keys: "plan_keys_ok (transition_plan action parent children approvals g d)"
  unfolding transition_plan_def perform_cycles_checking_def enforce_max_size_def Let_def
  by (simp add: build_plan_keys delete_ids_keys)

section \<open>The writes on the abstract state\<close>

lemma active_pair_expires:
  "tbl_unique gg_key (db_groups_groups d) \<Longrightarrow>
   active_pair d q c \<longleftrightarrow> (\<exists>r. tbl_find gg_key (q, c) (db_groups_groups d) = Some r \<and> db_now d < gg_expires_at r)"
  unfolding active_pair_def by (simp add: tbl_find_in_iff) (auto simp: gg_key_def)

lemma insert_relations_effect:
  assumes "insert_relations parent li olds approvals p d = Inr (d', anc, results)"
  shows "db_pending d' = db_pending d \<and> db_now d' = db_now d \<and> db_groups d' = db_groups d \<and> db_changes d' = db_changes d \<and>
    (q = parent \<and> map_of (p_insert_relation p) c \<noteq> None \<longrightarrow>
       (\<exists>r. tbl_find gg_key (q, c) (db_groups_groups d') = Some r \<and> gg_expires_at r = max_time)) \<and>
    (\<not> (q = parent \<and> map_of (p_insert_relation p) c \<noteq> None) \<longrightarrow>
       tbl_find gg_key (q, c) (db_groups_groups d') = tbl_find gg_key (q, c) (db_groups_groups d)) \<and>
    (tbl_unique gg_key (db_groups_groups d) \<longrightarrow> tbl_unique gg_key (db_groups_groups d'))"
proof (cases "map fst (p_insert_relation p) = []")
  case True
  moreover from this have "map_of (p_insert_relation p) c = None" by (simp add: map_of_eq_None_iff)
  ultimately show ?thesis using assms by (simp add: insert_relations_def)
next
  case False
  then obtain d1 where d1: "fold_result (insert_relation parent olds approvals) (map fst (p_insert_relation p)) d = Inr d1"
      and "d' = d1"
    using assms by (auto simp: insert_relations_def Let_def split: sum.splits)
  show ?thesis
    using insert_relation_rows_effect [OF d1, of q c] unfolding keys_map_of \<open>d' = d1\<close> .
qed

lemma changes_frame [db_simps]:
  "db_groups_groups (insert_membership_changes parent by p d) = db_groups_groups d"
  "db_pending (insert_membership_changes parent by p d) = db_pending d"
  "db_now (insert_membership_changes parent by p d) = db_now d"
  "db_groups (insert_membership_changes parent by p d) = db_groups d"
  by (simp_all add: insert_membership_changes_def)

lemma pending_pair_cong: "db_pending d' = db_pending d \<Longrightarrow> pending_pair d' q c = pending_pair d q c"
  by (simp add: pending_pair_def)

definition written_pending :: "plan \<Rightarrow> id \<Rightarrow> pending_type option \<Rightarrow> pending_type option" where
  "written_pending p c old =
     (case map_of (p_insert_pending p) c of
        Some a \<Rightarrow> (case pending_type_of a of Inl _ \<Rightarrow> None | Inr t \<Rightarrow> Some t)
      | None \<Rightarrow> if map_of (p_delete_pending p) c \<noteq> None then None else old)"

definition written_active :: "plan \<Rightarrow> id \<Rightarrow> bool \<Rightarrow> bool" where
  "written_active p c old =
     (map_of (p_insert_relation p) c \<noteq> None \<or> old \<and> map_of (p_delete_relation p) c = None)"

lemma transition_writes_steps:
  assumes "transition_writes parent by li olds approvals p d = Inr d'"
  obtains d1 d2 d3 anc results
  where "d1 = fst (delete_relations parent li p (delete_pending parent p d))"
    and "insert_group_pending_requests parent approvals p d1 = Inr d2"
    and "insert_relations parent li olds approvals p d2 = Inr (d3, anc, results)"
    and "db_groups_groups d' = db_groups_groups d3" and "db_pending d' = db_pending d3"
    and "db_now d' = db_now d3" and "db_groups d' = db_groups d3"
    and "db_changes d' = db_changes (insert_membership_changes parent by p d3)"
proof -
  obtain d1 anc1 perm where del: "delete_relations parent li p (delete_pending parent p d) = (d1, anc1, perm)"
    by (cases "delete_relations parent li p (delete_pending parent p d)")
  from assms del obtain d2 where d2: "insert_group_pending_requests parent approvals p d1 = Inr d2"
    by (auto simp: transition_writes_def split: sum.splits)
  from assms del d2 obtain d3 anc2 results where d3: "insert_relations parent li olds approvals p d2 = Inr (d3, anc2, results)"
    by (auto simp: transition_writes_def split: sum.splits)
  define d4 where "d4 = insert_membership_changes parent by p d3"
  obtain d5 where d5: "(if anc1 \<or> anc2 then groups_create_new_ancestors d4 else Inr d4) = Inr d5"
      and d': "d' = (let d6 = (if perm then schedule_permissions_propagation d5 else d5)
                     in if results then schedule_results_propagation d6 else d6)"
    using assms del d2 d3 d4_def by (auto simp: transition_writes_def Let_def split: sum.splits)
  have "db_groups_groups d5 = db_groups_groups d4" "db_pending d5 = db_pending d4" "db_now d5 = db_now d4"
       "db_groups d5 = db_groups d4" "db_changes d5 = db_changes d4"
    using d5 groups_create_new_ancestors_frame [of d4 d5] by (auto split: if_splits)
  then show ?thesis
    by (intro that [OF _ d2 d3]) (simp_all add: del d' Let_def d4_def db_simps)
qed

lemma transition_writes_pairs:
  assumes run: "transition_writes parent by li olds approvals p d = Inr d'"
    and keys: "keys_ok d" "plan_keys_ok p" and now: "db_now d < max_time"
  shows "keys_ok d'" and "db_now d' = db_now d" and "db_groups d' = db_groups d"
    and "active_pair d' q c = (if q = parent then written_active p c (active_pair d q c) else active_pair d q c)"
    and "pending_pair d' q c = (if q = parent then written_pending p c (pending_pair d q c) else pending_pair d q c)"
proof -
  from run obtain d1 d2 d3 anc results
    where d1: "d1 = fst (delete_relations parent li p (delete_pending parent p d))"
    and d2: "fold_result (insert_group_pending_request parent approvals) (p_insert_pending p) d1 = Inr d2"
    and d3: "insert_relations parent li olds approvals p d2 = Inr (d3, anc, results)"
    and same: "db_groups_groups d' = db_groups_groups d3" "db_pending d' = db_pending d3"
      "db_now d' = db_now d3" "db_groups d' = db_groups d3"
    by (rule transition_writes_steps) (simp add: insert_group_pending_requests_def)
  have u: "tbl_unique gg_key (db_groups_groups d)" "tbl_unique pr_key (db_pending d)"
    using keys by (simp_all add: keys_ok_def)
  note e3 = insert_relations_effect [OF d3]
  have dist: "distinct (map fst (p_insert_pending p))" using keys by (simp add: plan_keys_ok_def)
  note e2 = insert_pending_rows_effect [OF d2 dist]
  show k: "keys_ok d'"
    using u e2 e3 by (simp add: keys_ok_def same d1 db_simps)
  show now': "db_now d' = db_now d" and "db_groups d' = db_groups d"
    using e2 e3 by (simp_all add: same d1 db_simps)
  have u': "tbl_unique gg_key (db_groups_groups d')" using k by (simp add: keys_ok_def)
  have del: "tbl_find gg_key (q, c) (db_groups_groups d2) =
      (if q = parent \<and> map_of (p_delete_relation p) c \<noteq> None then None else tbl_find gg_key (q, c) (db_groups_groups d))"
    using e2 by (cases "map_of (p_delete_relation p) c") (simp_all add: d1 db_simps)
  show "active_pair d' q c = (if q = parent then written_active p c (active_pair d q c) else active_pair d q c)"
  proof (cases "q = parent \<and> map_of (p_insert_relation p) c \<noteq> None")
    case True
    with e3 [of q c] obtain r where "tbl_find gg_key (q, c) (db_groups_groups d') = Some r" "gg_expires_at r = max_time"
      unfolding same by blast
    with True now show ?thesis
      by (simp add: active_pair_expires [OF u'] now' written_active_def)
  next
    case False
    with e3 [of q c] have "tbl_find gg_key (q, c) (db_groups_groups d') = tbl_find gg_key (q, c) (db_groups_groups d2)"
      unfolding same by blast
    with False del show ?thesis
      by (auto simp: active_pair_expires [OF u'] active_pair_expires [OF u(1)] now' written_active_def)
  qed
  have "pending_pair d1 q c = (if q = parent \<and> map_of (p_delete_pending p) c \<noteq> None then None else pending_pair d q c)"
    by (cases "map_of (p_delete_pending p) c") (simp_all add: pending_pair_def d1 db_simps)
  with e2 [of q c] e3 [of q c] show "pending_pair d' q c = (if q = parent then written_pending p c (pending_pair d q c) else pending_pair d q c)"
    by (cases "q = parent"; cases "map_of (p_delete_pending p) c")
       (simp_all add: pending_pair_cong [of d' d3] pending_pair_cong [of d3 d2] same written_pending_def split: option.split)
qed

section \<open>The refinement\<close>

text \<open>The state of a pair after it followed a transition to the given action.\<close>

fun settle :: "membership_action \<Rightarrow> membership_action" where
  "settle InvitationCreated = InvitationCreated"
| "settle JoinRequestCreated = JoinRequestCreated"
| "settle LeaveRequestCreated = LeaveRequestCreated"
| "settle a = (if is_active a then IsMember else NoRelation)"

lemma rules_known: "map_of (rule_transitions action) old = Some to \<Longrightarrow>
    (\<forall>s. old \<noteq> UnknownAction s) \<and> to \<noteq> LeaveRequestExpired \<and> (\<forall>s. to \<noteq> UnknownAction s)"
  by (cases action) (auto split: if_splits)

lemma downgrade_known: "rule_downgrade action \<noteq> LeaveRequestExpired \<and> rule_downgrade action \<noteq> UnknownAction s"
  by (cases action) simp_all

lemma decision_Success:
  assumes "decision parent old li given action i = (Success, to)"
  shows "to \<noteq> si_action old" and "to \<noteq> LeaveRequestExpired" and "si_action old \<noteq> UnknownAction s" and "i \<noteq> parent"
    and "map_of (rule_transitions action) (si_action old) \<noteq> None"
  using assms rules_known [of action "si_action old"] downgrade_known [of action s]
  by (auto simp: decision_def outcome_def split: if_splits option.splits)

lemma combine_known:
  "combine a p \<noteq> UnknownAction ''is_member,invitation_created'' \<Longrightarrow> combine a p \<noteq> UnknownAction ''is_member,join_request_created''
    \<Longrightarrow> is_active (combine a p) = a \<and> (is_pending (combine a p) \<longleftrightarrow> p \<noteq> None)"
  by (cases "(a, p)" rule: combine.cases) simp_all

lemma combine_settle:
  "to \<noteq> LeaveRequestExpired \<Longrightarrow>
   combine (is_active to) (if is_pending to then (case pending_type_of to of Inl _ \<Rightarrow> None | Inr t \<Rightarrow> Some t) else None) = settle to"
  by (cases to) simp_all

lemma written_success:
  assumes view: "plan_view p c = decision_view old (Success, to)" and old: "old = combine a pt"
    and known: "\<And>s. old \<noteq> UnknownAction s" and to: "to \<noteq> LeaveRequestExpired"
  shows "combine (written_active p c a) (written_pending p c pt) = settle to"
proof -
  have a: "is_active old = a" and pt: "is_pending old \<longleftrightarrow> pt \<noteq> None"
    using combine_known [of a pt] known old by auto
  have "written_active p c a = is_active to"
    using view a by (auto simp: plan_view_def decision_view_def written_active_def)
  moreover have "written_pending p c pt =
      (if is_pending to then (case pending_type_of to of Inl _ \<Rightarrow> None | Inr t \<Rightarrow> Some t) else None)"
    using view pt by (cases "pt") (auto simp: plan_view_def decision_view_def written_pending_def)
  ultimately show ?thesis
    using combine_settle [OF to] by simp
qed

lemma written_nothing:
  assumes "plan_view p c = (r, None, False, cc, False, False, None)"
  shows "written_active p c a = a" and "written_pending p c pt = pt"
  using assms by (auto simp: plan_view_def written_active_def written_pending_def)

lemma decision_view_failed: "res \<noteq> Success \<Longrightarrow> decision_view old (res, to) = (Some res, None, False, False, False, False, None)"
  by (simp add: decision_view_def)

definition state_of :: "db \<Rightarrow> id \<Rightarrow> id \<Rightarrow> state_info" where
  "state_of d parent child = (case old_state d parent child of None \<Rightarrow> zero_state | Some s \<Rightarrow> s)"

lemma get_state_of: "c \<in> set children \<Longrightarrow> get_state (old_actions_map d parent children) c = state_of d parent c"
  using get_state_action [of c children d parent]
proof (cases "old_state d parent c")
  case None
  assume "c \<in> set children"
  moreover have "map_of (concat (map (\<lambda>c. map (\<lambda>s. (c, s)) (case old_state d parent c of None \<Rightarrow> [] | Some s \<Rightarrow> [s])) xs)) c = None" for xs
    using None by (induction xs) (auto split: option.splits)
  ultimately show ?thesis using None by (simp add: get_state_def state_of_def old_actions_map_def)
next
  case (Some s)
  assume "c \<in> set children"
  with Some get_state_action(2) show ?thesis by (simp add: state_of_def)
qed

lemma state_of_action: "si_action (state_of d parent c) = membership d parent c"
  by (simp add: state_of_def membership_def zero_state_def split: option.split)

definition child_decision ::
  "transition_action \<Rightarrow> id \<Rightarrow> (id, group_approvals) gomap \<Rightarrow> group_row \<Rightarrow> db \<Rightarrow> id \<Rightarrow> transition_result \<times> membership_action" where
  "child_decision action parent approvals g d c =
     decision parent (state_of d parent c) (group_limits (db_now d) g) (get_approvals approvals c) action c"

text \<open>Every child of a final plan is in one of three cases.\<close>

lemma plan_cases:
  assumes "p = transition_plan action parent children approvals g d"
  obtains (follows) to where "c \<in> set children" "child_decision action parent approvals g d c = (Success, to)"
      "plan_view p c = decision_view (membership d parent c) (Success, to)"
  | (refused) res to where "c \<in> set children" "child_decision action parent approvals g d c = (res, to)" "res \<noteq> Success"
      "plan_view p c = (Some res, None, False, False, False, False, None)"
  | (dropped) res cc where "c \<in> set children" "res \<in> {Cycle, Full}" "plan_view p c = (Some res, None, False, cc, False, False, None)"
  | (foreign) "c \<notin> set children" "plan_view p c = (None, None, False, False, False, False, None)"
proof (cases "c \<in> set children")
  case True
  obtain res to where dec: "child_decision action parent approvals g d c = (res, to)"
    by (cases "child_decision action parent approvals g d c")
  have "plan_view p c = decision_view (membership d parent c) (res, to) \<or>
     (\<exists>res cc. res \<in> {Cycle, Full} \<and> plan_view p c = (Some res, None, False, cc, False, False, None))"
    using final_plan_view [OF True get_state_of [OF True, symmetric, where d = d and parent = parent], where action = action and approvals = approvals and g = g] dec
    by (simp add: child_decision_def assms state_of_action)
  then show thesis
    using True dec that(1-3) decision_view_failed [of res] by (cases "res = Success") auto
next
  case False
  with that(4) final_plan_view_other show thesis by (simp add: assms)
qed

lemma transition_run:
  assumes "transition action parent children approvals by d = Inr (results, requests, d')"
  obtains g p where "group_by_id d parent = Some g" and "p = transition_plan action parent children approvals g d"
    and "transition_writes parent by (group_limits (db_now d) g) (old_actions_map d parent children) approvals p d = Inr d'"
    and "results = p_results p" and "requests = p_approvals_to_request p"
  using assms by (auto simp: transition_def Let_def split: option.splits sum.splits)

lemma transition_refinement:
  assumes run: "transition action parent children approvals by d = Inr (results, requests, d')"
    and keys: "keys_ok d" and now: "db_now d < max_time" and g: "group_by_id d parent = Some g"
  shows "keys_ok d' \<and> db_now d' = db_now d \<and>
    membership d' q c =
      (if q = parent \<and> map_of results c = Some Success
       then settle (snd (child_decision action parent approvals g d c)) else membership d q c)"
proof -
  from run obtain p where p: "p = transition_plan action parent children approvals g d"
    and w: "transition_writes parent by (group_limits (db_now d) g) (old_actions_map d parent children) approvals p d = Inr d'"
    and res: "results = p_results p"
    by (rule transition_run) (use g in auto)
  have pk: "plan_keys_ok p" unfolding p by (rule transition_plan_keys)
  note e = transition_writes_pairs [OF w keys pk now]
  have m: "membership d' q c = combine (active_pair d' q c) (pending_pair d' q c)"
    and m0: "membership d q c = combine (active_pair d q c) (pending_pair d q c)"
    using membership_combine e(1) keys by simp_all
  have "membership d' q c = (if q = parent \<and> map_of results c = Some Success
       then settle (snd (child_decision action parent approvals g d c)) else membership d q c)"
  proof (cases "q = parent")
    case False
    with e(4,5) [of q c] show ?thesis by (simp add: m m0)
  next
    case True
    note e' = e(4,5) [of parent c] and m = m [unfolded True] and m0 = m0 [unfolded True]
    show ?thesis
    proof (cases rule: plan_cases [OF p, of c, case_names follows refused dropped foreign])
      case (follows to)
      have "map_of results c = Some Success" using follows(3) by (simp add: res plan_view_def decision_view_def)
      moreover have "combine (written_active p c (active_pair d parent c)) (written_pending p c (pending_pair d parent c)) = settle to"
        using written_success [OF follows(3)] m0 True decision_Success [OF follows(2) [unfolded child_decision_def]]
        by (simp add: state_of_action)
      ultimately show ?thesis using True follows(2) e' by (simp add: m)
    next
      case (refused res' to)
      then have "map_of results c = Some res'" by (simp add: res plan_view_def)
      with refused e' written_nothing [OF refused(4)] True show ?thesis by (simp add: m m0)
    next
      case (dropped res' cc)
      then have "map_of results c = Some res'" by (simp add: res plan_view_def)
      with dropped e' written_nothing [OF dropped(3)] True show ?thesis by (auto simp: m m0)
    next
      case foreign
      then have "map_of results c = None" by (simp add: res plan_view_def)
      with foreign e' written_nothing [OF foreign(2)] True show ?thesis by (simp add: m m0)
    qed
  qed
  with e(1,2) show ?thesis by simp
qed

text \<open>
  C1: a successful transition changes exactly the children whose result is Success, and takes each of them to the
  state its rule (or the downgrade of the rule, where approvals are missing) prescribes; every other pair
  of groups keeps its state, and the primary keys stay unique.
\<close>

theorem transition_refines:
  assumes run: "transition action parent children approvals by d = Inr (results, requests, d')"
    and keys: "keys_ok d" and now: "db_now d < max_time" and g: "group_by_id d parent = Some g"
  shows "keys_ok d' \<and> db_now d' = db_now d \<and>
    membership d' q c =
      (if q = parent \<and> map_of results c = Some Success
       then settle (snd (child_decision action parent approvals g d c)) else membership d q c)"
  by (rule transition_refinement [OF assms])

end
