(* ===== verification/MembershipGuarantees.thy ===== *)
theory MembershipGuarantees
  imports MembershipSpec
begin

text \<open>
  What follows from the contract of \<open>Transition\<close> for the callers: the invariant of all reachable databases, the
  possible errors, the approvals of new members, the absence of cycles and the size limit.
\<close>

section \<open>Reachable databases\<close>

definition consistent :: "db \<Rightarrow> bool" where
  "consistent d = (keys_ok d \<and>
     (\<forall>q c. active_pair d q c \<longrightarrow> pending_pair d q c = None \<or> pending_pair d q c = Some LeaveRequest))"

text \<open>A step is a transition at some instant before \<open>max_time\<close>, or the passing of time.\<close>

inductive membership_step :: "db \<Rightarrow> db \<Rightarrow> bool" where
  transit: "transition action parent children approvals by d = Inr (results, requests, d') \<Longrightarrow> db_now d < max_time
     \<Longrightarrow> membership_step d d'"
| tick: "db_now d \<le> t \<Longrightarrow> membership_step d (d\<lparr>db_now := t\<rparr>)"

lemma consistent_known:
  "consistent d \<longleftrightarrow> keys_ok d \<and> (\<forall>q c s. membership d q c \<noteq> UnknownAction s)"
proof -
  have "(active_pair d q c \<longrightarrow> pending_pair d q c = None \<or> pending_pair d q c = Some LeaveRequest)
      \<longleftrightarrow> (\<forall>s. membership d q c \<noteq> UnknownAction s)" if "keys_ok d" for q c
    unfolding membership_combine [OF that]
    by (cases "(active_pair d q c, pending_pair d q c)" rule: combine.cases) simp_all
  then show ?thesis unfolding consistent_def by blast
qed

lemma settle_known: "(\<forall>s. a \<noteq> UnknownAction s) \<Longrightarrow> settle a \<noteq> UnknownAction s"
  by (cases a) simp_all

lemma settle_not_unknown: "settle a \<noteq> UnknownAction s"
  by (cases a) simp_all

lemma step_consistent:
  assumes "membership_step d d'" and "consistent d"
  shows "consistent d'"
  using assms(1)
proof cases
  case (transit action parent children approvals performer results requests)
  from transit(1) obtain g where g: "group_by_id d parent = Some g" by (rule transition_run)
  have "keys_ok d" using assms(2) by (simp add: consistent_def)
  note r = transition_refinement [OF transit(1) this transit(2) g]
  then show ?thesis
    using assms(2) settle_not_unknown unfolding consistent_known by (metis (no_types))
next
  case (tick t)
  have "active_pair d' q c \<Longrightarrow> active_pair d q c" and "pending_pair d' q c = pending_pair d q c" for q c
    using tick by (auto simp: active_pair_def pending_pair_def)
  moreover have "keys_ok d'" using assms(2) tick by (simp add: consistent_def keys_ok_def)
  ultimately show ?thesis using assms(2) unfolding consistent_def by metis
qed

text \<open>
  C21: in every database reachable by transitions and the passing of time from a consistent one, no active member
  of a group has a pending invitation or join request to it, and the keys of both tables are unique.
\<close>

theorem reachable_consistent:
  assumes "membership_step\<^sup>*\<^sup>* d d'" and "consistent d"
  shows "consistent d'"
  using assms by (induction rule: rtranclp_induct) (auto intro: step_consistent)

section \<open>Errors\<close>

lemma insert_pending_rows_succeed:
  assumes "\<forall>(i, a) \<in> set ias. (\<exists>t. pending_type_of a = Inr t) \<and> pending_pair d parent i = None \<and> group_exists d i"
    and "group_exists d parent" and "distinct (map fst ias)"
  shows "\<exists>d'. fold_result (insert_group_pending_request parent approvals) ias d = Inr d'"
  using assms
proof (induction ias arbitrary: d)
  case Nil
  then show ?case by simp
next
  case (Cons ia ias)
  obtain i a where ia: "ia = (i, a)" by (cases ia)
  with Cons.prems obtain t where "pending_type_of a = Inr t" "pending_pair d parent i = None" "group_exists d i"
    by auto
  then obtain d1 where d1: "insert_group_pending_request parent approvals (i, a) d = Inr d1"
    using Cons.prems(2)
    by (auto simp: insert_group_pending_request_def insert_pending_def Let_def pending_pair_def tbl_has_find pr_key_def)
  note e = insert_group_pending_request_effect [OF d1]
  have "\<exists>d'. fold_result (insert_group_pending_request parent approvals) ias d1 = Inr d'"
  proof (rule Cons.IH)
    show "\<forall>(j, b) \<in> set ias. (\<exists>t. pending_type_of b = Inr t) \<and> pending_pair d1 parent j = None \<and> group_exists d1 j"
    proof (intro ballI, clarify)
      fix j b assume jb: "(j, b) \<in> set ias"
      with Cons.prems(3) ia have "j \<noteq> i" by (auto intro: rev_image_eqI)
      with jb Cons.prems(1) e(5) [of parent j] e(3) show "(\<exists>t. pending_type_of b = Inr t) \<and> pending_pair d1 parent j = None \<and> group_exists d1 j"
        by (auto simp: group_exists_def)
    qed
  qed (use Cons.prems e(3) ia in \<open>simp_all add: group_exists_def\<close>)
  then show ?case by (simp add: ia d1)
qed

lemma insert_relation_rows_succeed:
  assumes "\<forall>i \<in> set ids. group_exists d i" and "group_exists d parent"
  shows "\<exists>d'. fold_result (insert_relation parent olds approvals) ids d = Inr d'"
  using assms
proof (induction ids arbitrary: d)
  case Nil
  then show ?case by simp
next
  case (Cons i ids)
  obtain x y z where times: "resolve_approval_times (db_now d) olds approvals i = (x, y, z)"
    by (metis prod_cases3)
  obtain g where "group_by_id d parent = Some g"
    using Cons.prems(2) by (auto simp: group_exists_def group_by_id_def tbl_has_find)
  with times Cons.prems(1) obtain d1 where d1: "insert_relation parent olds approvals i d = Inr d1"
    by (simp add: insert_relation_def upsert_groups_groups_def upsert_groups_groups_until_def Let_def)
  with Cons.IH [of d1] Cons.prems insert_relation_effect(3) [OF d1] show ?case
    by (simp add: group_exists_def)
qed

lemma planned_insertions:
  assumes p: "p = transition_plan action parent children approvals g d"
    and "map_of (p_insert_pending p) c = Some a \<or> map_of (p_insert_relation p) c \<noteq> None"
  obtains to where "c \<in> set children" "child_decision action parent approvals g d c = (Success, to)"
    "plan_view p c = decision_view (membership d parent c) (Success, to)"
proof (cases rule: plan_cases [OF p, of c, case_names follows refused dropped foreign])
  case (follows to)
  with that show ?thesis by blast
qed (use assms(2) in \<open>auto simp: plan_view_def\<close>)

text \<open>Up to the recomputation of the ancestors, no statement of a transition between existing groups fails.\<close>

lemma writes_before_ancestors:
  assumes ok: "consistent d" and g: "group_by_id d parent = Some g" and children: "\<forall>c \<in> set children. group_exists d c"
    and p: "p = transition_plan action parent children approvals g d"
  shows "\<exists>d2 d3 anc results.
    insert_group_pending_requests parent approvals p (fst (delete_relations parent (group_limits (db_now d) g) p (delete_pending parent p d))) = Inr d2 \<and>
    insert_relations parent (group_limits (db_now d) g) (old_actions_map d parent children) approvals p d2 = Inr (d3, anc, results) \<and>
    set (map fst (p_insert_relation p)) \<subseteq> set children"
proof -
  define li olds where "li = group_limits (db_now d) g" and "olds = old_actions_map d parent children"
  define d1 where "d1 = fst (delete_relations parent li p (delete_pending parent p d))"
  have parent: "group_exists d parent" using g by (auto simp: group_exists_def group_by_id_def tbl_has_find)
  have keys: "keys_ok d" and known: "membership d parent c \<noteq> UnknownAction s" for c s
    using ok consistent_known by blast+
  have same: "db_groups d1 = db_groups d" by (simp add: d1_def db_simps)
  have pend1: "pending_pair d1 parent c = (if map_of (p_delete_pending p) c \<noteq> None then None else pending_pair d parent c)" for c
    by (cases "map_of (p_delete_pending p) c") (simp_all add: pending_pair_def d1_def db_simps)
  have "\<exists>d2. insert_group_pending_requests parent approvals p d1 = Inr d2"
    unfolding insert_group_pending_requests_def
  proof (rule insert_pending_rows_succeed)
    show "distinct (map fst (p_insert_pending p))"
      using transition_plan_keys [of action parent children approvals g d] by (simp add: plan_keys_ok_def p)
    show "\<forall>(c, a) \<in> set (p_insert_pending p). (\<exists>t. pending_type_of a = Inr t) \<and> pending_pair d1 parent c = None \<and> group_exists d1 c"
    proof (intro ballI, clarify)
      fix c a assume "(c, a) \<in> set (p_insert_pending p)"
      then have a: "map_of (p_insert_pending p) c = Some a"
        using transition_plan_keys [of action parent children approvals g d] by (simp add: plan_keys_ok_def p)
      then obtain to where c: "c \<in> set children" and dec: "child_decision action parent approvals g d c = (Success, to)"
          and view: "plan_view p c = decision_view (membership d parent c) (Success, to)"
        using planned_insertions [OF p] by blast
      from view a have "a = to" and "is_pending to" and del: "is_pending (membership d parent c) \<longleftrightarrow> map_of (p_delete_pending p) c \<noteq> None"
        by (auto simp: plan_view_def decision_view_def split: if_splits)
      then have "\<exists>t. pending_type_of a = Inr t"
        using decision_Success(2) [OF dec [unfolded child_decision_def]] by (cases a) auto
      moreover have "pending_pair d1 parent c = None"
        using combine_known [of "active_pair d parent c" "pending_pair d parent c"] known [of c] del
        unfolding membership_combine [OF keys] pend1 by auto
      ultimately show "(\<exists>t. pending_type_of a = Inr t) \<and> pending_pair d1 parent c = None \<and> group_exists d1 c"
        using children c same by (simp add: group_exists_def)
    qed
  qed (use parent same in \<open>simp add: group_exists_def\<close>)
  then obtain d2 where d2: "insert_group_pending_requests parent approvals p d1 = Inr d2" by blast
  have same2: "db_groups d2 = db_groups d"
    using insert_pending_rows_effect [OF d2 [unfolded insert_group_pending_requests_def]] same
      transition_plan_keys [of action parent children approvals g d] by (simp add: plan_keys_ok_def p)
  have inserted: "c \<in> set children" if "c \<in> set (map fst (p_insert_relation p))" for c
    using that planned_insertions [OF p] unfolding keys_map_of by blast
  then have "\<forall>c \<in> set (map fst (p_insert_relation p)). group_exists d2 c"
    using children same2 by (simp add: group_exists_def)
  moreover have "group_exists d2 parent" using parent same2 by (simp add: group_exists_def)
  ultimately have "\<exists>d3. fold_result (insert_relation parent olds approvals) (map fst (p_insert_relation p)) d2 = Inr d3"
    by (rule insert_relation_rows_succeed)
  then obtain d3 anc2 results where d3: "insert_relations parent li olds approvals p d2 = Inr (d3, anc2, results)"
    by (cases "map fst (p_insert_relation p) = []") (auto simp: insert_relations_def Let_def)
  with d2 inserted show ?thesis unfolding d1_def li_def olds_def by blast
qed

section \<open>New members\<close>

lemma decision_active:
  assumes "decision parent old li given action i = (Success, to)" and "is_active to" and "\<not> is_active (si_action old)"
  shows "fst (approvals_ok old li given)" and "map_of (rule_transitions action) (si_action old) = Some to"
proof -
  have "\<not> is_active (rule_downgrade action)" by (cases action) simp_all
  with assms show "fst (approvals_ok old li given)" and "map_of (rule_transitions action) (si_action old) = Some to"
    by (auto simp: decision_def outcome_def split: if_splits option.splits)
qed

lemma new_member:
  assumes run: "transition action parent children approvals by d = Inr (results, requests, d')"
    and keys: "keys_ok d" and now: "db_now d < max_time" and g: "group_by_id d parent = Some g"
    and new: "\<not> active_pair d q c" "active_pair d' q c"
  obtains p to where "p = transition_plan action parent children approvals g d" and "results = p_results p"
    and "q = parent" and "c \<in> set children" and "child_decision action parent approvals g d c = (Success, to)"
    and "plan_view p c = decision_view (membership d parent c) (Success, to)"
    and "is_active to" and "\<not> is_active (membership d parent c)"
proof -
  from run obtain p where p: "p = transition_plan action parent children approvals g d"
    and w: "transition_writes parent by (group_limits (db_now d) g) (old_actions_map d parent children) approvals p d = Inr d'"
    and res: "results = p_results p"
    by (rule transition_run) (use g in auto)
  have pk: "plan_keys_ok p" unfolding p by (rule transition_plan_keys)
  from transition_writes_pairs(4) [OF w keys pk now, of q c] new
  have q: "q = parent" and ins: "map_of (p_insert_relation p) c \<noteq> None"
    by (auto simp: written_active_def split: if_splits)
  then obtain to where to: "c \<in> set children" "child_decision action parent approvals g d c = (Success, to)"
      "plan_view p c = decision_view (membership d parent c) (Success, to)"
    using planned_insertions [OF p] by blast
  moreover from to(3) ins have "is_active to" "\<not> is_active (membership d parent c)"
    by (auto simp: plan_view_def decision_view_def)
  ultimately show thesis using that p res q by blast
qed


section \<open>Cycles\<close>

lemma cycle_dropped:
  assumes p: "p = transition_plan action parent children approvals g d"
    and cc: "map_of (p_check_cycle (build_transitions_plan parent children (old_actions_map d parent children)
               (group_limits (db_now d) g) approvals action)) c \<noteq> None"
    and anc: "\<exists>r \<in> set (db_groups_ancestors d). ga_ancestor r = c \<and> ga_child r = parent"
  shows "map_of (p_results p) c \<noteq> Some Success"
proof -
  let ?p0 = "build_transitions_plan parent children (old_actions_map d parent children) (group_limits (db_now d) g) approvals action"
  let ?p1 = "perform_cycles_checking d parent ?p0"
  have p1: "plan_view ?p1 c = (Some Cycle, None, False, True, False, False, None)"
    unfolding cycles_view using cc anc by simp
  have "plan_view p c = plan_view ?p1 c \<or> (\<exists>cc. plan_view p c = (Some Full, None, False, cc, False, False, None))"
    using max_size_view [of d action parent "group_limits (db_now d) g" ?p1 c]
    unfolding p transition_plan_def Let_def by blast
  with p1 show ?thesis by (auto simp: plan_view_def)
qed

text \<open>
  A transition never brings a group into a relation with one of its own descendants: a child that becomes a
  member, or gets a pending request without being a member, is neither the parent nor an ancestor of it.
\<close>

lemma no_cycle_relation:
  assumes run: "transition action parent children approvals by d = Inr (results, requests, d')"
    and keys: "keys_ok d" and now: "db_now d < max_time"
    and success: "map_of results c = Some Success" and old: "\<not> is_active (membership d parent c)"
    and new: "membership d' parent c \<noteq> NoRelation"
  shows "c \<noteq> parent \<and> \<not> (\<exists>r \<in> set (db_groups_ancestors d). ga_ancestor r = c \<and> ga_child r = parent)"
proof -
  from run obtain g p where g: "group_by_id d parent = Some g" and p: "p = transition_plan action parent children approvals g d"
    and res: "results = p_results p"
    by (rule transition_run)
  have settled: "membership d' parent c = settle (snd (child_decision action parent approvals g d c))"
    using transition_refinement [OF run keys now g, of parent c] success by simp
  show ?thesis
  proof (cases rule: plan_cases [OF p, of c, case_names follows refused dropped foreign])
    case (follows to)
    have to: "is_active to \<or> is_pending to"
      using new settled follows(2) by (cases to) simp_all
    have "plan_view (build_transitions_plan parent children (old_actions_map d parent children) (group_limits (db_now d) g) approvals action) c
        = decision_view (membership d parent c) (Success, to)"
      using follows(1,2) by (simp add: build_plan_view get_state_of child_decision_def state_of_action)
    with to old have "map_of (p_check_cycle (build_transitions_plan parent children (old_actions_map d parent children)
               (group_limits (db_now d) g) approvals action)) c \<noteq> None"
      by (auto simp: plan_view_def decision_view_def)
    with cycle_dropped [OF p] success res have "\<not> (\<exists>r \<in> set (db_groups_ancestors d). ga_ancestor r = c \<and> ga_child r = parent)"
      by blast
    with decision_Success(4) [OF follows(2) [unfolded child_decision_def]] show ?thesis by blast
  qed (use success res in \<open>auto simp: plan_view_def\<close>)
qed

text \<open>New edges that all leave one node, to nodes that do not reach it, close no cycle.\<close>

lemma acyclic_fan:
  assumes "acyclic r" and "\<And>c. c \<in> C \<Longrightarrow> (c, p) \<notin> r\<^sup>*"
  shows "acyclic (r \<union> {p} \<times> C)"
proof -
  let ?s = "r \<union> {p} \<times> C"
  have reach: "(x, p) \<in> r\<^sup>*" if "(x, p) \<in> ?s\<^sup>*" for x
    using that by (induction rule: converse_rtrancl_induct) (auto intro: converse_rtrancl_into_rtrancl)
  have split: "(x, y) \<in> r\<^sup>+ \<or> (\<exists>c \<in> C. (c, y) \<in> ?s\<^sup>* \<and> (x, p) \<in> ?s\<^sup>*)" if "(x, y) \<in> ?s\<^sup>+" for x y
    using that
  proof (induction rule: trancl_induct)
    case (base y)
    then show ?case by auto
  next
    case (step y z)
    have xy: "(x, y) \<in> ?s\<^sup>*" using step.hyps(1) by (rule trancl_into_rtrancl)
    from step.hyps(2) consider (old) "(y, z) \<in> r" | (new) "y = p" "z \<in> C" by auto
    then show ?case
    proof cases
      case old
      with step.IH show ?thesis by (auto intro: rtrancl_into_rtrancl trancl_into_trancl)
    next
      case new
      with xy show ?thesis by blast
    qed
  qed
  show ?thesis
    unfolding acyclic_def
  proof (intro allI notI)
    fix x assume "(x, x) \<in> ?s\<^sup>+"
    with split [OF this] assms(1) obtain c where c: "c \<in> C" "(c, x) \<in> ?s\<^sup>*" "(x, p) \<in> ?s\<^sup>*"
      by (auto simp: acyclic_def)
    then have "(c, p) \<in> r\<^sup>*" using reach by (meson rtrancl_trans)
    with assms(2) c(1) show False by blast
  qed
qed

lemma new_member_no_ancestor:
  assumes run: "transition action parent children approvals by d = Inr (results, requests, d')"
    and keys: "keys_ok d" and now: "db_now d < max_time"
    and new: "\<not> active_pair d q c" "active_pair d' q c"
  shows "q = parent \<and> c \<noteq> parent \<and> \<not> (\<exists>r \<in> set (db_groups_ancestors d). ga_ancestor r = c \<and> ga_child r = parent)"
proof -
  from run obtain g where g: "group_by_id d parent = Some g" by (rule transition_run)
  from new_member [OF run keys now g new] obtain p to where
      q: "q = parent" and p: "results = p_results p"
      and dec: "child_decision action parent approvals g d c = (Success, to)"
      and view: "plan_view p c = decision_view (membership d parent c) (Success, to)"
      and to: "is_active to" and old: "\<not> is_active (membership d parent c)"
    by metis
  have success: "map_of results c = Some Success"
    using view by (simp add: p plan_view_def decision_view_def)
  have "membership d' parent c \<noteq> NoRelation"
    using transition_refinement [OF run keys now g, of parent c] success dec to by (cases to) simp_all
  with no_cycle_relation [OF run keys now success old] q show ?thesis by blast
qed

definition active_rel :: "db \<Rightarrow> (id \<times> id) set" where
  "active_rel d = {(p, c). active_pair d p c}"


section \<open>The size limit\<close>

text \<open>The members that count: active users and teams, and invitations of anybody.\<close>

definition participants :: "db \<Rightarrow> id \<Rightarrow> id set" where
  "participants d parent = {c. active_pair d parent c \<and> is_participant d c}"

definition invited :: "db \<Rightarrow> id \<Rightarrow> id set" where
  "invited d parent = {c. pending_pair d parent c = Some Invitation}"

lemma card_filter_le: "S \<subseteq> f ` set (filter P xs) \<Longrightarrow> card S \<le> length (filter P xs)"
  by (meson List.finite_set card_image_le card_length card_mono finite_imageI le_trans)

lemma finite_participants: "finite (participants d parent)"
  by (rule finite_subset [where B = "gg_child ` set (db_groups_groups d)"]) (auto simp: participants_def active_pair_def)

lemma finite_invited: "finite (invited d parent)"
  by (rule finite_subset [where B = "pr_member ` set (db_pending d)"])
     (auto simp: invited_def pending_pair_def pr_key_def dest!: tbl_find_Some)

lemma finite_values: "finite {c. \<exists>a. map_of m c = Some a \<and> P a}" "finite {c. map_of m c = Some b}"
  by (rule finite_subset [where B = "fst ` set m"]; force dest: map_of_SomeD)+

lemma max_size_kept:
  assumes "map_of (p_changed (enforce_max_size d action parent li p)) i \<noteq> None"
    and "li_enforce_max_participants li" and "action \<in> set limited_actions"
  shows "enforce_max_size d action parent li p = p" and "p_changed p \<noteq> []"
    and "active_relations_count d parent (map fst (p_changed p)) + invitations_count d parent (map fst (p_changed p))
      + new_members_count p \<le> li_max_participants li"
proof -
  have "enforce_max_size d action parent li p \<noteq> delete_ids_from_plan (map fst (p_changed p)) Full p"
  proof
    assume full: "enforce_max_size d action parent li p = delete_ids_from_plan (map fst (p_changed p)) Full p"
    have "map_of (p_changed (delete_ids_from_plan (map fst (p_changed p)) Full p)) i = None"
      using delete_ids_view [of "map fst (p_changed p)" Full p i] keys_map_of [of i "p_changed p"]
      by (simp add: plan_view_def split: if_splits)
    with assms(1) full show False by simp
  qed
  with assms show "enforce_max_size d action parent li p = p" and "p_changed p \<noteq> []"
    and "active_relations_count d parent (map fst (p_changed p)) + invitations_count d parent (map fst (p_changed p))
      + new_members_count p \<le> li_max_participants li"
    by (auto simp: enforce_max_size_def Let_def split: if_splits)
qed

lemma limited_target:
  assumes "decision parent old li given action i = (Success, to)" and "action \<in> set limited_actions"
  shows "to \<noteq> NoRelation"
  using assms unfolding decision_def outcome_def limited_actions_def
  by (auto split: if_splits option.splits)

lemma counts_bound:
  assumes "p_changed p \<noteq> []"
  shows "int (card (participants d parent - set (map fst (p_changed p)))) \<le> active_relations_count d parent (map fst (p_changed p))"
    and "int (card (invited d parent - set (map fst (p_changed p)))) \<le> invitations_count d parent (map fst (p_changed p))"
    and "int (card {c. \<exists>a. map_of (p_changed p) c = Some a \<and> is_active a}) +
      int (card {c. map_of (p_changed p) c = Some InvitationCreated}) \<le> new_members_count p"
proof -
  let ?ch = "map fst (p_changed p)"
  have ch: "not_in i ?ch \<longleftrightarrow> i \<notin> set ?ch" for i
    using assms by (simp add: not_in_def)
  have "participants d parent - set ?ch \<subseteq>
      gg_child ` set (filter (\<lambda>r. gg_parent r = parent \<and> is_participant d (gg_child r) \<and> not_in (gg_child r) ?ch) (groups_groups_active d))"
    unfolding ch by (auto simp: participants_def active_pair_def groups_groups_active_def)
  then show "int (card (participants d parent - set ?ch)) \<le> active_relations_count d parent ?ch"
    unfolding active_relations_count_def by (intro zle_int [THEN iffD2] card_filter_le)
  have "invited d parent - set ?ch \<subseteq>
      pr_member ` set (filter (\<lambda>r. pr_group r = parent \<and> pr_type r = Invitation \<and> not_in (pr_member r) ?ch) (db_pending d))"
    unfolding ch by (auto simp: invited_def pending_pair_def pr_key_def dest!: tbl_find_Some)
  then show "int (card (invited d parent - set ?ch)) \<le> invitations_count d parent ?ch"
    unfolding invitations_count_def by (intro zle_int [THEN iffD2] card_filter_le)
  let ?A = "{c. \<exists>a. map_of (p_changed p) c = Some a \<and> is_active a}" and ?B = "{c. map_of (p_changed p) c = Some InvitationCreated}"
  have sub: "?A \<union> ?B \<subseteq> fst ` set (filter (\<lambda>(i, a). is_active a \<or> a = InvitationCreated) (p_changed p))"
    by (force dest: map_of_SomeD)
  then have "finite (?A \<union> ?B)" by (rule finite_subset) simp
  then have "card ?A + card ?B = card (?A \<union> ?B)"
    by (intro card_Un_disjoint [symmetric]) auto
  also have "\<dots> \<le> length (filter (\<lambda>(i, a). is_active a \<or> a = InvitationCreated) (p_changed p))"
    using sub by (rule card_filter_le)
  finally show "int (card ?A) + int (card ?B) \<le> new_members_count p"
    unfolding new_members_count_def by linarith
qed

lemma settle_parts:
  assumes "combine a pt = settle to"
  shows "a \<longleftrightarrow> is_active to \<or> to = LeaveRequestCreated" and "pt = Some Invitation \<longleftrightarrow> to = InvitationCreated"
  using assms by (cases to; cases "(a, pt)" rule: combine.cases; simp)+

text \<open>How the counted members of the parent change, for an action whose rules never lead to \<open>NoRelation\<close>.\<close>

lemma limited_pairs:
  assumes w: "transition_writes parent by (group_limits (db_now d) g) (old_actions_map d parent children) approvals p d = Inr d'"
    and p: "p = transition_plan action parent children approvals g d"
    and keys: "keys_ok d" and now: "db_now d < max_time" and limited: "action \<in> set limited_actions"
  shows "case map_of (p_changed p) c of
      None \<Rightarrow> map_of (p_results p) c \<noteq> Some Success \<and> active_pair d' parent c = active_pair d parent c
               \<and> pending_pair d' parent c = pending_pair d parent c
    | Some to \<Rightarrow> active_pair d' parent c = is_active to \<and> (pending_pair d' parent c = Some Invitation \<longleftrightarrow> to = InvitationCreated)"
proof -
  have pk: "plan_keys_ok p" unfolding p by (rule transition_plan_keys)
  note e = transition_writes_pairs(4,5) [OF w keys pk now, of parent c]
  show ?thesis
  proof (cases rule: plan_cases [OF p, of c, case_names follows refused dropped foreign])
    case (follows to)
    note ds = decision_Success [OF follows(2) [unfolded child_decision_def]]
    have "to \<noteq> NoRelation" using limited_target follows(2) limited by (auto simp: child_decision_def)
    then have ch: "map_of (p_changed p) c = Some to" using follows(3) by (simp add: plan_view_def decision_view_def)
    have "combine (active_pair d' parent c) (pending_pair d' parent c) = settle to"
      using written_success [OF follows(3) membership_combine [OF keys]] ds(2,3) e by (simp add: state_of_action)
    from settle_parts [OF this] ch show ?thesis by (cases to) auto
  next
    case (refused res to)
    with e written_nothing [OF refused(4)] show ?thesis by (simp add: plan_view_def)
  next
    case (dropped res cc)
    with e written_nothing [OF dropped(3)] show ?thesis by (auto simp: plan_view_def)
  next
    case foreign
    with e written_nothing [OF foreign(2)] show ?thesis by (simp add: plan_view_def)
  qed
qed

lemma limited_size:
  assumes run: "transition action parent children approvals by d = Inr (results, requests, d')"
    and keys: "keys_ok d" and now: "db_now d < max_time" and g: "group_by_id d parent = Some g"
    and limited: "action \<in> set limited_actions" and enforce: "g_enforce_max_participants g" "g_max_participants g = Some m"
    and success: "map_of results c = Some Success"
  shows "int (card (participants d' parent)) + int (card (invited d' parent)) \<le> m"
proof -
  from run obtain p where p: "p = transition_plan action parent children approvals g d"
    and w: "transition_writes parent by (group_limits (db_now d) g) (old_actions_map d parent children) approvals p d = Inr d'"
    and res: "results = p_results p"
    by (rule transition_run) (use g in auto)
  note pairs = limited_pairs [OF w p keys now limited]
  have chc: "map_of (p_changed p) c \<noteq> None"
    using pairs [of c] success by (auto simp: res split: option.splits)
  define p1 where "p1 = perform_cycles_checking d parent (build_transitions_plan parent children
      (old_actions_map d parent children) (group_limits (db_now d) g) approvals action)"
  have eq: "p = enforce_max_size d action parent (group_limits (db_now d) g) p1"
    by (simp add: p transition_plan_def Let_def p1_def)
  have le: "li_enforce_max_participants (group_limits (db_now d) g)" "li_max_participants (group_limits (db_now d) g) = m"
    using enforce by (simp_all add: group_limits_def)
  note kept = max_size_kept [OF chc [unfolded eq] le(1) limited, folded eq]
  have p1: "p1 = p" using kept(1) by simp
  let ?ch = "set (map fst (p_changed p))"
  let ?A = "{c. \<exists>a. map_of (p_changed p) c = Some a \<and> is_active a}" and ?B = "{c. map_of (p_changed p) c = Some InvitationCreated}"
  have pk: "plan_keys_ok p" unfolding p by (rule transition_plan_keys)
  have "is_participant d' = is_participant d"
    using transition_writes_pairs(3) [OF w keys pk now] by (simp add: fun_eq_iff is_participant_def group_by_id_def)
  have A: "participants d' parent \<subseteq> (participants d parent - ?ch) \<union> ?A"
  proof
    fix c assume "c \<in> participants d' parent"
    with pairs [of c] \<open>is_participant d' = is_participant d\<close> show "c \<in> (participants d parent - ?ch) \<union> ?A"
      unfolding Un_iff Diff_iff keys_map_of by (cases "map_of (p_changed p) c") (simp_all add: participants_def)
  qed
  have B: "invited d' parent \<subseteq> (invited d parent - ?ch) \<union> ?B"
  proof
    fix c assume "c \<in> invited d' parent"
    with pairs [of c] show "c \<in> (invited d parent - ?ch) \<union> ?B"
      unfolding Un_iff Diff_iff keys_map_of by (cases "map_of (p_changed p) c") (simp_all add: invited_def)
  qed
  have fin: "finite (participants d parent - ?ch)" "finite (invited d parent - ?ch)" "finite ?A" "finite ?B"
    by (intro finite_Diff finite_participants finite_invited finite_values)+
  have "card (participants d' parent) \<le> card (participants d parent - ?ch) + card ?A"
    using card_mono [OF _ A] card_Un_le [of "participants d parent - ?ch" ?A] fin by (meson finite_UnI le_trans)
  moreover have "card (invited d' parent) \<le> card (invited d parent - ?ch) + card ?B"
    using card_mono [OF _ B] card_Un_le [of "invited d parent - ?ch" ?B] fin by (meson finite_UnI le_trans)
  moreover note counts_bound(1,2) [OF kept(2), of d parent] counts_bound(3) [OF kept(2)] kept(3) le(2)
  ultimately show ?thesis unfolding p1 by linarith
qed

text \<open>In a consistent database the participants and the invited are disjoint, and both are read off the states.\<close>

definition group_size :: "db \<Rightarrow> id \<Rightarrow> nat" where
  "group_size d parent = card (participants d parent) + card (invited d parent)"

lemma combine_counted:
  assumes "\<forall>s. combine a p \<noteq> UnknownAction s"
  shows "is_active (combine a p) = a" and "combine a p = InvitationCreated \<longleftrightarrow> p = Some Invitation"
  using assms by (cases "(a, p)" rule: combine.cases; simp)+

lemma counted_states:
  assumes "consistent d"
  shows "active_pair d q c \<longleftrightarrow> is_active (membership d q c)" and "pending_pair d q c = Some Invitation \<longleftrightarrow> membership d q c = InvitationCreated"
proof -
  have m: "membership d q c = combine (active_pair d q c) (pending_pair d q c)"
    and known: "\<forall>s. membership d q c \<noteq> UnknownAction s"
    using assms membership_combine unfolding consistent_known by blast+
  from combine_counted [OF known [unfolded m]]
  show "active_pair d q c \<longleftrightarrow> is_active (membership d q c)" and "pending_pair d q c = Some Invitation \<longleftrightarrow> membership d q c = InvitationCreated"
    unfolding m by simp_all
qed

lemma group_size_union:
  assumes "consistent d"
  shows "group_size d parent = card (participants d parent \<union> invited d parent)"
proof -
  have "participants d parent \<inter> invited d parent = {}"
    unfolding participants_def invited_def counted_states [OF assms] by auto
  then show ?thesis
    unfolding group_size_def by (intro card_Un_disjoint [symmetric] finite_participants finite_invited)
qed

lemma other_targets:
  assumes "decision parent old li given action i = (Success, to)" and "action \<notin> set limited_actions"
  shows "(is_active to \<longrightarrow> is_active (si_action old) \<or> si_action old = InvitationCreated) \<and>
    (to = InvitationCreated \<longrightarrow> is_active (si_action old) \<and> action = AdminStrengthensApprovalWithReinvite)"
  using assms unfolding decision_def outcome_def limited_actions_def
  by (cases action) (auto split: if_splits)

lemma settle_counted: "is_active (settle to) \<longleftrightarrow> is_active to" "settle to = InvitationCreated \<longleftrightarrow> to = InvitationCreated"
  by (cases to; simp)+

lemma other_actions_size:
  assumes run: "transition action parent children approvals by d = Inr (results, requests, d')"
    and ok: "consistent d" and now: "db_now d < max_time" and other: "action \<notin> set limited_actions"
    and reinvite: "action = AdminStrengthensApprovalWithReinvite \<Longrightarrow> \<forall>c \<in> set children. is_participant d c"
  shows "group_size d' parent \<le> group_size d parent"
proof -
  from run obtain g p where g: "group_by_id d parent = Some g" and p: "p = transition_plan action parent children approvals g d"
    and res: "results = p_results p" by (rule transition_run)
  have keys: "keys_ok d" using ok by (simp add: consistent_def)
  note t = transition_refinement [OF run keys now g]
  have ok': "consistent d'" by (rule step_consistent [OF membership_step.transit [OF run now] ok])
  from run g p have w: "transition_writes parent by (group_limits (db_now d) g) (old_actions_map d parent children) approvals p d = Inr d'"
    by (auto elim: transition_run)
  have same: "is_participant d' = is_participant d"
    using transition_writes_pairs(3) [OF w keys _ now] transition_plan_keys [of action parent children approvals g d]
    by (simp add: fun_eq_iff is_participant_def group_by_id_def p)
  have "c \<in> participants d parent \<union> invited d parent" if c: "c \<in> participants d' parent \<union> invited d' parent" for c
  proof (cases "map_of results c = Some Success")
    case False
    with t [of parent c] c show ?thesis
      unfolding participants_def invited_def counted_states [OF ok] counted_states [OF ok'] same by auto
  next
    case True
    then obtain to where to: "c \<in> set children" "child_decision action parent approvals g d c = (Success, to)"
      by (cases rule: plan_cases [OF p, of c]) (auto simp: res plan_view_def)
    from other_targets [OF to(2) [unfolded child_decision_def] other] reinvite to(1) t [of parent c] True to(2) c show ?thesis
      unfolding participants_def invited_def counted_states [OF ok] counted_states [OF ok'] same
      by (auto simp: settle_counted state_of_action)
  qed
  then have "participants d' parent \<union> invited d' parent \<subseteq> participants d parent \<union> invited d parent" by blast
  then show ?thesis
    unfolding group_size_union [OF ok] group_size_union [OF ok']
    by (intro card_mono finite_UnI finite_participants finite_invited)
qed

text \<open>
  C22: where a group enforces its limit, the limit holds after every transition by one of the actions that check it (joining by code
  or by badge, requests to join, invitations and the acceptance of requests by a manager) that succeeds for somebody:
  participants and open invitations together stay within it.  No other action lets this number grow: the acceptance of an
  invitation turns an invitation into a membership, and the invitations after a change of the approvals replace
  memberships of participants.
\<close>

theorem size_limit_respected:
  assumes run: "transition action parent children approvals by d = Inr (results, requests, d')"
    and ok: "consistent d" and now: "db_now d < max_time" and g: "group_by_id d parent = Some g"
    and enforce: "g_enforce_max_participants g" "g_max_participants g = Some m"
    and reinvite: "action = AdminStrengthensApprovalWithReinvite \<Longrightarrow> \<forall>c \<in> set children. is_participant d c"
  shows "if action \<in> set limited_actions
    then (\<exists>c. map_of results c = Some Success) \<longrightarrow> int (group_size d' parent) \<le> m
    else group_size d' parent \<le> group_size d parent"
proof -
  have "keys_ok d" using ok by (simp add: consistent_def)
  then show ?thesis
    using limited_size [OF run _ now g _ enforce] other_actions_size [OF run ok now _ reinvite] by (auto simp: group_size_def)
qed

section \<open>What is stored for a new member\<close>

definition relation_row :: "time \<Rightarrow> id \<Rightarrow> bool \<Rightarrow> time option \<times> time option \<times> time option \<Rightarrow> id \<Rightarrow> gg_row" where
  "relation_row expires parent team approved c =
     (case approved of (x, y, z) \<Rightarrow>
        \<lparr>gg_parent = parent, gg_child = c, gg_expires_at = expires, gg_personal_info_view_approved_at = x,
         gg_lock_membership_approved_at = y, gg_watch_approved_at = z, gg_is_team_membership = team\<rparr>)"

lemma insert_relation_rows_stored:
  assumes "fold_result (insert_relation parent olds approvals) ids d = Inr d'" and "c \<in> set ids"
    and "group_by_id d parent = Some g"
  shows "tbl_find gg_key (parent, c) (db_groups_groups d') =
     (case tbl_find gg_key (parent, c) (db_groups_groups d) of
        None \<Rightarrow> Some (relation_row max_time parent (g_type g = Team) (resolve_approval_times (db_now d) olds approvals c) c)
      | Some x \<Rightarrow> Some (set_gg_expires max_time x))"
  using assms
proof (induction ids arbitrary: d)
  case Nil
  then show ?case by simp
next
  case (Cons i ids)
  then obtain d1 where d1: "insert_relation parent olds approvals i d = Inr d1"
      and rest: "fold_result (insert_relation parent olds approvals) ids d1 = Inr d'"
    by (auto split: sum.splits)
  note e = insert_relation_effect [OF d1]
  have g1: "group_by_id d1 parent = Some g" using Cons.prems(3) e(3) by (simp add: group_by_id_def)
  have i: "tbl_find gg_key (parent, i) (db_groups_groups d1) =
     (case tbl_find gg_key (parent, i) (db_groups_groups d) of
        None \<Rightarrow> Some (relation_row max_time parent (g_type g = Team) (resolve_approval_times (db_now d) olds approvals i) i)
      | Some x \<Rightarrow> Some (set_gg_expires max_time x))"
    using d1 Cons.prems(3) unfolding insert_relation_def
    by (auto simp: upsert_groups_groups_effect(5) gg_key_def relation_row_def split: prod.splits option.splits)
  show ?case
  proof (cases "c \<in> set ids")
    case True
    show ?thesis
    proof (cases "c = i")
      case same: True
      show ?thesis
        unfolding Cons.IH [OF rest True g1] e(2) i [folded same]
        by (simp add: relation_row_def set_gg_expires_def split: option.split prod.split)
    next
      case False
      then show ?thesis
        unfolding Cons.IH [OF rest True g1] e(2) using e(5) [of parent c] by simp
    qed
  next
    case False
    with Cons.prems(2) have "c = i" by simp
    have "tbl_find gg_key (parent, c) (db_groups_groups d') = tbl_find gg_key (parent, c) (db_groups_groups d1)"
      using insert_relation_rows_effect [OF rest, of parent c] False by blast
    then show ?thesis unfolding \<open>c = i\<close> i .
  qed
qed

text \<open>
  the row stored for a new member.  Without an earlier row it never expires and carries the approvals as
  \<open>resolveApprovalTimes\<close> resolves them; where an expired row of the same pair is still in the table, that row is
  kept with only its expiration changed, so the approvals just given are not recorded.
\<close>

lemma new_member_row:
  assumes run: "transition action parent children approvals by d = Inr (results, requests, d')"
    and keys: "keys_ok d" and now: "db_now d < max_time" and g: "group_by_id d parent = Some g"
    and new: "\<not> active_pair d parent c" "active_pair d' parent c"
  shows "tbl_find gg_key (parent, c) (db_groups_groups d') =
     (case tbl_find gg_key (parent, c) (db_groups_groups d) of
        None \<Rightarrow> Some (relation_row max_time parent (g_type g = Team)
                  (resolve_approval_times (db_now d) (old_actions_map d parent children) approvals c) c)
      | Some x \<Rightarrow> Some (set_gg_expires max_time x))"
proof -
  from new_member [OF run keys now g new] obtain p to where p: "p = transition_plan action parent children approvals g d"
      and view: "plan_view p c = decision_view (membership d parent c) (Success, to)"
      and to: "is_active to" "\<not> is_active (membership d parent c)"
    by metis
  have ins: "map_of (p_insert_relation p) c \<noteq> None" and del: "map_of (p_delete_relation p) c = None"
    using view to by (auto simp: plan_view_def decision_view_def)
  from run have w: "transition_writes parent by (group_limits (db_now d) g) (old_actions_map d parent children) approvals p d = Inr d'"
    by (rule transition_run) (use g p in auto)
  from w obtain d1 d2 d3 anc res
    where d1: "d1 = fst (delete_relations parent (group_limits (db_now d) g) p (delete_pending parent p d))"
    and d2: "fold_result (insert_group_pending_request parent approvals) (p_insert_pending p) d1 = Inr d2"
    and d3: "insert_relations parent (group_limits (db_now d) g) (old_actions_map d parent children) approvals p d2 = Inr (d3, anc, res)"
    and same: "db_groups_groups d' = db_groups_groups d3"
    by (rule transition_writes_steps) (simp add: insert_group_pending_requests_def)
  have dist: "distinct (map fst (p_insert_pending p))"
    using transition_plan_keys [of action parent children approvals g d] by (simp add: plan_keys_ok_def p)
  note e2 = insert_pending_rows_effect [OF d2 dist]
  have c: "c \<in> set (map fst (p_insert_relation p))" unfolding keys_map_of by (rule ins)
  then have fr: "fold_result (insert_relation parent (old_actions_map d parent children) approvals) (map fst (p_insert_relation p)) d2 = Inr d3"
    using d3 by (auto simp: insert_relations_def Let_def split: sum.splits if_splits)
  have same2: "db_now d2 = db_now d" "group_by_id d2 parent = Some g"
    "tbl_find gg_key (parent, c) (db_groups_groups d2) = tbl_find gg_key (parent, c) (db_groups_groups d)"
    using e2 g del by (simp_all add: d1 db_simps group_by_id_def)
  show ?thesis
    using insert_relation_rows_stored [OF fr c same2(2)] unfolding same same2 .
qed

section \<open>The log\<close>

text \<open>
  a transition appends to \<open>group_membership_changes\<close> exactly one row per child whose result is Success and
  whose new action has a name, with that action, the instant and the initiator, and no other row.
\<close>

lemma transition_logged:
  assumes run: "transition action parent children approvals by d = Inr (results, requests, d')"
    and g: "group_by_id d parent = Some g" and keys: "keys_ok d"
  shows "\<exists>rows. db_changes d' = db_changes d @ rows \<and> distinct (map ch_member rows) \<and>
    set rows = {\<lparr>ch_group = parent, ch_member = c, ch_action = after_last_comma (action_string to),
                 ch_at = db_now d, ch_initiator = by\<rparr> | c to.
        map_of results c = Some Success \<and> to \<noteq> NoRelation \<and> snd (child_decision action parent approvals g d c) = to}"
proof -
  from run obtain p where p: "p = transition_plan action parent children approvals g d"
    and w: "transition_writes parent by (group_limits (db_now d) g) (old_actions_map d parent children) approvals p d = Inr d'"
    and res: "results = p_results p"
    by (rule transition_run) (use g in auto)
  from w obtain d1 d2 d3 anc rs
    where d1: "d1 = fst (delete_relations parent (group_limits (db_now d) g) p (delete_pending parent p d))"
    and d2: "fold_result (insert_group_pending_request parent approvals) (p_insert_pending p) d1 = Inr d2"
    and d3: "insert_relations parent (group_limits (db_now d) g) (old_actions_map d parent children) approvals p d2 = Inr (d3, anc, rs)"
    and log: "db_changes d' = db_changes (insert_membership_changes parent by p d3)"
    by (rule transition_writes_steps) (simp add: insert_group_pending_requests_def)
  have pk: "distinct (map fst (p_insert_pending p))" "distinct (map fst (p_changed p))"
    using transition_plan_keys [of action parent children approvals g d] by (simp_all add: plan_keys_ok_def p)
  have same: "db_changes d3 = db_changes d" "db_now d3 = db_now d"
    using insert_pending_rows_effect [OF d2 pk(1)] insert_relations_effect [OF d3] by (simp_all add: d1 db_simps)
  let ?row = "\<lambda>(c, to). \<lparr>ch_group = parent, ch_member = c, ch_action = after_last_comma (action_string to),
                 ch_at = db_now d, ch_initiator = by\<rparr>"
  have changed: "map_of (p_changed p) c = Some to \<longleftrightarrow>
      map_of results c = Some Success \<and> to \<noteq> NoRelation \<and> snd (child_decision action parent approvals g d c) = to" for c to
    by (cases rule: plan_cases [OF p, of c]) (auto simp: res plan_view_def decision_view_def split: if_splits)
  have rows: "set (map ?row (p_changed p)) = {?row (c, to) | c to. map_of (p_changed p) c = Some to}"
    using pk(2) by auto
  have "map ch_member (map ?row (p_changed p)) = map fst (p_changed p)" by auto
  then have "distinct (map ch_member (map ?row (p_changed p)))" using pk(2) by (simp only:)
  moreover have "db_changes d' = db_changes d @ map ?row (p_changed p)"
    unfolding log insert_membership_changes_def same by simp
  ultimately show ?thesis
    using rows unfolding changed prod.case by blast
qed

end
