(* ===== verification/MembershipExamples.thy ===== *)
theory MembershipExamples
  imports MembershipGuarantees
begin

text \<open>
  Concrete runs of the membership store: each property of the store is applied to a small database, its
  hypotheses checked by evaluation.
\<close>

section \<open>The databases\<close>

definition ex_group :: "id \<Rightarrow> group_type \<Rightarrow> group_row" where
  "ex_group i t = \<lparr>g_id = i, g_type = t, g_is_public = True, g_root_activity_id = None, g_root_skill_id = None,
     g_require_personal_info_access_approval = RequireNone, g_require_lock_membership_approval_until = None,
     g_require_watch_approval = True, g_enforce_max_participants = True, g_max_participants = Some 2,
     g_frozen_membership = False, g_code = None,
     g_code_expires_at = None, g_code_lifetime = None, g_is_official_session = False\<rparr>"

definition ex_empty_db :: db where
  "ex_empty_db = \<lparr>db_now = 100, db_groups = [], db_groups_groups = [], db_groups_ancestors = [],
     db_groups_propagate = [], db_pending = [], db_changes = [], db_managers = [],
     db_permissions_granted = [], db_permissions_generated = [], db_permissions_propagate = [],
     db_items_items = [], db_items_ancestors = [], db_items_propagate = [],
     db_permissions_scheduled = False, db_results_scheduled = False\<rparr>"

definition self_row :: "id \<Rightarrow> ancestor_row" where
  "self_row i = \<lparr>ga_ancestor = i, ga_child = i, ga_expires_at = max_time\<rparr>"

text \<open>A class requiring the watch approval, and three users; the membership of user 3 has expired.\<close>

definition ex_db :: db where
  "ex_db = ex_empty_db\<lparr>db_groups := [ex_group 1 Class, ex_group 2 User, ex_group 3 User, ex_group 4 User],
     db_groups_groups := [relation_row 50 1 False (None, None, None) 3],
     db_groups_ancestors := map self_row [1, 2, 3, 4]\<rparr>"

definition ex_approvals :: "(id, group_approvals) gomap" where
  "ex_approvals = map (\<lambda>i. (i, no_approvals\<lparr>ap_watch := True\<rparr>)) [2, 3]"

definition db_after :: "'e + ('r \<times> 'q \<times> db) \<Rightarrow> db" where
  "db_after r = (case r of Inl _ \<Rightarrow> ex_empty_db | Inr (_, _, d) \<Rightarrow> d)"

definition ex_joined :: db where
  "ex_joined = db_after (transition UserJoinsGroupByCode 1 [2, 3, 4] ex_approvals 2 ex_db)"

section \<open>Facts of the runs\<close>

lemma ex_run: "transition UserJoinsGroupByCode 1 [2, 3, 4] ex_approvals 2 ex_db =
    Inr ([(2, Success), (3, Success), (4, ApprovalsMissing)], [(4, no_approvals\<lparr>ap_watch := True\<rparr>)], ex_joined)"
  by code_simp

lemma ex_db_facts:
  "keys_ok ex_db" "db_now ex_db < max_time" "group_by_id ex_db 1 = Some (ex_group 1 Class)"
  "\<not> active_pair ex_db 1 2" "active_pair ex_joined 1 2" "\<not> active_pair ex_db 1 3" "active_pair ex_joined 1 3"
  "membership ex_db 1 2 = NoRelation" "membership ex_joined 1 2 = IsMember"
  by code_simp+

lemma no_pending_consistent: "db_pending d = [] \<Longrightarrow> keys_ok d \<Longrightarrow> consistent d"
  by (simp add: consistent_def pending_pair_def tbl_find_def)

lemma ex_consistent: "consistent ex_db"
  by (rule no_pending_consistent; code_simp)

lemma ex_rel: "active_rel ex_db = {}"
  by (auto simp: active_rel_def active_pair_def ex_db_def ex_empty_db_def relation_row_def)

section \<open>Witnesses\<close>

theorem transition_refines_witness:
  "keys_ok ex_joined \<and> membership ex_joined 1 2 = IsMember \<and> membership ex_joined 1 4 = NoRelation"
  using transition_refines [OF ex_run ex_db_facts(1-3), of 1 2] transition_refines [OF ex_run ex_db_facts(1-3), of 1 4]
proof -
  have "settle (snd (child_decision UserJoinsGroupByCode 1 ex_approvals (ex_group 1 Class) ex_db 2)) = IsMember"
    and "membership ex_db 1 4 = NoRelation"
    by code_simp+
  with transition_refines [OF ex_run ex_db_facts(1-3), of 1 2] transition_refines [OF ex_run ex_db_facts(1-3), of 1 4]
  show ?thesis by simp
qed

theorem reachable_consistent_witness: "consistent (ex_joined\<lparr>db_now := 200\<rparr>)"
proof (rule reachable_consistent [OF _ ex_consistent])
  have "db_now ex_joined \<le> 200" by code_simp
  then have "membership_step ex_joined (ex_joined\<lparr>db_now := 200\<rparr>)" by (rule tick)
  then show "membership_step\<^sup>*\<^sup>* ex_db (ex_joined\<lparr>db_now := 200\<rparr>)"
    using transit [OF ex_run ex_db_facts(2)] by (meson converse_rtranclp_into_rtranclp rtranclp.rtrancl_refl)
qed


theorem no_cycle_relation_witness:
  "\<not> (\<exists>r \<in> set (db_groups_ancestors ex_db). ga_ancestor r = 2 \<and> ga_child r = 1)"
  using no_cycle_relation [OF ex_run ex_db_facts(1,2), of 2] ex_db_facts(8,9) by simp


theorem size_limit_respected_witness: "int (group_size ex_joined 1) \<le> 2"
proof -
  have "UserJoinsGroupByCode \<in> set limited_actions" by code_simp
  then show ?thesis
    using size_limit_respected [OF ex_run ex_consistent ex_db_facts(2,3), where m = 2] by (auto simp: ex_group_def)
qed

theorem new_member_row_witness:
  "tbl_find gg_key (1, 2) (db_groups_groups ex_joined) = Some (relation_row max_time 1 False (None, None, Some 100) 2) \<and>
   tbl_find gg_key (1, 3) (db_groups_groups ex_joined) = Some (relation_row max_time 1 False (None, None, None) 3)"
  using new_member_row [OF ex_run ex_db_facts(1-5)] new_member_row [OF ex_run ex_db_facts(1-3,6,7)]
proof -
  have "tbl_find gg_key (1, 2) (db_groups_groups ex_db) = None"
    and "tbl_find gg_key (1, 3) (db_groups_groups ex_db) = Some (relation_row 50 1 False (None, None, None) 3)"
    and "resolve_approval_times (db_now ex_db) (old_actions_map ex_db 1 [2, 3, 4]) ex_approvals 2 = (None, None, Some 100)"
    by code_simp+
  with new_member_row [OF ex_run ex_db_facts(1-5)] new_member_row [OF ex_run ex_db_facts(1-3,6,7)]
  show ?thesis by (simp add: ex_group_def relation_row_def set_gg_expires_def)
qed

theorem transition_logged_witness:
  "\<exists>rows. db_changes ex_joined = rows \<and> distinct (map ch_member rows)"
  using transition_logged [OF ex_run ex_db_facts(3,1)] by (auto simp: ex_db_def ex_empty_db_def)

lemma empty_closure: "(a, c) \<in> set [] \<longleftrightarrow> (a, c) \<in> (set [])\<^sup>+"
  by simp

theorem items_ancestors_correct_witness:
  "\<exists>anc' marks'. create_new_ancestors_items [(1, 2), (2, 3)] [] [(2, Todo), (3, Todo)] = Inr (anc', marks') \<and>
     set anc' = {(1, 2), (2, 3)}\<^sup>+ \<and> (\<forall>c. map_of marks' c \<noteq> Some Todo)"
proof -
  have "acyclic (set [(1 :: id, 2 :: id), (2, 3)])"
    by (rule acyclicI_order [where f = uminus]) auto
  moreover have "(p, c) \<in> set [(1 :: id, 2 :: id), (2, 3)] \<longleftrightarrow> (p, c) \<in> set []"
    if "map_of [(2, Todo), (3, Todo)] c \<noteq> Some Todo" for p c
    using that by auto
  ultimately have "\<exists>anc' marks'. create_new_ancestors_items [(1, 2), (2, 3)] [] [(2, Todo), (3, Todo)] = Inr (anc', marks') \<and>
     set anc' = (set [(1, 2), (2, 3)])\<^sup>+ \<and> (\<forall>c. map_of marks' c \<noteq> Some Todo)"
    by (rule items_ancestors_correct [OF _ empty_closure])
  then show ?thesis by simp
qed

theorem groups_ancestors_correct_witness:
  "\<exists>anc' marks'. create_new_ancestors_groups 100 [relation_row max_time 1 False (None, None, None) 2]
       (map self_row [1, 2]) [(2, Todo)] = Inr (anc', marks') \<and> groups_up 100 anc' 2 = {1}"
proof -
  let ?gg = "[relation_row max_time 1 False (None, None, None) 2]"
  have rel: "groups_rel u ?gg = {(1, 2)}" if "u < max_time" for u
    using that by (auto simp: groups_rel_def relation_row_def)
  have acyclic: "acyclic (set (group_edges ?gg))"
    by (rule acyclicI_order [where f = uminus]) (auto simp: group_edges_def relation_row_def)
  have self: "self_rows_ok u ?gg (map self_row [1, 2])" if "u < max_time" for u
    using that by (auto simp: self_rows_ok_def group_edges_def relation_row_def has_self_row_def self_row_def)
  have none: "groups_up u (map self_row [1, 2]) c = {a. (a, c) \<in> (groups_rel u [])\<^sup>+}" for u c
    by (auto simp: groups_up_def groups_rel_def self_row_def)
  have marked: "(p, c) \<in> groups_rel u ?gg \<longleftrightarrow> (p, c) \<in> groups_rel u []" if "100 \<le> u" "map_of [(2, Todo)] c \<noteq> Some Todo" for u p c
    using that(2) by (auto simp: groups_rel_def relation_row_def)
  have "(a, 2) \<in> {(1 :: id, 2 :: id)}\<^sup>+ \<longleftrightarrow> a = 1" for a
    by (auto elim: converse_tranclE)
  then have two: "{a. (a, 2) \<in> {(1 :: id, 2 :: id)}\<^sup>+} = {1}" by auto
  obtain anc' marks' where run: "create_new_ancestors_groups 100 ?gg (map self_row [1, 2]) [(2, Todo)] = Inr (anc', marks')"
    and up: "\<forall>u c. 100 \<le> u \<longrightarrow> u < max_time \<longrightarrow> groups_up u anc' c = {a. (a, c) \<in> (groups_rel u ?gg)\<^sup>+}"
    using groups_ancestors_correct [OF acyclic self none marked, where now = 100 and marks = "[(2, Todo)]"] by (auto simp: max_time_def)
  have "groups_up 100 anc' 2 = {1}"
    using up [rule_format, of 100 2] rel [of 100] two by (simp add: max_time_def)
  with run show ?thesis by blast
qed

end
