(* ===== verification/DbEnums.thy ===== *)
theory DbEnums
  imports Database
begin

text \<open>
  The enumeration columns, app/database/db_enums.go and the lookups of
  app/database/permission_granted_store.go: the values are read from the type of the column, numbered from 1, and
  looked up both ways; an unknown name or number is a panic.  The types of the columns are those of the
  migrations under db/migrations.
\<close>

text \<open>\<open>strings.Trim(value, "'")\<close>.\<close>

definition trim_quotes :: "string \<Rightarrow> string" where
  "trim_quotes s = rev (dropWhile (\<lambda>c. c = CHR 0x27) (rev (dropWhile (\<lambda>c. c = CHR 0x27) s)))"

text \<open>The two maps \<open>loadDBEnum\<close> builds for one column.\<close>

definition load_db_enum :: "string \<Rightarrow> (string, nat) gomap \<times> (nat, string) gomap" where
  "load_db_enum values_string =
     (let kinds = map trim_quotes (split_on (CHR '','') values_string);
          numbered = zip kinds [1..<length kinds + 1]
      in (fold (\<lambda>(kind, i). AList.update kind i) numbered [],
          fold (\<lambda>(kind, i). AList.update i kind) numbered []))"

definition enum_columns :: "string list" where
  "enum_columns =
     [''permissions_granted.can_view'', ''permissions_granted.can_grant_view'', ''permissions_granted.can_watch'',
      ''permissions_granted.can_edit'', ''group_managers.can_manage'', ''items_items.content_view_propagation'',
      ''items_items.upper_view_levels_propagation'']"

text \<open>The quoted values of the columns, in the order of \<open>enum_columns\<close>.\<close>

definition quoted_values :: "string list \<Rightarrow> string" where
  "quoted_values vs = concat (map (\<lambda>v. CHR 0x27 # v @ [CHR 0x27, CHR '','']) (butlast vs)) @ [CHR 0x27] @ last vs @ [CHR 0x27]"

definition column_values :: "string list list" where
  "column_values =
     [[''none'', ''info'', ''content'', ''content_with_descendants'', ''solution''],
      [''none'', ''enter'', ''content'', ''content_with_descendants'', ''solution'', ''solution_with_grant''],
      [''none'', ''result'', ''answer'', ''answer_with_grant''],
      [''none'', ''children'', ''all'', ''all_with_grant''],
      [''none'', ''memberships'', ''memberships_and_group''],
      [''none'', ''as_info'', ''as_content''],
      [''use_content_view_propagation'', ''as_content_with_descendants'', ''as_is'']]"

definition load_all_enums :: "((string, nat) gomap \<times> (nat, string) gomap) list" where
  "load_all_enums = map (\<lambda>vs. load_db_enum (quoted_values vs)) column_values"

lemma loaded_enums [code]:
  "load_all_enums = map (\<lambda>vs. (zip vs [1..<length vs + 1], zip [1..<length vs + 1] vs)) column_values"
  by code_simp

text \<open>A name that is not in \<open>enumName2Number\<close> reads as 0.\<close>

definition enum_number :: "string \<Rightarrow> nat" where
  "enum_number name = (case map_of (zip enum_columns [0..<length enum_columns]) name of None \<Rightarrow> 0 | Some n \<Rightarrow> n)"

definition require_db_enum_index_by_name :: "string \<Rightarrow> string \<Rightarrow> db_error + nat" where
  "require_db_enum_index_by_name enum_name name =
     (case map_of (fst (load_all_enums ! enum_number enum_name)) name of
        Some i \<Rightarrow> Inr i
      | None \<Rightarrow> Inl (GoPanic (''unknown enum value '' @ name @ '' for '' @ enum_name)))"

definition require_db_enum_name_by_index :: "string \<Rightarrow> nat \<Rightarrow> db_error + string" where
  "require_db_enum_name_by_index enum_name i =
     (case map_of (snd (load_all_enums ! enum_number enum_name)) i of
        Some name \<Rightarrow> Inr name
      | None \<Rightarrow> Inl (GoPanic (''wrong enum index for '' @ enum_name)))"

text \<open>The lookups of the permission store.\<close>

definition permission_index :: "string \<Rightarrow> string \<Rightarrow> db_error + nat" where
  "permission_index kind name = require_db_enum_index_by_name (''permissions_granted.can_'' @ kind) name"

definition permission_name :: "string \<Rightarrow> nat \<Rightarrow> db_error + string" where
  "permission_name kind i = require_db_enum_name_by_index (''permissions_granted.can_'' @ kind) i"

definition view_index :: "string \<Rightarrow> db_error + nat" where
  "view_index = permission_index ''view''"

definition grant_view_index :: "string \<Rightarrow> db_error + nat" where
  "grant_view_index = permission_index ''grant_view''"

definition watch_index :: "string \<Rightarrow> db_error + nat" where
  "watch_index = permission_index ''watch''"

definition edit_index :: "string \<Rightarrow> db_error + nat" where
  "edit_index = permission_index ''edit''"

definition grant_view_name :: "nat \<Rightarrow> db_error + string" where
  "grant_view_name = permission_name ''grant_view''"


section \<open>Numbering\<close>

lemma fold_update_zip:
  assumes "distinct (map fst kis)"
  shows "map_of (fold (\<lambda>(k, i). AList.update k i) kis m) k = (case map_of kis k of Some i \<Rightarrow> Some i | None \<Rightarrow> map_of m k)"
  using assms
proof (induction kis arbitrary: m)
  case Nil
  then show ?case by simp
next
  case (Cons ki kis)
  obtain k' i' where ki: "ki = (k', i')" by (cases ki)
  with Cons.prems have "map_of kis k' = None" and "distinct (map fst kis)" by (simp_all add: map_of_eq_None_iff)
  have ih: "map_of (fold (\<lambda>(k, i). AList.update k i) kis (AList.update k' i' m)) k =
      (case map_of kis k of Some i \<Rightarrow> Some i | None \<Rightarrow> map_of (AList.update k' i' m) k)"
    by (rule Cons.IH) fact
  then show ?case
    using \<open>map_of kis k' = None\<close> by (cases "k = k'") (simp_all add: ki split: option.split)
qed

text \<open>
  C34: for a column without repeated values, \<open>loadDBEnum\<close> numbers the values from 1 in their order, and the two
  maps are inverse to one another: name and index determine each other.
\<close>

theorem load_db_enum_roundtrip:
  assumes "kinds = map trim_quotes (split_on (CHR '','') s)" and "distinct kinds"
  shows "(map_of (fst (load_db_enum s)) name = Some i \<longleftrightarrow> map_of (snd (load_db_enum s)) i = Some name) \<and>
    (map_of (snd (load_db_enum s)) i = Some name \<longleftrightarrow> 1 \<le> i \<and> i \<le> length kinds \<and> kinds ! (i - 1) = name)"
proof -
  let ?num = "zip kinds [1..<length kinds + 1]" and ?rev = "zip [1..<length kinds + 1] kinds"
  have d1: "distinct (map fst ?num)" and d2: "distinct (map fst ?rev)" using assms(2) by simp_all
  have commute: "zip xs ys = map (\<lambda>(x, y). (y, x)) (zip ys xs)" for xs :: "string list" and ys :: "nat list"
    by (rule zip_commute)
  have swap: "fold (\<lambda>(kind, i). AList.update i kind) ?num [] = fold (\<lambda>(k, i). AList.update k i) ?rev []"
    unfolding commute [of kinds] fold_map by (rule fold_cong) auto
  have fst: "map_of (fst (load_db_enum s)) name = map_of ?num name"
    and snd: "map_of (snd (load_db_enum s)) i = map_of ?rev i"
    unfolding load_db_enum_def Let_def assms(1) [symmetric] fst_conv snd_conv swap fold_update_zip [OF d1] fold_update_zip [OF d2]
    by (simp_all split: option.split)
  have "map_of ?num name = Some i \<longleftrightarrow> (name, i) \<in> set ?num" by (rule map_of_eq_Some_iff [OF d1])
  moreover have "map_of ?rev i = Some name \<longleftrightarrow> (i, name) \<in> set ?rev" by (rule map_of_eq_Some_iff [OF d2])
  moreover have "(name, i) \<in> set ?num \<longleftrightarrow> (i, name) \<in> set ?rev" by (auto simp: in_set_zip)
  moreover have "(i, name) \<in> set ?rev \<longleftrightarrow> 1 \<le> i \<and> i \<le> length kinds \<and> kinds ! (i - 1) = name"
    by (auto simp: in_set_zip simp del: upt_Suc intro!: exI [of _ "i - 1"])
  ultimately show ?thesis unfolding fst snd by blast
qed

theorem load_db_enum_roundtrip_witness:
  "map_of (fst (load_db_enum (quoted_values [''none'', ''info'', ''content'']))) ''content'' = Some 3"
proof -
  have "split_on (CHR '','') (quoted_values [''none'', ''info'', ''content'']) \<noteq> []"
    and "map trim_quotes (split_on (CHR '','') (quoted_values [''none'', ''info'', ''content''])) = [''none'', ''info'', ''content'']"
    by code_simp+
  then show ?thesis
    using load_db_enum_roundtrip [of "[''none'', ''info'', ''content'']" "quoted_values [''none'', ''info'', ''content'']" "''content''" 3]
    by simp
qed

text \<open>The tables of the permission columns.\<close>

lemma view_levels [simp]:
  "view_index ''none'' = Inr 1" "view_index ''info'' = Inr 2" "view_index ''content'' = Inr 3"
  "view_index ''content_with_descendants'' = Inr 4" "view_index ''solution'' = Inr 5"
  by code_simp+

lemma grant_view_levels [simp]:
  "grant_view_index ''none'' = Inr 1" "grant_view_index ''enter'' = Inr 2" "grant_view_index ''content'' = Inr 3"
  "grant_view_index ''content_with_descendants'' = Inr 4" "grant_view_index ''solution'' = Inr 5"
  "grant_view_index ''solution_with_grant'' = Inr 6"
  by code_simp+

lemma watch_levels [simp]:
  "watch_index ''none'' = Inr 1" "watch_index ''result'' = Inr 2" "watch_index ''answer'' = Inr 3"
  "watch_index ''answer_with_grant'' = Inr 4"
  by code_simp+

lemma edit_levels [simp]:
  "edit_index ''none'' = Inr 1" "edit_index ''children'' = Inr 2" "edit_index ''all'' = Inr 3"
  "edit_index ''all_with_grant'' = Inr 4"
  by code_simp+

lemma grant_view_names [simp]:
  "grant_view_name 1 = Inr ''none''" "grant_view_name (Suc 0) = Inr ''none''" "grant_view_name 2 = Inr ''enter''"
  "grant_view_name 3 = Inr ''content''" "grant_view_name 4 = Inr ''content_with_descendants''"
  "grant_view_name 5 = Inr ''solution''" "grant_view_name 6 = Inr ''solution_with_grant''"
  by code_simp+

end
