(* ===== verification/Visibility.thy ===== *)
theory Visibility
  imports DbEnums
begin

text \<open>
  Who manages and who sees a group, app/database/group_store.go (\<open>ManagedBy\<close>, \<open>AncestorsOfJoinedGroupsForGroup\<close>,
  \<open>ManagedUsersAndAncestorsOfManagedGroupsForGroup\<close>, \<open>PickVisibleGroupsForGroup\<close>, \<open>IsVisibleForGroup\<close>), and the
  aggregated permissions of a group (app/database/permission_generated_store.go).  A query that is only asked for
  rows is a predicate on the joined rows; \<open>anc d a c\<close> says that the view \<open>groups_ancestors_active\<close> holds the pair.
\<close>

definition anc :: "db \<Rightarrow> id \<Rightarrow> id \<Rightarrow> bool" where
  "anc d a c = (\<exists>r \<in> set (groups_ancestors_active d). ga_ancestor r = a \<and> ga_child r = c)"

text \<open>The rows of \<open>group_managers\<close> that give the user (or group) power over a group.\<close>

definition managed_by :: "db \<Rightarrow> id \<Rightarrow> id \<Rightarrow> manager_row list" where
  "managed_by d user g = filter (\<lambda>m. anc d (gm_group m) g \<and> anc d (gm_manager m) user) (db_managers d)"

definition group_type_of :: "db \<Rightarrow> id \<Rightarrow> group_type option" where
  "group_type_of d g = map_option g_type (group_by_id d g)"

definition ancestors_of_joined_groups :: "db \<Rightarrow> id \<Rightarrow> id list" where
  "ancestors_of_joined_groups d g =
     [ga_ancestor a. e \<leftarrow> groups_groups_active d, a \<leftarrow> groups_ancestors_active d,
        gg_child e = g \<and> ga_child a = gg_parent e \<and>
        (case group_type_of d (ga_ancestor a) of None \<Rightarrow> False | Some t \<Rightarrow> t \<noteq> ContestParticipants)]"

text \<open>
  \<open>ManagedByGroup\<close> joins the managers of an ancestor of a group with the ancestors of the viewer; a managed user
  only counts itself (\<open>is_self\<close>), other managed groups count all their ancestors.
\<close>

definition managed_users_and_ancestors_of_managed_groups :: "db \<Rightarrow> id \<Rightarrow> id list" where
  "managed_users_and_ancestors_of_managed_groups d g =
     [ga_ancestor b. a \<leftarrow> groups_ancestors_active d, b \<leftarrow> groups_ancestors_active d,
        (\<exists>m \<in> set (db_managers d). gm_group m = ga_ancestor a \<and> anc d (gm_manager m) g) \<and>
        ga_child b = ga_child a \<and>
        (case group_type_of d (ga_child a) of None \<Rightarrow> False | Some t \<Rightarrow> t \<noteq> User \<or> ga_ancestor b = ga_child b) \<and>
        (case group_type_of d (ga_ancestor b) of None \<Rightarrow> False | Some t \<Rightarrow> t \<noteq> ContestParticipants)]"

definition is_visible_for_group :: "db \<Rightarrow> id \<Rightarrow> id \<Rightarrow> bool" where
  "is_visible_for_group d g viewer =
     (g = viewer \<or>
      (case group_by_id d g of
         None \<Rightarrow> False
       | Some row \<Rightarrow> g_is_public row \<or> g \<in> set (ancestors_of_joined_groups d viewer)
           \<or> g \<in> set (managed_users_and_ancestors_of_managed_groups d viewer)))"

text \<open>\<open>MatchingGroupAncestors\<close>: the generated permissions of the ancestors of a group.\<close>

definition matching_group_ancestors :: "db \<Rightarrow> id \<Rightarrow> generated_row list" where
  "matching_group_ancestors d g = filter (\<lambda>p. anc d (pgen_group p) g) (db_permissions_generated d)"

end
