(* ===== verification/UpdatePermissions.thy ===== *)
theory UpdatePermissions
  imports Visibility
begin

text \<open>
  The service changing the permissions a group gives on an item, app/api/groups/update_permissions.go: the checks
  that the user may act on the group and the item, the validators of the input (run in the order of the fields,
  each seeing the values accepted before it), the corrections of dependent permissions and the write.
  The generic parts of app/formdata/form_data.go are modelled as this service uses them: a field that is not set
  is skipped, the tags of a field are tried until one fails, and \<open>ConstructMapForDB\<close> keeps the fields that are set.
  The \<open>items\<close> table is not modelled, so the foreign key of the item is not checked.
\<close>

section \<open>Input and state\<close>

text \<open>\<open>setCanRequestHelpTo\<close>: each of the two keys may be missing, and the id may be null.\<close>

record help_input =
  hi_id :: "id option option"
  hi_is_all_users_group :: "bool option"

record permissions_input =
  pi_is_owner :: "bool option"
  pi_can_view :: "string option"
  pi_can_grant_view :: "string option"
  pi_can_watch :: "string option"
  pi_can_edit :: "string option"
  pi_can_make_session_official :: "bool option"
  pi_can_enter_from :: "time option"
  pi_can_enter_until :: "time option"
  pi_can_request_help_to :: "help_input option"

record user_permissions =
  up_can_view :: nat
  up_can_grant_view :: nat
  up_can_watch :: nat
  up_can_edit :: nat
  up_can_enter_from :: time
  up_can_enter_until :: time
  up_can_make_session_official :: bool
  up_is_owner :: bool
  up_can_request_help_to :: "id option"

record manager_permissions =
  mp_can_grant_view :: nat
  mp_can_watch :: nat
  mp_can_edit :: nat
  mp_is_owner :: bool

text \<open>The map of the columns to write, one field per key.\<close>

record data_map =
  dm_is_owner :: "bool option"
  dm_can_view :: "string option"
  dm_can_grant_view :: "string option"
  dm_can_watch :: "string option"
  dm_can_edit :: "string option"
  dm_can_make_session_official :: "bool option"
  dm_can_enter_from :: "time option"
  dm_can_enter_until :: "time option"
  dm_can_request_help_to :: "id option option"
  dm_is_all_users_group :: "bool option"

datatype handler_error =
    InsufficientAccessRights
  | InvalidInput "string list"
  | InternalError db_error

section \<open>Access checks\<close>

definition user_may_grant_to_group :: "db \<Rightarrow> id \<Rightarrow> id \<Rightarrow> id \<Rightarrow> bool" where
  "user_may_grant_to_group d user source g =
     ((case group_type_of d source of None \<Rightarrow> False | Some t \<Rightarrow> t \<noteq> User) \<and> anc d source g \<and>
      (\<exists>m \<in> set (managed_by d user source). gm_can_grant_group_access m))"

definition item_or_parent_visible_or_root :: "db \<Rightarrow> id \<Rightarrow> id \<Rightarrow> db_error + bool" where
  "item_or_parent_visible_or_root d g item =
     (case view_index ''info'' of
        Inl e \<Rightarrow> Inl e
      | Inr info \<Rightarrow>
          Inr ((\<exists>p \<in> set (matching_group_ancestors d g). info \<le> pgen_can_view p \<and>
                  (\<exists>e \<in> set (db_items_items d). ii_parent e = pgen_item p \<and> ii_child e = item)) \<or>
               (\<exists>p \<in> set (matching_group_ancestors d g). info \<le> pgen_can_view p \<and> pgen_item p = item) \<or>
               (\<exists>r \<in> set (db_groups d). anc d (g_id r) g \<and> (g_root_activity_id r = Some item \<or> g_root_skill_id r = Some item))))"

section \<open>Reading the current permissions\<close>

definition max_or :: "'a::linorder \<Rightarrow> 'a list \<Rightarrow> 'a" where
  "max_or a xs = (case xs of [] \<Rightarrow> a | x # ys \<Rightarrow> fold max ys x)"

definition max_option :: "id option list \<Rightarrow> id option" where
  "max_option xs = (case [x. Some x \<leftarrow> xs] of [] \<Rightarrow> None | x # ys \<Rightarrow> Some (fold max ys x))"

definition current_permissions :: "db \<Rightarrow> id \<Rightarrow> id \<Rightarrow> id \<Rightarrow> user_permissions" where
  "current_permissions d g item source =
     (let rows = filter (\<lambda>r. pg_group r = g \<and> pg_item r = item \<and> pg_source_group r = source \<and> pg_origin r = GroupMembership)
                   (db_permissions_granted d)
      in \<lparr>up_can_view = max_or 1 (map pg_can_view rows), up_can_grant_view = max_or 1 (map pg_can_grant_view rows),
          up_can_watch = max_or 1 (map pg_can_watch rows), up_can_edit = max_or 1 (map pg_can_edit rows),
          up_can_enter_from = max_or max_time (map pg_can_enter_from rows),
          up_can_enter_until = max_or max_time (map pg_can_enter_until rows),
          up_can_make_session_official = (\<exists>r \<in> set rows. pg_can_make_session_official r),
          up_is_owner = (\<exists>r \<in> set rows. pg_is_owner r),
          up_can_request_help_to = max_option (map pg_can_request_help_to rows)\<rparr>)"

text \<open>MAX over no rows is NULL, which the scan leaves as the zero value.\<close>

definition manager_generated_permissions :: "db \<Rightarrow> id \<Rightarrow> id \<Rightarrow> manager_permissions" where
  "manager_generated_permissions d user item =
     (let rows = filter (\<lambda>p. pgen_item p = item) (matching_group_ancestors d user)
      in \<lparr>mp_can_grant_view = max_or 0 (map pgen_can_grant_view rows), mp_can_watch = max_or 0 (map pgen_can_watch rows),
          mp_can_edit = max_or 0 (map pgen_can_edit rows), mp_is_owner = (\<exists>r \<in> set rows. pgen_is_owner r)\<rparr>)"

section \<open>The rules for raising a permission\<close>

definition possible_to_modify_can_view :: "string \<Rightarrow> user_permissions \<Rightarrow> manager_permissions \<Rightarrow> db_error + bool" where
  "possible_to_modify_can_view v cur mgr =
     bind_result (view_index v) (\<lambda>i.
       if i \<le> up_can_view cur then Inr True
       else bind_result (grant_view_index (if v = ''info'' then ''enter'' else v)) (\<lambda>needed.
              Inr (needed \<le> mp_can_grant_view mgr)))"

definition possible_to_modify_can_grant_view :: "string \<Rightarrow> user_permissions \<Rightarrow> manager_permissions \<Rightarrow> db_error + bool" where
  "possible_to_modify_can_grant_view v cur mgr =
     bind_result (grant_view_index v) (\<lambda>i.
       if i \<le> up_can_grant_view cur then Inr True
       else bind_result (view_index (if v = ''enter'' then ''info'' else if v = ''solution_with_grant'' then ''solution'' else v))
              (\<lambda>needed.
                 if up_can_view cur < needed then Inr False
                 else if v = ''solution_with_grant'' \<and> \<not> mp_is_owner mgr then Inr False
                 else bind_result (grant_view_index ''solution_with_grant'') (\<lambda>swg. Inr (mp_can_grant_view mgr = swg))))"

definition possible_to_modify_can_watch :: "string \<Rightarrow> user_permissions \<Rightarrow> manager_permissions \<Rightarrow> db_error + bool" where
  "possible_to_modify_can_watch v cur mgr =
     bind_result (watch_index v) (\<lambda>i.
       if i \<le> up_can_watch cur then Inr True
       else bind_result (view_index ''content'') (\<lambda>content.
              if up_can_view cur < content then Inr False
              else if v = ''answer_with_grant'' \<and> \<not> mp_is_owner mgr then Inr False
              else bind_result (watch_index ''answer_with_grant'') (\<lambda>awg. Inr (mp_can_watch mgr = awg))))"

definition possible_to_modify_can_edit :: "string \<Rightarrow> user_permissions \<Rightarrow> manager_permissions \<Rightarrow> db_error + bool" where
  "possible_to_modify_can_edit v cur mgr =
     bind_result (edit_index v) (\<lambda>i.
       if i \<le> up_can_edit cur then Inr True
       else bind_result (view_index ''content'') (\<lambda>content.
              if up_can_view cur < content then Inr False
              else if v = ''all_with_grant'' \<and> \<not> mp_is_owner mgr then Inr False
              else bind_result (edit_index ''all_with_grant'') (\<lambda>awg. Inr (mp_can_edit mgr = awg))))"

definition possible_to_modify_official :: "bool \<Rightarrow> user_permissions \<Rightarrow> manager_permissions \<Rightarrow> db_error + bool" where
  "possible_to_modify_official v cur mgr =
     (if \<not> v \<or> v = up_can_make_session_official cur then Inr True
      else bind_result (view_index ''info'') (\<lambda>info. if up_can_view cur < info then Inr False else Inr (mp_is_owner mgr)))"

definition possible_to_modify_can_enter_from :: "time \<Rightarrow> user_permissions \<Rightarrow> manager_permissions \<Rightarrow> db_error + bool" where
  "possible_to_modify_can_enter_from v cur mgr =
     (if \<not> up_can_enter_from cur > v then Inr True
      else bind_result (grant_view_index ''enter'') (\<lambda>enter. Inr (enter \<le> mp_can_grant_view mgr)))"

definition possible_to_modify_can_enter_until :: "time \<Rightarrow> user_permissions \<Rightarrow> manager_permissions \<Rightarrow> db_error + bool" where
  "possible_to_modify_can_enter_until v cur mgr =
     (if \<not> up_can_enter_until cur < v then Inr True
      else bind_result (grant_view_index ''enter'') (\<lambda>enter. Inr (enter \<le> mp_can_grant_view mgr)))"

definition can_request_help_to_is_modified :: "id option \<Rightarrow> id option \<Rightarrow> bool" where
  "can_request_help_to_is_modified new old =
     (if new \<noteq> None \<and> old \<noteq> None \<and> the new \<noteq> the old then True
      else new \<noteq> None \<and> old = None \<or> new = None \<and> old \<noteq> None)"

section \<open>The validators\<close>

record validation =
  va_current :: user_permissions
  va_modified :: bool
  va_errors :: "string list"

text \<open>A field: skipped when not set, otherwise its checks run until one fails.\<close>

definition validate_field ::
  "string \<Rightarrow> 'a option \<Rightarrow> ('a \<Rightarrow> validation \<Rightarrow> db_error + (bool \<times> validation)) \<Rightarrow> validation \<Rightarrow> db_error + validation" where
  "validate_field name field check s =
     (case field of
        None \<Rightarrow> Inr s
      | Some v \<Rightarrow> bind_result (check v s) (\<lambda>(ok, s').
          Inr (if ok then s' else s'\<lparr>va_errors := va_errors s' @ [name]\<rparr>)))"

definition check_is_owner :: "manager_permissions \<Rightarrow> bool \<Rightarrow> validation \<Rightarrow> db_error + (bool \<times> validation)" where
  "check_is_owner mgr v s =
     (if v \<and> v \<noteq> up_is_owner (va_current s) \<and> \<not> mp_is_owner mgr then Inr (False, s)
      else Inr (True, s\<lparr>va_modified := va_modified s \<or> up_is_owner (va_current s) \<noteq> v\<rparr>))"

text \<open>The four levels share their shape: the tag 'oneof', the rule, and the update of the current value.\<close>

definition check_level ::
  "string list \<Rightarrow> (string \<Rightarrow> user_permissions \<Rightarrow> db_error + bool) \<Rightarrow> (string \<Rightarrow> db_error + nat)
     \<Rightarrow> (user_permissions \<Rightarrow> nat) \<Rightarrow> (nat \<Rightarrow> user_permissions \<Rightarrow> user_permissions)
     \<Rightarrow> string \<Rightarrow> validation \<Rightarrow> db_error + (bool \<times> validation)" where
  "check_level names possible index get put v s =
     (if v \<notin> set names then Inr (False, s)
      else bind_result (possible v (va_current s)) (\<lambda>ok.
        if \<not> ok then Inr (False, s)
        else bind_result (index v) (\<lambda>i.
          Inr (True, if get (va_current s) \<noteq> i
                     then s\<lparr>va_current := put i (va_current s), va_modified := True\<rparr> else s))))"

definition check_can_view :: "manager_permissions \<Rightarrow> string \<Rightarrow> validation \<Rightarrow> db_error + (bool \<times> validation)" where
  "check_can_view mgr =
     check_level [''none'', ''info'', ''content'', ''content_with_descendants'', ''solution'']
       (\<lambda>v cur. possible_to_modify_can_view v cur mgr) view_index up_can_view (\<lambda>i cur. cur\<lparr>up_can_view := i\<rparr>)"

definition check_can_grant_view :: "manager_permissions \<Rightarrow> string \<Rightarrow> validation \<Rightarrow> db_error + (bool \<times> validation)" where
  "check_can_grant_view mgr =
     check_level [''none'', ''enter'', ''content'', ''content_with_descendants'', ''solution'', ''solution_with_grant'']
       (\<lambda>v cur. possible_to_modify_can_grant_view v cur mgr) grant_view_index up_can_grant_view
       (\<lambda>i cur. cur\<lparr>up_can_grant_view := i\<rparr>)"

definition check_can_watch :: "manager_permissions \<Rightarrow> string \<Rightarrow> validation \<Rightarrow> db_error + (bool \<times> validation)" where
  "check_can_watch mgr =
     check_level [''none'', ''result'', ''answer'', ''answer_with_grant'']
       (\<lambda>v cur. possible_to_modify_can_watch v cur mgr) watch_index up_can_watch (\<lambda>i cur. cur\<lparr>up_can_watch := i\<rparr>)"

definition check_can_edit :: "manager_permissions \<Rightarrow> string \<Rightarrow> validation \<Rightarrow> db_error + (bool \<times> validation)" where
  "check_can_edit mgr =
     check_level [''none'', ''children'', ''all'', ''all_with_grant'']
       (\<lambda>v cur. possible_to_modify_can_edit v cur mgr) edit_index up_can_edit (\<lambda>i cur. cur\<lparr>up_can_edit := i\<rparr>)"

definition check_official :: "manager_permissions \<Rightarrow> bool \<Rightarrow> validation \<Rightarrow> db_error + (bool \<times> validation)" where
  "check_official mgr v s =
     bind_result (possible_to_modify_official v (va_current s) mgr) (\<lambda>ok.
       if \<not> ok then Inr (False, s)
       else Inr (True, if up_can_make_session_official (va_current s) \<noteq> v
                       then s\<lparr>va_current := (va_current s)\<lparr>up_can_make_session_official := v\<rparr>, va_modified := True\<rparr> else s))"

definition check_can_enter_from :: "manager_permissions \<Rightarrow> time \<Rightarrow> validation \<Rightarrow> db_error + (bool \<times> validation)" where
  "check_can_enter_from mgr v s =
     bind_result (possible_to_modify_can_enter_from v (va_current s) mgr) (\<lambda>ok.
       if \<not> ok then Inr (False, s)
       else Inr (True, s\<lparr>va_modified := va_modified s \<or> v \<noteq> up_can_enter_from (va_current s)\<rparr>))"

definition check_can_enter_until :: "manager_permissions \<Rightarrow> time \<Rightarrow> validation \<Rightarrow> db_error + (bool \<times> validation)" where
  "check_can_enter_until mgr v s =
     bind_result (possible_to_modify_can_enter_until v (va_current s) mgr) (\<lambda>ok.
       if \<not> ok then Inr (False, s)
       else Inr (True, s\<lparr>va_modified := va_modified s \<or> v \<noteq> up_can_enter_until (va_current s)\<rparr>))"

text \<open>The decoded value of the help field: missing keys are nil and false.\<close>

definition help_id :: "help_input \<Rightarrow> id option" where
  "help_id h = (case hi_id h of None \<Rightarrow> None | Some x \<Rightarrow> x)"

definition help_all :: "help_input \<Rightarrow> bool" where
  "help_all h = (hi_is_all_users_group h = Some True)"

definition help_visible :: "db \<Rightarrow> id \<Rightarrow> id \<Rightarrow> user_permissions \<Rightarrow> help_input \<Rightarrow> bool" where
  "help_visible d user g cur h =
     (case help_id h of
        None \<Rightarrow> True
      | Some i \<Rightarrow> up_can_request_help_to cur = Some i \<or> is_visible_for_group d i user \<and> is_visible_for_group d i g)"

definition check_help :: "db \<Rightarrow> id \<Rightarrow> id \<Rightarrow> manager_permissions \<Rightarrow> help_input \<Rightarrow> validation \<Rightarrow> db_error + (bool \<times> validation)" where
  "check_help d user g mgr h s =
     (let s1 = s\<lparr>va_modified := va_modified s \<or> help_all h \<or>
                   can_request_help_to_is_modified (help_id h) (up_can_request_help_to (va_current s))\<rparr>
      in if help_id h \<noteq> None \<and> help_all h then Inr (False, s1)
         else bind_result (grant_view_index ''content'') (\<lambda>content.
           if \<not> mp_can_grant_view mgr \<ge> content then Inr (False, s1)
           else Inr (help_visible d user g (va_current s1) h, s1)))"

definition validate_input ::
  "db \<Rightarrow> id \<Rightarrow> id \<Rightarrow> manager_permissions \<Rightarrow> permissions_input \<Rightarrow> user_permissions \<Rightarrow> db_error + validation" where
  "validate_input d user g mgr inp cur =
     bind_result (validate_field ''is_owner'' (pi_is_owner inp) (check_is_owner mgr)
                    \<lparr>va_current = cur, va_modified = False, va_errors = []\<rparr>) (\<lambda>s1.
     bind_result (validate_field ''can_view'' (pi_can_view inp) (check_can_view mgr) s1) (\<lambda>s2.
     bind_result (validate_field ''can_grant_view'' (pi_can_grant_view inp) (check_can_grant_view mgr) s2) (\<lambda>s3.
     bind_result (validate_field ''can_watch'' (pi_can_watch inp) (check_can_watch mgr) s3) (\<lambda>s4.
     bind_result (validate_field ''can_edit'' (pi_can_edit inp) (check_can_edit mgr) s4) (\<lambda>s5.
     bind_result (validate_field ''can_make_session_official'' (pi_can_make_session_official inp) (check_official mgr) s5) (\<lambda>s6.
     bind_result (validate_field ''can_enter_from'' (pi_can_enter_from inp) (check_can_enter_from mgr) s6) (\<lambda>s7.
     bind_result (validate_field ''can_enter_until'' (pi_can_enter_until inp) (check_can_enter_until mgr) s7) (\<lambda>s8.
     validate_field ''can_request_help_to'' (pi_can_request_help_to inp) (check_help d user g mgr) s8))))))))"

text \<open>\<open>ConstructMapForDB\<close>: the fields of the nested structure land in the root map.\<close>

definition construct_map_for_db :: "permissions_input \<Rightarrow> data_map" where
  "construct_map_for_db inp =
     \<lparr>dm_is_owner = pi_is_owner inp, dm_can_view = pi_can_view inp, dm_can_grant_view = pi_can_grant_view inp,
      dm_can_watch = pi_can_watch inp, dm_can_edit = pi_can_edit inp,
      dm_can_make_session_official = pi_can_make_session_official inp, dm_can_enter_from = pi_can_enter_from inp,
      dm_can_enter_until = pi_can_enter_until inp,
      dm_can_request_help_to = (case pi_can_request_help_to inp of None \<Rightarrow> None | Some h \<Rightarrow> hi_id h),
      dm_is_all_users_group = (case pi_can_request_help_to inp of None \<Rightarrow> None | Some h \<Rightarrow> hi_is_all_users_group h)\<rparr>"

section \<open>Corrections and the write\<close>

definition correct_permissions_data_map :: "user_permissions \<Rightarrow> data_map \<Rightarrow> db_error + data_map" where
  "correct_permissions_data_map cur dm =
     bind_result (grant_view_index ''solution_with_grant'') (\<lambda>swg.
     bind_result (view_index ''solution'') (\<lambda>solution.
     bind_result (view_index ''content'') (\<lambda>content.
     bind_result (watch_index ''none'') (\<lambda>watch_none.
     bind_result (edit_index ''none'') (\<lambda>edit_none.
     bind_result (view_index ''info'') (\<lambda>info.
     bind_result
       (if up_can_grant_view cur = swg \<and> up_can_view cur \<noteq> solution \<or>
           up_can_grant_view cur < swg \<and> up_can_view cur < up_can_grant_view cur
        then bind_result (grant_view_name (up_can_view cur)) (\<lambda>name. Inr (dm\<lparr>dm_can_grant_view := Some name\<rparr>))
        else Inr dm) (\<lambda>dm1.
     Inr (if up_can_view cur < content then
            dm1\<lparr>dm_can_watch := (if watch_none < up_can_watch cur then Some ''none'' else dm_can_watch dm1),
                dm_can_edit := (if edit_none < up_can_edit cur then Some ''none'' else dm_can_edit dm1),
                dm_can_make_session_official := (if up_can_make_session_official cur \<and> up_can_view cur < info
                  then Some False else dm_can_make_session_official dm1)\<rparr>
          else dm1))))))))"

text \<open>\<open>if _, ok := dataMap["is_all_users_group"]; ok\<close>: the key, not its value.\<close>

definition resolve_all_users_group :: "id \<Rightarrow> data_map \<Rightarrow> data_map" where
  "resolve_all_users_group all_users dm =
     (if dm_is_all_users_group dm \<noteq> None
      then dm\<lparr>dm_is_all_users_group := None, dm_can_request_help_to := Some (Some all_users)\<rparr> else dm)"

text \<open>The number an enumeration column gives to a name.\<close>

definition column_level :: "(string \<Rightarrow> db_error + nat) \<Rightarrow> string option \<Rightarrow> nat \<Rightarrow> nat" where
  "column_level index name old = (case name of None \<Rightarrow> old | Some n \<Rightarrow> (case index n of Inr i \<Rightarrow> i | Inl _ \<Rightarrow> 0))"

definition or_old :: "'a option \<Rightarrow> 'a \<Rightarrow> 'a" where
  "or_old new old = (case new of None \<Rightarrow> old | Some x \<Rightarrow> x)"

definition apply_data_map :: "time \<Rightarrow> data_map \<Rightarrow> granted_row \<Rightarrow> granted_row" where
  "apply_data_map now dm r =
     r\<lparr>pg_can_view := column_level view_index (dm_can_view dm) (pg_can_view r),
       pg_can_grant_view := column_level grant_view_index (dm_can_grant_view dm) (pg_can_grant_view r),
       pg_can_watch := column_level watch_index (dm_can_watch dm) (pg_can_watch r),
       pg_can_edit := column_level edit_index (dm_can_edit dm) (pg_can_edit r),
       pg_can_make_session_official := or_old (dm_can_make_session_official dm) (pg_can_make_session_official r),
       pg_is_owner := or_old (dm_is_owner dm) (pg_is_owner r),
       pg_can_enter_from := or_old (dm_can_enter_from dm) (pg_can_enter_from r),
       pg_can_enter_until := or_old (dm_can_enter_until dm) (pg_can_enter_until r),
       pg_can_request_help_to := or_old (dm_can_request_help_to dm) (pg_can_request_help_to r),
       pg_latest_update_at := now\<rparr>"

text \<open>The column defaults of an inserted row.\<close>

definition default_granted_row :: "id \<Rightarrow> id \<Rightarrow> id \<Rightarrow> time \<Rightarrow> granted_row" where
  "default_granted_row g item source now =
     \<lparr>pg_group = g, pg_item = item, pg_source_group = source, pg_origin = GroupMembership,
      pg_can_view = 1, pg_can_grant_view = 1, pg_can_watch = 1, pg_can_edit = 1,
      pg_can_make_session_official = False, pg_is_owner = False, pg_can_enter_from = max_time, pg_can_enter_until = max_time,
      pg_can_request_help_to = None, pg_latest_update_at = now\<rparr>"

text \<open>The triggers mark the pair at every insertion, and at an update that changes one of five columns.\<close>

definition propagated_columns :: "granted_row \<Rightarrow> nat \<times> nat \<times> nat \<times> nat \<times> bool" where
  "propagated_columns r = (pg_can_view r, pg_can_grant_view r, pg_can_watch r, pg_can_edit r, pg_is_owner r)"

definition upsert_permissions_granted :: "(granted_row \<Rightarrow> granted_row) \<Rightarrow> granted_row \<Rightarrow> db \<Rightarrow> db" where
  "upsert_permissions_granted upd r d =
     (let t = db_permissions_granted d;
          mark = (case tbl_find pg_key (pg_key r) t of
                    None \<Rightarrow> True | Some old \<Rightarrow> propagated_columns (upd old) \<noteq> propagated_columns old);
          d1 = (if mark then mark_permission_self (pg_group r) (pg_item r) d else d)
      in d1\<lparr>db_permissions_granted := tbl_upsert pg_key upd r t\<rparr>)"

definition save_permissions :: "id \<Rightarrow> id \<Rightarrow> id \<Rightarrow> data_map \<Rightarrow> db \<Rightarrow> db" where
  "save_permissions g item source dm d =
     (let upd = apply_data_map (db_now d) dm;
          d1 = schedule_permissions_propagation
                 (upsert_permissions_granted upd (upd (default_granted_row g item source (db_now d))) d)
      in if dm_can_view dm \<noteq> None \<and> dm_can_view dm \<noteq> Some ''none'' \<or> dm_is_owner dm = Some True
         then schedule_results_propagation d1 else d1)"

definition lift_error :: "db_error + 'a \<Rightarrow> handler_error + 'a" where
  "lift_error r = (case r of Inl e \<Rightarrow> Inl (InternalError e) | Inr x \<Rightarrow> Inr x)"

definition update_permissions ::
  "id \<Rightarrow> id \<Rightarrow> id \<Rightarrow> id \<Rightarrow> id \<Rightarrow> permissions_input \<Rightarrow> db \<Rightarrow> handler_error + db" where
  "update_permissions all_users user source g item inp d =
     (if \<not> user_may_grant_to_group d user source g then Inl InsufficientAccessRights
      else bind_result (lift_error (item_or_parent_visible_or_root d g item)) (\<lambda>visible.
        if \<not> visible then Inl InsufficientAccessRights
        else bind_result (lift_error (validate_input d user g (manager_generated_permissions d user item) inp
                            (current_permissions d g item source))) (\<lambda>s.
          if va_errors s \<noteq> [] then Inl (InvalidInput (va_errors s))
          else if \<not> va_modified s then Inr d
          else bind_result (lift_error (correct_permissions_data_map (va_current s) (construct_map_for_db inp))) (\<lambda>dm.
            Inr (save_permissions g item source (resolve_all_users_group all_users dm) d)))))"

end
