(* ===== verification/PermissionRules.thy ===== *)
theory PermissionRules
  imports UpdatePermissions
begin

text \<open>
  What \<open>updatePermissions\<close> guarantees: nobody raises a permission without the right to, the stored
  permissions are consistent with one another, and nothing else is written.
\<close>

section \<open>What the validators accept\<close>

lemma validate_field_accepts:
  assumes "validate_field name field check s = Inr s'" and "va_errors s' = []"
  shows "field = None \<and> s' = s \<or> (\<exists>v. field = Some v \<and> check v s = Inr (True, s'))"
  using assms by (auto simp: validate_field_def bind_result_Inr split: option.splits if_splits)

lemma check_level_True:
  assumes "check_level names possible index get put v s = Inr (True, s')"
  obtains i where "v \<in> set names" "possible v (va_current s) = Inr True" "index v = Inr i"
    "s' = (if get (va_current s) \<noteq> i then s\<lparr>va_current := put i (va_current s), va_modified := True\<rparr> else s)"
proof -
  have "v \<in> set names" using assms by (auto simp: check_level_def split: if_splits)
  with assms obtain ok where ok: "possible v (va_current s) = Inr ok"
      "(if \<not> ok then Inr (False, s) else bind_result (index v) (\<lambda>i. Inr (True, if get (va_current s) \<noteq> i
         then s\<lparr>va_current := put i (va_current s), va_modified := True\<rparr> else s))) = (Inr (True, s') :: db_error + _)"
    by (simp only: check_level_def not_not if_False simp_thms bind_result_Inr) blast
  then have "ok" by (simp split: if_splits)
  with ok obtain i where "index v = Inr i" and
      "s' = (if get (va_current s) \<noteq> i then s\<lparr>va_current := put i (va_current s), va_modified := True\<rparr> else s)"
    by (simp only: not_True_eq_False if_False bind_result_Inr sum.inject prod.inject simp_thms) metis
  with \<open>v \<in> set names\<close> ok(1) \<open>ok\<close> that show thesis by simp
qed

lemma check_level_accepts:
  assumes "validate_field name field (check_level names possible index get put) s = Inr s'" and "va_errors s' = []"
    and put: "\<And>cur. put (get cur) cur = cur"
  shows "va_errors s = [] \<and>
    (field = None \<and> s' = s \<or>
     (\<exists>v i. field = Some v \<and> v \<in> set names \<and> possible v (va_current s) = Inr True \<and> index v = Inr i \<and>
        va_current s' = put i (va_current s) \<and> va_modified s' = (va_modified s \<or> get (va_current s) \<noteq> i)))"
  using validate_field_accepts [OF assms(1,2)]
proof (elim disjE exE conjE)
  fix v assume v: "field = Some v" "check_level names possible index get put v s = Inr (True, s')"
  from v(2) obtain i where i: "v \<in> set names" "possible v (va_current s) = Inr True" "index v = Inr i"
    "s' = (if get (va_current s) \<noteq> i then s\<lparr>va_current := put i (va_current s), va_modified := True\<rparr> else s)"
    by (rule check_level_True)
  then have "va_errors s = []" "va_current s' = put i (va_current s)" "va_modified s' = (va_modified s \<or> get (va_current s) \<noteq> i)"
    using assms(2) put [of "va_current s"] by (auto split: if_splits)
  with v(1) i(1-3) show ?thesis by blast
qed (use assms(2) in simp)

text \<open>When a level may be raised.\<close>

lemma view_rule:
  assumes "v \<in> set [''none'', ''info'', ''content'', ''content_with_descendants'', ''solution'']"
    and "possible_to_modify_can_view v cur mgr = Inr True" and "view_index v = Inr i"
  shows "1 \<le> i \<and> i \<le> 5 \<and> (up_can_view cur < i \<longrightarrow> i \<le> mp_can_grant_view mgr)"
  using assms(1) unfolding list.set insert_iff empty_iff simp_thms
  by (elim disjE) (use assms(2,3) in \<open>simp_all add: possible_to_modify_can_view_def split: if_splits\<close>)

lemma grant_view_rule:
  assumes "v \<in> set [''none'', ''enter'', ''content'', ''content_with_descendants'', ''solution'', ''solution_with_grant'']"
    and "possible_to_modify_can_grant_view v cur mgr = Inr True" and "grant_view_index v = Inr i"
  shows "1 \<le> i \<and> i \<le> 6 \<and>
    (up_can_grant_view cur < i \<longrightarrow> mp_can_grant_view mgr = 6 \<and> (i = 6 \<longrightarrow> mp_is_owner mgr) \<and> min i 5 \<le> up_can_view cur)"
  using assms(1) unfolding list.set insert_iff empty_iff simp_thms
  by (elim disjE) (use assms(2,3) in \<open>simp_all add: possible_to_modify_can_grant_view_def split: if_splits\<close>)

lemma watch_rule:
  assumes "v \<in> set [''none'', ''result'', ''answer'', ''answer_with_grant'']"
    and "possible_to_modify_can_watch v cur mgr = Inr True" and "watch_index v = Inr i"
  shows "1 \<le> i \<and> i \<le> 4 \<and>
    (up_can_watch cur < i \<longrightarrow> mp_can_watch mgr = 4 \<and> (i = 4 \<longrightarrow> mp_is_owner mgr) \<and> 3 \<le> up_can_view cur)"
  using assms(1) unfolding list.set insert_iff empty_iff simp_thms
  by (elim disjE) (use assms(2,3) in \<open>simp_all add: possible_to_modify_can_watch_def split: if_splits\<close>)

lemma edit_rule:
  assumes "v \<in> set [''none'', ''children'', ''all'', ''all_with_grant'']"
    and "possible_to_modify_can_edit v cur mgr = Inr True" and "edit_index v = Inr i"
  shows "1 \<le> i \<and> i \<le> 4 \<and>
    (up_can_edit cur < i \<longrightarrow> mp_can_edit mgr = 4 \<and> (i = 4 \<longrightarrow> mp_is_owner mgr) \<and> 3 \<le> up_can_view cur)"
  using assms(1) unfolding list.set insert_iff empty_iff simp_thms
  by (elim disjE) (use assms(2,3) in \<open>simp_all add: possible_to_modify_can_edit_def split: if_splits\<close>)

text \<open>One accepted step per field, with the frame of the values it leaves alone.\<close>

lemma view_step:
  assumes "validate_field name field (check_can_view mgr) s = Inr s'" and "va_errors s' = []"
  shows "va_errors s = [] \<and> va_current s' = (va_current s)\<lparr>up_can_view := column_level view_index field (up_can_view (va_current s))\<rparr> \<and>
    (va_modified s \<longrightarrow> va_modified s') \<and> (field \<noteq> None \<longrightarrow> 1 \<le> up_can_view (va_current s') \<and> up_can_view (va_current s') \<le> 5) \<and>
    (up_can_view (va_current s) < up_can_view (va_current s') \<longrightarrow> up_can_view (va_current s') \<le> mp_can_grant_view mgr)"
  using check_level_accepts [OF assms(1) [unfolded check_can_view_def] assms(2)] view_rule [of _ "va_current s" mgr]
  by (fastforce simp: column_level_def)

lemma grant_view_step:
  assumes "validate_field name field (check_can_grant_view mgr) s = Inr s'" and "va_errors s' = []"
  shows "va_errors s = [] \<and>
    va_current s' = (va_current s)\<lparr>up_can_grant_view := column_level grant_view_index field (up_can_grant_view (va_current s))\<rparr> \<and>
    (va_modified s \<longrightarrow> va_modified s') \<and> (field \<noteq> None \<longrightarrow> 1 \<le> up_can_grant_view (va_current s') \<and> up_can_grant_view (va_current s') \<le> 6) \<and>
    (up_can_grant_view (va_current s) < up_can_grant_view (va_current s') \<longrightarrow>
       mp_can_grant_view mgr = 6 \<and> (up_can_grant_view (va_current s') = 6 \<longrightarrow> mp_is_owner mgr))"
  using check_level_accepts [OF assms(1) [unfolded check_can_grant_view_def] assms(2)] grant_view_rule [of _ "va_current s" mgr]
  by (fastforce simp: column_level_def)

lemma watch_step:
  assumes "validate_field name field (check_can_watch mgr) s = Inr s'" and "va_errors s' = []"
  shows "va_errors s = [] \<and> va_current s' = (va_current s)\<lparr>up_can_watch := column_level watch_index field (up_can_watch (va_current s))\<rparr> \<and>
    (va_modified s \<longrightarrow> va_modified s') \<and> (field \<noteq> None \<longrightarrow> 1 \<le> up_can_watch (va_current s')) \<and>
    (up_can_watch (va_current s) < up_can_watch (va_current s') \<longrightarrow>
       mp_can_watch mgr = 4 \<and> (up_can_watch (va_current s') = 4 \<longrightarrow> mp_is_owner mgr))"
  using check_level_accepts [OF assms(1) [unfolded check_can_watch_def] assms(2)] watch_rule [of _ "va_current s" mgr]
  by (fastforce simp: column_level_def)

lemma edit_step:
  assumes "validate_field name field (check_can_edit mgr) s = Inr s'" and "va_errors s' = []"
  shows "va_errors s = [] \<and> va_current s' = (va_current s)\<lparr>up_can_edit := column_level edit_index field (up_can_edit (va_current s))\<rparr> \<and>
    (va_modified s \<longrightarrow> va_modified s') \<and> (field \<noteq> None \<longrightarrow> 1 \<le> up_can_edit (va_current s')) \<and>
    (up_can_edit (va_current s) < up_can_edit (va_current s') \<longrightarrow>
       mp_can_edit mgr = 4 \<and> (up_can_edit (va_current s') = 4 \<longrightarrow> mp_is_owner mgr))"
  using check_level_accepts [OF assms(1) [unfolded check_can_edit_def] assms(2)] edit_rule [of _ "va_current s" mgr]
  by (fastforce simp: column_level_def)

lemma official_step:
  assumes "validate_field name field (check_official mgr) s = Inr s'" and "va_errors s' = []"
  shows "va_errors s = [] \<and>
    va_current s' = (va_current s)\<lparr>up_can_make_session_official := or_old field (up_can_make_session_official (va_current s))\<rparr> \<and>
    (va_modified s \<longrightarrow> va_modified s') \<and>
    (up_can_make_session_official (va_current s') \<and> \<not> up_can_make_session_official (va_current s) \<longrightarrow> mp_is_owner mgr)"
  using validate_field_accepts [OF assms] assms(2)
  by (auto simp: check_official_def possible_to_modify_official_def bind_result_Inr or_old_def split: if_splits)

lemma is_owner_step:
  assumes "validate_field name field (check_is_owner mgr) s = Inr s'" and "va_errors s' = []"
  shows "va_errors s = [] \<and> va_current s' = va_current s \<and>
    (or_old field (up_is_owner (va_current s)) \<and> \<not> up_is_owner (va_current s) \<longrightarrow> mp_is_owner mgr)"
  using validate_field_accepts [OF assms] assms(2)
  by (auto simp: check_is_owner_def or_old_def split: if_splits)

lemma enter_from_step:
  assumes "validate_field name field (check_can_enter_from mgr) s = Inr s'" and "va_errors s' = []"
  shows "va_errors s = [] \<and> va_current s' = va_current s \<and>
    (or_old field (up_can_enter_from (va_current s)) < up_can_enter_from (va_current s) \<longrightarrow> 2 \<le> mp_can_grant_view mgr)"
  using validate_field_accepts [OF assms] assms(2)
  by (auto simp: check_can_enter_from_def possible_to_modify_can_enter_from_def or_old_def bind_result_Inr split: if_splits)

lemma enter_until_step:
  assumes "validate_field name field (check_can_enter_until mgr) s = Inr s'" and "va_errors s' = []"
  shows "va_errors s = [] \<and> va_current s' = va_current s \<and>
    (up_can_enter_until (va_current s) < or_old field (up_can_enter_until (va_current s)) \<longrightarrow> 2 \<le> mp_can_grant_view mgr)"
  using validate_field_accepts [OF assms] assms(2)
  by (auto simp: check_can_enter_until_def possible_to_modify_can_enter_until_def or_old_def bind_result_Inr split: if_splits)

lemma help_step:
  assumes "validate_field name field (check_help d user g mgr) s = Inr s'" and "va_errors s' = []"
  shows "va_errors s = [] \<and> va_current s' = va_current s \<and>
    (case field of None \<Rightarrow> True
     | Some h \<Rightarrow> 3 \<le> mp_can_grant_view mgr \<and> (help_id h = None \<or> \<not> help_all h) \<and> help_visible d user g (va_current s) h)"
  using validate_field_accepts [OF assms] assms(2)
  by (auto simp: check_help_def Let_def split: if_splits)

text \<open>All fields together: the accepted values, and the right for every raised one.\<close>

definition merged_permissions :: "permissions_input \<Rightarrow> user_permissions \<Rightarrow> user_permissions" where
  "merged_permissions inp cur =
     cur\<lparr>up_can_view := column_level view_index (pi_can_view inp) (up_can_view cur),
         up_can_grant_view := column_level grant_view_index (pi_can_grant_view inp) (up_can_grant_view cur),
         up_can_watch := column_level watch_index (pi_can_watch inp) (up_can_watch cur),
         up_can_edit := column_level edit_index (pi_can_edit inp) (up_can_edit cur),
         up_can_make_session_official := or_old (pi_can_make_session_official inp) (up_can_make_session_official cur)\<rparr>"

definition raise_allowed :: "manager_permissions \<Rightarrow> user_permissions \<Rightarrow> user_permissions \<Rightarrow> bool" where
  "raise_allowed mgr old new =
     ((up_can_view old < up_can_view new \<longrightarrow> up_can_view new \<le> mp_can_grant_view mgr) \<and>
      (up_can_grant_view old < up_can_grant_view new \<longrightarrow> mp_can_grant_view mgr = 6 \<and> (up_can_grant_view new = 6 \<longrightarrow> mp_is_owner mgr)) \<and>
      (up_can_watch old < up_can_watch new \<longrightarrow> mp_can_watch mgr = 4 \<and> (up_can_watch new = 4 \<longrightarrow> mp_is_owner mgr)) \<and>
      (up_can_edit old < up_can_edit new \<longrightarrow> mp_can_edit mgr = 4 \<and> (up_can_edit new = 4 \<longrightarrow> mp_is_owner mgr)) \<and>
      (up_can_make_session_official new \<and> \<not> up_can_make_session_official old \<longrightarrow> mp_is_owner mgr))"

lemma validate_input_accepts:
  assumes "validate_input d user g mgr inp cur = Inr s" and ok: "va_errors s = []"
  shows "va_current s = merged_permissions inp cur" and "raise_allowed mgr cur (merged_permissions inp cur)"
    and "pi_can_view inp \<noteq> None \<Longrightarrow> 1 \<le> up_can_view (merged_permissions inp cur) \<and> up_can_view (merged_permissions inp cur) \<le> 5"
    and "pi_can_grant_view inp \<noteq> None \<Longrightarrow> up_can_grant_view (merged_permissions inp cur) \<le> 6"
    and "or_old (pi_is_owner inp) (up_is_owner cur) \<and> \<not> up_is_owner cur \<longrightarrow> mp_is_owner mgr"
    and "or_old (pi_can_enter_from inp) (up_can_enter_from cur) < up_can_enter_from cur \<longrightarrow> 2 \<le> mp_can_grant_view mgr"
    and "up_can_enter_until cur < or_old (pi_can_enter_until inp) (up_can_enter_until cur) \<longrightarrow> 2 \<le> mp_can_grant_view mgr"
    and "case pi_can_request_help_to inp of None \<Rightarrow> True
         | Some h \<Rightarrow> 3 \<le> mp_can_grant_view mgr \<and> (help_id h = None \<or> \<not> help_all h) \<and> help_visible d user g (merged_permissions inp cur) h"
    and "pi_can_watch inp \<noteq> None \<Longrightarrow> 1 \<le> up_can_watch (merged_permissions inp cur)"
    and "pi_can_edit inp \<noteq> None \<Longrightarrow> 1 \<le> up_can_edit (merged_permissions inp cur)"
proof -
  let ?s0 = "\<lparr>va_current = cur, va_modified = False, va_errors = []\<rparr>"
  from assms(1) obtain s1 s2 s3 s4 s5 s6 s7 s8 where
      v1: "validate_field ''is_owner'' (pi_is_owner inp) (check_is_owner mgr) ?s0 = Inr s1"
    and v2: "validate_field ''can_view'' (pi_can_view inp) (check_can_view mgr) s1 = Inr s2"
    and v3: "validate_field ''can_grant_view'' (pi_can_grant_view inp) (check_can_grant_view mgr) s2 = Inr s3"
    and v4: "validate_field ''can_watch'' (pi_can_watch inp) (check_can_watch mgr) s3 = Inr s4"
    and v5: "validate_field ''can_edit'' (pi_can_edit inp) (check_can_edit mgr) s4 = Inr s5"
    and v6: "validate_field ''can_make_session_official'' (pi_can_make_session_official inp) (check_official mgr) s5 = Inr s6"
    and v7: "validate_field ''can_enter_from'' (pi_can_enter_from inp) (check_can_enter_from mgr) s6 = Inr s7"
    and v8: "validate_field ''can_enter_until'' (pi_can_enter_until inp) (check_can_enter_until mgr) s7 = Inr s8"
    and v9: "validate_field ''can_request_help_to'' (pi_can_request_help_to inp) (check_help d user g mgr) s8 = Inr s"
    unfolding validate_input_def bind_result_Inr by blast
  note e9 = help_step [OF v9 ok]
  note e8 = enter_until_step [OF v8 e9 [THEN conjunct1]]
  note e7 = enter_from_step [OF v7 e8 [THEN conjunct1]]
  note e6 = official_step [OF v6 e7 [THEN conjunct1]]
  note e5 = edit_step [OF v5 e6 [THEN conjunct1]]
  note e4 = watch_step [OF v4 e5 [THEN conjunct1]]
  note e3 = grant_view_step [OF v3 e4 [THEN conjunct1]]
  note e2 = view_step [OF v2 e3 [THEN conjunct1]]
  note e1 = is_owner_step [OF v1 e2 [THEN conjunct1]]
  have c1: "va_current s1 = cur" using e1 by simp
  have c2: "va_current s2 = cur\<lparr>up_can_view := column_level view_index (pi_can_view inp) (up_can_view cur)\<rparr>"
    using e2 c1 by simp
  have c6: "va_current s6 = merged_permissions inp cur"
    using e6 e5 e4 e3 c2 by (simp add: merged_permissions_def)
  then have c: "va_current s8 = merged_permissions inp cur" using e8 e7 by simp
  then show "va_current s = merged_permissions inp cur" using e9 by simp
  have same: "up_can_enter_from (merged_permissions inp cur) = up_can_enter_from cur"
    "up_can_enter_until (merged_permissions inp cur) = up_can_enter_until cur"
    by (simp_all add: merged_permissions_def)
  show "or_old (pi_is_owner inp) (up_is_owner cur) \<and> \<not> up_is_owner cur \<longrightarrow> mp_is_owner mgr"
    using e1 by auto
  show "or_old (pi_can_enter_from inp) (up_can_enter_from cur) < up_can_enter_from cur \<longrightarrow> 2 \<le> mp_can_grant_view mgr"
    using e7 c6 same by simp
  show "up_can_enter_until cur < or_old (pi_can_enter_until inp) (up_can_enter_until cur) \<longrightarrow> 2 \<le> mp_can_grant_view mgr"
    using e8 e7 c6 same by simp
  show "case pi_can_request_help_to inp of None \<Rightarrow> True
         | Some h \<Rightarrow> 3 \<le> mp_can_grant_view mgr \<and> (help_id h = None \<or> \<not> help_all h) \<and> help_visible d user g (merged_permissions inp cur) h"
    using e9 unfolding c by (elim conjE)
  have u: "up_can_view (merged_permissions inp cur) = up_can_view (va_current s2)"
      "up_can_grant_view (merged_permissions inp cur) = up_can_grant_view (va_current s3)"
      "up_can_watch (merged_permissions inp cur) = up_can_watch (va_current s4)"
      "up_can_edit (merged_permissions inp cur) = up_can_edit (va_current s5)"
    using e5 e4 e3 c2 by (simp_all add: merged_permissions_def)
  have w: "up_can_view cur = up_can_view (va_current s1)" "up_can_grant_view cur = up_can_grant_view (va_current s2)"
      "up_can_watch cur = up_can_watch (va_current s3)" "up_can_edit cur = up_can_edit (va_current s4)"
    using e5 e4 e3 c2 c1 by simp_all
  show "pi_can_view inp \<noteq> None \<Longrightarrow> 1 \<le> up_can_view (merged_permissions inp cur) \<and> up_can_view (merged_permissions inp cur) \<le> 5"
    and "pi_can_grant_view inp \<noteq> None \<Longrightarrow> up_can_grant_view (merged_permissions inp cur) \<le> 6"
    and "pi_can_watch inp \<noteq> None \<Longrightarrow> 1 \<le> up_can_watch (merged_permissions inp cur)"
    and "pi_can_edit inp \<noteq> None \<Longrightarrow> 1 \<le> up_can_edit (merged_permissions inp cur)"
    unfolding u using e2 e3 e4 e5 by blast+
  have r: "up_can_view cur < up_can_view (merged_permissions inp cur) \<longrightarrow> up_can_view (merged_permissions inp cur) \<le> mp_can_grant_view mgr"
      "up_can_grant_view cur < up_can_grant_view (merged_permissions inp cur) \<longrightarrow>
        mp_can_grant_view mgr = 6 \<and> (up_can_grant_view (merged_permissions inp cur) = 6 \<longrightarrow> mp_is_owner mgr)"
      "up_can_watch cur < up_can_watch (merged_permissions inp cur) \<longrightarrow>
        mp_can_watch mgr = 4 \<and> (up_can_watch (merged_permissions inp cur) = 4 \<longrightarrow> mp_is_owner mgr)"
      "up_can_edit cur < up_can_edit (merged_permissions inp cur) \<longrightarrow>
        mp_can_edit mgr = 4 \<and> (up_can_edit (merged_permissions inp cur) = 4 \<longrightarrow> mp_is_owner mgr)"
    unfolding u w using e2 e3 e4 e5 by blast+
  have r6: "up_can_make_session_official (merged_permissions inp cur) \<and> \<not> up_can_make_session_official cur \<longrightarrow> mp_is_owner mgr"
  proof -
    have official: "up_can_make_session_official (merged_permissions inp cur) = up_can_make_session_official (va_current s6)"
      "up_can_make_session_official cur = up_can_make_session_official (va_current s5)"
      using c6 e5 e4 e3 c2 by simp_all
    show ?thesis unfolding official using e6 by blast
  qed
  show "raise_allowed mgr cur (merged_permissions inp cur)"
    unfolding raise_allowed_def using r r6 by blast
qed

section \<open>What is stored\<close>

definition permissions_of_row :: "granted_row \<Rightarrow> user_permissions" where
  "permissions_of_row r =
     \<lparr>up_can_view = pg_can_view r, up_can_grant_view = pg_can_grant_view r, up_can_watch = pg_can_watch r,
      up_can_edit = pg_can_edit r, up_can_enter_from = pg_can_enter_from r, up_can_enter_until = pg_can_enter_until r,
      up_can_make_session_official = pg_can_make_session_official r, up_is_owner = pg_is_owner r,
      up_can_request_help_to = pg_can_request_help_to r\<rparr>"

text \<open>The row of the pair given by a group, with the column defaults where there is none.\<close>

definition granted_or_default :: "db \<Rightarrow> id \<Rightarrow> id \<Rightarrow> id \<Rightarrow> granted_row" where
  "granted_or_default d g item source =
     (case tbl_find pg_key (g, item, source, GroupMembership) (db_permissions_granted d) of
        None \<Rightarrow> default_granted_row g item source (db_now d) | Some r \<Rightarrow> r)"

lemma current_permissions_row:
  assumes "tbl_unique pg_key (db_permissions_granted d)"
  shows "current_permissions d g item source = permissions_of_row (granted_or_default d g item source)"
proof -
  have "(\<lambda>r. pg_group r = g \<and> pg_item r = item \<and> pg_source_group r = source \<and> pg_origin r = GroupMembership)
      = (\<lambda>r. pg_key r = (g, item, source, GroupMembership))"
    by (auto simp: pg_key_def)
  then show ?thesis
    unfolding current_permissions_def Let_def
    by (simp add: filter_key_unique [OF assms] granted_or_default_def permissions_of_row_def default_granted_row_def
        max_or_def max_option_def split: option.split)
qed

text \<open>The consistency of a row that the corrections establish.\<close>

definition permissions_consistent :: "granted_row \<Rightarrow> bool" where
  "permissions_consistent r =
     ((pg_can_grant_view r = 6 \<longrightarrow> pg_can_view r = 5) \<and> (pg_can_grant_view r \<noteq> 6 \<longrightarrow> pg_can_grant_view r \<le> pg_can_view r) \<and>
      (pg_can_view r < 3 \<longrightarrow> pg_can_watch r = 1 \<and> pg_can_edit r = 1) \<and>
      (pg_can_view r < 2 \<longrightarrow> \<not> pg_can_make_session_official r))"

definition levels_ok :: "user_permissions \<Rightarrow> bool" where
  "levels_ok p = (1 \<le> up_can_view p \<and> up_can_view p \<le> 5 \<and> up_can_grant_view p \<le> 6 \<and> 1 \<le> up_can_watch p \<and> 1 \<le> up_can_edit p)"

lemma correct_effect:
  assumes "1 \<le> up_can_view cur" and "up_can_view cur \<le> 5"
  shows "\<exists>dm'. correct_permissions_data_map cur dm = Inr dm' \<and> dm_is_owner dm' = dm_is_owner dm \<and> dm_can_view dm' = dm_can_view dm \<and>
    dm_can_enter_from dm' = dm_can_enter_from dm \<and> dm_can_enter_until dm' = dm_can_enter_until dm \<and>
    dm_can_request_help_to dm' = dm_can_request_help_to dm \<and> dm_is_all_users_group dm' = dm_is_all_users_group dm \<and>
    column_level grant_view_index (dm_can_grant_view dm') x =
      (if up_can_grant_view cur = 6 \<and> up_can_view cur \<noteq> 5 \<or> up_can_grant_view cur < 6 \<and> up_can_view cur < up_can_grant_view cur
       then up_can_view cur else column_level grant_view_index (dm_can_grant_view dm) x) \<and>
    dm_can_watch dm' = (if up_can_view cur < 3 \<and> 1 < up_can_watch cur then Some ''none'' else dm_can_watch dm) \<and>
    dm_can_edit dm' = (if up_can_view cur < 3 \<and> 1 < up_can_edit cur then Some ''none'' else dm_can_edit dm) \<and>
    dm_can_make_session_official dm' =
      (if up_can_view cur < 2 \<and> up_can_make_session_official cur then Some False else dm_can_make_session_official dm)"
proof -
  have "up_can_view cur \<in> {1, 2, 3, 4, 5}" using assms by auto
  then obtain name where "grant_view_name (up_can_view cur) = Inr name" and "grant_view_index name = Inr (up_can_view cur)"
    by auto
  then show ?thesis
    by (auto simp: correct_permissions_data_map_def column_level_def)
qed

interpretation pg: keyed_update pg_key "apply_data_map now dm"
  by unfold_locales (simp add: pg_key_def apply_data_map_def)

lemma save_permissions_row:
  "tbl_find pg_key k (db_permissions_granted (save_permissions g item source dm d)) =
     (if k = (g, item, source, GroupMembership) then Some (apply_data_map (db_now d) dm (granted_or_default d g item source))
      else tbl_find pg_key k (db_permissions_granted d))"
proof -
  have key: "pg_key (apply_data_map (db_now d) dm (default_granted_row g item source (db_now d))) = (g, item, source, GroupMembership)"
    by (simp add: pg_key_def apply_data_map_def default_granted_row_def)
  have "db_permissions_granted (save_permissions g item source dm d) =
      tbl_upsert pg_key (apply_data_map (db_now d) dm) (apply_data_map (db_now d) dm (default_granted_row g item source (db_now d)))
        (db_permissions_granted d)"
    by (simp add: save_permissions_def upsert_permissions_granted_def Let_def schedule_permissions_propagation_def
        schedule_results_propagation_def)
  then show ?thesis
    unfolding granted_or_default_def by (simp add: pg.upsert_find key split: option.split)
qed

lemma lift_error_Inr: "lift_error r = Inr x \<longleftrightarrow> r = Inr x"
  by (simp add: lift_error_def split: sum.split)

lemma update_permissions_run:
  assumes "update_permissions all_users user source g item inp d = Inr d'"
  obtains (unchanged) "d' = d"
  | (saved) s dm where "validate_input d user g (manager_generated_permissions d user item) inp (current_permissions d g item source) = Inr s"
      "va_errors s = []" "correct_permissions_data_map (va_current s) (construct_map_for_db inp) = Inr dm"
      "d' = save_permissions g item source (resolve_all_users_group all_users dm) d"
  using assms that
  by (auto simp: update_permissions_def bind_result_Inr lift_error_Inr split: if_splits)

text \<open>The row after a write, column by column.\<close>

lemma saved_row:
  assumes run: "update_permissions all_users user source g item inp d = Inr d'" and changed: "d' \<noteq> d"
    and keys: "tbl_unique pg_key (db_permissions_granted d)"
    and old: "old = permissions_of_row (granted_or_default d g item source)" and levels: "levels_ok old"
    and m: "m = merged_permissions inp old" and r: "r = granted_or_default d' g item source"
  shows "raise_allowed (manager_generated_permissions d user item) old m" and "1 \<le> up_can_view m" and "up_can_view m \<le> 5"
    and "up_can_grant_view m \<le> 6"
    and "pg_can_view r = up_can_view m"
    and "pg_can_grant_view r = (if up_can_grant_view m = 6 \<and> up_can_view m \<noteq> 5 \<or> up_can_grant_view m < 6 \<and> up_can_view m < up_can_grant_view m
           then up_can_view m else up_can_grant_view m)"
    and "pg_can_watch r = (if up_can_view m < 3 \<and> 1 < up_can_watch m then 1 else up_can_watch m)"
    and "pg_can_edit r = (if up_can_view m < 3 \<and> 1 < up_can_edit m then 1 else up_can_edit m)"
    and "pg_can_make_session_official r = (up_can_make_session_official m \<and> \<not> up_can_view m < 2)"
    and "pg_is_owner r = or_old (pi_is_owner inp) (up_is_owner old)"
    and "pg_can_enter_from r = or_old (pi_can_enter_from inp) (up_can_enter_from old)"
    and "pg_can_enter_until r = or_old (pi_can_enter_until inp) (up_can_enter_until old)"
    and "pg_can_request_help_to r =
          (case pi_can_request_help_to inp of None \<Rightarrow> up_can_request_help_to old
           | Some h \<Rightarrow> if hi_is_all_users_group h \<noteq> None then Some all_users else or_old (hi_id h) (up_can_request_help_to old))"
    and "\<exists>s. validate_input d user g (manager_generated_permissions d user item) inp old = Inr s \<and> va_errors s = []"
    and "1 \<le> up_can_watch m" and "1 \<le> up_can_edit m"
proof -
  from run obtain s dm where
      v: "validate_input d user g (manager_generated_permissions d user item) inp (current_permissions d g item source) = Inr s"
    and ok: "va_errors s = []" and dm: "correct_permissions_data_map (va_current s) (construct_map_for_db inp) = Inr dm"
    and d': "d' = save_permissions g item source (resolve_all_users_group all_users dm) d"
    by (rule update_permissions_run) (use changed in auto)
  have v: "validate_input d user g (manager_generated_permissions d user item) inp old = Inr s"
    using v current_permissions_row [OF keys] by (simp add: old)
  then show "\<exists>s. validate_input d user g (manager_generated_permissions d user item) inp old = Inr s \<and> va_errors s = []"
    using ok by blast
  note acc = validate_input_accepts [OF v ok, folded m]
  show "raise_allowed (manager_generated_permissions d user item) old m" by (rule acc(2))
  show cv: "1 \<le> up_can_view m" "up_can_view m \<le> 5"
    using acc(3) levels by (cases "pi_can_view inp"; simp add: m merged_permissions_def column_level_def levels_ok_def)+
  show "up_can_grant_view m \<le> 6"
    using acc(4) levels by (cases "pi_can_grant_view inp") (simp_all add: m merged_permissions_def column_level_def levels_ok_def)
  show "1 \<le> up_can_watch m" "1 \<le> up_can_edit m"
    using acc(9,10) levels
    by (cases "pi_can_watch inp"; cases "pi_can_edit inp"; simp add: m merged_permissions_def column_level_def levels_ok_def)+
  have r': "r = apply_data_map (db_now d) (resolve_all_users_group all_users dm) (granted_or_default d g item source)"
    unfolding r d' granted_or_default_def [of "save_permissions g item source (resolve_all_users_group all_users dm) d"] save_permissions_row by simp
  define cg x where "cg = (up_can_grant_view m = 6 \<and> up_can_view m \<noteq> 5 \<or> up_can_grant_view m < 6 \<and> up_can_view m < up_can_grant_view m)"
    and "x = pg_can_grant_view (granted_or_default d g item source)"
  have dm': "dm_is_owner dm = pi_is_owner inp" "dm_can_view dm = pi_can_view inp"
      "dm_can_enter_from dm = pi_can_enter_from inp" "dm_can_enter_until dm = pi_can_enter_until inp"
      "dm_can_request_help_to dm = (case pi_can_request_help_to inp of None \<Rightarrow> None | Some h \<Rightarrow> hi_id h)"
      "dm_is_all_users_group dm = (case pi_can_request_help_to inp of None \<Rightarrow> None | Some h \<Rightarrow> hi_is_all_users_group h)"
      "column_level grant_view_index (dm_can_grant_view dm) x = (if cg then up_can_view m else column_level grant_view_index (pi_can_grant_view inp) x)"
      "dm_can_watch dm = (if up_can_view m < 3 \<and> 1 < up_can_watch m then Some ''none'' else pi_can_watch inp)"
      "dm_can_edit dm = (if up_can_view m < 3 \<and> 1 < up_can_edit m then Some ''none'' else pi_can_edit inp)"
      "dm_can_make_session_official dm =
        (if up_can_view m < 2 \<and> up_can_make_session_official m then Some False else pi_can_make_session_official inp)"
    using correct_effect [OF cv, of "construct_map_for_db inp" x] dm acc(1) by (simp_all add: construct_map_for_db_def cg_def)
  have vals: "up_can_view m = column_level view_index (pi_can_view inp) (pg_can_view (granted_or_default d g item source))"
      "up_can_grant_view m = column_level grant_view_index (pi_can_grant_view inp) x"
      "up_can_watch m = column_level watch_index (pi_can_watch inp) (pg_can_watch (granted_or_default d g item source))"
      "up_can_edit m = column_level edit_index (pi_can_edit inp) (pg_can_edit (granted_or_default d g item source))"
      "up_can_make_session_official m = or_old (pi_can_make_session_official inp) (pg_can_make_session_official (granted_or_default d g item source))"
    by (simp_all add: m merged_permissions_def old permissions_of_row_def x_def)
  have none: "column_level watch_index (Some ''none'') y = 1" "column_level edit_index (Some ''none'') y = 1" for y
    by (simp_all add: column_level_def)
  show "pg_can_view r = up_can_view m"
    by (simp add: r' apply_data_map_def resolve_all_users_group_def dm' vals)
  show "pg_can_grant_view r = (if up_can_grant_view m = 6 \<and> up_can_view m \<noteq> 5 \<or> up_can_grant_view m < 6 \<and> up_can_view m < up_can_grant_view m
           then up_can_view m else up_can_grant_view m)"
    unfolding cg_def [symmetric] by (simp add: r' apply_data_map_def resolve_all_users_group_def dm'(7) vals(2) x_def [symmetric])
  show "pg_can_watch r = (if up_can_view m < 3 \<and> 1 < up_can_watch m then 1 else up_can_watch m)"
    by (simp add: r' apply_data_map_def resolve_all_users_group_def dm'(8) vals(3) [symmetric] none)
  show "pg_can_edit r = (if up_can_view m < 3 \<and> 1 < up_can_edit m then 1 else up_can_edit m)"
    by (simp add: r' apply_data_map_def resolve_all_users_group_def dm'(9) vals(4) [symmetric] none)
  show "pg_can_make_session_official r = (up_can_make_session_official m \<and> \<not> up_can_view m < 2)"
    by (cases "up_can_view m < 2 \<and> up_can_make_session_official m")
       (auto simp: r' apply_data_map_def resolve_all_users_group_def dm'(10) vals(5) [symmetric], auto simp: or_old_def vals(5))
  show "pg_is_owner r = or_old (pi_is_owner inp) (up_is_owner old)"
    and "pg_can_enter_from r = or_old (pi_can_enter_from inp) (up_can_enter_from old)"
    and "pg_can_enter_until r = or_old (pi_can_enter_until inp) (up_can_enter_until old)"
    by (simp_all add: r' apply_data_map_def resolve_all_users_group_def dm'(1-4) old permissions_of_row_def)
  show "pg_can_request_help_to r =
          (case pi_can_request_help_to inp of None \<Rightarrow> up_can_request_help_to old
           | Some h \<Rightarrow> if hi_is_all_users_group h \<noteq> None then Some all_users else or_old (hi_id h) (up_can_request_help_to old))"
    by (simp add: r' apply_data_map_def resolve_all_users_group_def dm'(5,6) old permissions_of_row_def or_old_def split: option.split)
qed

text \<open>
  C30: whatever was stored before, after a successful call that wrote something the row of the pair is consistent:
  'can_grant_view' does not exceed 'can_view' ('solution_with_grant' needs 'solution'), without 'content' there is
  nothing to watch or edit, and without 'info' no official session.
\<close>

theorem update_permissions_consistent:
  assumes "update_permissions all_users user source g item inp d = Inr d'" and "d' \<noteq> d"
    and "tbl_unique pg_key (db_permissions_granted d)"
    and "levels_ok (permissions_of_row (granted_or_default d g item source))"
  shows "permissions_consistent (granted_or_default d' g item source)"
proof -
  obtain m r where m: "m = merged_permissions inp (permissions_of_row (granted_or_default d g item source))"
      and r: "r = granted_or_default d' g item source" by blast
  note s = saved_row [OF assms(1-3) refl assms(4) m r]
  have "pg_can_grant_view r = 6 \<longrightarrow> pg_can_view r = 5" and "pg_can_grant_view r \<noteq> 6 \<longrightarrow> pg_can_grant_view r \<le> pg_can_view r"
    unfolding s(5,6) using s(3,4) by auto
  moreover have "pg_can_view r < 3 \<longrightarrow> pg_can_watch r = 1 \<and> pg_can_edit r = 1"
    unfolding s(5,7,8) using s(15,16) by auto
  moreover have "pg_can_view r < 2 \<longrightarrow> \<not> pg_can_make_session_official r"
    unfolding s(5,9) by blast
  ultimately show ?thesis
    unfolding permissions_consistent_def r [symmetric] by blast
qed

text \<open>
  C2: nobody gives more than they may: compared with the stored row, a level only rises, the ownership and the
  right to make sessions official only appear, and the entering period only widens, where the generated
  permissions of the user allow it; changing who may be asked for help needs 'can_grant_view' at least 'content'.
\<close>

theorem update_permissions_no_escalation:
  assumes "update_permissions all_users user source g item inp d = Inr d'"
    and "tbl_unique pg_key (db_permissions_granted d)"
    and "levels_ok (permissions_of_row (granted_or_default d g item source))"
    and "old = granted_or_default d g item source" and "new = granted_or_default d' g item source"
    and "mgr = manager_generated_permissions d user item"
  shows "(pg_can_view old < pg_can_view new \<longrightarrow> pg_can_view new \<le> mp_can_grant_view mgr) \<and>
    (pg_can_grant_view old < pg_can_grant_view new \<longrightarrow>
       mp_can_grant_view mgr = 6 \<and> (pg_can_grant_view new = 6 \<longrightarrow> mp_is_owner mgr)) \<and>
    (pg_can_watch old < pg_can_watch new \<longrightarrow> mp_can_watch mgr = 4 \<and> (pg_can_watch new = 4 \<longrightarrow> mp_is_owner mgr)) \<and>
    (pg_can_edit old < pg_can_edit new \<longrightarrow> mp_can_edit mgr = 4 \<and> (pg_can_edit new = 4 \<longrightarrow> mp_is_owner mgr)) \<and>
    (pg_can_make_session_official new \<and> \<not> pg_can_make_session_official old \<longrightarrow> mp_is_owner mgr) \<and>
    (pg_is_owner new \<and> \<not> pg_is_owner old \<longrightarrow> mp_is_owner mgr) \<and>
    (pg_can_enter_from new < pg_can_enter_from old \<or> pg_can_enter_until old < pg_can_enter_until new \<longrightarrow> 2 \<le> mp_can_grant_view mgr) \<and>
    (pg_can_request_help_to new \<noteq> pg_can_request_help_to old \<longrightarrow> 3 \<le> mp_can_grant_view mgr)"
proof (cases "d' = d")
  case True
  then show ?thesis using assms(4,5) by simp
next
  case False
  let ?old = "permissions_of_row (granted_or_default d g item source)"
  let ?m = "merged_permissions inp ?old"
  note s = saved_row [OF assms(1) False assms(2) refl assms(3) refl assms(5)]
  have o: "up_can_view ?old = pg_can_view old" "up_can_grant_view ?old = pg_can_grant_view old" "up_can_watch ?old = pg_can_watch old"
    "up_can_edit ?old = pg_can_edit old" "up_can_make_session_official ?old = pg_can_make_session_official old"
    "up_is_owner ?old = pg_is_owner old" "up_can_enter_from ?old = pg_can_enter_from old"
    "up_can_enter_until ?old = pg_can_enter_until old" "up_can_request_help_to ?old = pg_can_request_help_to old"
    by (simp_all add: assms(4) permissions_of_row_def)
  from s(14) obtain st where v: "validate_input d user g mgr inp ?old = Inr st" "va_errors st = []"
    unfolding assms(6) by blast
  note acc = validate_input_accepts [OF v]
  note up = s(1) [folded assms(6), unfolded raise_allowed_def o]
  have help_ok: "pg_can_request_help_to new \<noteq> pg_can_request_help_to old \<longrightarrow> 3 \<le> mp_can_grant_view mgr"
    using acc(8) s(13) by (auto simp: o split: option.splits)
  have "pg_can_view old < pg_can_view new \<longrightarrow> pg_can_view new \<le> mp_can_grant_view mgr"
    using up unfolding s(5) by blast
  moreover have "pg_can_grant_view old < pg_can_grant_view new \<longrightarrow>
       mp_can_grant_view mgr = 6 \<and> (pg_can_grant_view new = 6 \<longrightarrow> mp_is_owner mgr)"
    using up s(3,4) unfolding s(6) by auto
  moreover have "pg_can_watch old < pg_can_watch new \<longrightarrow> mp_can_watch mgr = 4 \<and> (pg_can_watch new = 4 \<longrightarrow> mp_is_owner mgr)"
    using up s(15) unfolding s(7) by auto
  moreover have "pg_can_edit old < pg_can_edit new \<longrightarrow> mp_can_edit mgr = 4 \<and> (pg_can_edit new = 4 \<longrightarrow> mp_is_owner mgr)"
    using up s(16) unfolding s(8) by auto
  moreover have "pg_can_make_session_official new \<and> \<not> pg_can_make_session_official old \<longrightarrow> mp_is_owner mgr"
    using up unfolding s(9) by blast
  moreover have "pg_is_owner new \<and> \<not> pg_is_owner old \<longrightarrow> mp_is_owner mgr"
    using acc(5) unfolding s(10) o by blast
  moreover have "pg_can_enter_from new < pg_can_enter_from old \<or> pg_can_enter_until old < pg_can_enter_until new \<longrightarrow> 2 \<le> mp_can_grant_view mgr"
    using acc(6,7) unfolding s(11,12) o by blast
  ultimately show ?thesis using help_ok by blast
qed

section \<open>Errors, help groups and the frame\<close>

lemma check_level_total:
  assumes "\<And>v. v \<in> set names \<Longrightarrow> \<exists>i. index v = Inr i" and "\<And>v. v \<in> set names \<Longrightarrow> \<exists>ok. possible v (va_current s) = Inr ok"
  shows "\<exists>s'. validate_field name field (check_level names possible index get put) s = Inr s'"
proof (cases field)
  case None
  then show ?thesis by (simp add: validate_field_def)
next
  case (Some v)
  show ?thesis
  proof (cases "v \<in> set names")
    case False
    then show ?thesis by (simp add: validate_field_def check_level_def Some)
  next
    case True
    with assms obtain i ok where "index v = Inr i" "possible v (va_current s) = Inr ok" by blast
    with True show ?thesis by (cases ok) (simp_all add: validate_field_def check_level_def Some)
  qed
qed

lemma some_bool: "\<exists>ok. ok" "\<exists>ok. \<not> ok"
  by blast+

lemma level_rules_total:
  "v \<in> set [''none'', ''info'', ''content'', ''content_with_descendants'', ''solution''] \<Longrightarrow>
     (\<exists>i. view_index v = Inr i) \<and> (\<exists>ok. possible_to_modify_can_view v cur mgr = Inr ok)"
  "v \<in> set [''none'', ''enter'', ''content'', ''content_with_descendants'', ''solution'', ''solution_with_grant''] \<Longrightarrow>
     (\<exists>i. grant_view_index v = Inr i) \<and> (\<exists>ok. possible_to_modify_can_grant_view v cur mgr = Inr ok)"
  "v \<in> set [''none'', ''result'', ''answer'', ''answer_with_grant''] \<Longrightarrow>
     (\<exists>i. watch_index v = Inr i) \<and> (\<exists>ok. possible_to_modify_can_watch v cur mgr = Inr ok)"
  "v \<in> set [''none'', ''children'', ''all'', ''all_with_grant''] \<Longrightarrow>
     (\<exists>i. edit_index v = Inr i) \<and> (\<exists>ok. possible_to_modify_can_edit v cur mgr = Inr ok)"
  unfolding list.set insert_iff empty_iff simp_thms
  by (elim disjE; simp add: some_bool possible_to_modify_can_view_def possible_to_modify_can_grant_view_def
        possible_to_modify_can_watch_def possible_to_modify_can_edit_def)+

lemma validate_input_total: "\<exists>s. validate_input d user g mgr inp cur = Inr s"
proof -
  have owner: "\<exists>s'. validate_field name field (check_is_owner mgr) s = Inr s'" for name field s
    by (simp add: validate_field_def check_is_owner_def split: option.split)
  have view: "\<exists>s'. validate_field name field (check_can_view mgr) s = Inr s'" for name field s
    unfolding check_can_view_def by (rule check_level_total) (use level_rules_total(1) in blast)+
  have grant_view: "\<exists>s'. validate_field name field (check_can_grant_view mgr) s = Inr s'" for name field s
    unfolding check_can_grant_view_def by (rule check_level_total) (use level_rules_total(2) in blast)+
  have watch: "\<exists>s'. validate_field name field (check_can_watch mgr) s = Inr s'" for name field s
    unfolding check_can_watch_def by (rule check_level_total) (use level_rules_total(3) in blast)+
  have edit: "\<exists>s'. validate_field name field (check_can_edit mgr) s = Inr s'" for name field s
    unfolding check_can_edit_def by (rule check_level_total) (use level_rules_total(4) in blast)+
  have official: "\<exists>s'. validate_field name field (check_official mgr) s = Inr s'" for name field s
    by (simp add: validate_field_def check_official_def possible_to_modify_official_def split: option.split)
  have from_: "\<exists>s'. validate_field name field (check_can_enter_from mgr) s = Inr s'" for name field s
    by (simp add: validate_field_def check_can_enter_from_def possible_to_modify_can_enter_from_def split: option.split)
  have until: "\<exists>s'. validate_field name field (check_can_enter_until mgr) s = Inr s'" for name field s
    by (simp add: validate_field_def check_can_enter_until_def possible_to_modify_can_enter_until_def split: option.split)
  have help_to: "\<exists>s'. validate_field name field (check_help d user g mgr) s = Inr s'" for name field s
    by (simp add: validate_field_def check_help_def Let_def split: option.split)
  show ?thesis
    unfolding validate_input_def bind_result_Inr using owner view grant_view watch edit official from_ until help_to by metis
qed

text \<open>
  the service refuses or rejects, but never fails inside: for stored levels within their enumerations, no
  lookup of a level panics, neither in the validators nor in the corrections.
\<close>

lemma update_permissions_errors:
  assumes "update_permissions all_users user source g item inp d = Inl e"
    and keys: "tbl_unique pg_key (db_permissions_granted d)"
    and levels: "levels_ok (permissions_of_row (granted_or_default d g item source))"
  shows "e = InsufficientAccessRights \<or> (\<exists>fields. fields \<noteq> [] \<and> e = InvalidInput fields)"
proof -
  let ?old = "permissions_of_row (granted_or_default d g item source)"
  obtain visible where vis: "item_or_parent_visible_or_root d g item = Inr visible"
    by (simp add: item_or_parent_visible_or_root_def)
  obtain s where s: "validate_input d user g (manager_generated_permissions d user item) inp ?old = Inr s"
    using validate_input_total by blast
  have "\<exists>dm. correct_permissions_data_map (va_current s) (construct_map_for_db inp) = Inr dm" if "va_errors s = []"
  proof -
    note acc = validate_input_accepts [OF s that]
    have "1 \<le> up_can_view (va_current s)" "up_can_view (va_current s) \<le> 5"
      using acc(3) levels by (cases "pi_can_view inp"; simp add: acc(1) merged_permissions_def column_level_def levels_ok_def)+
    from correct_effect [OF this] show ?thesis by blast
  qed
  then show ?thesis
    using assms(1) vis s
    by (auto simp: update_permissions_def lift_error_def current_permissions_row [OF keys] split: if_splits sum.splits)
qed

text \<open>
  once the key 'is_all_users_group' is present in the input, the help group stored is the group of all users,
  whatever the value of the key and whatever id was given with it: an input naming a group and saying
  'is_all_users_group: false' opens the help requests to everybody.
\<close>

lemma all_users_group_key_wins:
  assumes "update_permissions all_users user source g item inp d = Inr d'" and "d' \<noteq> d"
    and "tbl_unique pg_key (db_permissions_granted d)"
    and "levels_ok (permissions_of_row (granted_or_default d g item source))"
    and "pi_can_request_help_to inp = Some h" and "hi_is_all_users_group h = Some flag"
  shows "pg_can_request_help_to (granted_or_default d' g item source) = Some all_users"
  using saved_row(13) [OF assms(1-3) refl assms(4) refl refl] assms(5,6) by simp

text \<open>
  only a manager of the source group who may grant access, acting on one of its descendants and on an item that
  this descendant may know, changes anything; then at most the one row of the pair given by the source changes.
\<close>

lemma update_permissions_frame:
  assumes run: "update_permissions all_users user source g item inp d = Inr d'"
  shows "user_may_grant_to_group d user source g \<and> item_or_parent_visible_or_root d g item = Inr True \<and>
    (\<forall>k. k \<noteq> (g, item, source, GroupMembership) \<longrightarrow>
       tbl_find pg_key k (db_permissions_granted d') = tbl_find pg_key k (db_permissions_granted d)) \<and>
    db_permissions_generated d' = db_permissions_generated d \<and> db_groups_groups d' = db_groups_groups d \<and>
    db_pending d' = db_pending d \<and> db_managers d' = db_managers d"
proof -
  have "user_may_grant_to_group d user source g \<and> item_or_parent_visible_or_root d g item = Inr True"
    using run by (auto simp: update_permissions_def bind_result_Inr lift_error_Inr split: if_splits)
  moreover have "(\<forall>k. k \<noteq> (g, item, source, GroupMembership) \<longrightarrow>
       tbl_find pg_key k (db_permissions_granted d') = tbl_find pg_key k (db_permissions_granted d)) \<and>
    db_permissions_generated d' = db_permissions_generated d \<and> db_groups_groups d' = db_groups_groups d \<and>
    db_pending d' = db_pending d \<and> db_managers d' = db_managers d"
    using run
  proof (cases rule: update_permissions_run [case_names unchanged saved])
    case (saved s dm)
    then show ?thesis
      unfolding saved(4) save_permissions_row
      by (simp add: save_permissions_def upsert_permissions_granted_def Let_def schedule_permissions_propagation_def
          schedule_results_propagation_def mark_permission_self_def)
  qed simp
  ultimately show ?thesis by blast
qed

end
