(* ===== verification/Access.thy ===== *)
theory Access
  imports Database
begin

text \<open>
  The computation of \<open>permissions_generated\<close>, \<open>PermissionGrantedStore.computeAllAccess\<close> in
  app/database/permission_granted_store_compute_all_access.go: one definition per SQL statement, the step that
  executes them in one transaction, and the loop.  The loop is a \<open>partial_function\<close>, None standing for a run
  that never ends, since the code warns that it loops on cyclic item graphs; it is proved to end on acyclic
  ones, with every pair of a group and an item consistent with its grants and its parents.
\<close>

section \<open>The statements\<close>

text \<open>\<open>queryMarkChildrenOfChildrenAsSelf\<close>.\<close>

definition mark_children_of_children :: "db \<Rightarrow> db" where
  "mark_children_of_children d =
     d\<lparr>db_permissions_propagate :=
        fold (\<lambda>k. AList.update k Self)
          [(pgen_group r, ii_child e). e \<leftarrow> db_items_items d, r \<leftarrow> db_permissions_generated d,
             pgen_item r = ii_parent e \<and>
             map_of (db_permissions_propagate d) (pgen_group r, pgen_item r) = Some Children]
          (db_permissions_propagate d)\<rparr>"

text \<open>\<open>queryDeleteProcessedChildren\<close>.\<close>

definition delete_processed_children :: "db \<Rightarrow> db" where
  "delete_processed_children d =
     d\<lparr>db_permissions_propagate := filter (\<lambda>(k, m). m \<noteq> Children) (db_permissions_propagate d)\<rparr>"

text \<open>\<open>queryInsertIntoPermissionsPropagateProcessing\<close>: the pairs marked 'self' without an ancestor marked 'self'.\<close>

definition pairs_to_process :: "db \<Rightarrow> (id \<times> id) list" where
  "pairs_to_process d =
     [(g, i). ((g, i), m) \<leftarrow> db_permissions_propagate d,
        m = Self \<and> \<not> (\<exists>((g', a), m') \<in> set (db_permissions_propagate d).
                          g' = g \<and> m' = Self \<and> (a, i) \<in> set (db_items_ancestors d))]"

text \<open>\<open>queryUpdatePermissionsGenerated\<close>: IFNULL(MAX(...), 1) and the CASE on the parent, None standing for a missing parent row.\<close>

definition ifnull_max :: "nat list \<Rightarrow> nat" where
  "ifnull_max xs = (case xs of [] \<Rightarrow> 1 | x # ys \<Rightarrow> fold max ys x)"

definition parent_view :: "items_items_row \<Rightarrow> generated_row option \<Rightarrow> nat" where
  "parent_view e parent =
     (case parent of
        None \<Rightarrow> 1
      | Some r \<Rightarrow>
          if pgen_can_view r \<le> 2 then 1
          else if pgen_can_view r = 3 \<or> ii_upper_view_levels_propagation e = UseContentViewPropagation then
            (case ii_content_view_propagation e of AsInfo \<Rightarrow> 2 | AsContent \<Rightarrow> 3 | ViewNone \<Rightarrow> 1)
          else if ii_upper_view_levels_propagation e = AsContentWithDescendants then 4
          else pgen_can_view r)"

text \<open>\<open>IF(flag, LEAST(parent value, bound), 1)\<close>; a NULL parent value is skipped by MAX.\<close>

definition parent_levels :: "(items_items_row \<Rightarrow> bool) \<Rightarrow> (generated_row \<Rightarrow> nat) \<Rightarrow> nat \<Rightarrow> (items_items_row \<times> generated_row option) list \<Rightarrow> nat list" where
  "parent_levels flag level bound parents =
     concat (map (\<lambda>(e, parent). if flag e then (case parent of None \<Rightarrow> [] | Some r \<Rightarrow> [min (level r) bound]) else [1]) parents)"

definition generated_row_of ::
  "granted_row list \<Rightarrow> items_items_row list \<Rightarrow> (id \<Rightarrow> generated_row option) \<Rightarrow> id \<times> id \<Rightarrow> generated_row" where
  "generated_row_of granted edges lookup k =
     (let rows = filter (\<lambda>r. pg_group r = fst k \<and> pg_item r = snd k) granted;
          parents = map (\<lambda>e. (e, lookup (ii_parent e))) (filter (\<lambda>e. ii_child e = snd k) edges);
          owner = (\<exists>r \<in> set rows. pg_is_owner r)
      in \<lparr>pgen_group = fst k, pgen_item = snd k,
          pgen_can_view = (if owner then 5 else max (ifnull_max (map pg_can_view rows))
             (ifnull_max (map (\<lambda>(e, p). parent_view e p) parents))),
          pgen_can_grant_view = (if owner then 6 else max (ifnull_max (map pg_can_grant_view rows))
             (ifnull_max (parent_levels ii_grant_view_propagation pgen_can_grant_view 5 parents))),
          pgen_can_watch = (if owner then 4 else max (ifnull_max (map pg_can_watch rows))
             (ifnull_max (parent_levels ii_watch_propagation pgen_can_watch 3 parents))),
          pgen_can_edit = (if owner then 4 else max (ifnull_max (map pg_can_edit rows))
             (ifnull_max (parent_levels ii_edit_propagation pgen_can_edit 3 parents))),
          pgen_is_owner = owner\<rparr>)"

definition set_generated :: "generated_row \<Rightarrow> generated_row \<Rightarrow> generated_row" where
  "set_generated new r =
     r\<lparr>pgen_can_view := pgen_can_view new, pgen_can_grant_view := pgen_can_grant_view new,
       pgen_can_watch := pgen_can_watch new, pgen_can_edit := pgen_can_edit new, pgen_is_owner := pgen_is_owner new\<rparr>"

definition generated_lookup :: "generated_row list \<Rightarrow> id \<Rightarrow> id \<Rightarrow> generated_row option" where
  "generated_lookup t g i = tbl_find pgen_key (g, i) t"

definition compute_pair :: "db \<Rightarrow> id \<times> id \<Rightarrow> generated_row" where
  "compute_pair d k =
     generated_row_of (db_permissions_granted d) (db_items_items d) (generated_lookup (db_permissions_generated d) (fst k)) k"

definition update_permissions_generated :: "(id \<times> id) list \<Rightarrow> db \<Rightarrow> db" where
  "update_permissions_generated ks d =
     d\<lparr>db_permissions_generated :=
        fold (\<lambda>r. tbl_upsert pgen_key (set_generated r) r) (map (compute_pair d) ks) (db_permissions_generated d)\<rparr>"

text \<open>\<open>queryMarkSelfAsChildren\<close>, with the number of changed rows.\<close>

definition mark_self_as_children :: "(id \<times> id) list \<Rightarrow> db \<Rightarrow> db \<times> nat" where
  "mark_self_as_children ks d =
     (d\<lparr>db_permissions_propagate := map (\<lambda>(k, m). (k, if k \<in> set ks then Children else m)) (db_permissions_propagate d)\<rparr>,
      length (filter (\<lambda>(k, m). k \<in> set ks \<and> m \<noteq> Children) (db_permissions_propagate d)))"

definition access_step :: "db \<Rightarrow> db \<times> nat" where
  "access_step d =
     (let d1 = mark_children_of_children d;
          d2 = delete_processed_children d1;
          ks = pairs_to_process d2;
          d3 = update_permissions_generated ks d2
      in mark_self_as_children ks d3)"

partial_function (option) compute_all_access :: "db \<Rightarrow> db option" where
  "compute_all_access d =
     (if snd (access_step d) > 0 then compute_all_access (fst (access_step d)) else Some (fst (access_step d)))"

interpretation pgen: keyed_update pgen_key "set_generated r"
  by unfold_locales (simp add: pgen_key_def set_generated_def)

lemma compute_all_access_run:
  "0 < snd (access_step d) \<Longrightarrow> compute_all_access d = compute_all_access (fst (access_step d))"
  "snd (access_step d) = 0 \<Longrightarrow> compute_all_access d = Some (fst (access_step d))"
  by (subst compute_all_access.simps; simp)+

section \<open>What a statement does to the tables\<close>

definition marked :: "db \<Rightarrow> propagate_to \<Rightarrow> id \<Rightarrow> id \<Rightarrow> bool" where
  "marked d m g i = (map_of (db_permissions_propagate d) (g, i) = Some m)"

definition item_edges :: "db \<Rightarrow> (id \<times> id) set" where
  "item_edges d = {(ii_parent e, ii_child e) | e. e \<in> set (db_items_items d)}"

text \<open>The values of a pair; a missing row counts as a row without permissions, as in the query.\<close>

definition no_access :: "id \<times> id \<Rightarrow> generated_row" where
  "no_access k = \<lparr>pgen_group = fst k, pgen_item = snd k, pgen_can_view = 1, pgen_can_grant_view = 1, pgen_can_watch = 1,
     pgen_can_edit = 1, pgen_is_owner = False\<rparr>"

definition access :: "db \<Rightarrow> id \<times> id \<Rightarrow> generated_row" where
  "access d k = (case tbl_find pgen_key k (db_permissions_generated d) of None \<Rightarrow> no_access k | Some r \<Rightarrow> r)"

definition pair_consistent :: "db \<Rightarrow> id \<times> id \<Rightarrow> bool" where
  "pair_consistent d k = (access d k = compute_pair d k)"

definition access_keys_ok :: "db \<Rightarrow> bool" where
  "access_keys_ok d = (distinct (map fst (db_permissions_propagate d)) \<and>
     (\<forall>g i. marked d Children g i \<longrightarrow> tbl_has pgen_key (g, i) (db_permissions_generated d)))"

lemma map_of_fold_update: "map_of (fold (\<lambda>k. AList.update k v) ks m) k = (if k \<in> set ks then Some v else map_of m k)"
  by (induction ks arbitrary: m) auto

lemma distinct_fold_update: "distinct (map fst m) \<Longrightarrow> distinct (map fst (fold (\<lambda>k. AList.update k v) ks m))"
  by (induction ks arbitrary: m) (simp_all add: distinct_update)

lemma map_of_filter_distinct:
  "distinct (map fst m) \<Longrightarrow> map_of (filter (\<lambda>(k, v). P v) m) k = (case map_of m k of Some v \<Rightarrow> if P v then Some v else None | None \<Rightarrow> None)"
  by (induction m) (auto split: option.splits if_splits dest: map_of_SomeD intro: rev_image_eqI simp: map_of_eq_None_iff)

lemma map_of_map_value: "map_of (map (\<lambda>(k, m). (k, f k m)) xs) k = map_option (f k) (map_of xs k)"
  by (induction xs) auto

lemma tbl_find_upserts:
  "tbl_find pgen_key k (fold (\<lambda>r. tbl_upsert pgen_key (set_generated r) r) rs t) =
     (case tbl_find pgen_key k (rev rs) of
        None \<Rightarrow> tbl_find pgen_key k t
      | Some r \<Rightarrow> Some r)"
proof (induction rs rule: rev_induct)
  case Nil
  then show ?case by (simp add: tbl_find_def)
next
  case (snoc r rs)
  have set_same: "pgen_key x = pgen_key r \<Longrightarrow> set_generated r x = r" for x
    by (cases x, cases r) (simp add: set_generated_def pgen_key_def)
  let ?t = "fold (\<lambda>r. tbl_upsert pgen_key (set_generated r) r) rs t"
  show ?case
  proof (cases "k = pgen_key r")
    case True
    then show ?thesis
      by (cases "tbl_find pgen_key k ?t") (auto simp: pgen.upsert_find tbl_find_def [of _ _ "_ # _"] set_same dest!: tbl_find_Some)
  next
    case False
    then show ?thesis
      using snoc by (auto simp: pgen.upsert_find) (simp add: tbl_find_def)
  qed
qed

text \<open>The two marking statements, and the pairs of a step.\<close>

definition self_marked :: "db \<Rightarrow> id \<Rightarrow> id \<Rightarrow> bool" where
  "self_marked d g i = (marked d Self g i \<or> (\<exists>p. (p, i) \<in> item_edges d \<and> marked d Children g p))"

abbreviation marks_collected :: "db \<Rightarrow> db" where
  "marks_collected d \<equiv> delete_processed_children (mark_children_of_children d)"

definition ready :: "db \<Rightarrow> (id \<times> id) set" where
  "ready d = {(g, i). self_marked d g i \<and> \<not> (\<exists>a. self_marked d g a \<and> (a, i) \<in> set (db_items_ancestors d))}"

lemma marks_frame [db_simps]:
  "db_permissions_generated (marks_collected d) = db_permissions_generated d"
  "db_permissions_granted (marks_collected d) = db_permissions_granted d"
  "db_items_items (marks_collected d) = db_items_items d"
  "db_items_ancestors (marks_collected d) = db_items_ancestors d"
  "compute_pair (marks_collected d) = compute_pair d"
  by (simp_all add: fun_eq_iff delete_processed_children_def mark_children_of_children_def compute_pair_def)

lemma collected_distinct:
  assumes "access_keys_ok d"
  shows "distinct (map fst (db_permissions_propagate (mark_children_of_children d)))"
    and "distinct (map fst (db_permissions_propagate (marks_collected d)))"
proof -
  show 1: "distinct (map fst (db_permissions_propagate (mark_children_of_children d)))"
    using assms by (simp add: access_keys_ok_def mark_children_of_children_def distinct_fold_update)
  show "distinct (map fst (db_permissions_propagate (marks_collected d)))"
    using 1 by (simp add: delete_processed_children_def distinct_map_filter)
qed

lemma children_list:
  assumes "access_keys_ok d"
  shows "(g, i) \<in> set [(pgen_group r, ii_child e). e \<leftarrow> db_items_items d, r \<leftarrow> db_permissions_generated d,
             pgen_item r = ii_parent e \<and> map_of (db_permissions_propagate d) (pgen_group r, pgen_item r) = Some Children]
     \<longleftrightarrow> (\<exists>p. (p, i) \<in> item_edges d \<and> marked d Children g p)"
proof -
  have "\<exists>r \<in> set (db_permissions_generated d). pgen_group r = g \<and> pgen_item r = p" if "marked d Children g p" for p
    using assms that by (force simp: access_keys_ok_def tbl_has_def pgen_key_def)
  moreover have "(g, i) \<in> set [(pgen_group r, ii_child e). e \<leftarrow> db_items_items d, r \<leftarrow> db_permissions_generated d,
             pgen_item r = ii_parent e \<and> map_of (db_permissions_propagate d) (pgen_group r, pgen_item r) = Some Children]
     \<longleftrightarrow> (\<exists>e \<in> set (db_items_items d). \<exists>r \<in> set (db_permissions_generated d).
            pgen_item r = ii_parent e \<and> marked d Children (pgen_group r) (pgen_item r) \<and> g = pgen_group r \<and> i = ii_child e)"
    by (auto simp: marked_def)
  ultimately show ?thesis
    unfolding item_edges_def by fastforce
qed

lemma marked_collected:
  assumes "access_keys_ok d"
  shows "map_of (db_permissions_propagate (marks_collected d)) (g, i) = (if self_marked d g i then Some Self else None)"
proof -
  let ?ch = "[(pgen_group r, ii_child e). e \<leftarrow> db_items_items d, r \<leftarrow> db_permissions_generated d,
             pgen_item r = ii_parent e \<and> map_of (db_permissions_propagate d) (pgen_group r, pgen_item r) = Some Children]"
  define ch where "ch = ?ch"
  have m1: "map_of (db_permissions_propagate (mark_children_of_children d)) (g, i) =
      (if (g, i) \<in> set ch then Some Self else map_of (db_permissions_propagate d) (g, i))"
    unfolding mark_children_of_children_def ch_def [symmetric] by (simp add: map_of_fold_update)
  have "map_of (db_permissions_propagate (marks_collected d)) (g, i) =
     (case map_of (db_permissions_propagate (mark_children_of_children d)) (g, i) of
        Some m \<Rightarrow> if m \<noteq> Children then Some m else None | None \<Rightarrow> None)"
    using map_of_filter_distinct [OF collected_distinct(1) [OF assms], of "\<lambda>m. m \<noteq> Children"]
    by (simp add: delete_processed_children_def)
  moreover have "(g, i) \<in> set ch \<longleftrightarrow> (\<exists>p. (p, i) \<in> item_edges d \<and> marked d Children g p)"
    unfolding ch_def by (rule children_list [OF assms])
  ultimately show ?thesis
    unfolding m1 self_marked_def marked_def [of d Self]
    by (cases "map_of (db_permissions_propagate d) (g, i)"; cases "the (map_of (db_permissions_propagate d) (g, i))") auto
qed

lemma set_pairs_to_process:
  assumes "access_keys_ok d"
  shows "set (pairs_to_process (marks_collected d)) = ready d"
proof -
  have self: "((g, i), Self) \<in> set (db_permissions_propagate (marks_collected d)) \<longleftrightarrow> self_marked d g i" for g i
    unfolding map_of_eq_Some_iff [OF collected_distinct(2) [OF assms], symmetric] marked_collected [OF assms] by simp
  show ?thesis
    unfolding pairs_to_process_def ready_def db_simps self [symmetric]
    by (auto simp: split_beta) 
qed

lemma compute_pair_key [simp]: "pgen_key (compute_pair d k) = k"
  by (simp add: compute_pair_def generated_row_of_def pgen_key_def Let_def)

lemma find_computed:
  "tbl_find pgen_key k (map (compute_pair d) ks) = (if k \<in> set ks then Some (compute_pair d k) else None)"
  by (induction ks) (auto simp: tbl_find_def)

lemma access_step_effect:
  assumes ok: "access_keys_ok d" and d': "d' = fst (access_step d)"
  shows "marked d' Self g i \<longleftrightarrow> self_marked d g i \<and> (g, i) \<notin> ready d"
    and "marked d' Children g i \<longleftrightarrow> (g, i) \<in> ready d"
    and "tbl_find pgen_key k (db_permissions_generated d') =
           (if k \<in> ready d then Some (compute_pair d k) else tbl_find pgen_key k (db_permissions_generated d))"
    and "snd (access_step d) > 0 \<longleftrightarrow> ready d \<noteq> {}"
    and "access_keys_ok d'"
    and "db_items_items d' = db_items_items d" "db_items_ancestors d' = db_items_ancestors d"
        "db_permissions_granted d' = db_permissions_granted d"
proof -
  let ?d2 = "marks_collected d"
  let ?ks = "pairs_to_process ?d2"
  note ks = set_pairs_to_process [OF ok]
  have marks: "db_permissions_propagate d' = map (\<lambda>(k, m). (k, if k \<in> ready d then Children else m)) (db_permissions_propagate ?d2)"
    and gen: "db_permissions_generated d' = fold (\<lambda>r. tbl_upsert pgen_key (set_generated r) r) (map (compute_pair d) ?ks) (db_permissions_generated d)"
    unfolding d' access_step_def Let_def mark_self_as_children_def update_permissions_generated_def ks
    by (simp_all add: db_simps)
  have m: "map_of (db_permissions_propagate d') (g, i) =
      (if (g, i) \<in> ready d then Some Children else if self_marked d g i then Some Self else None)" for g i
    unfolding marks map_of_map_value [where f = "\<lambda>k m. if k \<in> ready d then Children else m"] marked_collected [OF ok]
    by (auto simp: ready_def)
  show "marked d' Self g i \<longleftrightarrow> self_marked d g i \<and> (g, i) \<notin> ready d"
    and ch: "marked d' Children g i \<longleftrightarrow> (g, i) \<in> ready d" for g i
    unfolding marked_def m by auto
  have "rev (map (compute_pair d) ?ks) = map (compute_pair d) (rev ?ks)" by (simp add: rev_map)
  then show find: "tbl_find pgen_key k (db_permissions_generated d') =
           (if k \<in> ready d then Some (compute_pair d k) else tbl_find pgen_key k (db_permissions_generated d))" for k
    unfolding gen tbl_find_upserts by (simp add: find_computed ks)
  have n: "snd (access_step d) = length (filter (\<lambda>(k, m). k \<in> ready d \<and> m \<noteq> Children) (db_permissions_propagate ?d2))"
    unfolding access_step_def Let_def mark_self_as_children_def update_permissions_generated_def ks by simp
  have "(k, Self) \<in> set (db_permissions_propagate ?d2)" if "k \<in> ready d" for k
    using that marked_collected [OF ok, of "fst k" "snd k"] by (auto simp: ready_def dest!: map_of_SomeD)
  then show "snd (access_step d) > 0 \<longleftrightarrow> ready d \<noteq> {}"
    unfolding n by (force simp: filter_empty_conv)
  have "map fst (db_permissions_propagate d') = map fst (db_permissions_propagate ?d2)"
    unfolding marks by auto
  then show "access_keys_ok d'"
    using collected_distinct(2) [OF ok] find ch unfolding access_keys_ok_def by (simp add: tbl_has_find)
qed (simp_all add: d' access_step_def Let_def mark_self_as_children_def update_permissions_generated_def db_simps)

section \<open>Consistency and termination\<close>

lemma compute_pair_cong:
  assumes "db_permissions_granted d' = db_permissions_granted d" and "db_items_items d' = db_items_items d"
    and "\<And>p. (p, i) \<in> item_edges d \<Longrightarrow>
      tbl_find pgen_key (g, p) (db_permissions_generated d') = tbl_find pgen_key (g, p) (db_permissions_generated d)"
  shows "compute_pair d' (g, i) = compute_pair d (g, i)"
proof -
  have "map (\<lambda>e. (e, generated_lookup (db_permissions_generated d') g (ii_parent e))) (filter (\<lambda>e. ii_child e = i) (db_items_items d))
      = map (\<lambda>e. (e, generated_lookup (db_permissions_generated d) g (ii_parent e))) (filter (\<lambda>e. ii_child e = i) (db_items_items d))"
    using assms(3) by (auto simp: generated_lookup_def item_edges_def)
  then show ?thesis
    unfolding compute_pair_def generated_row_of_def assms(1,2) fst_conv snd_conv by (simp only:)
qed

text \<open>The invariant of the loop: a pair that is not consistent is marked, or a parent of it is.\<close>

definition access_invariant :: "db \<Rightarrow> bool" where
  "access_invariant d = (access_keys_ok d \<and> acyclic (item_edges d) \<and> set (db_items_ancestors d) = (item_edges d)\<^sup>+ \<and>
     (\<forall>g i. pair_consistent d (g, i) \<or> self_marked d g i))"

lemma step_edges: "access_keys_ok d \<Longrightarrow> item_edges (fst (access_step d)) = item_edges d"
  by (simp add: item_edges_def access_step_effect(6) [OF _ refl])

lemma step_invariant:
  assumes inv: "access_invariant d"
  shows "access_invariant (fst (access_step d))"
proof -
  define d' where "d' = fst (access_step d)"
  have ok: "access_keys_ok d" and anc: "set (db_items_ancestors d) = (item_edges d)\<^sup>+" using inv by (simp_all add: access_invariant_def)
  note e = access_step_effect [OF ok d'_def]
  have edges: "item_edges d' = item_edges d" using step_edges [OF ok] by (simp add: d'_def)
  have "pair_consistent d' (g, i) \<or> self_marked d' g i" for g i
  proof (cases "\<exists>p. (p, i) \<in> item_edges d \<and> (g, p) \<in> ready d")
    case True
    then show ?thesis using e(2) edges by (auto simp: self_marked_def)
  next
    case False
    then have same: "compute_pair d' (g, i) = compute_pair d (g, i)"
      using e(3,6,8) by (intro compute_pair_cong) auto
    show ?thesis
    proof (cases "(g, i) \<in> ready d")
      case True
      then show ?thesis using e(3) same by (simp add: pair_consistent_def access_def)
    next
      case not_ready: False
      then show ?thesis
        using inv e(1,3) same by (auto simp: access_invariant_def pair_consistent_def access_def self_marked_def)
    qed
  qed
  with e(5,7) edges inv show ?thesis
    unfolding d'_def [symmetric] by (simp add: access_invariant_def)
qed

text \<open>The pairs a run still has to visit; the set shrinks at every step that processes something.\<close>

definition access_region :: "db \<Rightarrow> (id \<times> id) set" where
  "access_region d = {(g, j). \<exists>i. self_marked d g i \<and> (i, j) \<in> (item_edges d)\<^sup>*}"

lemma finite_item_edges: "finite (item_edges d)"
proof -
  have "item_edges d = (\<lambda>e. (ii_parent e, ii_child e)) ` set (db_items_items d)"
    by (auto simp: item_edges_def)
  then show ?thesis by simp
qed

lemma finite_marked: "finite {(g, i). marked d m g i}"
  by (rule finite_subset [where B = "fst ` set (db_permissions_propagate d)"])
     (auto simp: marked_def dest!: map_of_SomeD intro: rev_image_eqI)

lemma finite_region: "finite (access_region d)"
proof -
  have "access_region d \<subseteq> fst ` ({(g, i). marked d Self g i} \<union> {(g, i). marked d Children g i}) \<times>
      (snd ` {(g, i). marked d Self g i} \<union> Range (item_edges d))"
  proof
    fix k assume "k \<in> access_region d"
    then obtain g i j where k: "k = (g, j)" and i: "self_marked d g i" "(i, j) \<in> (item_edges d)\<^sup>*"
      by (auto simp: access_region_def)
    have "j = i \<or> j \<in> Range (item_edges d)" using i(2) by (auto elim: rtranclE)
    with i(1) show "k \<in> fst ` ({(g, i). marked d Self g i} \<union> {(g, i). marked d Children g i}) \<times>
      (snd ` {(g, i). marked d Self g i} \<union> Range (item_edges d))"
      unfolding k self_marked_def by force
  qed
  then show ?thesis
    by (rule finite_subset) (simp add: finite_marked finite_Range finite_item_edges)
qed

lemma region_shrinks:
  assumes inv: "access_invariant d" and ready: "ready d \<noteq> {}"
  shows "access_region (fst (access_step d)) \<subset> access_region d"
proof -
  define d' where "d' = fst (access_step d)"
  have ok: "access_keys_ok d" and acyclic: "acyclic (item_edges d)" and anc: "set (db_items_ancestors d) = (item_edges d)\<^sup>+"
    using inv by (simp_all add: access_invariant_def)
  note e = access_step_effect [OF ok d'_def]
  have edges: "item_edges d' = item_edges d" using step_edges [OF ok] by (simp add: d'_def)
  have start: "(\<exists>i'. self_marked d g i' \<and> (i', i) \<in> (item_edges d)\<^sup>*) \<and> (g, i) \<notin> ready d" if "self_marked d' g i" for g i
    using that unfolding self_marked_def [of d'] e(1,2) edges
  proof (elim disjE exE conjE)
    fix p assume p: "(p, i) \<in> item_edges d" "(g, p) \<in> ready d"
    then have "self_marked d g p" by (simp add: ready_def)
    moreover have "(p, i) \<in> set (db_items_ancestors d)" using p(1) anc by auto
    ultimately show ?thesis using p(1) by (auto simp: ready_def)
  qed auto
  have sub: "access_region d' \<subseteq> access_region d"
    using start unfolding access_region_def edges by (blast intro: rtrancl_trans)
  obtain g i where gi: "(g, i) \<in> ready d" using ready by auto
  then have "(g, i) \<in> access_region d" by (auto simp: access_region_def ready_def)
  moreover have "(g, i) \<notin> access_region d'"
  proof
    assume "(g, i) \<in> access_region d'"
    then obtain j where j: "self_marked d' g j" "(j, i) \<in> (item_edges d)\<^sup>*" by (auto simp: access_region_def edges)
    with start [OF j(1)] gi obtain k where k: "self_marked d g k" "(k, j) \<in> (item_edges d)\<^sup>*" "j \<noteq> i" by blast
    with j(2) have "(k, i) \<in> (item_edges d)\<^sup>+"
      by (metis rtranclD rtrancl_trancl_trancl)
    with k(1) gi anc show False by (auto simp: ready_def)
  qed
  ultimately show ?thesis using sub unfolding d'_def by blast
qed

lemma nothing_ready:
  assumes inv: "access_invariant d" and none: "ready d = {}"
  shows "\<not> self_marked d g i"
proof
  assume i: "self_marked d g i"
  have "finite (item_edges d)" and "acyclic (item_edges d)" using inv finite_item_edges by (auto simp: access_invariant_def)
  then have "wf (item_edges d)" by (rule finite_acyclic_wf)
  then have "wf ((item_edges d)\<^sup>+)" by (rule wf_trancl)
  then obtain k where "self_marked d g k" and "\<And>a. (a, k) \<in> (item_edges d)\<^sup>+ \<Longrightarrow> \<not> self_marked d g a"
    using i by (elim wfE_min [where Q = "{i. self_marked d g i}"]) auto
  then have "(g, k) \<in> ready d" using inv by (auto simp: ready_def access_invariant_def)
  with none show False by simp
qed

lemma compute_all_access_ends:
  assumes "access_invariant d"
  shows "\<exists>d'. compute_all_access d = Some d' \<and> (\<forall>k. pair_consistent d' k) \<and> (\<forall>m g i. \<not> marked d' m g i) \<and>
    db_permissions_granted d' = db_permissions_granted d \<and> db_items_items d' = db_items_items d"
  using assms
proof (induction "card (access_region d)" arbitrary: d rule: less_induct)
  case less
  define d1 where "d1 = fst (access_step d)"
  have inv: "access_invariant d1" unfolding d1_def by (rule step_invariant [OF less.prems])
  have ok: "access_keys_ok d" using less.prems by (simp add: access_invariant_def)
  note e = access_step_effect [OF ok d1_def]
  show ?case
  proof (cases "ready d = {}")
    case True
    have run: "compute_all_access d = Some d1"
      using e(4) True by (subst compute_all_access.simps) (simp add: d1_def)
    have "\<not> self_marked d g i" for g i by (rule nothing_ready [OF less.prems True])
    then have none: "\<not> marked d1 m g i" for m g i
      using e(1,2) True by (cases m) auto
    then have "pair_consistent d1 (g, i)" for g i
      using inv by (auto simp: access_invariant_def self_marked_def)
    with run none e(6,8) show ?thesis by auto
  next
    case False
    have run: "compute_all_access d = compute_all_access d1"
      using e(4) False by (subst compute_all_access.simps) (simp add: d1_def)
    have "card (access_region d1) < card (access_region d)"
      using region_shrinks [OF less.prems False] by (simp add: d1_def psubset_card_mono finite_region)
    from less.hyps [OF this inv] show ?thesis unfolding run e(6,8) .
  qed
qed

text \<open>
  C3: on an acyclic item graph with correct \<open>items_ancestors\<close>, \<open>computeAllAccess\<close> ends; then no pair is marked, and
  every pair of a group and an item has exactly the permissions computed from its grants and from its parents.
  It suffices that at the start every inconsistent pair is marked 'self' or has a parent marked 'children'.
\<close>

theorem compute_all_access_correct:
  assumes "access_invariant d"
  shows "\<exists>d'. compute_all_access d = Some d' \<and> (\<forall>k. pair_consistent d' k) \<and> (\<forall>m g i. \<not> marked d' m g i) \<and>
    db_permissions_granted d' = db_permissions_granted d \<and> db_items_items d' = db_items_items d"
  by (rule compute_all_access_ends [OF assms])

text \<open>
  the levels 'with grant' are never inherited: after the computation a non-owner has 'solution_with_grant',
  'answer_with_grant' or 'all_with_grant' on an item only through a grant on that very item.
\<close>

lemma with_grant_not_inherited:
  assumes "pair_consistent d (g, i)"
    and no_grant: "\<And>r. r \<in> set (db_permissions_granted d) \<Longrightarrow> pg_group r = g \<Longrightarrow> pg_item r = i \<Longrightarrow>
      \<not> pg_is_owner r \<and> pg_can_grant_view r \<le> 5 \<and> pg_can_watch r \<le> 3 \<and> pg_can_edit r \<le> 3"
  shows "pgen_can_grant_view (access d (g, i)) \<le> 5 \<and> pgen_can_watch (access d (g, i)) \<le> 3 \<and>
    pgen_can_edit (access d (g, i)) \<le> 3 \<and> \<not> pgen_is_owner (access d (g, i))"
proof -
  have fold_le: "fold max xs (x :: nat) \<le> b \<longleftrightarrow> x \<le> b \<and> (\<forall>y \<in> set xs. y \<le> b)" for xs x b
    by (induction xs arbitrary: x) auto
  have le: "ifnull_max xs \<le> b" if "1 \<le> b" "\<And>y. y \<in> set xs \<Longrightarrow> y \<le> b" for xs and b :: nat
    using that by (auto simp: ifnull_max_def fold_le split: list.split)
  have "ifnull_max (parent_levels flag level b ps) \<le> b" if "1 \<le> b" for flag level b ps
    using that by (intro le) (auto simp: parent_levels_def split: if_splits option.splits)
  moreover have "ifnull_max (map level (filter (\<lambda>r. pg_group r = g \<and> pg_item r = i) (db_permissions_granted d))) \<le> b"
    if "1 \<le> b" "\<And>r. r \<in> set (db_permissions_granted d) \<Longrightarrow> pg_group r = g \<Longrightarrow> pg_item r = i \<Longrightarrow> level r \<le> b" for level b
    using that by (intro le) auto
  moreover have "\<not> (\<exists>r \<in> set (filter (\<lambda>r. pg_group r = g \<and> pg_item r = i) (db_permissions_granted d)). pg_is_owner r)"
    using no_grant by auto
  ultimately show ?thesis
    using assms(1) no_grant unfolding pair_consistent_def compute_pair_def generated_row_of_def Let_def
    by simp
qed

end
