(* ===== verification/PermissionExamples.thy ===== *)
theory PermissionExamples
  imports PermissionRules Access MembershipExamples
begin

text \<open>Concrete runs of the permission service and of the computation of generated permissions.\<close>

section \<open>Updating permissions\<close>

text \<open>User 30 manages the class 10, of which 20 is a member, and owns the item 5; the class sees the item.\<close>

definition ex_generated :: "id \<Rightarrow> nat \<Rightarrow> nat \<Rightarrow> bool \<Rightarrow> generated_row" where
  "ex_generated g view grant own = \<lparr>pgen_group = g, pgen_item = 5, pgen_can_view = view, pgen_can_grant_view = grant,
     pgen_can_watch = 4, pgen_can_edit = 4, pgen_is_owner = own\<rparr>"

definition ex_permissions_db :: db where
  "ex_permissions_db = ex_empty_db\<lparr>
     db_groups := [ex_group 10 Class, ex_group 20 User, ex_group 30 User, ex_group 40 Club],
     db_groups_groups := [relation_row max_time 10 False (None, None, None) 20],
     db_groups_ancestors := \<lparr>ga_ancestor = 10, ga_child = 20, ga_expires_at = max_time\<rparr> # map self_row [10, 20, 30, 40],
     db_managers := [\<lparr>gm_group = 10, gm_manager = 30, gm_can_grant_group_access = True, gm_can_watch_members = True, gm_can_manage = 2\<rparr>],
     db_permissions_granted := [(default_granted_row 20 5 10 50)\<lparr>pg_can_view := 3, pg_can_watch := 3\<rparr>],
     db_permissions_generated := [ex_generated 30 5 6 True, ex_generated 10 2 1 False]\<rparr>"

definition ex_no_input :: permissions_input where
  "ex_no_input = \<lparr>pi_is_owner = None, pi_can_view = None, pi_can_grant_view = None, pi_can_watch = None, pi_can_edit = None,
     pi_can_make_session_official = None, pi_can_enter_from = None, pi_can_enter_until = None, pi_can_request_help_to = None\<rparr>"

definition ex_lower_view :: permissions_input where
  "ex_lower_view = ex_no_input\<lparr>pi_can_view := Some ''info'', pi_is_owner := Some True\<rparr>"

definition ex_help :: permissions_input where
  "ex_help = ex_no_input\<lparr>pi_can_request_help_to := Some \<lparr>hi_id = Some (Some 40), hi_is_all_users_group = Some False\<rparr>\<rparr>"

definition result_db :: "'e + db \<Rightarrow> db" where
  "result_db r = (case r of Inl _ \<Rightarrow> ex_empty_db | Inr d \<Rightarrow> d)"

definition ex_lowered :: db where
  "ex_lowered = result_db (update_permissions 99 30 10 20 5 ex_lower_view ex_permissions_db)"

definition ex_helped :: db where
  "ex_helped = result_db (update_permissions 99 30 10 20 5 ex_help ex_permissions_db)"

lemma ex_lowered_run: "update_permissions 99 30 10 20 5 ex_lower_view ex_permissions_db = Inr ex_lowered"
  by code_simp

lemma ex_helped_run: "update_permissions 99 30 10 20 5 ex_help ex_permissions_db = Inr ex_helped"
  by code_simp

lemma ex_bad_run: "update_permissions 99 30 10 20 5 (ex_no_input\<lparr>pi_can_edit := Some ''everything''\<rparr>) ex_permissions_db = Inl (InvalidInput [''can_edit''])"
  by code_simp

lemma ex_permissions_facts:
  "ex_lowered \<noteq> ex_permissions_db" "ex_helped \<noteq> ex_permissions_db"
  "tbl_unique pg_key (db_permissions_granted ex_permissions_db)"
  "levels_ok (permissions_of_row (granted_or_default ex_permissions_db 20 5 10))"
  by code_simp+

theorem update_permissions_consistent_witness:
  "permissions_consistent (granted_or_default ex_lowered 20 5 10) \<and> pg_can_view (granted_or_default ex_lowered 20 5 10) = 2"
proof -
  have "pg_can_view (granted_or_default ex_lowered 20 5 10) = 2" by code_simp
  with update_permissions_consistent [OF ex_lowered_run ex_permissions_facts(1,3,4)] show ?thesis by simp
qed

theorem update_permissions_no_escalation_witness:
  "mp_is_owner (manager_generated_permissions ex_permissions_db 30 5)"
proof -
  have "pg_is_owner (granted_or_default ex_lowered 20 5 10)" and "\<not> pg_is_owner (granted_or_default ex_permissions_db 20 5 10)"
    by code_simp+
  with update_permissions_no_escalation [OF ex_lowered_run ex_permissions_facts(3,4) refl refl refl] show ?thesis by blast
qed

theorem update_permissions_errors_witness:
  "InvalidInput [''can_edit''] = InsufficientAccessRights \<or> (\<exists>fields. fields \<noteq> [] \<and> InvalidInput [''can_edit''] = InvalidInput fields)"
  by (rule update_permissions_errors [OF ex_bad_run ex_permissions_facts(3,4)])

theorem all_users_group_key_wins_witness:
  "pg_can_request_help_to (granted_or_default ex_helped 20 5 10) = Some 99"
proof -
  have h: "pi_can_request_help_to ex_help = Some \<lparr>hi_id = Some (Some 40), hi_is_all_users_group = Some False\<rparr>"
    by (simp add: ex_help_def)
  show ?thesis
    by (rule all_users_group_key_wins [OF ex_helped_run ex_permissions_facts(2,3,4) h, where flag = False]) simp
qed

theorem update_permissions_frame_witness:
  "user_may_grant_to_group ex_permissions_db 30 10 20 \<and> db_managers ex_lowered = db_managers ex_permissions_db"
  using update_permissions_frame [OF ex_lowered_run] by blast

section \<open>Computing the generated permissions\<close>

text \<open>Item 6 is below item 5; the class 10 was just granted 'solution' on 5, and the pair is marked.\<close>

definition ex_access_db :: db where
  "ex_access_db = ex_empty_db\<lparr>
     db_permissions_granted := [(default_granted_row 10 5 10 50)\<lparr>pg_can_view := 5, pg_can_watch := 4\<rparr>],
     db_permissions_propagate := [((10, 5), Self)],
     db_items_items := [\<lparr>ii_parent = 5, ii_child = 6, ii_child_order = 1, ii_category = Undefined, ii_content_view_propagation = AsInfo,
       ii_upper_view_levels_propagation = AsIs, ii_grant_view_propagation = True, ii_watch_propagation = True,
       ii_edit_propagation = False, ii_request_help_propagation = True,
       ii_score_weight = 1\<rparr>],
     db_items_ancestors := [(5, 6)]\<rparr>"

lemma ex_access_edges: "item_edges ex_access_db = {(5, 6)}"
  by (auto simp: item_edges_def ex_access_db_def)

lemma ex_access_granted: "r \<in> set (db_permissions_granted ex_access_db) \<Longrightarrow> pg_group r = 10 \<and> pg_item r = 5"
  by (auto simp: ex_access_db_def default_granted_row_def)

lemma ex_access_invariant: "access_invariant ex_access_db"
proof -
  have none: "access ex_access_db k = no_access k" for k
    by (simp add: access_def tbl_find_def ex_access_db_def ex_empty_db_def)
  have "pair_consistent ex_access_db (g, i) \<or> self_marked ex_access_db g i" for g i
  proof (cases "g = 10 \<and> i = 5")
    case True
    then show ?thesis by (simp add: self_marked_def marked_def ex_access_db_def)
  next
    case False
    then show ?thesis
      unfolding pair_consistent_def none compute_pair_def generated_row_of_def Let_def
      by (auto simp: no_access_def ex_access_db_def ex_empty_db_def default_granted_row_def ifnull_max_def
          parent_levels_def parent_view_def generated_lookup_def tbl_find_def)
  qed
  moreover have "acyclic (item_edges ex_access_db)"
    unfolding ex_access_edges by (rule acyclicI_order [where f = uminus]) auto
  moreover have "set (db_items_ancestors ex_access_db) = (item_edges ex_access_db)\<^sup>+"
    unfolding ex_access_edges by (auto simp: ex_access_db_def elim: tranclE converse_tranclE)
  ultimately show ?thesis
    by (auto simp: access_invariant_def access_keys_ok_def marked_def ex_access_db_def)
qed

definition ex_access_end :: db where
  "ex_access_end = fst (access_step (fst (access_step (fst (access_step ex_access_db)))))"

lemma ex_access_steps:
  "0 < snd (access_step ex_access_db)" "0 < snd (access_step (fst (access_step ex_access_db)))"
  "snd (access_step (fst (access_step (fst (access_step ex_access_db))))) = 0"
  by code_simp+

lemma ex_access_run: "compute_all_access ex_access_db = Some ex_access_end"
  unfolding ex_access_end_def compute_all_access_run(1) [OF ex_access_steps(1)] compute_all_access_run(1) [OF ex_access_steps(2)]
  by (rule compute_all_access_run(2) [OF ex_access_steps(3)])

theorem compute_all_access_correct_witness:
  "\<exists>d'. compute_all_access ex_access_db = Some d' \<and> (\<forall>k. pair_consistent d' k) \<and> pgen_can_view (access d' (10, 6)) = 5"
proof -
  have "pgen_can_view (access ex_access_end (10, 6)) = 5" by code_simp
  with compute_all_access_correct [OF ex_access_invariant] ex_access_run show ?thesis by auto
qed

theorem with_grant_not_inherited_witness:
  "\<exists>d'. compute_all_access ex_access_db = Some d' \<and> pgen_can_watch (access d' (10, 6)) \<le> 3"
proof -
  obtain d' where d': "compute_all_access ex_access_db = Some d'" "pair_consistent d' (10, 6)"
      "db_permissions_granted d' = db_permissions_granted ex_access_db"
    using compute_all_access_ends [OF ex_access_invariant] by blast
  have "pgen_can_watch (access d' (10, 6)) \<le> 3"
    using with_grant_not_inherited [OF d'(2)] ex_access_granted unfolding d'(3) by force
  with d'(1) show ?thesis by blast
qed

end
