(* ===== verification/Sorting.thy ===== *)
theory Sorting
  imports Prelude "HOL-Library.List_Lexorder" "HOL-Library.Char_ord"
begin

text \<open>
  Sorting and keyset paging of lists, app/service/sorting.go: parsing of the 'sort' parameter, completion by the
  tie-breaker fields, the ORDER BY terms, the 'from.' parameters and the WHERE conditions that skip the rows up to
  the given one.  The SQL fragments are a small abstract syntax (\<open>order_term\<close>, \<open>conjunct\<close>) with the printers that
  give the code's text and with MySQL's meaning: three truth values, NULLs sorted first when ascending, parameters
  taken from the value list from left to right.  A row maps column names to values of any linear order, None being NULL.  The
  conversion of a parameter to a value (app/service/parameters.go) is an argument.
\<close>

section \<open>Sorting types\<close>

datatype field_type = Int64Field | BoolField | StringField | TimeField | UnsupportedField string

record field_params =
  fp_column_name :: string
  fp_nullable :: bool

datatype sorting_direction = Asc | Desc

datatype null_placement = PlaceFirst | PlaceLast | PlaceUnset

record sorting_type =
  st_direction :: sorting_direction
  st_null_placement :: null_placement

type_synonym sorting_fields = "(string, field_params) gomap"
type_synonym tie_breakers = "(string, field_type) gomap"

datatype sorting_error =
    RepeatedField string
  | UnallowedField string
  | NullLastOnNonNullable string
  | UnallowedPagingParameters "string list"
  | IncompletePagingParameters "string list"
  | InvalidPagingValue string
  | SortingPanic string

section \<open>ORDER BY\<close>

datatype order_term = IsNullTerm string | IsNotNullTerm string | AscTerm string | DescTerm string

fun order_term_sql :: "order_term \<Rightarrow> string" where
  "order_term_sql (IsNullTerm c) = c @ '' IS NULL''"
| "order_term_sql (IsNotNullTerm c) = c @ '' IS NOT NULL''"
| "order_term_sql (AscTerm c) = c @ '' ASC''"
| "order_term_sql (DescTerm c) = c @ '' DESC''"

definition order_terms :: "sorting_type \<Rightarrow> string \<Rightarrow> order_term list" where
  "order_terms t c =
     (case st_null_placement t of PlaceLast \<Rightarrow> [IsNullTerm c] | PlaceFirst \<Rightarrow> [IsNotNullTerm c] | PlaceUnset \<Rightarrow> []) @
     [case st_direction t of Asc \<Rightarrow> AscTerm c | Desc \<Rightarrow> DescTerm c]"

fun join_strings :: "string \<Rightarrow> string list \<Rightarrow> string" where
  "join_strings sep [] = []"
| "join_strings sep [s] = s"
| "join_strings sep (s # ss) = s @ sep @ join_strings sep ss"

definition as_sql :: "sorting_type \<Rightarrow> string \<Rightarrow> string" where
  "as_sql t c = join_strings '', '' (map order_term_sql (order_terms t c))"

section \<open>Parsing the rules\<close>

definition get_field_name_and_sorting_type :: "string \<Rightarrow> string \<times> sorting_type" where
  "get_field_name_and_sorting_type s =
     (let (s1, dir) = (if s \<noteq> [] \<and> hd s = CHR ''-'' then (tl s, Desc) else (s, Asc));
          (s2, np) = (if s1 \<noteq> [] \<and> last s1 = CHR ''$'' then (butlast s1, PlaceLast) else (s1, PlaceUnset))
      in (s2, \<lparr>st_direction = dir, st_null_placement = np\<rparr>))"

definition validate_sorting_field ::
  "(string, sorting_type) gomap \<Rightarrow> string \<Rightarrow> sorting_fields \<Rightarrow> sorting_type \<Rightarrow> sorting_error option" where
  "validate_sorting_field types name cfg t =
     (if map_of types name \<noteq> None then Some (RepeatedField name)
      else case map_of cfg name of
             None \<Rightarrow> Some (UnallowedField name)
           | Some p \<Rightarrow> if \<not> fp_nullable p \<and> st_null_placement t \<noteq> PlaceUnset then Some (NullLastOnNonNullable name) else None)"

definition is_nullable :: "sorting_fields \<Rightarrow> string \<Rightarrow> bool" where
  "is_nullable cfg name = (case map_of cfg name of None \<Rightarrow> False | Some p \<Rightarrow> fp_nullable p)"

definition column_of :: "sorting_fields \<Rightarrow> string \<Rightarrow> string" where
  "column_of cfg name = (case map_of cfg name of None \<Rightarrow> [] | Some p \<Rightarrow> fp_column_name p)"

definition parse_sort_statement ::
  "sorting_fields \<Rightarrow> string \<Rightarrow> string list \<times> (string, sorting_type) gomap
     \<Rightarrow> sorting_error + (string list \<times> (string, sorting_type) gomap)" where
  "parse_sort_statement cfg statement s =
     (case get_field_name_and_sorting_type statement of
        (name, t) \<Rightarrow>
          (case validate_sorting_field (snd s) name cfg t of
             Some e \<Rightarrow> Inl e
           | None \<Rightarrow>
               let t' = (if is_nullable cfg name \<and> st_null_placement t = PlaceUnset
                         then t\<lparr>st_null_placement := PlaceFirst\<rparr> else t)
               in Inr (fst s @ [name], AList.update name t' (snd s))))"

text \<open>The tie-breakers that are not used yet, ascending, in the order of \<open>sort.Strings\<close>.\<close>

definition tie_breakers_to_add :: "(string, sorting_type) gomap \<Rightarrow> tie_breakers \<Rightarrow> string list" where
  "tie_breakers_to_add types ties = sort (filter (\<lambda>f. map_of types f = None) (map fst ties))"

definition ascending :: sorting_type where
  "ascending = \<lparr>st_direction = Asc, st_null_placement = PlaceUnset\<rparr>"

definition parse_sorting_rules ::
  "string \<Rightarrow> sorting_fields \<Rightarrow> tie_breakers \<Rightarrow> sorting_error + (string list \<times> (string, sorting_type) gomap)" where
  "parse_sorting_rules rules cfg ties =
     (case fold_result (parse_sort_statement cfg) (split_on (CHR '','') rules) ([], []) of
        Inl e \<Rightarrow> Inl e
      | Inr (used, types) \<Rightarrow>
          let added = tie_breakers_to_add types ties
          in Inr (used @ added, fold (\<lambda>f. AList.update f ascending) added types))"

text \<open>The panics of \<open>mustHaveValidTieBreakerFieldsList\<close>.\<close>

definition valid_tie_breakers :: "sorting_fields \<Rightarrow> tie_breakers \<Rightarrow> bool" where
  "valid_tie_breakers cfg ties =
     (\<forall>(name, t) \<in> set ties. (case t of UnsupportedField _ \<Rightarrow> False | _ \<Rightarrow> True) \<and>
        (case map_of cfg name of None \<Rightarrow> False | Some p \<Rightarrow> \<not> fp_nullable p))"

definition sorting_type_of :: "(string, sorting_type) gomap \<Rightarrow> string \<Rightarrow> sorting_type" where
  "sorting_type_of types name = (case map_of types name of None \<Rightarrow> ascending | Some t \<Rightarrow> t)"

definition apply_order :: "string list \<Rightarrow> sorting_fields \<Rightarrow> (string, sorting_type) gomap \<Rightarrow> order_term list" where
  "apply_order used cfg types = concat (map (\<lambda>f. order_terms (sorting_type_of types f) (column_of cfg f)) used)"

section \<open>Paging parameters\<close>

type_synonym url_query = "(string, string list) gomap"

definition query_values :: "url_query \<Rightarrow> string \<Rightarrow> string list" where
  "query_values q name = (case map_of q name of None \<Rightarrow> [] | Some vs \<Rightarrow> vs)"

definition has_prefix :: "string \<Rightarrow> string \<Rightarrow> bool" where
  "has_prefix p s = (take (length p) s = p)"

definition choose_sorting_rules :: "url_query \<Rightarrow> string \<Rightarrow> bool \<Rightarrow> string" where
  "choose_sorting_rules q default_rules ignore_sort =
     (if \<not> ignore_sort \<and> query_values q ''sort'' \<noteq> [] then hd (query_values q ''sort'') else default_rules)"

definition unknown_from_fields :: "url_query \<Rightarrow> tie_breakers \<Rightarrow> string list" where
  "unknown_from_fields q ties =
     filter (\<lambda>k. has_prefix ''from.'' k \<and> map_of ties (drop 5 k) = None) (map fst q)"

text \<open>The values in the order in which the expected fields are visited; \<open>conv\<close> converts a parameter.\<close>

definition collect_from_value ::
  "(field_type \<Rightarrow> string \<Rightarrow> 'v option) \<Rightarrow> url_query \<Rightarrow> string \<times> field_type
     \<Rightarrow> (string, 'v) gomap \<times> bool \<times> bool \<Rightarrow> sorting_error + ((string, 'v) gomap \<times> bool \<times> bool)" where
  "collect_from_value conv q ft s =
     (case s of (values, accepted, missing) \<Rightarrow>
        (case query_values q (''from.'' @ fst ft) of
           [] \<Rightarrow> Inr (values, accepted, True)
         | v # vs \<Rightarrow>
             (case conv (snd ft) v of
                None \<Rightarrow> Inl (InvalidPagingValue (fst ft))
              | Some x \<Rightarrow> Inr (AList.update (fst ft) x values, True, missing))))"

definition parse_paging_parameters ::
  "(field_type \<Rightarrow> string \<Rightarrow> 'v option) \<Rightarrow> url_query \<Rightarrow> tie_breakers \<Rightarrow> sorting_error + (string, 'v) gomap" where
  "parse_paging_parameters conv q ties =
     (if unknown_from_fields q ties \<noteq> [] then Inl (UnallowedPagingParameters (sort (unknown_from_fields q ties)))
      else case fold_result (collect_from_value conv q) ties ([], False, False) of
             Inl e \<Rightarrow> Inl e
           | Inr (values, accepted, missing) \<Rightarrow>
               if accepted \<and> missing then Inl (IncompletePagingParameters (sort (map fst ties))) else Inr values)"

section \<open>Paging conditions\<close>

text \<open>An operand is a column of the joined row \<open>from_page\<close> or a parameter.\<close>

datatype operand = FromPage string | Parameter

datatype conjunct =
    Compare string sorting_direction operand
  | NullSafeEqual string operand
  | Equal string operand
  | IfFromNullThenNotNull string conjunct
  | IfFromNullThenFalse string conjunct

fun operand_sql :: "operand \<Rightarrow> string" where
  "operand_sql (FromPage c) = ''from_page.'' @ c"
| "operand_sql Parameter = ''?''"

definition condition_sign :: "sorting_direction \<Rightarrow> string" where
  "condition_sign dir = (case dir of Asc \<Rightarrow> ''>'' | Desc \<Rightarrow> ''<'')"

fun conjunct_column :: "conjunct \<Rightarrow> string" where
  "conjunct_column (Compare c _ _) = c"
| "conjunct_column (NullSafeEqual c _) = c"
| "conjunct_column (Equal c _) = c"
| "conjunct_column (IfFromNullThenNotNull _ k) = conjunct_column k"
| "conjunct_column (IfFromNullThenFalse _ k) = conjunct_column k"

fun conjunct_sql :: "conjunct \<Rightarrow> string" where
  "conjunct_sql (Compare c dir x) = c @ '' '' @ condition_sign dir @ '' '' @ operand_sql x"
| "conjunct_sql (NullSafeEqual c x) = c @ '' <=> '' @ operand_sql x"
| "conjunct_sql (Equal c x) = c @ '' = '' @ operand_sql x"
| "conjunct_sql (IfFromNullThenNotNull s k) =
     ''IF(from_page.'' @ s @ '' IS NULL, '' @ conjunct_column k @ '' IS NOT NULL, '' @ conjunct_sql k @ '')''"
| "conjunct_sql (IfFromNullThenFalse s k) =
     ''IF(from_page.'' @ s @ '' IS NULL, FALSE, '' @ conjunct_column k @ '' IS NULL OR '' @ conjunct_sql k @ '')''"

definition condition_sql :: "conjunct list \<Rightarrow> string" where
  "condition_sql ks = ''('' @ join_strings '' AND '' (map conjunct_sql ks) @ '')''"

definition where_sql :: "conjunct list list \<Rightarrow> string" where
  "where_sql conditions = join_strings '' OR '' (map condition_sql conditions)"

text \<open>\<open>safeColumnNameRegexp\<close>.\<close>

definition safe_char :: "char \<Rightarrow> bool" where
  "safe_char c = (let n = of_char c :: nat in
     97 \<le> n \<and> n \<le> 122 \<or> 65 \<le> n \<and> n \<le> 90 \<or> n = 95 \<or> 48 \<le> n \<and> n \<le> 57)"

definition safe_column_name :: "string \<Rightarrow> string" where
  "safe_column_name f = map (\<lambda>c. if safe_char c then c else CHR ''_'') f"

definition paging_condition :: "bool \<Rightarrow> sorting_fields \<Rightarrow> (string, sorting_type) gomap \<Rightarrow> string \<Rightarrow> conjunct" where
  "paging_condition sub cfg types f =
     (let c = column_of cfg f; t = sorting_type_of types f; s = safe_column_name f in
      if sub then
        let k = Compare c (st_direction t) (FromPage s) in
        (case st_null_placement t of PlaceFirst \<Rightarrow> IfFromNullThenNotNull s k | PlaceLast \<Rightarrow> IfFromNullThenFalse s k | PlaceUnset \<Rightarrow> k)
      else Compare c (st_direction t) Parameter)"

definition paging_equality :: "bool \<Rightarrow> sorting_fields \<Rightarrow> string \<Rightarrow> conjunct" where
  "paging_equality sub cfg f =
     (if sub then NullSafeEqual (column_of cfg f) (FromPage (safe_column_name f)) else Equal (column_of cfg f) Parameter)"

text \<open>The loop of \<open>constructPagingConditions\<close>, with the conjuncts of \<open>conditionPrefix\<close> and the values so far.\<close>

fun construct_conditions ::
  "bool \<Rightarrow> sorting_fields \<Rightarrow> (string, sorting_type) gomap \<Rightarrow> conjunct list \<Rightarrow> string list \<Rightarrow> conjunct list list" where
  "construct_conditions sub cfg types prefix [] = []"
| "construct_conditions sub cfg types prefix (f # fs) =
     (prefix @ [paging_condition sub cfg types f]) #
     construct_conditions sub cfg types (prefix @ [paging_equality sub cfg f]) fs"

fun construct_query_values :: "(string, 'v) gomap \<Rightarrow> 'v option list \<Rightarrow> string list \<Rightarrow> 'v option list" where
  "construct_query_values from_values part [] = []"
| "construct_query_values from_values part (f # fs) =
     (part @ [map_of from_values f]) @ construct_query_values from_values (part @ [map_of from_values f]) fs"

datatype start_row = NoSubQuery | FromFirstRow | SubQuery

text \<open>What is added to the query: nothing, a WHERE with values, a join with the row found by the 'from.' values, or
  a join with the given sub-query.\<close>

datatype 'v paging =
    NoPaging
  | WhereValues "conjunct list list" "'v option list"
  | JoinFoundRow "(string \<times> string) list" "(string \<times> 'v) list" "conjunct list list"
  | JoinSubQuery "conjunct list list"

definition apply_paging_conditions ::
  "string list \<Rightarrow> (string, sorting_type) gomap \<Rightarrow> sorting_fields \<Rightarrow> (string, 'v) gomap \<Rightarrow> start_row \<Rightarrow> 'v paging" where
  "apply_paging_conditions used types cfg from_values start =
     (if start = NoSubQuery \<and> from_values = [] \<or> start = FromFirstRow then NoPaging
      else
        let sub = (length used \<noteq> length from_values \<or> start \<noteq> NoSubQuery);
            conditions = construct_conditions sub cfg types [] used
        in if conditions = [] then NoPaging
           else if \<not> sub then WhereValues conditions (construct_query_values from_values [] used)
           else if start = NoSubQuery
           then JoinFoundRow (map (\<lambda>f. (column_of cfg f, safe_column_name f)) used)
                  (map (\<lambda>(f, v). (column_of cfg f, v)) from_values) conditions
           else JoinSubQuery conditions)"

definition apply_sorting_and_paging ::
  "(field_type \<Rightarrow> string \<Rightarrow> 'v option) \<Rightarrow> url_query \<Rightarrow> sorting_fields \<Rightarrow> string \<Rightarrow> tie_breakers \<Rightarrow> bool \<Rightarrow> start_row
     \<Rightarrow> sorting_error + (order_term list \<times> 'v paging)" where
  "apply_sorting_and_paging conv q cfg default_rules ties ignore_sort start =
     (if \<not> valid_tie_breakers cfg ties then Inl (SortingPanic ''tie-breaker field'')
      else case parse_sorting_rules (choose_sorting_rules q default_rules ignore_sort) cfg ties of
             Inl e \<Rightarrow> Inl e
           | Inr (used, types) \<Rightarrow>
               (case (if start = NoSubQuery then parse_paging_parameters conv q ties else Inr []) of
                  Inl e \<Rightarrow> Inl e
                | Inr from_values \<Rightarrow>
                    Inr (apply_order used cfg types, apply_paging_conditions used types cfg from_values start)))"

section \<open>The meaning of the fragments\<close>

type_synonym 'v row = "string \<Rightarrow> 'v option"

fun sql_and :: "bool option \<Rightarrow> bool option \<Rightarrow> bool option" where
  "sql_and (Some False) b = Some False"
| "sql_and (Some True) b = b"
| "sql_and None b = (if b = Some False then Some False else None)"

fun sql_or :: "bool option \<Rightarrow> bool option \<Rightarrow> bool option" where
  "sql_or (Some True) b = Some True"
| "sql_or (Some False) b = b"
| "sql_or None b = (if b = Some True then Some True else None)"

definition sql_compare :: "sorting_direction \<Rightarrow> 'v::linorder option \<Rightarrow> 'v option \<Rightarrow> bool option" where
  "sql_compare dir a b =
     (case (a, b) of (Some x, Some y) \<Rightarrow> Some (case dir of Asc \<Rightarrow> y < x | Desc \<Rightarrow> x < y) | _ \<Rightarrow> None)"

definition sql_equal :: "'v option \<Rightarrow> 'v option \<Rightarrow> bool option" where
  "sql_equal a b = (case (a, b) of (Some x, Some y) \<Rightarrow> Some (x = y) | _ \<Rightarrow> None)"

text \<open>A parameter takes the next value of the list.\<close>

fun operand_value :: "'v row \<Rightarrow> operand \<Rightarrow> 'v option list \<Rightarrow> 'v option \<times> 'v option list" where
  "operand_value page (FromPage c) vs = (page c, vs)"
| "operand_value page Parameter [] = (None, [])"
| "operand_value page Parameter (v # vs) = (v, vs)"

fun eval_conjunct :: "'v::linorder row \<Rightarrow> 'v row \<Rightarrow> conjunct \<Rightarrow> 'v option list \<Rightarrow> bool option \<times> 'v option list" where
  "eval_conjunct row page (Compare c dir x) vs =
     (case operand_value page x vs of (v, vs') \<Rightarrow> (sql_compare dir (row c) v, vs'))"
| "eval_conjunct row page (NullSafeEqual c x) vs =
     (case operand_value page x vs of (v, vs') \<Rightarrow> (Some (row c = v), vs'))"
| "eval_conjunct row page (Equal c x) vs =
     (case operand_value page x vs of (v, vs') \<Rightarrow> (sql_equal (row c) v, vs'))"
| "eval_conjunct row page (IfFromNullThenNotNull s k) vs =
     (case eval_conjunct row page k vs of (b, vs') \<Rightarrow>
        (if page s = None then Some (row (conjunct_column k) \<noteq> None) else b, vs'))"
| "eval_conjunct row page (IfFromNullThenFalse s k) vs =
     (case eval_conjunct row page k vs of (b, vs') \<Rightarrow>
        (if page s = None then Some False else sql_or (Some (row (conjunct_column k) = None)) b, vs'))"

fun eval_condition :: "'v::linorder row \<Rightarrow> 'v row \<Rightarrow> conjunct list \<Rightarrow> 'v option list \<Rightarrow> bool option \<times> 'v option list" where
  "eval_condition row page [] vs = (Some True, vs)"
| "eval_condition row page (k # ks) vs =
     (case eval_conjunct row page k vs of (b, vs1) \<Rightarrow>
        (case eval_condition row page ks vs1 of (b', vs2) \<Rightarrow> (sql_and b b', vs2)))"

fun eval_where :: "'v::linorder row \<Rightarrow> 'v row \<Rightarrow> conjunct list list \<Rightarrow> 'v option list \<Rightarrow> bool option" where
  "eval_where row page [] vs = Some False"
| "eval_where row page (ks # kss) vs =
     (case eval_condition row page ks vs of (b, vs1) \<Rightarrow> sql_or b (eval_where row page kss vs1))"

text \<open>ORDER BY compares the terms from left to right; ascending order puts NULL first.\<close>

fun term_less :: "order_term \<Rightarrow> 'v::linorder row \<Rightarrow> 'v row \<Rightarrow> bool" where
  "term_less (IsNullTerm c) y x = (y c \<noteq> None \<and> x c = None)"
| "term_less (IsNotNullTerm c) y x = (y c = None \<and> x c \<noteq> None)"
| "term_less (AscTerm c) y x = (case (y c, x c) of (None, Some _) \<Rightarrow> True | (Some a, Some b) \<Rightarrow> a < b | _ \<Rightarrow> False)"
| "term_less (DescTerm c) y x = (case (y c, x c) of (Some _, None) \<Rightarrow> True | (Some a, Some b) \<Rightarrow> b < a | _ \<Rightarrow> False)"

fun term_equal :: "order_term \<Rightarrow> 'v row \<Rightarrow> 'v row \<Rightarrow> bool" where
  "term_equal (IsNullTerm c) y x = ((y c = None) = (x c = None))"
| "term_equal (IsNotNullTerm c) y x = ((y c = None) = (x c = None))"
| "term_equal (AscTerm c) y x = (y c = x c)"
| "term_equal (DescTerm c) y x = (y c = x c)"

fun order_less :: "order_term list \<Rightarrow> 'v::linorder row \<Rightarrow> 'v row \<Rightarrow> bool" where
  "order_less [] y x = False"
| "order_less (t # ts) y x = (term_less t y x \<or> term_equal t y x \<and> order_less ts y x)"

text \<open>The rows a query returns once the paging is added; \<open>given\<close> is the result of the given sub-query.\<close>

definition page_of :: "(string \<times> string) list \<Rightarrow> 'v row \<Rightarrow> 'v row" where
  "page_of selected y = (\<lambda>s. case map_of (map (\<lambda>(c, s). (s, c)) selected) s of None \<Rightarrow> None | Some c \<Rightarrow> y c)"

definition run_paging :: "'v::linorder paging \<Rightarrow> 'v row option \<Rightarrow> 'v row list \<Rightarrow> 'v row list" where
  "run_paging p given rows =
     (case p of
        NoPaging \<Rightarrow> rows
      | WhereValues conditions vs \<Rightarrow> filter (\<lambda>x. eval_where x (\<lambda>_. None) conditions vs = Some True) rows
      | JoinFoundRow selected from_where conditions \<Rightarrow>
          (case find (\<lambda>y. \<forall>(c, v) \<in> set from_where. y c = Some v) rows of
             None \<Rightarrow> []
           | Some y \<Rightarrow> filter (\<lambda>x. eval_where x (page_of selected y) conditions [] = Some True) rows)
      | JoinSubQuery conditions \<Rightarrow>
          (case given of
             None \<Rightarrow> []
           | Some page \<Rightarrow> filter (\<lambda>x. eval_where x page conditions [] = Some True) rows))"

end
