(* ===== verification/SortingSpec.thy ===== *)
theory SortingSpec
  imports Sorting
begin

text \<open>
  The contract of sorting and paging: the accepted rules are well formed and order the rows completely, the WHERE
  conditions hold exactly for the rows that come after the given one, and so a page continues the list
  where the previous one ended.
\<close>

section \<open>Accepted rules\<close>

definition types_ok :: "sorting_fields \<Rightarrow> string list \<Rightarrow> (string, sorting_type) gomap \<Rightarrow> bool" where
  "types_ok cfg used types =
     (distinct used \<and> (\<forall>f. map_of types f \<noteq> None \<longleftrightarrow> f \<in> set used) \<and>
      (\<forall>f \<in> set used. map_of cfg f \<noteq> None \<and>
         (st_null_placement (sorting_type_of types f) = PlaceUnset \<longleftrightarrow> \<not> is_nullable cfg f)))"

lemma parse_sort_statement_ok:
  assumes "parse_sort_statement cfg statement s = Inr s'" and "types_ok cfg (fst s) (snd s)"
  shows "types_ok cfg (fst s') (snd s')"
proof -
  obtain name t where nt: "get_field_name_and_sorting_type statement = (name, t)"
    by (cases "get_field_name_and_sorting_type statement")
  from assms(1) nt have new: "map_of (snd s) name = None" and cfg: "map_of cfg name \<noteq> None"
    and np: "\<not> is_nullable cfg name \<Longrightarrow> st_null_placement t = PlaceUnset"
    by (auto simp: parse_sort_statement_def validate_sorting_field_def is_nullable_def split: option.splits if_splits)
  let ?t = "if is_nullable cfg name \<and> st_null_placement t = PlaceUnset then t\<lparr>st_null_placement := PlaceFirst\<rparr> else t"
  have s': "s' = (fst s @ [name], AList.update name ?t (snd s))"
    using assms(1) nt by (auto simp: parse_sort_statement_def Let_def split: option.splits)
  have np': "st_null_placement ?t = PlaceUnset \<longleftrightarrow> \<not> is_nullable cfg name"
    using np by auto
  have dom: "\<forall>f. map_of (snd s) f \<noteq> None \<longleftrightarrow> f \<in> set (fst s)" using assms(2) unfolding types_ok_def by blast
  with new have fresh: "name \<notin> set (fst s)" by blast
  have "map_of cfg f \<noteq> None \<and> (st_null_placement (sorting_type_of (snd s') f) = PlaceUnset \<longleftrightarrow> \<not> is_nullable cfg f)"
    if "f \<in> set (fst s')" for f
  proof (cases "f = name")
    case True
    with cfg np' show ?thesis by (simp add: s' sorting_type_of_def)
  next
    case False
    with that assms(2) show ?thesis by (simp add: s' sorting_type_of_def types_ok_def)
  qed
  moreover have "distinct (fst s')" using assms(2) fresh by (simp add: s' types_ok_def)
  moreover have "\<forall>f. map_of (snd s') f \<noteq> None \<longleftrightarrow> f \<in> set (fst s')" using dom by (simp add: s')
  ultimately show ?thesis unfolding types_ok_def by blast
qed

lemma added_types: "map_of (fold (\<lambda>f. AList.update f ascending) fs types) f = (if f \<in> set fs then Some ascending else map_of types f)"
  by (induction fs arbitrary: types) auto

text \<open>
  Accepted sorting rules use every field at most once, only configured fields, and every tie-breaker field;
  a field has a place for NULL exactly if it can be NULL.
\<close>

lemma parse_sorting_rules_ok:
  assumes "parse_sorting_rules rules cfg ties = Inr (used, types)" and "valid_tie_breakers cfg ties" and "distinct (map fst ties)"
  shows "types_ok cfg used types \<and> fst ` set ties \<subseteq> set used"
proof -
  from assms(1) obtain used0 types0 where
      run: "fold_result (parse_sort_statement cfg) (split_on (CHR '','') rules) ([], []) = Inr (used0, types0)"
    and used: "used = used0 @ tie_breakers_to_add types0 ties"
    and types: "types = fold (\<lambda>f. AList.update f ascending) (tie_breakers_to_add types0 ties) types0"
    by (auto simp: parse_sorting_rules_def Let_def split: sum.splits)
  have ok0: "types_ok cfg used0 types0"
    using fold_result_invariant [OF run, where I = "\<lambda>s. types_ok cfg (fst s) (snd s)"] parse_sort_statement_ok
    by (force simp: types_ok_def)
  have dom0: "map_of types0 f = None \<longleftrightarrow> f \<notin> set used0" for f
    using ok0 unfolding types_ok_def by blast
  have added: "set (tie_breakers_to_add types0 ties) = fst ` set ties - set used0"
    by (auto simp: tie_breakers_to_add_def dom0)
  have "distinct (tie_breakers_to_add types0 ties)"
    using assms(3) by (simp add: tie_breakers_to_add_def)
  then have "distinct used" using added ok0 by (auto simp: used types_ok_def)
  moreover have "\<forall>f. map_of types f \<noteq> None \<longleftrightarrow> f \<in> set used"
  proof
    fix f
    show "map_of types f \<noteq> None \<longleftrightarrow> f \<in> set used"
      using dom0 [of f] by (cases "f \<in> set (tie_breakers_to_add types0 ties)") (simp_all only: types used added_types set_append Un_iff if_True if_False simp_thms option.distinct)
  qed
  moreover have "map_of cfg f \<noteq> None \<and> (st_null_placement (sorting_type_of types f) = PlaceUnset \<longleftrightarrow> \<not> is_nullable cfg f)"
    if "f \<in> set used" for f
  proof (cases "f \<in> set used0")
    case True
    then have "f \<notin> set (tie_breakers_to_add types0 ties)" by (simp add: added)
    with True ok0 show ?thesis by (simp add: types_ok_def types sorting_type_of_def added_types)
  next
    case False
    with that have f: "f \<in> set (tie_breakers_to_add types0 ties)" by (simp add: used)
    then have "f \<in> fst ` set ties" by (simp add: added)
    then have "map_of cfg f \<noteq> None \<and> \<not> is_nullable cfg f"
      using assms(2) by (auto simp: valid_tie_breakers_def is_nullable_def split: option.splits)
    moreover have "sorting_type_of types f = ascending"
      using f by (simp only: types sorting_type_of_def added_types if_True option.case)
    ultimately show ?thesis by (simp add: ascending_def)
  qed
  ultimately have "types_ok cfg used types" unfolding types_ok_def by blast
  with added show ?thesis by (auto simp: used)
qed

section \<open>The order\<close>

lemma term_less_irrefl: "\<not> term_less t y y"
  by (cases t) (auto split: option.splits)

lemma term_less_asym: "term_less t y x \<Longrightarrow> \<not> term_less t x y \<and> \<not> term_equal t x y"
  by (cases t) (auto split: option.splits)

lemma term_equal_sym: "term_equal t y x = term_equal t x y"
  by (cases t) auto

lemma order_less_asym: "order_less ts y x \<Longrightarrow> \<not> order_less ts x y"
  by (induction ts) (auto dest: term_less_asym simp: term_equal_sym)

lemma order_less_irrefl: "\<not> order_less ts y y"
  using order_less_asym by blast

lemma order_less_append: "order_less (ts @ us) y x \<longleftrightarrow> order_less ts y x \<or> (\<forall>t \<in> set ts. term_equal t y x) \<and> order_less us y x"
  by (induction ts) auto

lemma terms_equal: "(\<forall>t \<in> set (order_terms st c). term_equal t y x) \<longleftrightarrow> y c = x c"
  by (cases "st_null_placement st"; cases "st_direction st") (auto simp: order_terms_def)

lemma order_less_field:
  "order_less (apply_order (f # fs) cfg types) y x \<longleftrightarrow>
     order_less (order_terms (sorting_type_of types f) (column_of cfg f)) y x \<or>
     y (column_of cfg f) = x (column_of cfg f) \<and> order_less (apply_order fs cfg types) y x"
  by (simp add: apply_order_def order_less_append terms_equal)

lemma field_total: "y c \<noteq> x c \<Longrightarrow> order_less (order_terms st c) y x \<or> order_less (order_terms st c) x y"
  by (cases "y c"; cases "x c"; cases "st_null_placement st"; cases "st_direction st") (auto simp: order_terms_def)

text \<open>
  The ORDER BY built from accepted rules leaves no choice: of two rows that differ in a tie-breaker field, one
  comes before the other, and never both.
\<close>

lemma order_complete:
  assumes "parse_sorting_rules rules cfg ties = Inr (used, types)" and "valid_tie_breakers cfg ties" and "distinct (map fst ties)"
    and "f \<in> fst ` set ties" and "x (column_of cfg f) \<noteq> y (column_of cfg f)"
  shows "order_less (apply_order used cfg types) x y \<noteq> order_less (apply_order used cfg types) y x"
proof -
  have "f \<in> set used" using parse_sorting_rules_ok [OF assms(1-3)] assms(4) by blast
  then have "order_less (apply_order used cfg types) x y \<or> order_less (apply_order used cfg types) y x"
  proof (induction used)
    case Nil
    then show ?case by simp
  next
    case (Cons g used)
    show ?case
    proof (cases "y (column_of cfg g) = x (column_of cfg g)")
      case True
      then have "f \<noteq> g" using assms(5) by auto
      with Cons True show ?thesis by (auto simp: order_less_field)
    next
      case False
      with field_total [of y "column_of cfg g" x] show ?thesis by (auto simp: order_less_field)
    qed
  qed
  with order_less_asym show ?thesis by blast
qed

section \<open>The conditions\<close>

lemma sql_and_True: "sql_and a b = Some True \<longleftrightarrow> a = Some True \<and> b = Some True"
  by (cases "(a, b)" rule: sql_and.cases) auto

lemma sql_or_True: "sql_or a b = Some True \<longleftrightarrow> a = Some True \<or> b = Some True"
  by (cases "(a, b)" rule: sql_or.cases) auto

lemma sql_and_assoc: "sql_and a (sql_and b c) = sql_and (sql_and a b) c"
proof (cases a)
  case (Some x)
  then show ?thesis by (cases x) simp_all
next
  case None
  then show ?thesis by (cases b rule: option.exhaust [case_names None Some]; cases c rule: option.exhaust [case_names None Some])
    (auto simp: bool.case_eq_if)
qed

lemma eval_condition_append:
  "eval_condition row page (ks @ ks') vs =
     (case eval_condition row page ks vs of (b, vs1) \<Rightarrow>
        (case eval_condition row page ks' vs1 of (b', vs2) \<Rightarrow> (sql_and b b', vs2)))"
  by (induction ks arbitrary: vs) (auto split: prod.splits simp: sql_and_assoc)

text \<open>
  One loop for both kinds of conditions: \<open>pv f\<close> are the values a conjunct of the field takes, one parameter or none.
\<close>

fun where_values :: "(string \<Rightarrow> 'v option list) \<Rightarrow> 'v option list \<Rightarrow> string list \<Rightarrow> 'v option list" where
  "where_values pv part [] = []"
| "where_values pv part (f # fs) = (part @ pv f) @ where_values pv (part @ pv f) fs"

definition field_evaluates ::
  "bool \<Rightarrow> sorting_fields \<Rightarrow> (string, sorting_type) gomap \<Rightarrow> 'v::linorder row \<Rightarrow> 'v row \<Rightarrow> 'v row \<Rightarrow> 'v option list \<Rightarrow> string \<Rightarrow> bool" where
  "field_evaluates sub cfg types x page y pv f =
     (\<forall>rest. (\<exists>b. eval_conjunct x page (paging_condition sub cfg types f) (pv @ rest) = (b, rest) \<and>
                (b = Some True \<longleftrightarrow> order_less (order_terms (sorting_type_of types f) (column_of cfg f)) y x)) \<and>
             (\<exists>b. eval_conjunct x page (paging_equality sub cfg f) (pv @ rest) = (b, rest) \<and>
                (b = Some True \<longleftrightarrow> y (column_of cfg f) = x (column_of cfg f))))"

lemma where_correct:
  assumes "\<forall>f \<in> set fs. field_evaluates sub cfg types x page y (pv f) f"
    and "\<forall>rest. \<exists>b. eval_condition x page prefix (part @ rest) = (b, rest) \<and> (b = Some True \<longleftrightarrow> P)"
  shows "eval_where x page (construct_conditions sub cfg types prefix fs) (where_values pv part fs) = Some True \<longleftrightarrow>
    P \<and> order_less (apply_order fs cfg types) y x"
  using assms
proof (induction fs arbitrary: prefix part P)
  case Nil
  then show ?case by (simp add: apply_order_def)
next
  case (Cons f fs)
  let ?less = "order_less (order_terms (sorting_type_of types f) (column_of cfg f)) y x"
  let ?eq = "y (column_of cfg f) = x (column_of cfg f)"
  have f: "field_evaluates sub cfg types x page y (pv f) f" using Cons.prems(1) by simp
  have cond: "\<exists>b. eval_condition x page (prefix @ [paging_condition sub cfg types f]) ((part @ pv f) @ rest) = (b, rest) \<and>
      (b = Some True \<longleftrightarrow> P \<and> ?less)" for rest
  proof -
    obtain b where "eval_condition x page prefix (part @ pv f @ rest) = (b, pv f @ rest)" "b = Some True \<longleftrightarrow> P"
      using Cons.prems(2) by blast
    moreover obtain b' where "eval_conjunct x page (paging_condition sub cfg types f) (pv f @ rest) = (b', rest)" "b' = Some True \<longleftrightarrow> ?less"
      using f by (auto simp: field_evaluates_def)
    ultimately show ?thesis by (simp add: eval_condition_append sql_and_True)
  qed
  have step: "\<forall>rest. \<exists>b. eval_condition x page (prefix @ [paging_equality sub cfg f]) ((part @ pv f) @ rest) = (b, rest) \<and>
      (b = Some True \<longleftrightarrow> P \<and> ?eq)"
  proof
    fix rest
    obtain b where "eval_condition x page prefix (part @ pv f @ rest) = (b, pv f @ rest)" "b = Some True \<longleftrightarrow> P"
      using Cons.prems(2) by blast
    moreover obtain b' where "eval_conjunct x page (paging_equality sub cfg f) (pv f @ rest) = (b', rest)" "b' = Some True \<longleftrightarrow> ?eq"
      using f unfolding field_evaluates_def by blast
    ultimately show "\<exists>b. eval_condition x page (prefix @ [paging_equality sub cfg f]) ((part @ pv f) @ rest) = (b, rest) \<and>
      (b = Some True \<longleftrightarrow> P \<and> ?eq)"
      by (simp add: eval_condition_append sql_and_True)
  qed
  have "eval_where x page (construct_conditions sub cfg types (prefix @ [paging_equality sub cfg f]) fs) (where_values pv (part @ pv f) fs)
      = Some True \<longleftrightarrow> (P \<and> ?eq) \<and> order_less (apply_order fs cfg types) y x"
    by (rule Cons.IH [OF _ step]) (use Cons.prems(1) in simp)
  moreover obtain b where "eval_condition x page (prefix @ [paging_condition sub cfg types f])
      ((part @ pv f) @ where_values pv (part @ pv f) fs) = (b, where_values pv (part @ pv f) fs)" "b = Some True \<longleftrightarrow> P \<and> ?less"
    using cond by blast
  ultimately show ?case by (auto simp: sql_or_True order_less_field)
qed

text \<open>The two kinds.\<close>

lemma sub_query_field:
  assumes "page (safe_column_name f) = y (column_of cfg f)"
    and "st_null_placement (sorting_type_of types f) = PlaceUnset \<Longrightarrow> y (column_of cfg f) \<noteq> None \<and> x (column_of cfg f) \<noteq> None"
  shows "field_evaluates True cfg types x page y [] f"
  using assms unfolding field_evaluates_def
  by (cases "y (column_of cfg f)"; cases "x (column_of cfg f)"; cases "st_direction (sorting_type_of types f)";
      cases "st_null_placement (sorting_type_of types f)")
     (auto simp: paging_condition_def paging_equality_def Let_def order_terms_def sql_compare_def)

lemma value_field:
  assumes "y (column_of cfg f) = Some v" and "x (column_of cfg f) \<noteq> None"
    and "st_null_placement (sorting_type_of types f) = PlaceUnset"
  shows "field_evaluates False cfg types x page y [Some v] f"
  using assms unfolding field_evaluates_def
  by (cases "x (column_of cfg f)"; cases "st_direction (sorting_type_of types f)")
     (auto simp: paging_condition_def paging_equality_def Let_def order_terms_def sql_compare_def sql_equal_def)

lemma sub_query_values: "where_values (\<lambda>_. []) [] fs = []"
  by (induction fs) auto

lemma query_values_where: "construct_query_values from_values part fs = where_values (\<lambda>f. [map_of from_values f]) part fs"
  by (induction fs arbitrary: part) auto

definition non_null :: "sorting_fields \<Rightarrow> 'v row \<Rightarrow> bool" where
  "non_null cfg x = (\<forall>f. map_of cfg f \<noteq> None \<and> \<not> is_nullable cfg f \<longrightarrow> x (column_of cfg f) \<noteq> None)"

lemma sub_query_where:
  assumes "types_ok cfg used types" and "non_null cfg x" and "non_null cfg y"
    and "\<And>f. f \<in> set used \<Longrightarrow> page (safe_column_name f) = y (column_of cfg f)"
  shows "eval_where x page (construct_conditions True cfg types [] used) [] = Some True \<longleftrightarrow> order_less (apply_order used cfg types) y x"
proof -
  have "\<forall>f \<in> set used. field_evaluates True cfg types x page y [] f"
  proof
    fix f assume f: "f \<in> set used"
    have "y (column_of cfg f) \<noteq> None \<and> x (column_of cfg f) \<noteq> None"
      if "st_null_placement (sorting_type_of types f) = PlaceUnset"
      using that f assms(1-3) unfolding types_ok_def non_null_def by blast
    with assms(4) [OF f] show "field_evaluates True cfg types x page y [] f" by (intro sub_query_field) auto
  qed
  then show ?thesis
    using where_correct [where pv = "\<lambda>_. []" and part = "[]" and prefix = "[]" and P = True] by (simp add: sub_query_values)
qed

lemma values_where:
  assumes "types_ok cfg used types" and "non_null cfg x" and "non_null cfg y"
    and "\<And>f. f \<in> set used \<Longrightarrow> \<not> is_nullable cfg f"
    and "\<And>f. f \<in> set used \<Longrightarrow> map_of from_values f = y (column_of cfg f)"
  shows "eval_where x page (construct_conditions False cfg types [] used) (construct_query_values from_values [] used) = Some True
    \<longleftrightarrow> order_less (apply_order used cfg types) y x"
proof -
  have "\<forall>f \<in> set used. field_evaluates False cfg types x page y [map_of from_values f] f"
  proof
    fix f assume f: "f \<in> set used"
    have p: "st_null_placement (sorting_type_of types f) = PlaceUnset" and c: "map_of cfg f \<noteq> None"
      using f assms(1,4) unfolding types_ok_def by blast+
    have "x (column_of cfg f) \<noteq> None" using assms(2,4) f c unfolding non_null_def by blast
    moreover obtain v where "y (column_of cfg f) = Some v" using assms(3,4) f c unfolding non_null_def by blast
    ultimately show "field_evaluates False cfg types x page y [map_of from_values f] f"
      using value_field p assms(5) [OF f] by simp
  qed
  then show ?thesis
    using where_correct [where pv = "\<lambda>f. [map_of from_values f]" and part = "[]" and prefix = "[]" and P = True]
    by (simp add: query_values_where)
qed

section \<open>The 'from.' parameters\<close>

lemma collect_from_value_inv:
  assumes "collect_from_value conv q ft (fv, accepted, missing) = Inr (fv', accepted', missing')"
    and "accepted \<longleftrightarrow> fv \<noteq> []" and "distinct (map fst fv)"
  shows "(accepted' \<longleftrightarrow> fv' \<noteq> []) \<and> distinct (map fst fv') \<and> (missing \<longrightarrow> missing') \<and>
    fst ` set fv' \<subseteq> insert (fst ft) (fst ` set fv) \<and> (missing' \<or> fst ` set fv' = insert (fst ft) (fst ` set fv))"
proof (cases "query_values q (''from.'' @ fst ft)")
  case Nil
  with assms show ?thesis by (simp add: collect_from_value_def) blast
next
  case (Cons v vs)
  with assms(1) obtain x where v: "fv' = AList.update (fst ft) x fv" "accepted'" "missing' = missing"
    by (auto simp: collect_from_value_def split: option.splits)
  have "AList.update (fst ft) x fv \<noteq> []" by (cases fv) auto
  with v show ?thesis using assms(3) by (simp add: distinct_update dom_update)
qed

lemma collect_from_values_inv:
  assumes "fold_result (collect_from_value conv q) ties (fv, accepted, missing) = Inr (fv', accepted', missing')"
    and "accepted \<longleftrightarrow> fv \<noteq> []" and "distinct (map fst fv)"
  shows "(accepted' \<longleftrightarrow> fv' \<noteq> []) \<and> distinct (map fst fv') \<and> (missing \<longrightarrow> missing') \<and>
    (missing' \<or> fst ` set fv' = fst ` set ties \<union> fst ` set fv)"
  using assms
proof (induction ties arbitrary: fv accepted missing)
  case Nil
  then show ?case by (simp, blast)
next
  case (Cons ft ties)
  from Cons.prems(1) obtain s where "collect_from_value conv q ft (fv, accepted, missing) = Inr s"
    and "fold_result (collect_from_value conv q) ties s = Inr (fv', accepted', missing')"
    by (auto split: sum.splits)
  then obtain fv1 accepted1 missing1 where
      s: "collect_from_value conv q ft (fv, accepted, missing) = Inr (fv1, accepted1, missing1)"
    and r: "fold_result (collect_from_value conv q) ties (fv1, accepted1, missing1) = Inr (fv', accepted', missing')"
    by (cases s) simp
  note i = collect_from_value_inv [OF s Cons.prems(2,3)]
  have h: "(accepted' \<longleftrightarrow> fv' \<noteq> []) \<and> distinct (map fst fv') \<and> (missing1 \<longrightarrow> missing') \<and>
      (missing' \<or> fst ` set fv' = fst ` set ties \<union> fst ` set fv1)"
    using i by (intro Cons.IH [OF r]) (rule conjunct1, assumption, rule conjunct1, rule conjunct2, assumption)
  have "fst ` set (ft # ties) \<union> K = fst ` set ties \<union> insert (fst ft) K" for K by auto
  with h i show ?case by (cases missing'; cases missing1) simp_all
qed

text \<open>Either no 'from.' value is given or exactly those of the tie-breakers.\<close>

lemma paging_parameters_complete:
  assumes "parse_paging_parameters conv q ties = Inr from_values"
  shows "distinct (map fst from_values) \<and> (from_values = [] \<or> fst ` set from_values = fst ` set ties)"
proof -
  from assms obtain accepted missing where
      r: "fold_result (collect_from_value conv q) ties ([], False, False) = Inr (from_values, accepted, missing)"
    and m: "\<not> (accepted \<and> missing)"
    by (auto simp: parse_paging_parameters_def split: if_splits sum.splits)
  from collect_from_values_inv [OF r] m show ?thesis by auto
qed

section \<open>Pages\<close>

lemma filter_after:
  assumes "sorted_wrt R rows" and "\<And>x y. R x y \<Longrightarrow> \<not> R y x" and "i < length rows"
    and "\<And>x. x \<in> set rows \<Longrightarrow> P x \<longleftrightarrow> R (rows ! i) x"
  shows "filter P rows = drop (Suc i) rows"
proof -
  have split: "rows = take i rows @ rows ! i # drop (Suc i) rows" using assms(3) by (rule id_take_nth_drop)
  have so: "sorted_wrt R (take i rows @ rows ! i # drop (Suc i) rows)" using assms(1) split by simp
  have "filter P (take i rows) = []"
    unfolding filter_empty_conv
  proof
    fix x assume x: "x \<in> set (take i rows)"
    then have "R x (rows ! i)" using so by (simp add: sorted_wrt_append)
    then show "\<not> P x" using assms(2,4) x in_set_takeD by metis
  qed
  moreover have "\<not> P (rows ! i)" using assms(2-4) nth_mem by metis
  moreover have "filter P (drop (Suc i) rows) = drop (Suc i) rows"
    unfolding filter_id_conv
  proof
    fix x assume x: "x \<in> set (drop (Suc i) rows)"
    then have "R (rows ! i) x" using so by (simp add: sorted_wrt_append)
    then show "P x" using assms(4) x in_set_dropD by metis
  qed
  ultimately show ?thesis by (subst split) simp
qed

lemma page_of_field:
  assumes "inj_on safe_column_name (set used)" and "f \<in> set used"
  shows "page_of (map (\<lambda>f. (column_of cfg f, safe_column_name f)) used) y (safe_column_name f) = y (column_of cfg f)"
proof -
  have "map_of (map (\<lambda>f. (safe_column_name f, column_of cfg f)) used) (safe_column_name f) = Some (column_of cfg f)"
    using assms by (induction used) (auto simp: inj_on_def)
  then show ?thesis by (simp add: page_of_def comp_def)
qed

lemma from_where_row:
  assumes "distinct (map fst fv)"
  shows "(\<forall>(c, v) \<in> set (map (\<lambda>(f, v). (column_of cfg f, v)) fv). x c = Some v) \<longleftrightarrow>
    (\<forall>f \<in> fst ` set fv. x (column_of cfg f) = map_of fv f)"
proof -
  have "map_of fv (fst p) = Some (snd p)" if "p \<in> set fv" for p using assms that by (cases p) simp
  then show ?thesis by (auto simp: case_prod_beta)
qed

lemma find_unique:
  assumes "y \<in> set xs" and "P y" and "\<And>x. x \<in> set xs \<Longrightarrow> P x \<Longrightarrow> x = y"
  shows "find P xs = Some y"
proof (cases "find P xs")
  case None
  with assms(1,2) show ?thesis by (simp add: find_None_iff)
next
  case (Some x)
  then have "x \<in> set xs \<and> P x" by (auto simp: find_Some_iff)
  with Some assms(3) show ?thesis by blast
qed

text \<open>What acceptance of a request means for its parts.\<close>

lemma accepted_request:
  assumes "apply_sorting_and_paging conv q cfg rules ties ignore_sort start = Inr (order, paging)" and "distinct (map fst ties)"
  shows "\<exists>used types from_values. types_ok cfg used types \<and> fst ` set ties \<subseteq> set used \<and> valid_tie_breakers cfg ties \<and>
    order = apply_order used cfg types \<and> paging = apply_paging_conditions used types cfg from_values start \<and>
    (if start = NoSubQuery then parse_paging_parameters conv q ties = Inr from_values else from_values = [])"
proof -
  from assms(1) obtain used types from_values where v: "valid_tie_breakers cfg ties"
    and p: "parse_sorting_rules (choose_sorting_rules q rules ignore_sort) cfg ties = Inr (used, types)"
    and r: "order = apply_order used cfg types" "paging = apply_paging_conditions used types cfg from_values start"
    and f: "(if start = NoSubQuery then parse_paging_parameters conv q ties else Inr []) = Inr from_values"
    by (auto simp: apply_sorting_and_paging_def split: if_splits sum.splits)
  have "if start = NoSubQuery then parse_paging_parameters conv q ties = Inr from_values else from_values = []"
    using f by (simp split: if_splits)
  with parse_sorting_rules_ok [OF p v assms(2)] r v show ?thesis by blast
qed

lemma used_configured:
  assumes "types_ok cfg used types"
  shows "set used \<subseteq> fst ` set cfg"
proof
  fix f assume "f \<in> set used"
  then have "map_of cfg f \<noteq> None" using assms unfolding types_ok_def by blast
  then show "f \<in> fst ` set cfg" by (simp add: in_keys_iff)
qed

lemma tie_breaker_not_nullable: "valid_tie_breakers cfg ties \<Longrightarrow> f \<in> fst ` set ties \<Longrightarrow> \<not> is_nullable cfg f"
  by (auto simp: valid_tie_breakers_def is_nullable_def split: option.splits)

text \<open>
  C35: paging continues the list.  For a list ordered as requested, a request with the 'from.' values of a row of the
  list returns exactly the rows after that row, in the same order, if these values identify the row, columns
  that are not nullable hold no NULL, and no two field names collapse to one safe column name.
\<close>

theorem next_page:
  assumes "apply_sorting_and_paging conv q cfg rules ties ignore_sort NoSubQuery = Inr (order, paging)"
    and "distinct (map fst ties)" and "inj_on safe_column_name (fst ` set cfg)"
    and "parse_paging_parameters conv q ties = Inr from_values" and "from_values \<noteq> []"
    and "sorted_wrt (order_less order) rows" and "i < length rows" and "\<forall>x \<in> set rows. non_null cfg x"
    and "\<forall>f \<in> fst ` set ties. map_of from_values f = (rows ! i) (column_of cfg f)"
    and "\<forall>x \<in> set rows. (\<forall>f \<in> fst ` set ties. x (column_of cfg f) = (rows ! i) (column_of cfg f)) \<longrightarrow> x = rows ! i"
  shows "run_paging paging given rows = drop (Suc i) rows"
proof -
  let ?y = "rows ! i"
  obtain used types where ok: "types_ok cfg used types" and tu: "fst ` set ties \<subseteq> set used" and v: "valid_tie_breakers cfg ties"
    and order: "order = apply_order used cfg types" and paging: "paging = apply_paging_conditions used types cfg from_values NoSubQuery"
    using accepted_request [OF assms(1,2)] assms(4) by auto
  have y: "?y \<in> set rows" using assms(7) by simp
  have keys: "fst ` set from_values = fst ` set ties" and df: "distinct (map fst from_values)"
    using paging_parameters_complete [OF assms(4)] assms(5) by auto
  then have used: "used \<noteq> []" using tu assms(5) by force
  note uc = used_configured [OF ok]
  have after: "filter P rows = drop (Suc i) rows" if "\<And>x. x \<in> set rows \<Longrightarrow> P x \<longleftrightarrow> order_less order ?y x" for P
    by (rule filter_after [OF assms(6) _ assms(7)]) (rule order_less_asym, assumption, rule that)
  have conds: "construct_conditions sub cfg types [] used \<noteq> []" for sub using used by (cases used) auto
  show ?thesis
  proof (cases "length used = length from_values")
    case True
    have "card (set used) = card (fst ` set from_values)"
      using True ok df distinct_card [of used] distinct_card [of "map fst from_values"] by (simp add: types_ok_def)
    then have su: "set used = fst ` set ties"
      using tu keys card_subset_eq [of "set used" "fst ` set ties"] by simp
    have "paging = WhereValues (construct_conditions False cfg types [] used) (construct_query_values from_values [] used)"
      using True assms(5) conds by (simp add: paging apply_paging_conditions_def)
    moreover have "eval_where x (\<lambda>_. None) (construct_conditions False cfg types [] used) (construct_query_values from_values [] used) = Some True
        \<longleftrightarrow> order_less order ?y x" if "x \<in> set rows" for x
      unfolding order by (rule values_where [OF ok]) (use assms(8,9) that y su tie_breaker_not_nullable [OF v] in auto)
    ultimately show ?thesis using after by (simp add: run_paging_def)
  next
    case False
    let ?sel = "map (\<lambda>f. (column_of cfg f, safe_column_name f)) used"
    have p: "paging = JoinFoundRow ?sel (map (\<lambda>(f, v). (column_of cfg f, v)) from_values) (construct_conditions True cfg types [] used)"
      using False assms(5) conds by (simp add: paging apply_paging_conditions_def)
    have found: "find (\<lambda>x. \<forall>(c, v) \<in> set (map (\<lambda>(f, v). (column_of cfg f, v)) from_values). x c = Some v) rows = Some ?y"
      using df keys y assms(9,10) by (intro find_unique) (simp_all only: from_where_row, simp_all)
    have "eval_where x (page_of ?sel ?y) (construct_conditions True cfg types [] used) [] = Some True \<longleftrightarrow> order_less order ?y x"
      if "x \<in> set rows" for x
      unfolding order
      by (rule sub_query_where [OF ok]) (use assms(8) that y page_of_field [OF inj_on_subset [OF assms(3) uc]] in auto)
    then show ?thesis using after by (simp only: p run_paging_def paging.case found option.case)
  qed
qed

text \<open>
  with a given sub-query the page starts after the row of the sub-query: exactly the rows that come after it in
  the requested order are returned, whether or not that row is in the list.
\<close>

lemma sub_query_page:
  assumes "apply_sorting_and_paging conv q cfg rules ties ignore_sort SubQuery = Inr (order, paging)"
    and "distinct (map fst ties)" and "ties \<noteq> []" and "\<forall>x \<in> insert y (set rows). non_null cfg x"
    and "\<forall>f \<in> fst ` set cfg. page (safe_column_name f) = y (column_of cfg f)"
  shows "run_paging paging (Some page) rows = filter (order_less order y) rows"
proof -
  obtain used types where ok: "types_ok cfg used types" and tu: "fst ` set ties \<subseteq> set used"
    and order: "order = apply_order used cfg types" and paging: "paging = apply_paging_conditions used types cfg [] SubQuery"
    using accepted_request [OF assms(1,2)] by auto
  have used: "used \<noteq> []" using tu assms(3) by (cases ties) auto
  note uc = used_configured [OF ok]
  have p: "paging = JoinSubQuery (construct_conditions True cfg types [] used)"
    using used by (cases used) (simp_all add: paging apply_paging_conditions_def)
  have "eval_where x page (construct_conditions True cfg types [] used) [] = Some True \<longleftrightarrow> order_less order y x"
    if "x \<in> set rows" for x
    unfolding order by (rule sub_query_where [OF ok]) (use assms(4,5) that uc in auto)
  then have "filter (\<lambda>x. eval_where x page (construct_conditions True cfg types [] used) [] = Some True) rows =
      filter (order_less order y) rows"
    by (rule filter_cong [OF refl])
  then show ?thesis by (simp only: p run_paging_def paging.case option.case)
qed

end
