(* ===== verification/SortingExamples.thy ===== *)
theory SortingExamples
  imports SortingSpec
begin

text \<open>
  A list of groups sorted by their nullable name and their id, and the theorems on sorting and paging applied to it.
\<close>

definition ex_fields :: sorting_fields where
  "ex_fields = [(''id'', \<lparr>fp_column_name = ''groups.id'', fp_nullable = False\<rparr>),
                (''name'', \<lparr>fp_column_name = ''groups.name'', fp_nullable = True\<rparr>)]"

definition ex_ties :: tie_breakers where
  "ex_ties = [(''id'', Int64Field)]"

definition ex_row :: "int option \<Rightarrow> int \<Rightarrow> int row" where
  "ex_row name i = (\<lambda>c. if c = ''groups.name'' then name else if c = ''groups.id'' then Some i else None)"

definition ex_rows :: "int row list" where
  "ex_rows = [ex_row None 3, ex_row (Some 7) 4, ex_row (Some 5) 1, ex_row (Some 5) 2]"

definition ex_conv :: "field_type \<Rightarrow> string \<Rightarrow> int option" where
  "ex_conv t s = (case s of [c] \<Rightarrow> Some (of_char c - 48) | _ \<Rightarrow> None)"

definition ex_query :: url_query where
  "ex_query = [(''sort'', [''-name'']), (''from.id'', [''4''])]"

definition ex_order :: "order_term list" where
  "ex_order = [IsNotNullTerm ''groups.name'', DescTerm ''groups.name'', AscTerm ''groups.id'']"

lemma ex_order_sql: "join_strings '', '' (map order_term_sql ex_order) = ''groups.name IS NOT NULL, groups.name DESC, groups.id ASC''"
  by code_simp

lemma ex_rules: "parse_sorting_rules ''-name'' ex_fields ex_ties =
    Inr ([''name'', ''id''], [(''name'', \<lparr>st_direction = Desc, st_null_placement = PlaceFirst\<rparr>), (''id'', ascending)])"
  by code_simp

lemma ex_apply_order: "apply_order [''name'', ''id''] ex_fields
    [(''name'', \<lparr>st_direction = Desc, st_null_placement = PlaceFirst\<rparr>), (''id'', ascending)] = ex_order"
  by code_simp

lemma ex_valid: "valid_tie_breakers ex_fields ex_ties"
  by code_simp

lemma ex_distinct: "distinct (map fst ex_ties)"
  by code_simp

definition ex_request :: "start_row \<Rightarrow> int paging" where
  "ex_request start = snd (projr (apply_sorting_and_paging ex_conv ex_query ex_fields ''id'' ex_ties False start))"

lemma ex_accepted:
  "apply_sorting_and_paging ex_conv ex_query ex_fields ''id'' ex_ties False NoSubQuery = Inr (ex_order, ex_request NoSubQuery)"
  by code_simp

lemma ex_accepted_sub_query:
  "apply_sorting_and_paging ex_conv ex_query ex_fields ''id'' ex_ties False SubQuery = Inr (ex_order, ex_request SubQuery)"
  by code_simp

lemma ex_from: "parse_paging_parameters ex_conv ex_query ex_ties = Inr [(''id'', 4)]"
  by code_simp

lemma ex_columns: "column_of ex_fields ''id'' = ''groups.id''" "column_of ex_fields ''name'' = ''groups.name''"
  "\<not> is_nullable ex_fields ''id''" "is_nullable ex_fields ''name''"
  by code_simp+

lemma ex_non_null: "non_null ex_fields (ex_row n i)"
  by (auto simp: non_null_def is_nullable_def column_of_def ex_fields_def ex_row_def split: if_splits)

lemma ex_sorted: "sorted_wrt (order_less ex_order) ex_rows"
  by (simp add: ex_order_def ex_rows_def ex_row_def)

text \<open>The sort with the name first does not say which of two rows with one name comes first; the added id does.\<close>

lemma order_complete_witness:
  "order_less ex_order (ex_row (Some 5) 1) (ex_row (Some 5) 2) \<noteq> order_less ex_order (ex_row (Some 5) 2) (ex_row (Some 5) 1)"
  using order_complete [OF ex_rules ex_valid ex_distinct, of "''id''" "ex_row (Some 5) 1" "ex_row (Some 5) 2"]
  unfolding ex_apply_order ex_columns by (simp add: ex_ties_def ex_row_def)

lemma next_page_witness:
  "run_paging (ex_request NoSubQuery) None ex_rows = [ex_row (Some 5) 1, ex_row (Some 5) 2]"
proof -
  have "inj_on safe_column_name (fst ` set ex_fields)"
    unfolding inj_on_def by code_simp
  moreover have "\<forall>x \<in> set ex_rows. non_null ex_fields x" by (simp add: ex_rows_def ex_non_null)
  moreover have "\<forall>f \<in> fst ` set ex_ties. map_of [(''id'', 4)] f = (ex_rows ! 1) (column_of ex_fields f)"
    by (simp add: ex_ties_def ex_columns ex_rows_def ex_row_def)
  moreover have "\<forall>x \<in> set ex_rows. (\<forall>f \<in> fst ` set ex_ties. x (column_of ex_fields f) = (ex_rows ! 1) (column_of ex_fields f)) \<longrightarrow> x = ex_rows ! 1"
    by (simp add: ex_ties_def ex_columns ex_rows_def ex_row_def)
  ultimately have "run_paging (ex_request NoSubQuery) None ex_rows = drop (Suc 1) ex_rows"
    by (intro next_page [OF ex_accepted ex_distinct _ ex_from _ ex_sorted]) (simp_all add: ex_rows_def)
  then show ?thesis by (simp add: ex_rows_def)
qed

lemma sub_query_page_witness:
  "run_paging (ex_request SubQuery) (Some (\<lambda>s. if s = ''id'' then Some 0 else if s = ''name'' then Some 7 else None)) ex_rows =
     [ex_row (Some 7) 4, ex_row (Some 5) 1, ex_row (Some 5) 2]"
proof -
  have "\<forall>x \<in> insert (ex_row (Some 7) 0) (set ex_rows). non_null ex_fields x" by (simp add: ex_rows_def ex_non_null)
  moreover have "\<forall>f \<in> fst ` set ex_fields. (\<lambda>s. if s = ''id'' then Some 0 else if s = ''name'' then Some 7 else None) (safe_column_name f) =
      ex_row (Some 7) 0 (column_of ex_fields f)"
    by code_simp
  ultimately have "run_paging (ex_request SubQuery) (Some (\<lambda>s. if s = ''id'' then Some 0 else if s = ''name'' then Some 7 else None)) ex_rows =
      filter (order_less ex_order (ex_row (Some 7) 0)) ex_rows"
    by (intro sub_query_page [OF ex_accepted_sub_query ex_distinct]) (simp_all add: ex_ties_def)
  then show ?thesis by (simp add: ex_rows_def ex_order_def ex_row_def)
qed

end
