(* ===== verification/Threads.thy ===== *)
theory Threads
  imports Visibility
begin

text \<open>
  Help threads: app/database/thread.go, the permission checks of app/database/user.go, the shared checks of
  app/api/threads/threads.go, reading a thread (get_thread.go) and changing it (update_thread.go).  The tables
  used beside those of \<open>db\<close> are the threads and the pairs of a participant and an item with a validated
  result.  NULL columns are scanned into zero values as in the code.  The validators of a field run in the order of
  its tags until one fails, and only the fields present in the request count, as in app/formdata.
\<close>

section \<open>State\<close>

record thread_row =
  th_participant :: id
  th_item :: id
  th_status :: string
  th_helper_group :: id
  th_latest_update_at :: time
  th_message_count :: int

definition th_key :: "thread_row \<Rightarrow> id \<times> id" where
  "th_key t = (th_participant t, th_item t)"

record threads_db =
  td_db :: db
  td_threads :: "thread_row list"
  td_validated_results :: "(id \<times> id) list"

definition is_thread_open_status :: "string \<Rightarrow> bool" where
  "is_thread_open_status s = (s = ''waiting_for_trainer'' \<or> s = ''waiting_for_participant'')"

definition is_thread_closed_status :: "string \<Rightarrow> bool" where
  "is_thread_closed_status s = (\<not> is_thread_open_status s)"

section \<open>Permissions of a user\<close>

definition has_item_permission :: "db \<Rightarrow> id \<Rightarrow> id \<Rightarrow> (db_error + nat) \<Rightarrow> (generated_row \<Rightarrow> nat) \<Rightarrow> db_error + bool" where
  "has_item_permission d user item level column =
     bind_result level (\<lambda>i. Inr (\<exists>p \<in> set (matching_group_ancestors d user). pgen_item p = item \<and> i \<le> column p))"

definition can_watch_item_answer :: "db \<Rightarrow> id \<Rightarrow> id \<Rightarrow> db_error + bool" where
  "can_watch_item_answer d user item = has_item_permission d user item (watch_index ''answer'') pgen_can_watch"

definition can_watch_item_result :: "db \<Rightarrow> id \<Rightarrow> id \<Rightarrow> db_error + bool" where
  "can_watch_item_result d user item = has_item_permission d user item (watch_index ''result'') pgen_can_watch"

definition can_view_item_content :: "db \<Rightarrow> id \<Rightarrow> id \<Rightarrow> db_error + bool" where
  "can_view_item_content d user item = has_item_permission d user item (view_index ''content'') pgen_can_view"

definition can_view_item_info :: "db \<Rightarrow> id \<Rightarrow> id \<Rightarrow> db_error + bool" where
  "can_view_item_info d user item = has_item_permission d user item (view_index ''info'') pgen_can_view"

text \<open>\<open>permissions.group_id = user\<close>: the generated row of the user itself, not of its ancestors.\<close>

definition is_item_owner :: "db \<Rightarrow> id \<Rightarrow> id \<Rightarrow> bool" where
  "is_item_owner d user item =
     (\<exists>p \<in> set (db_permissions_generated d). pgen_group p = user \<and> pgen_item p = item \<and> pgen_is_owner p)"

definition can_watch_group_members :: "db \<Rightarrow> id \<Rightarrow> id \<Rightarrow> bool" where
  "can_watch_group_members d user g = (\<exists>m \<in> set (managed_by d user g). gm_can_watch_members m)"

definition is_member_of_group_or_self :: "db \<Rightarrow> id \<Rightarrow> id \<Rightarrow> bool" where
  "is_member_of_group_or_self d user g =
     (g = user \<or> (\<exists>r \<in> set (db_groups_groups d). gg_parent r = g \<and> gg_child r = user))"

definition can_see_answer :: "db \<Rightarrow> id \<Rightarrow> id \<Rightarrow> id \<Rightarrow> db_error + bool" where
  "can_see_answer d user participant item =
     bind_result (can_view_item_content d user item) (\<lambda>v. Inr (v \<and> is_member_of_group_or_self d user participant))"

text \<open>
  \<open>GetAncestorsRequestHelpPropagatedQuery\<close>: a recursive query with UNION ALL.  MySQL gives up after
  \<open>cte_max_recursion_depth\<close> rounds, 1000 unless configured, and the code then panics with the error; the
  number of rounds left is an argument, None standing for that failure.
\<close>

definition help_parents :: "db \<Rightarrow> id \<Rightarrow> id list" where
  "help_parents d i = [ii_parent e. e \<leftarrow> db_items_items d, ii_child e = i \<and> ii_request_help_propagation e]"

fun recursive_query :: "nat \<Rightarrow> ('a \<Rightarrow> 'a list) \<Rightarrow> 'a list \<Rightarrow> 'a list option" where
  "recursive_query n next [] = Some []"
| "recursive_query n next (x # xs) =
     (if n = 0 then None
      else map_option (\<lambda>ys. x # xs @ ys) (recursive_query (n - 1) next (concat (map next (x # xs)))))"

definition help_ancestors :: "nat \<Rightarrow> db \<Rightarrow> id \<Rightarrow> id list option" where
  "help_ancestors depth d item = recursive_query depth (help_parents d) [item]"

text \<open>The grants of the ancestors of a group on an item or one it gets the right to request help from.\<close>

definition help_grants :: "nat \<Rightarrow> db \<Rightarrow> id \<Rightarrow> id \<Rightarrow> granted_row list option" where
  "help_grants depth d g item =
     map_option (\<lambda>items. filter (\<lambda>p. anc d (pg_group p) g \<and> (pg_item p = item \<or> pg_item p \<in> set items)) (db_permissions_granted d))
       (help_ancestors depth d item)"

definition cte_failure :: db_error where
  "cte_failure = GoPanic ''Recursive query aborted''"

definition can_request_help_to :: "nat \<Rightarrow> db \<Rightarrow> id \<Rightarrow> id \<Rightarrow> id \<Rightarrow> db_error + bool" where
  "can_request_help_to depth d user item helper =
     (if is_item_owner d user item then Inr True
      else case help_grants depth d user item of
             None \<Rightarrow> Inl cte_failure
           | Some ps \<Rightarrow> Inr (\<exists>p \<in> set ps. case pg_can_request_help_to p of None \<Rightarrow> False | Some a \<Rightarrow> anc d a helper))"

definition has_can_request_help_to :: "nat \<Rightarrow> db \<Rightarrow> id \<Rightarrow> id \<Rightarrow> db_error + bool" where
  "has_can_request_help_to depth d item g =
     (case help_grants depth d g item of
        None \<Rightarrow> Inl cte_failure
      | Some ps \<Rightarrow> Inr (\<exists>p \<in> set ps. pg_can_request_help_to p \<noteq> None \<or> pg_is_owner p))"

section \<open>Information on a thread\<close>

record thread_info =
  ti_status :: string
  ti_helper_group :: id
  ti_message_count :: int
  ti_is_open :: bool
  ti_was_updated_recently :: bool
  ti_can_watch_for_participant :: bool
  ti_can_watch_answer :: bool
  ti_can_watch_result :: bool
  ti_is_descendant_of_helper_group :: bool
  ti_has_validated_result :: bool

definition two_weeks :: time where
  "two_weeks = 14 * 24 * 60 * 60"

definition find_thread :: "threads_db \<Rightarrow> id \<Rightarrow> id \<Rightarrow> thread_row option" where
  "find_thread s item participant = tbl_find th_key (participant, item) (td_threads s)"

definition thread_info_of :: "threads_db \<Rightarrow> id \<Rightarrow> id \<Rightarrow> id \<Rightarrow> db_error + thread_info" where
  "thread_info_of s user item participant =
     (let d = td_db s; th = find_thread s item participant in
      bind_result (can_watch_item_answer d user item) (\<lambda>answer.
      bind_result (can_watch_item_result d user item) (\<lambda>result.
        Inr \<lparr>ti_status = (case th of None \<Rightarrow> ''not_started'' | Some t \<Rightarrow> th_status t),
             ti_helper_group = (case th of None \<Rightarrow> 0 | Some t \<Rightarrow> th_helper_group t),
             ti_message_count = (case th of None \<Rightarrow> 0 | Some t \<Rightarrow> th_message_count t),
             ti_is_open = (case th of None \<Rightarrow> False | Some t \<Rightarrow> th_status t \<in> {''waiting_for_participant'', ''waiting_for_trainer''}),
             ti_was_updated_recently = (case th of None \<Rightarrow> False | Some t \<Rightarrow> db_now d - two_weeks < th_latest_update_at t),
             ti_can_watch_for_participant = can_watch_group_members d user participant,
             ti_can_watch_answer = answer,
             ti_can_watch_result = result,
             ti_is_descendant_of_helper_group = (case th of None \<Rightarrow> False | Some t \<Rightarrow> anc d (th_helper_group t) user),
             ti_has_validated_result = (th \<noteq> None \<and> (user, item) \<in> set (td_validated_results s))\<rparr>)))"

definition user_can_write_in_thread :: "id \<Rightarrow> id \<Rightarrow> thread_info \<Rightarrow> bool" where
  "user_can_write_in_thread user participant ti =
     (is_thread_open_status (ti_status ti) \<and>
      (participant = user \<or>
       ti_can_watch_answer ti \<and> ti_can_watch_for_participant ti \<or>
       ti_is_descendant_of_helper_group ti \<and>
         (ti_can_watch_answer ti \<or> ti_can_watch_result ti \<and> ti_has_validated_result ti)))"

definition user_can_watch_for_thread :: "thread_info \<Rightarrow> bool" where
  "user_can_watch_for_thread ti = (ti_can_watch_answer ti \<and> ti_can_watch_for_participant ti)"

section \<open>Reading a thread\<close>

datatype thread_error =
    Forbidden
  | EmptyUpdate
  | InvalidFields "string list"
  | ThreadInternalError db_error

definition lift_thread_error :: "db_error + 'a \<Rightarrow> thread_error + 'a" where
  "lift_thread_error r = (case r of Inl e \<Rightarrow> Inl (ThreadInternalError e) | Inr x \<Rightarrow> Inr x)"

record thread_token =
  tt_item :: id
  tt_participant :: id
  tt_user :: id
  tt_is_mine :: bool
  tt_can_watch :: bool
  tt_can_write :: bool
  tt_exp :: time

definition generate_thread_token :: "time \<Rightarrow> id \<Rightarrow> id \<Rightarrow> thread_info \<Rightarrow> id \<Rightarrow> thread_token" where
  "generate_thread_token now item participant ti user =
     \<lparr>tt_item = item, tt_participant = participant, tt_user = user, tt_is_mine = (participant = user),
      tt_can_watch = user_can_watch_for_thread ti, tt_can_write = user_can_write_in_thread user participant ti,
      tt_exp = now + 2 * 60 * 60\<rparr>"

definition get_thread :: "threads_db \<Rightarrow> id \<Rightarrow> id \<Rightarrow> id \<Rightarrow> thread_error + (string \<times> thread_token)" where
  "get_thread s user item participant =
     bind_result (lift_thread_error (can_view_item_content (td_db s) user item)) (\<lambda>view.
     bind_result (lift_thread_error (thread_info_of s user item participant)) (\<lambda>ti.
       if view \<and> (user = participant \<or> ti_can_watch_answer ti \<or>
                  (ti_is_open ti \<or> ti_was_updated_recently ti) \<and> ti_can_watch_result ti \<and>
                  ti_is_descendant_of_helper_group ti \<and> ti_has_validated_result ti)
       then Inr (ti_status ti, generate_thread_token (db_now (td_db s)) item participant ti user)
       else Inl Forbidden))"

section \<open>Changing a thread\<close>

text \<open>The decoded request: each field may be missing; the pointers may be null.\<close>

record update_thread_request =
  ur_status :: "string option"
  ur_helper_group :: "id option option"
  ur_message_count :: "int option option"
  ur_message_count_increment :: "int option option"

definition input_status :: "update_thread_request \<Rightarrow> string" where
  "input_status r = (case ur_status r of None \<Rightarrow> [] | Some s \<Rightarrow> s)"

definition pointer :: "'a option option \<Rightarrow> 'a option" where
  "pointer x = (case x of Some (Some v) \<Rightarrow> Some v | _ \<Rightarrow> None)"

definition helper_set_if_opened :: "string \<Rightarrow> string \<Rightarrow> id option \<Rightarrow> bool" where
  "helper_set_if_opened old_status new_status helper =
     (\<not> (\<not> is_thread_open_status old_status \<and> is_thread_open_status new_status \<and> helper = None))"

definition helper_not_set_when_closed :: "string \<Rightarrow> string \<Rightarrow> id option \<Rightarrow> bool" where
  "helper_not_set_when_closed old_status new_status helper =
     (if helper \<noteq> None
      then \<not> (\<not> is_thread_open_status old_status \<and> new_status = [] \<or> \<not> is_thread_open_status new_status \<and> new_status \<noteq> [])
      else True)"

definition group_visible_by :: "db \<Rightarrow> id option \<Rightarrow> id \<Rightarrow> bool" where
  "group_visible_by d helper user = (case helper of None \<Rightarrow> False | Some g \<Rightarrow> is_visible_for_group d g user)"

definition can_request_help_when_own_thread :: "nat \<Rightarrow> db \<Rightarrow> id \<Rightarrow> id \<Rightarrow> id \<Rightarrow> id option \<Rightarrow> db_error + bool" where
  "can_request_help_when_own_thread depth d user participant item helper =
     (if user \<noteq> participant then Inr True
      else case helper of None \<Rightarrow> Inl (GoPanic ''nil pointer dereference'')
           | Some g \<Rightarrow> can_request_help_to depth d user item g)"

definition exclude_increment_if_message_count_set :: "update_thread_request \<Rightarrow> bool" where
  "exclude_increment_if_message_count_set r =
     (\<not> (pointer (ur_message_count r) \<noteq> None \<and> pointer (ur_message_count_increment r) \<noteq> None))"

definition status_valid :: "string \<Rightarrow> update_thread_request \<Rightarrow> bool" where
  "status_valid old_status r =
     (case ur_status r of
        None \<Rightarrow> True
      | Some st \<Rightarrow> helper_set_if_opened old_status st (pointer (ur_helper_group r)) \<and>
                  st \<in> {''waiting_for_participant'', ''waiting_for_trainer'', ''closed''})"

definition helper_valid :: "nat \<Rightarrow> db \<Rightarrow> id \<Rightarrow> id \<Rightarrow> id \<Rightarrow> string \<Rightarrow> update_thread_request \<Rightarrow> db_error + bool" where
  "helper_valid depth d user item participant old_status r =
     (case ur_helper_group r of
        None \<Rightarrow> Inr True
      | Some helper \<Rightarrow>
          if helper_not_set_when_closed old_status (input_status r) helper \<and>
             group_visible_by d helper user \<and> group_visible_by d helper participant
          then can_request_help_when_own_thread depth d user participant item helper
          else Inr False)"

definition message_count_valid :: "update_thread_request \<Rightarrow> bool" where
  "message_count_valid r =
     (case pointer (ur_message_count r) of None \<Rightarrow> True | Some n \<Rightarrow> 0 \<le> n \<and> exclude_increment_if_message_count_set r)"

definition thread_input_errors ::
  "nat \<Rightarrow> db \<Rightarrow> id \<Rightarrow> id \<Rightarrow> id \<Rightarrow> string \<Rightarrow> update_thread_request \<Rightarrow> db_error + string list" where
  "thread_input_errors depth d user item participant old_status r =
     bind_result (helper_valid depth d user item participant old_status r) (\<lambda>helper_ok.
       Inr ((if status_valid old_status r then [] else [''status'']) @
            (if helper_ok then [] else [''helper_group_id'']) @
            (if message_count_valid r then [] else [''message_count''])))"

definition user_can_change_thread_status :: "id \<Rightarrow> string \<Rightarrow> string \<Rightarrow> id \<Rightarrow> thread_info \<Rightarrow> bool" where
  "user_can_change_thread_status user old_status new_status participant ti =
     (if old_status = new_status then True
      else if user = participant then True
      else if is_thread_open_status new_status then
        (if user_can_watch_for_thread ti then True
         else if is_thread_open_status old_status then user_can_write_in_thread user participant ti
         else False)
      else False)"

definition check_update_thread_permissions ::
  "id \<Rightarrow> string \<Rightarrow> update_thread_request \<Rightarrow> id \<Rightarrow> thread_info \<Rightarrow> thread_error option" where
  "check_update_thread_permissions user old_status r participant ti =
     (if input_status r = [] then
        (if pointer (ur_helper_group r) = None \<and> pointer (ur_message_count r) = None \<and> pointer (ur_message_count_increment r) = None
         then Some EmptyUpdate
         else if \<not> user_can_write_in_thread user participant ti then Some Forbidden else None)
      else if \<not> user_can_change_thread_status user old_status (input_status r) participant ti then Some Forbidden else None)"

text \<open>The sum of two Go ints of 64 bits.\<close>

definition int64_add :: "int \<Rightarrow> int \<Rightarrow> int" where
  "int64_add a b = (a + b + 2 ^ 63) mod 2 ^ 64 - 2 ^ 63"

definition new_message_count_with_increment :: "int \<Rightarrow> int \<Rightarrow> int" where
  "new_message_count_with_increment old increment =
     (let n = int64_add old increment in if n < 0 then 0 else n)"

text \<open>The map of the columns to write; the inner option of the count is NULL.\<close>

record thread_data =
  td_status :: "string option"
  td_helper_group :: id
  td_message_count :: "int option option"

definition compute_new_thread_data :: "int \<Rightarrow> id \<Rightarrow> update_thread_request \<Rightarrow> thread_data" where
  "compute_new_thread_data old_count old_helper r =
     \<lparr>td_status = ur_status r,
      td_helper_group = (case pointer (ur_helper_group r) of Some g \<Rightarrow> g | None \<Rightarrow> old_helper),
      td_message_count = (case pointer (ur_message_count_increment r) of
                            Some i \<Rightarrow> Some (Some (new_message_count_with_increment old_count i))
                          | None \<Rightarrow> ur_message_count r)\<rparr>"

definition apply_thread_data :: "time \<Rightarrow> thread_data \<Rightarrow> thread_row \<Rightarrow> thread_row" where
  "apply_thread_data now data t =
     t\<lparr>th_status := (case td_status data of None \<Rightarrow> th_status t | Some st \<Rightarrow> st), th_helper_group := td_helper_group data,
       th_latest_update_at := now,
       th_message_count := (case pointer (td_message_count data) of None \<Rightarrow> th_message_count t | Some n \<Rightarrow> n)\<rparr>"

text \<open>
  \<open>InsertOrUpdateMap\<close>: the NOT NULL constraint of the count, the foreign key of the helper group, then the upsert; an
  inserted row starts from the first status and no messages.
\<close>

definition new_thread_row :: "id \<Rightarrow> id \<Rightarrow> thread_row" where
  "new_thread_row item participant =
     \<lparr>th_participant = participant, th_item = item, th_status = ''waiting_for_participant'', th_helper_group = 0,
      th_latest_update_at = 0, th_message_count = 0\<rparr>"

definition insert_or_update_thread :: "id \<Rightarrow> id \<Rightarrow> thread_data \<Rightarrow> threads_db \<Rightarrow> db_error + threads_db" where
  "insert_or_update_thread item participant data s =
     (if td_message_count data = Some None then Inl (GoPanic ''Column message_count cannot be null'')
      else if \<not> group_exists (td_db s) (td_helper_group data) \<or> \<not> group_exists (td_db s) participant then Inl ForeignKeyConstraint
      else let upd = apply_thread_data (db_now (td_db s)) data
           in Inr (s\<lparr>td_threads := tbl_upsert th_key upd (upd (new_thread_row item participant)) (td_threads s)\<rparr>))"

definition update_thread ::
  "nat \<Rightarrow> id \<Rightarrow> id \<Rightarrow> id \<Rightarrow> update_thread_request \<Rightarrow> threads_db \<Rightarrow> thread_error + threads_db" where
  "update_thread depth user item participant r s =
     (let d = td_db s in
      bind_result (lift_thread_error (can_view_item_content d user item)) (\<lambda>view.
      if \<not> view then Inl Forbidden
      else bind_result (lift_thread_error (thread_info_of s user item participant)) (\<lambda>ti.
      bind_result (lift_thread_error (thread_input_errors depth d user item participant (ti_status ti) r)) (\<lambda>errors.
      if errors \<noteq> [] then Inl (InvalidFields errors)
      else case check_update_thread_permissions user (ti_status ti) r participant ti of
             Some e \<Rightarrow> Inl e
           | None \<Rightarrow> lift_thread_error (insert_or_update_thread item participant
                       (compute_new_thread_data (ti_message_count ti) (ti_helper_group ti) r) s)))))"

end
