(* ===== verification/ThreadRules.thy ===== *)
theory ThreadRules
  imports Threads
begin

text \<open>
  What the services on threads guarantee: the recursive query finds exactly the items it should, updates keep the
  threads well formed and only happen with the rights the documentation names, and the token handed out
  when reading a thread promises exactly what an update will accept.
\<close>

section \<open>The recursive query\<close>

definition next_of :: "('a \<Rightarrow> 'a list) \<Rightarrow> ('a \<times> 'a) set" where
  "next_of next = {(x, y). y \<in> set (next x)}"

lemma rtrancl_step: "(next_of next)\<^sup>* `` set xs = set xs \<union> (next_of next)\<^sup>* `` set (concat (map next xs))"
  by (auto simp: next_of_def Image_iff elim: converse_rtranclE intro: converse_rtrancl_into_rtrancl)

lemma recursive_query_closure:
  assumes "recursive_query n next xs = Some ys"
  shows "set ys = (next_of next)\<^sup>* `` set xs"
  using assms
proof (induction n "next" xs arbitrary: ys rule: recursive_query.induct)
  case (1 n "next")
  then show ?case by simp
next
  case (2 n "next" x xs)
  then obtain zs where "recursive_query (n - 1) next (concat (map next (x # xs))) = Some zs" and "ys = x # xs @ zs"
    and n: "n \<noteq> 0"
    by (auto split: if_splits)
  with 2(1) [OF n] show ?case using rtrancl_step [of "next" "x # xs"] by simp
qed

lemma recursive_query_ends:
  assumes "\<And>x y. y \<in> set (next x) \<Longrightarrow> rank y < rank x" and "\<And>x. x \<in> set xs \<Longrightarrow> rank x < n"
  shows "recursive_query n next xs \<noteq> None"
  using assms
proof (induction n "next" xs rule: recursive_query.induct)
  case (1 n "next")
  then show ?case by simp
next
  case (2 n "next" x xs)
  have n: "n \<noteq> 0" using 2(3) [of x] by simp
  have "rank z < n - 1" if "z \<in> set (concat (map next (x # xs)))" for z
  proof -
    from that obtain y where "y \<in> set (x # xs)" "z \<in> set (next y)" by auto
    with 2(2) [of z y] 2(3) [of y] show ?thesis by simp
  qed
  with 2(1) [OF n 2(2)] n show ?case by simp
qed

text \<open>
  whether a user may request help on an item from a group.  If the item graph has a rank below the depth limit of the
  database, the check ends, and it holds exactly for the owner and for the members of groups with a grant, on the item or
  an ancestor that propagates the right down to it, whose helper group contains the group.
\<close>

lemma can_request_help_to_correct:
  assumes "\<forall>e \<in> set (db_items_items d). rank (ii_parent e) < rank (ii_child e)" and "rank item < depth"
  shows "can_request_help_to depth d user item helper = Inr (is_item_owner d user item \<or>
    (\<exists>p \<in> set (db_permissions_granted d). \<exists>a. anc d (pg_group p) user \<and> pg_can_request_help_to p = Some a \<and> anc d a helper \<and>
       (pg_item p, item) \<in> {(ii_parent e, ii_child e) |e. e \<in> set (db_items_items d) \<and> ii_request_help_propagation e}\<^sup>*))"
proof -
  let ?R = "{(ii_parent e, ii_child e) |e. e \<in> set (db_items_items d) \<and> ii_request_help_propagation e}"
  have "next_of (help_parents d) = ?R\<inverse>"
    by (auto simp: next_of_def help_parents_def)
  then have conv: "(next_of (help_parents d))\<^sup>* = (?R\<^sup>*)\<inverse>" by (simp add: rtrancl_converse)
  have "recursive_query depth (help_parents d) [item] \<noteq> None"
    by (rule recursive_query_ends [where rank = rank]) (use assms in \<open>auto simp: help_parents_def\<close>)
  then obtain ys where ys: "help_ancestors depth d item = Some ys"
    by (auto simp: help_ancestors_def)
  have set_ys: "i \<in> set ys \<longleftrightarrow> (i, item) \<in> ?R\<^sup>*" for i
    using recursive_query_closure [OF ys [unfolded help_ancestors_def]] by (simp add: conv)
  have "(\<exists>p \<in> set (filter (\<lambda>p. anc d (pg_group p) user \<and> (pg_item p = item \<or> pg_item p \<in> set ys)) (db_permissions_granted d)).
          case pg_can_request_help_to p of None \<Rightarrow> False | Some a \<Rightarrow> anc d a helper) \<longleftrightarrow>
      (\<exists>p \<in> set (db_permissions_granted d). \<exists>a. anc d (pg_group p) user \<and> pg_can_request_help_to p = Some a \<and> anc d a helper \<and>
         (pg_item p, item) \<in> ?R\<^sup>*)"
    unfolding set_ys by (auto split: option.splits)
  then show ?thesis
    by (simp only: can_request_help_to_def help_grants_def ys option.map option.case split: if_split) blast
qed

text \<open>
  the right to own an item through a group counts when the item is shown, not when help is requested.  A member of a group
  that owns the item, without any other grant, is told that help can be requested, and every request is refused.
\<close>

lemma group_owner_cannot_request_help:
  assumes "help_grants depth d user item = Some ps" and "\<exists>p \<in> set ps. pg_is_owner p"
    and "\<forall>p \<in> set ps. pg_can_request_help_to p = None" and "\<not> is_item_owner d user item"
  shows "has_can_request_help_to depth d item user = Inr True \<and> can_request_help_to depth d user item helper = Inr False"
  using assms by (auto simp: has_can_request_help_to_def can_request_help_to_def)

section \<open>Updates\<close>

definition thread_ok :: "thread_row \<Rightarrow> bool" where
  "thread_ok t = (th_status t \<in> {''waiting_for_participant'', ''waiting_for_trainer'', ''closed''} \<and> 0 \<le> th_message_count t)"

definition threads_ok :: "threads_db \<Rightarrow> bool" where
  "threads_ok s = (tbl_unique th_key (td_threads s) \<and>
     (\<forall>t \<in> set (td_threads s). thread_ok t \<and> group_exists (td_db s) (th_helper_group t)))"

interpretation th: keyed_update th_key "apply_thread_data now data"
  by unfold_locales (simp add: th_key_def apply_thread_data_def)

text \<open>The steps of a successful update.\<close>

lemma update_thread_steps:
  assumes "update_thread depth user item participant r s = Inr s'"
  shows "\<exists>ti. can_view_item_content (td_db s) user item = Inr True \<and> thread_info_of s user item participant = Inr ti \<and>
    thread_input_errors depth (td_db s) user item participant (ti_status ti) r = Inr [] \<and>
    check_update_thread_permissions user (ti_status ti) r participant ti = None \<and>
    insert_or_update_thread item participant (compute_new_thread_data (ti_message_count ti) (ti_helper_group ti) r) s = Inr s'"
  using assms
  by (auto simp: update_thread_def Let_def lift_thread_error_def bind_result_case split: sum.splits if_splits option.splits)

lemma thread_info_facts:
  assumes "thread_info_of s user item participant = Inr ti"
  shows "ti_status ti = (case find_thread s item participant of None \<Rightarrow> ''not_started'' | Some t \<Rightarrow> th_status t)"
    "ti_helper_group ti = (case find_thread s item participant of None \<Rightarrow> 0 | Some t \<Rightarrow> th_helper_group t)"
    "ti_message_count ti = (case find_thread s item participant of None \<Rightarrow> 0 | Some t \<Rightarrow> th_message_count t)"
    "ti_can_watch_for_participant ti = can_watch_group_members (td_db s) user participant"
    "can_watch_item_answer (td_db s) user item = Inr (ti_can_watch_answer ti)"
  using assms by (auto simp: thread_info_of_def Let_def bind_result_case split: sum.splits)

lemma input_valid:
  assumes "thread_input_errors depth d user item participant old_status r = Inr []"
  shows "status_valid old_status r" "message_count_valid r" "helper_valid depth d user item participant old_status r = Inr True"
  using assms by (auto simp: thread_input_errors_def bind_result_case split: sum.splits if_splits)

lemma new_message_count_nonneg: "0 \<le> new_message_count_with_increment old increment"
  by (simp add: new_message_count_with_increment_def Let_def)

lemma new_data_count:
  assumes "message_count_valid r" and "pointer (td_message_count (compute_new_thread_data old_count old_helper r)) = Some n"
  shows "0 \<le> n"
  using assms new_message_count_nonneg
  by (auto simp: compute_new_thread_data_def message_count_valid_def pointer_def split: option.splits)

lemma insert_or_update_thread_effect:
  assumes "insert_or_update_thread item participant data s = Inr s'"
  shows "td_db s' = td_db s" "td_validated_results s' = td_validated_results s"
    "td_threads s' = tbl_upsert th_key (apply_thread_data (db_now (td_db s)) data)
       (apply_thread_data (db_now (td_db s)) data (new_thread_row item participant)) (td_threads s)"
    "group_exists (td_db s) (td_helper_group data)"
  using assms by (auto simp: insert_or_update_thread_def Let_def split: if_splits)

lemma key_new_thread: "th_key (apply_thread_data now data (new_thread_row item participant)) = (participant, item)"
  by (simp add: th_key_def apply_thread_data_def new_thread_row_def)

lemma find_updated_thread:
  assumes "insert_or_update_thread item participant data s = Inr s'"
  shows "find_thread s' item participant = Some (apply_thread_data (db_now (td_db s)) data
     (case find_thread s item participant of None \<Rightarrow> new_thread_row item participant | Some t \<Rightarrow> t))"
    and "(i, p) \<noteq> (item, participant) \<Longrightarrow> find_thread s' i p = find_thread s i p"
  by (auto simp: find_thread_def insert_or_update_thread_effect [OF assms] th.upsert_find key_new_thread split: option.splits)

lemma thread_ok_applied:
  assumes "thread_ok t" and "status_valid old_status r" and "message_count_valid r"
  shows "thread_ok (apply_thread_data now (compute_new_thread_data old_count old_helper r) t)"
proof -
  have "0 \<le> n" if "pointer (td_message_count (compute_new_thread_data old_count old_helper r)) = Some n" for n
    by (rule new_data_count [OF assms(3) that])
  with assms(1,2) show ?thesis
    by (auto simp: thread_ok_def apply_thread_data_def status_valid_def compute_new_thread_data_def split: option.splits)
qed

lemma thread_ok_new: "thread_ok (new_thread_row item participant)"
  by (simp add: thread_ok_def new_thread_row_def)

text \<open>
  C36: an update writes one thread and nothing else, keeps every thread at one of the three stored statuses with a count of
  messages that is never negative and an existing helper group, and a thread that was created stays.
\<close>

theorem update_thread_sound:
  assumes "update_thread depth user item participant r s = Inr s'" and "threads_ok s"
  shows "threads_ok s' \<and> td_db s' = td_db s \<and> find_thread s' item participant \<noteq> None \<and>
    (\<forall>i p. (i, p) \<noteq> (item, participant) \<longrightarrow> find_thread s' i p = find_thread s i p)"
proof -
  obtain ti :: thread_info where valid: "thread_input_errors depth (td_db s) user item participant (ti_status ti) r = Inr []"
    and stored: "insert_or_update_thread item participant (compute_new_thread_data (ti_message_count ti) (ti_helper_group ti) r) s = Inr s'"
    using update_thread_steps [OF assms(1)] by blast
  let ?upd = "apply_thread_data (db_now (td_db s)) (compute_new_thread_data (ti_message_count ti) (ti_helper_group ti) r)"
  note w = insert_or_update_thread_effect [OF stored] and v = input_valid [OF valid]
  have good: "thread_ok (?upd t) \<and> group_exists (td_db s) (th_helper_group (?upd t))" if "thread_ok t" for t
    using thread_ok_applied [OF that v(1,2)] w(4) by (simp add: apply_thread_data_def)
  have "tbl_unique th_key (td_threads s')"
    using assms(2) w(3) th.upsert_unique by (simp add: threads_ok_def)
  moreover have "thread_ok t \<and> group_exists (td_db s') (th_helper_group t)" if "t \<in> set (td_threads s')" for t
    using that assms(2) good thread_ok_new unfolding w(1,3) th.set_upsert threads_ok_def by (auto split: if_splits)
  ultimately show ?thesis
    using w(1) find_updated_thread [OF stored] by (auto simp: threads_ok_def)
qed

definition old_status :: "threads_db \<Rightarrow> id \<Rightarrow> id \<Rightarrow> string" where
  "old_status s item participant = (case find_thread s item participant of None \<Rightarrow> ''not_started'' | Some t \<Rightarrow> th_status t)"

text \<open>
  C37: only the participant closes a thread.  Anybody else who changes its status opens it, and either watches the answers
  on the item and the members of the participant's group, or may already write in the open thread.
\<close>

theorem thread_status_change_rights:
  assumes "update_thread depth user item participant r s = Inr s'" and "user \<noteq> participant"
    and "find_thread s' item participant = Some t" and "th_status t \<noteq> old_status s item participant"
  shows "is_thread_open_status (th_status t) \<and>
    (can_watch_item_answer (td_db s) user item = Inr True \<and> can_watch_group_members (td_db s) user participant \<or>
     is_thread_open_status (old_status s item participant) \<and>
       (\<exists>ti. thread_info_of s user item participant = Inr ti \<and> user_can_write_in_thread user participant ti))"
proof -
  obtain ti where ti: "thread_info_of s user item participant = Inr ti"
    and valid: "thread_input_errors depth (td_db s) user item participant (ti_status ti) r = Inr []"
    and check: "check_update_thread_permissions user (ti_status ti) r participant ti = None"
    and stored: "insert_or_update_thread item participant (compute_new_thread_data (ti_message_count ti) (ti_helper_group ti) r) s = Inr s'"
    using update_thread_steps [OF assms(1)] by blast
  note facts = thread_info_facts [OF ti]
  have old: "ti_status ti = old_status s item participant" by (simp add: facts(1) old_status_def)
  have t: "th_status t = (case ur_status r of
      None \<Rightarrow> (case find_thread s item participant of None \<Rightarrow> ''waiting_for_participant'' | Some t \<Rightarrow> th_status t) | Some st \<Rightarrow> st)"
    using assms(3) unfolding find_updated_thread(1) [OF stored]
    by (auto simp: apply_thread_data_def compute_new_thread_data_def new_thread_row_def split: option.splits)
  show ?thesis
  proof (cases "ur_status r")
    case None
    then have "user_can_write_in_thread user participant ti"
      using check by (simp add: check_update_thread_permissions_def input_status_def split: if_splits)
    then have "is_thread_open_status (old_status s item participant)" by (simp add: user_can_write_in_thread_def old)
    then have "find_thread s item participant \<noteq> None" by (auto simp: old_status_def is_thread_open_status_def split: option.splits)
    with None t assms(4) show ?thesis by (auto simp: old_status_def)
  next
    case (Some st)
    then have "st \<noteq> []" using input_valid(1) [OF valid] by (auto simp: status_valid_def)
    with check Some have "user_can_change_thread_status user (ti_status ti) st participant ti"
      by (simp add: check_update_thread_permissions_def input_status_def split: if_splits)
    with Some t assms(2,4) old show ?thesis
      using ti facts(4,5)
      by (auto simp: user_can_change_thread_status_def user_can_watch_for_thread_def split: if_splits)
  qed
qed

text \<open>
  the right to write is not asked for when the request repeats the current status.  Whoever sees the content of the item
  can so set the number of messages of anybody's thread, open or closed.
\<close>

lemma same_status_skips_write_check:
  assumes "threads_ok s" and "find_thread s item participant = Some t" and "group_exists (td_db s) participant"
    and "can_view_item_content (td_db s) user item = Inr True" and "0 \<le> n"
    and "r = \<lparr>ur_status = Some (th_status t), ur_helper_group = None, ur_message_count = Some (Some n), ur_message_count_increment = None\<rparr>"
  shows "\<exists>s'. update_thread depth user item participant r s = Inr s' \<and>
    find_thread s' item participant = Some (t\<lparr>th_latest_update_at := db_now (td_db s), th_message_count := n\<rparr>)"
proof -
  have "t \<in> set (td_threads s)" using assms(2) by (auto simp: find_thread_def dest: tbl_find_Some)
  then have ok: "thread_ok t" "group_exists (td_db s) (th_helper_group t)" using assms(1) by (auto simp: threads_ok_def)
  obtain answer result where wa: "can_watch_item_answer (td_db s) user item = Inr answer"
    and wr: "can_watch_item_result (td_db s) user item = Inr result"
    by (simp add: can_watch_item_answer_def can_watch_item_result_def has_item_permission_def)
  then obtain ti where ti: "thread_info_of s user item participant = Inr ti"
    by (simp add: thread_info_of_def Let_def)
  have st: "ti_status ti = th_status t" "ti_helper_group ti = th_helper_group t"
    using thread_info_facts(1,2) [OF ti] assms(2) by simp_all
  have "thread_input_errors depth (td_db s) user item participant (ti_status ti) r = Inr []"
    using ok(1) assms(5)
    by (auto simp: thread_input_errors_def helper_valid_def status_valid_def message_count_valid_def pointer_def
        exclude_increment_if_message_count_set_def helper_set_if_opened_def st thread_ok_def assms(6))
  moreover have "th_status t \<noteq> []" using ok(1) by (auto simp: thread_ok_def)
  then have "check_update_thread_permissions user (ti_status ti) r participant ti = None"
    by (simp add: check_update_thread_permissions_def input_status_def user_can_change_thread_status_def st assms(6))
  moreover have "compute_new_thread_data (ti_message_count ti) (ti_helper_group ti) r =
      \<lparr>td_status = Some (th_status t), td_helper_group = th_helper_group t, td_message_count = Some (Some n)\<rparr>"
    by (simp add: compute_new_thread_data_def pointer_def st assms(6))
  moreover obtain s' where w: "insert_or_update_thread item participant
      \<lparr>td_status = Some (th_status t), td_helper_group = th_helper_group t, td_message_count = Some (Some n)\<rparr> s = Inr s'"
    using ok(2) assms(3) by (simp add: insert_or_update_thread_def Let_def)
  ultimately have "update_thread depth user item participant r s = Inr s'"
    using assms(4) ti by (simp add: update_thread_def Let_def lift_thread_error_def)
  moreover have "find_thread s' item participant = Some (t\<lparr>th_latest_update_at := db_now (td_db s), th_message_count := n\<rparr>)"
    using find_updated_thread(1) [OF w] assms(2) by (simp add: apply_thread_data_def pointer_def)
  ultimately show ?thesis by blast
qed

text \<open>
  the participant who closes a thread that was never opened passes every check and then runs into the foreign key of
  the helper group, an internal error, as the stored group is the zero of a missing row.
\<close>

lemma closing_missing_thread_fails:
  assumes "find_thread s item user = None" and "can_view_item_content (td_db s) user item = Inr True"
    and "\<not> group_exists (td_db s) 0"
  shows "update_thread depth user item user
      \<lparr>ur_status = Some ''closed'', ur_helper_group = None, ur_message_count = None, ur_message_count_increment = None\<rparr> s =
    Inl (ThreadInternalError ForeignKeyConstraint)"
proof -
  obtain ti where ti: "thread_info_of s user item user = Inr ti"
    by (simp add: thread_info_of_def Let_def can_watch_item_answer_def can_watch_item_result_def has_item_permission_def)
  have "ti_status ti = ''not_started''" "ti_helper_group ti = 0"
    using thread_info_facts(1,2) [OF ti] assms(1) by simp_all
  with ti assms(2,3) show ?thesis
    by (simp add: update_thread_def Let_def lift_thread_error_def thread_input_errors_def helper_valid_def status_valid_def
        message_count_valid_def pointer_def helper_set_if_opened_def is_thread_open_status_def check_update_thread_permissions_def
        input_status_def user_can_change_thread_status_def compute_new_thread_data_def insert_or_update_thread_def)
qed

text \<open>
  C38: the token handed out with a thread says that its holder can write exactly if an update that adds to the number of
  messages is accepted.
\<close>

theorem token_tells_write_right:
  assumes "get_thread s user item participant = Inr (status, token)" and "threads_ok s" and "group_exists (td_db s) participant"
    and "r = \<lparr>ur_status = None, ur_helper_group = None, ur_message_count = None, ur_message_count_increment = Some (Some i)\<rparr>"
  shows "tt_can_write token \<longleftrightarrow> (\<exists>s'. update_thread depth user item participant r s = Inr s')"
proof -
  obtain ti where view: "can_view_item_content (td_db s) user item = Inr True"
    and ti: "thread_info_of s user item participant = Inr ti"
    and token: "token = generate_thread_token (db_now (td_db s)) item participant ti user"
    using assms(1) by (auto simp: get_thread_def lift_thread_error_def bind_result_case split: sum.splits if_splits)
  have w: "tt_can_write token \<longleftrightarrow> user_can_write_in_thread user participant ti" by (simp add: token generate_thread_token_def)
  have valid: "thread_input_errors depth (td_db s) user item participant (ti_status ti) r = Inr []"
    by (simp add: thread_input_errors_def helper_valid_def status_valid_def message_count_valid_def pointer_def assms(4))
  have check: "check_update_thread_permissions user (ti_status ti) r participant ti =
      (if user_can_write_in_thread user participant ti then None else Some Forbidden)"
    by (simp add: check_update_thread_permissions_def input_status_def pointer_def assms(4))
  have update: "update_thread depth user item participant r s =
      (if user_can_write_in_thread user participant ti
       then lift_thread_error (insert_or_update_thread item participant
              (compute_new_thread_data (ti_message_count ti) (ti_helper_group ti) r) s)
       else Inl Forbidden)"
    using view ti valid check by (simp add: update_thread_def Let_def lift_thread_error_def)
  have "\<exists>s'. insert_or_update_thread item participant (compute_new_thread_data (ti_message_count ti) (ti_helper_group ti) r) s = Inr s'"
    if "user_can_write_in_thread user participant ti"
  proof -
    have "is_thread_open_status (ti_status ti)" using that by (simp add: user_can_write_in_thread_def)
    then obtain t where t: "find_thread s item participant = Some t"
      using thread_info_facts(1) [OF ti] by (cases "find_thread s item participant") (auto simp: is_thread_open_status_def)
    then have "t \<in> set (td_threads s)" by (auto simp: find_thread_def dest: tbl_find_Some)
    then have "group_exists (td_db s) (th_helper_group t)" using assms(2) by (simp add: threads_ok_def)
    with assms(3) t thread_info_facts(2) [OF ti] show ?thesis
      by (simp add: insert_or_update_thread_def compute_new_thread_data_def pointer_def assms(4) Let_def)
  qed
  with w show ?thesis by (auto simp: update lift_thread_error_def split: sum.splits)
qed

end
