(* ===== verification/ThreadExamples.thy ===== *)
theory ThreadExamples
  imports ThreadRules MembershipExamples
begin

text \<open>
  A participant (2) with a thread on an item (7) helped by a group (5), another user (3) who only sees the item, and a group (4)
  that owns the item, with its member (6); the theorems on threads applied to them.
\<close>

definition ex_seen :: "id \<Rightarrow> generated_row" where
  "ex_seen g = \<lparr>pgen_group = g, pgen_item = 7, pgen_can_view = 3, pgen_can_grant_view = 1, pgen_can_watch = 1,
     pgen_can_edit = 1, pgen_is_owner = (g = 4)\<rparr>"

definition ex_grant :: "id \<Rightarrow> id \<Rightarrow> bool \<Rightarrow> id option \<Rightarrow> granted_row" where
  "ex_grant g item owner helper = \<lparr>pg_group = g, pg_item = item, pg_source_group = g, pg_origin = GroupMembership,
     pg_can_view = 1, pg_can_grant_view = 1, pg_can_watch = 1, pg_can_edit = 1, pg_can_make_session_official = False,
     pg_is_owner = owner, pg_can_enter_from = max_time, pg_can_enter_until = max_time,
     pg_can_request_help_to = helper, pg_latest_update_at = 0\<rparr>"

definition ex_threads_db :: db where
  "ex_threads_db = ex_empty_db\<lparr>
     db_groups := [ex_group 2 User, ex_group 3 User, ex_group 4 Class, ex_group 5 Class, ex_group 6 User],
     db_groups_ancestors := \<lparr>ga_ancestor = 4, ga_child = 6, ga_expires_at = max_time\<rparr> # map self_row [2, 3, 4, 5, 6],
     db_permissions_generated := map ex_seen [2, 3, 4],
     db_permissions_granted := [ex_grant 2 1 False (Some 5), ex_grant 4 7 True None],
     db_items_items := [\<lparr>ii_parent = 1, ii_child = 7, ii_child_order = 1, ii_category = Undefined, ii_content_view_propagation = AsContent,
        ii_upper_view_levels_propagation = AsIs, ii_grant_view_propagation = True, ii_watch_propagation = True,
        ii_edit_propagation = True, ii_request_help_propagation = True,
       ii_score_weight = 1\<rparr>]\<rparr>"

definition ex_thread :: thread_row where
  "ex_thread = \<lparr>th_participant = 2, th_item = 7, th_status = ''waiting_for_trainer'', th_helper_group = 5,
     th_latest_update_at = 90, th_message_count = 4\<rparr>"

definition ex_threads :: threads_db where
  "ex_threads = \<lparr>td_db = ex_threads_db, td_threads = [ex_thread], td_validated_results = []\<rparr>"

definition ex_close :: update_thread_request where
  "ex_close = \<lparr>ur_status = Some ''closed'', ur_helper_group = None, ur_message_count = None, ur_message_count_increment = None\<rparr>"

definition ex_wait :: update_thread_request where
  "ex_wait = ex_close\<lparr>ur_status := Some ''waiting_for_participant''\<rparr>"

definition ex_increment :: "int \<Rightarrow> update_thread_request" where
  "ex_increment i = \<lparr>ur_status = None, ur_helper_group = None, ur_message_count = None, ur_message_count_increment = Some (Some i)\<rparr>"

text \<open>The same threads, seen by a user who watches the answers on the item and the participant.\<close>

definition ex_watched :: threads_db where
  "ex_watched = ex_threads\<lparr>td_db := ex_threads_db\<lparr>
     db_permissions_generated := [(ex_seen 3)\<lparr>pgen_can_watch := 3\<rparr>],
     db_managers := [\<lparr>gm_group = 2, gm_manager = 3, gm_can_grant_group_access = False, gm_can_watch_members = True, gm_can_manage = 2\<rparr>]\<rparr>\<rparr>"

definition threads_after :: "'e + threads_db \<Rightarrow> threads_db" where
  "threads_after r = (case r of Inl _ \<Rightarrow> ex_threads | Inr s \<Rightarrow> s)"

section \<open>Facts of the runs\<close>

lemma ex_threads_ok: "threads_ok ex_threads"
  by code_simp

lemma ex_find: "find_thread ex_threads 7 2 = Some ex_thread"
  by code_simp

lemma ex_close_run: "update_thread 10 2 7 2 ex_close ex_threads = Inr (threads_after (update_thread 10 2 7 2 ex_close ex_threads))"
  by code_simp

lemma ex_wait_run: "update_thread 10 3 7 2 ex_wait ex_watched = Inr (threads_after (update_thread 10 3 7 2 ex_wait ex_watched))"
  by code_simp

lemma ex_wait_thread: "find_thread (threads_after (update_thread 10 3 7 2 ex_wait ex_watched)) 7 2 =
    Some (ex_thread\<lparr>th_status := ''waiting_for_participant'', th_latest_update_at := 100\<rparr>)"
  by code_simp

lemma ex_view: "can_view_item_content (td_db ex_threads) 3 7 = Inr True"
  by code_simp

lemma ex_group_exists: "group_exists (td_db ex_threads) 2" "\<not> group_exists (td_db ex_threads) 0"
  by code_simp+

lemma ex_group_owner_grants: "help_grants 10 ex_threads_db 6 7 = Some [ex_grant 4 7 True None]"
  by code_simp

definition ex_token :: thread_token where
  "ex_token = \<lparr>tt_item = 7, tt_participant = 2, tt_user = 2, tt_is_mine = True, tt_can_watch = False, tt_can_write = True, tt_exp = 7300\<rparr>"

lemma ex_get: "get_thread ex_threads 2 7 2 = Inr (''waiting_for_trainer'', ex_token)"
  by code_simp

section \<open>Witnesses\<close>

lemma can_request_help_to_correct_witness: "can_request_help_to 10 ex_threads_db 2 7 5 = Inr True"
proof -
  have ranked: "\<forall>e \<in> set (db_items_items ex_threads_db). nat (ii_parent e) < nat (ii_child e)"
    by (simp add: ex_threads_db_def)
  have "ex_grant 2 1 False (Some 5) \<in> set (db_permissions_granted ex_threads_db)" by (simp add: ex_threads_db_def)
  moreover have "anc ex_threads_db 2 2" "anc ex_threads_db 5 5" by code_simp+
  moreover have "(1, 7) \<in> {(ii_parent e, ii_child e) |e. e \<in> set (db_items_items ex_threads_db) \<and> ii_request_help_propagation e}\<^sup>*"
    by (rule r_into_rtrancl) (simp add: ex_threads_db_def)
  ultimately show ?thesis
    using can_request_help_to_correct [OF ranked, of 7 10 2 5] by (force simp: ex_grant_def)
qed

lemma group_owner_cannot_request_help_witness:
  "has_can_request_help_to 10 ex_threads_db 7 6 = Inr True \<and> can_request_help_to 10 ex_threads_db 6 7 5 = Inr False"
proof -
  have "\<not> is_item_owner ex_threads_db 6 7" by code_simp
  then show ?thesis
    using group_owner_cannot_request_help [OF ex_group_owner_grants, of 5] by (simp add: ex_grant_def)
qed

lemma update_thread_sound_witness:
  "threads_ok (threads_after (update_thread 10 2 7 2 ex_close ex_threads))"
  using update_thread_sound [OF ex_close_run ex_threads_ok] by blast

lemma thread_status_change_rights_witness:
  "can_watch_item_answer (td_db ex_watched) 3 7 = Inr True \<and> can_watch_group_members (td_db ex_watched) 3 2 \<or>
   (\<exists>ti. thread_info_of ex_watched 3 7 2 = Inr ti \<and> user_can_write_in_thread 3 2 ti)"
proof -
  have "old_status ex_watched 7 2 = ''waiting_for_trainer''" by code_simp
  then show ?thesis using thread_status_change_rights [OF ex_wait_run _ ex_wait_thread] by auto
qed

lemma same_status_skips_write_check_witness:
  "\<exists>s'. update_thread 10 3 7 2 \<lparr>ur_status = Some ''waiting_for_trainer'', ur_helper_group = None,
      ur_message_count = Some (Some 1000), ur_message_count_increment = None\<rparr> ex_threads = Inr s' \<and>
    find_thread s' 7 2 = Some (ex_thread\<lparr>th_latest_update_at := 100, th_message_count := 1000\<rparr>)"
proof -
  have "th_status ex_thread = ''waiting_for_trainer''" "db_now (td_db ex_threads) = 100" by code_simp+
  then show ?thesis
    using same_status_skips_write_check [OF ex_threads_ok ex_find ex_group_exists(1) ex_view, of 1000 _ 10, OF _ refl] by simp
qed

lemma closing_missing_thread_fails_witness:
  "update_thread 10 3 7 3 ex_close ex_threads = Inl (ThreadInternalError ForeignKeyConstraint)"
proof -
  have "find_thread ex_threads 7 3 = None" by code_simp
  then show ?thesis
    using closing_missing_thread_fails [OF _ ex_view ex_group_exists(2)] by (simp add: ex_close_def)
qed

lemma token_tells_write_right_witness: "\<exists>s'. update_thread 10 2 7 2 (ex_increment 3) ex_threads = Inr s'"
  using token_tells_write_right [OF ex_get ex_threads_ok ex_group_exists(1) ex_increment_def] by (simp add: ex_token_def)

end
