(* ===== verification/Results.thy ===== *)
theory Results
  imports UpdatePermissions Access Complex_Main
begin

text \<open>
  The propagation of results, app/database/result_store_propagate.go: a chunk of the results marked 'to_be_propagated'
  creates and marks the results of the parents, unlocks dependent items and is unmarked; the results
  marked 'to_be_recomputed' are recomputed from their children, bottom-up, the changed ones being marked in turn.
  One definition per SQL statement, the two loops, and the recursion after an unlocking.  A key of a result
  is (participant, attempt, item).  Scores are rational numbers, where the database stores a FLOAT.  LIMIT without ORDER BY
  takes any rows; the model takes the first ones.
\<close>

section \<open>Tables\<close>

type_synonym result_key = "id \<times> id \<times> id"

datatype edit_rule = EditSet | EditDiff

record result_row =
  rs_participant :: id
  rs_attempt :: id
  rs_item :: id
  rs_started_at :: "time option"
  rs_latest_activity_at :: time
  rs_tasks_tried :: nat
  rs_tasks_with_help :: nat
  rs_validated_at :: "time option"
  rs_score_computed :: rat
  rs_score_edit_rule :: "edit_rule option"
  rs_score_edit_value :: "rat option"
  rs_score_obtained_at :: "time option"
  rs_hints_requested :: "string option"
  rs_hints_cached :: nat
  rs_latest_hint_at :: "time option"

definition rs_key :: "result_row \<Rightarrow> result_key" where
  "rs_key r = (rs_participant r, rs_attempt r, rs_item r)"

definition rs_validated :: "result_row \<Rightarrow> bool" where
  "rs_validated r = (rs_validated_at r \<noteq> None)"

record attempt_row =
  at_participant :: id
  at_id :: id
  at_creator :: "id option"
  at_parent :: "id option"
  at_root_item :: "id option"
  at_created_at :: time
  at_ended_at :: "time option"
  at_allows_submissions_until :: time

definition at_key :: "attempt_row \<Rightarrow> id \<times> id" where
  "at_key a = (at_participant a, at_id a)"

datatype validation_type = ValidationNone | ValidationAll | ValidationAllButOne | ValidationCategories | ValidationOne | ValidationManual

datatype item_type = Chapter | Task | Skill

datatype admitted_members_ratio = AdmittedNone | AdmittedOne | AdmittedHalf | AdmittedAll

record item_row =
  it_id :: id
  it_type :: item_type
  it_text_id :: "string option"
  it_requires_explicit_entry :: bool
  it_no_score :: bool
  it_validation_type :: validation_type
  it_read_only :: bool
  it_allows_multiple_attempts :: bool
  it_duration :: "time option"
  it_participants_group :: "id option"
  it_entry_is_team :: bool
  it_entry_max_team_size :: int
  it_entry_min_admitted_members_ratio :: admitted_members_ratio
  it_entry_frozen_teams :: bool
  it_entering_time_min :: time
  it_entering_time_max :: time

record dependency_row =
  dp_item :: id
  dp_dependent_item :: id
  dp_score :: nat
  dp_grant_content_view :: bool

record contest_row =
  ct_group :: id
  ct_item :: id
  ct_additional_time :: time

datatype propagation_state = ToBePropagated | ToBeRecomputed | Propagating | Recomputing

record results_db =
  rd_db :: db
  rd_items :: "item_row list"
  rd_attempts :: "attempt_row list"
  rd_results :: "result_row list"
  rd_dependencies :: "dependency_row list"
  rd_contest_items :: "contest_row list"
  rd_propagate :: "(result_key, propagation_state) gomap"
  rd_recompute_for_items :: "(id, bool) gomap"

definition item_of :: "results_db \<Rightarrow> id \<Rightarrow> item_row option" where
  "item_of s i = tbl_find it_id i (rd_items s)"

definition attempt_of :: "results_db \<Rightarrow> id \<Rightarrow> id \<Rightarrow> attempt_row option" where
  "attempt_of s p a = tbl_find at_key (p, a) (rd_attempts s)"

definition result_exists :: "results_db \<Rightarrow> result_key \<Rightarrow> bool" where
  "result_exists s k = tbl_has rs_key k (rd_results s)"

abbreviation state_of_result :: "results_db \<Rightarrow> result_key \<Rightarrow> propagation_state option" where
  "state_of_result s k \<equiv> map_of (rd_propagate s) k"

section \<open>Marking the parents\<close>

text \<open>UPDATE ... SET state = 'propagating' WHERE state = 'to_be_propagated' LIMIT.\<close>

fun mark_propagating :: "nat \<Rightarrow> (result_key, propagation_state) gomap \<Rightarrow> (result_key, propagation_state) gomap" where
  "mark_propagating n [] = []"
| "mark_propagating n ((k, m) # ps) =
     (if m = ToBePropagated \<and> 0 < n then (k, Propagating) # mark_propagating (n - 1) ps
      else (k, m) # mark_propagating n ps)"

text \<open>\<open>IF(attempts.root_item_id = results.item_id, attempts.parent_attempt_id, results.attempt_id)\<close>.\<close>

definition attempt_above :: "attempt_row \<Rightarrow> result_row \<Rightarrow> id option" where
  "attempt_above a r = (if at_root_item a = Some (rs_item r) then at_parent a else Some (rs_attempt r))"

definition item_visible_to :: "results_db \<Rightarrow> id \<Rightarrow> id \<Rightarrow> bool" where
  "item_visible_to s p i =
     (\<exists>g \<in> set (db_permissions_generated (rd_db s)). pgen_item g = i \<and> pgen_can_view g \<noteq> 1 \<and> anc (rd_db s) (pgen_group g) p)"

definition item_or_ancestor_visible_to :: "results_db \<Rightarrow> id \<Rightarrow> id \<Rightarrow> bool" where
  "item_or_ancestor_visible_to s p i =
     (item_visible_to s p i \<or> (\<exists>(a, c) \<in> set (db_items_ancestors (rd_db s)). c = i \<and> item_visible_to s p a))"

definition within_attempt :: "results_db \<Rightarrow> attempt_row \<Rightarrow> id \<Rightarrow> bool" where
  "within_attempt s a i =
     (case at_root_item a of None \<Rightarrow> True | Some j \<Rightarrow> j = i \<or> (j, i) \<in> set (db_items_ancestors (rd_db s)))"

text \<open>The conditions of the two queries on the parent's item, attempt and result.\<close>

definition parent_markable :: "results_db \<Rightarrow> item_row \<Rightarrow> attempt_row \<Rightarrow> result_key \<Rightarrow> bool" where
  "parent_markable s it b k =
     (let found = result_exists s k in
      \<not> (it_requires_explicit_entry it \<and> \<not> found) \<and>
      (\<not> found \<or> state_of_result s k \<noteq> Some ToBeRecomputed) \<and>
      (found \<or> item_or_ancestor_visible_to s (at_participant b) (it_id it) \<and> within_attempt s b (it_id it)))"

text \<open>The rows of \<open>results_to_mark\<close>: the key of the parent's result and whether it exists.\<close>

definition results_to_mark :: "results_db \<Rightarrow> (result_key \<times> bool) list" where
  "results_to_mark s =
     [((at_participant b, at_id b, it_id it), result_exists s (at_participant b, at_id b, it_id it)).
        r \<leftarrow> rd_results s, state_of_result s (rs_key r) = Some Propagating,
        a \<leftarrow> rd_attempts s, at_key a = (rs_participant r, rs_attempt r),
        e \<leftarrow> db_items_items (rd_db s), ii_child e = rs_item r,
        it \<leftarrow> rd_items s, it_id it = ii_parent e,
        b \<leftarrow> rd_attempts s, at_participant b = rs_participant r \<and> attempt_above a r = Some (at_id b) \<and>
          parent_markable s it b (at_participant b, at_id b, it_id it)]"

text \<open>INSERT IGNORE of a result with the column defaults.\<close>

definition new_result :: "result_key \<Rightarrow> result_row" where
  "new_result k =
     \<lparr>rs_participant = fst k, rs_attempt = fst (snd k), rs_item = snd (snd k), rs_started_at = None,
      rs_latest_activity_at = min_time,
      rs_tasks_tried = 0, rs_tasks_with_help = 0, rs_validated_at = None, rs_score_computed = 0,
      rs_score_edit_rule = None, rs_score_edit_value = None, rs_score_obtained_at = None,
      rs_hints_requested = None, rs_hints_cached = 0, rs_latest_hint_at = None\<rparr>"

definition insert_result :: "result_key \<Rightarrow> result_row list \<Rightarrow> result_row list" where
  "insert_result k t = tbl_upsert rs_key (\<lambda>r. r) (new_result k) t"

definition mark_parents :: "nat \<Rightarrow> results_db \<Rightarrow> results_db" where
  "mark_parents chunk s =
     (let s1 = s\<lparr>rd_propagate := mark_propagating chunk (rd_propagate s)\<rparr>;
          marks = results_to_mark s1
      in s1\<lparr>rd_results := fold insert_result [k. (k, found) \<leftarrow> marks, \<not> found] (rd_results s1),
            rd_propagate := fold (\<lambda>k. AList.update k ToBeRecomputed) (map fst marks) (rd_propagate s1)\<rparr>)"

section \<open>Unlocking items\<close>

text \<open>\<open>ViewIndexByName("content")\<close>; the lookup succeeds (\<open>view_levels\<close>).\<close>

definition content_level :: nat where
  "content_level = (case view_index ''content'' of Inr i \<Rightarrow> i | Inl _ \<Rightarrow> 0)"

text \<open>A row of \<open>permissions_granted\<close> for which nothing is left to unlock.\<close>

definition already_unlocked :: "time \<Rightarrow> item_row \<Rightarrow> granted_row \<Rightarrow> bool" where
  "already_unlocked now it g =
     (\<not> (\<not> it_requires_explicit_entry it \<and> pg_can_view g < content_level \<or>
         it_requires_explicit_entry it \<and> now < pg_can_enter_from g \<or>
         it_requires_explicit_entry it \<and> pg_can_enter_until g \<noteq> max_time))"

text \<open>The rows of \<open>items_to_unlock\<close>: participant, item, and the two values to grant.\<close>

definition items_to_unlock :: "results_db \<Rightarrow> (id \<times> id \<times> nat \<times> time) list" where
  "items_to_unlock s =
     [(rs_participant r, it_id it, if it_requires_explicit_entry it then 1 else content_level,
       if it_requires_explicit_entry it then db_now (rd_db s) else max_time).
        r \<leftarrow> rd_results s, state_of_result s (rs_key r) = Some Propagating,
        dp \<leftarrow> rd_dependencies s, dp_item dp = rs_item r \<and> of_nat (dp_score dp) \<le> rs_score_computed r \<and> dp_grant_content_view dp,
        it \<leftarrow> rd_items s, it_id it = dp_dependent_item dp \<and>
          \<not> (\<exists>g \<in> set (db_permissions_granted (rd_db s)).
               pg_key g = (rs_participant r, it_id it, rs_participant r, ItemUnlocking) \<and> already_unlocked (db_now (rd_db s)) it g)]"

definition unlock_update :: "time \<Rightarrow> nat \<Rightarrow> time \<Rightarrow> granted_row \<Rightarrow> granted_row" where
  "unlock_update now view enter_from g =
     g\<lparr>pg_latest_update_at := now,
       pg_can_view := (if view = content_level \<and> pg_can_view g < content_level then content_level else pg_can_view g),
       pg_can_enter_from := (if enter_from \<noteq> max_time \<and> enter_from < pg_can_enter_from g then enter_from else pg_can_enter_from g),
       pg_can_enter_until := (if enter_from \<noteq> max_time then max_time else pg_can_enter_until g)\<rparr>"

definition unlocking_row :: "time \<Rightarrow> id \<Rightarrow> id \<Rightarrow> nat \<Rightarrow> time \<Rightarrow> granted_row" where
  "unlocking_row now p i view enter_from =
     (default_granted_row p i p now)\<lparr>pg_origin := ItemUnlocking, pg_can_view := view, pg_can_enter_from := enter_from\<rparr>"

text \<open>One row of the INSERT ... ON DUPLICATE KEY UPDATE; MySQL counts 1 for an inserted row, 2 for a changed one, 0 otherwise.\<close>

definition unlock_item :: "id \<times> id \<times> nat \<times> time \<Rightarrow> db \<times> nat \<Rightarrow> db \<times> nat" where
  "unlock_item u dn =
     (case u of (p, i, view, enter_from) \<Rightarrow>
        let d = fst dn; row = unlocking_row (db_now d) p i view enter_from; upd = unlock_update (db_now d) view enter_from
        in (upsert_permissions_granted upd row d,
            snd dn + (case tbl_find pg_key (pg_key row) (db_permissions_granted d) of
                        None \<Rightarrow> 1 | Some g \<Rightarrow> if upd g = g then 0 else 2)))"

definition unlocked_for :: "id option \<Rightarrow> (id \<times> id \<times> nat \<times> time) list \<Rightarrow> id list" where
  "unlocked_for participant us =
     (case participant of None \<Rightarrow> [] | Some p \<Rightarrow> sort (remdups [i. (q, i, _) \<leftarrow> us, q = p]))"

definition unlock_items :: "id option \<Rightarrow> results_db \<Rightarrow> results_db \<times> nat \<times> id list" where
  "unlock_items participant s =
     (let us = items_to_unlock s; (d, n) = fold unlock_item us (rd_db s, 0)
      in (s\<lparr>rd_db := d, rd_propagate := filter (\<lambda>(k, m). m \<noteq> Propagating) (rd_propagate s)\<rparr>, n, unlocked_for participant us))"

section \<open>Recomputing a result\<close>

text \<open>MAX and MIN skip NULL and give NULL for nothing, and so does SUM.\<close>

definition sql_max :: "'a::linorder option list \<Rightarrow> 'a option" where
  "sql_max xs = (case [x. Some x \<leftarrow> xs] of [] \<Rightarrow> None | x # ys \<Rightarrow> Some (fold max ys x))"

definition sql_min :: "'a::linorder option list \<Rightarrow> 'a option" where
  "sql_min xs = (case [x. Some x \<leftarrow> xs] of [] \<Rightarrow> None | x # ys \<Rightarrow> Some (fold min ys x))"

definition sql_sum :: "'a::comm_monoid_add option list \<Rightarrow> 'a option" where
  "sql_sum xs = (case [x. Some x \<leftarrow> xs] of [] \<Rightarrow> None | x # ys \<Rightarrow> Some (sum_list (x # ys)))"

definition ifnull :: "'a option \<Rightarrow> 'a \<Rightarrow> 'a" where
  "ifnull x y = (case x of None \<Rightarrow> y | Some v \<Rightarrow> v)"

text \<open>The results of a child item that count for a result: in its attempt, or in an attempt started below it on the child.\<close>

definition child_results :: "results_db \<Rightarrow> result_row \<Rightarrow> id \<Rightarrow> result_row list" where
  "child_results s r child =
     filter (\<lambda>c. rs_participant c = rs_participant r \<and> rs_item c = child \<and>
               (\<exists>a \<in> set (rd_attempts s). at_key a = (rs_participant c, rs_attempt c) \<and>
                  (rs_attempt c = rs_attempt r \<or> at_root_item a = Some child \<and> at_parent a = Some (rs_attempt r))))
       (rd_results s)"

record child_stats =
  cs_validation_category :: bool
  cs_score_weight :: nat
  cs_validated :: "bool option"
  cs_validated_at :: "time option"
  cs_latest_activity_at :: "time option"
  cs_tasks_tried :: "nat option"
  cs_tasks_with_help :: "nat option"
  cs_score_computed :: "rat option"

definition stats_of_child :: "results_db \<Rightarrow> result_row \<Rightarrow> items_items_row \<Rightarrow> child_stats" where
  "stats_of_child s r e =
     (let cs = child_results s r (ii_child e) in
      \<lparr>cs_validation_category = (ii_category e = Validation), cs_score_weight = ii_score_weight e,
       cs_validated = (if cs = [] then None else Some (\<exists>c \<in> set cs. rs_validated c)),
       cs_validated_at = sql_min (map rs_validated_at cs),
       cs_latest_activity_at = sql_max (map (\<lambda>c. Some (rs_latest_activity_at c)) cs),
       cs_tasks_tried = sql_max (map (\<lambda>c. Some (rs_tasks_tried c)) cs),
       cs_tasks_with_help = sql_max (map (\<lambda>c. Some (rs_tasks_with_help c)) cs),
       cs_score_computed = sql_max (map (\<lambda>c. Some (rs_score_computed c)) cs)\<rparr>)"

text \<open>The scored children; the lateral join gives NULL for everything when there are none.\<close>

definition children_stats :: "results_db \<Rightarrow> result_row \<Rightarrow> child_stats list" where
  "children_stats s r =
     [stats_of_child s r e. e \<leftarrow> db_items_items (rd_db s), ii_parent e = rs_item r,
        it \<leftarrow> rd_items s, it_id it = ii_child e \<and> \<not> it_no_score it]"

definition not_validated :: "child_stats \<Rightarrow> bool" where
  "not_validated c = (cs_validated c \<noteq> Some True)"

definition average_score :: "child_stats list \<Rightarrow> rat" where
  "average_score cs =
     (let w = sum_list (map (\<lambda>c. of_nat (cs_score_weight c)) cs)
      in sum_list (map (\<lambda>c. ifnull (cs_score_computed c) 0 * of_nat (cs_score_weight c)) cs) / (if w = 0 then 1 else w))"

definition computed_validated_at :: "validation_type \<Rightarrow> child_stats list \<Rightarrow> time option" where
  "computed_validated_at t cs =
     (let latest = sql_max (map cs_validated_at cs);
          latest_category = sql_max (map (\<lambda>c. if cs_validation_category c then cs_validated_at c else None) cs);
          missing = length (filter not_validated cs)
      in if cs = [] then None
         else if t = ValidationCategories \<and> filter (\<lambda>c. cs_validation_category c \<and> not_validated c) cs = [] then latest_category
         else if t = ValidationAll \<and> missing = 0 then latest
         else if t = ValidationAllButOne \<and> missing < 2 then latest
         else if t = ValidationOne \<and> (\<exists>c \<in> set cs. cs_validated c = Some True) then latest
         else None)"

definition edited_score :: "result_row \<Rightarrow> rat \<Rightarrow> rat option" where
  "edited_score r average =
     (case rs_score_edit_rule r of
        Some EditSet \<Rightarrow> rs_score_edit_value r
      | Some EditDiff \<Rightarrow> map_option (\<lambda>v. average + v) (rs_score_edit_value r)
      | None \<Rightarrow> Some average)"

definition computed_score :: "item_row \<Rightarrow> result_row \<Rightarrow> child_stats list \<Rightarrow> rat" where
  "computed_score it r cs =
     (if it_no_score it \<or> cs = [] then 0
      else case edited_score r (average_score cs) of None \<Rightarrow> 0 | Some v \<Rightarrow> min (max v 0) 100)"

definition recompute_result :: "results_db \<Rightarrow> item_row \<Rightarrow> result_row \<Rightarrow> result_row" where
  "recompute_result s it r =
     (let cs = children_stats s r in
      r\<lparr>rs_latest_activity_at := max (ifnull (sql_max (map cs_latest_activity_at cs)) min_time) (rs_latest_activity_at r),
        rs_tasks_tried := ifnull (sql_sum (map cs_tasks_tried cs)) 0,
        rs_tasks_with_help := ifnull (sql_sum (map cs_tasks_with_help cs)) 0,
        rs_validated_at := computed_validated_at (it_validation_type it) cs,
        rs_score_computed := computed_score it r cs\<rparr>)"

text \<open>The UPDATE joins the item; the trigger \<open>before_update_results\<close> decides whether the row counts as modified.\<close>

definition recompute_row :: "results_db \<Rightarrow> result_row \<Rightarrow> result_row" where
  "recompute_row s r = (case item_of s (rs_item r) of None \<Rightarrow> r | Some it \<Rightarrow> recompute_result s it r)"

definition row_modified :: "result_row \<Rightarrow> result_row \<Rightarrow> bool" where
  "row_modified r r' =
     (\<not> (rs_latest_activity_at r' = rs_latest_activity_at r \<and> rs_tasks_tried r' = rs_tasks_tried r \<and>
         rs_tasks_with_help r' = rs_tasks_with_help r \<and> rs_validated_at r' = rs_validated_at r \<and>
         rs_score_computed r' = rs_score_computed r \<and> rs_latest_activity_at r' \<noteq> min_time))"

section \<open>The loop of recomputations\<close>

text \<open>A child marked 'to_be_recomputed' in the same attempt, or in an attempt started on it below this one.\<close>

definition has_marked_child :: "results_db \<Rightarrow> result_key \<Rightarrow> bool" where
  "has_marked_child s k =
     (case k of (p, a, i) \<Rightarrow>
        \<exists>e \<in> set (db_items_items (rd_db s)). ii_parent e = i \<and>
          (state_of_result s (p, a, ii_child e) = Some ToBeRecomputed \<or>
           (\<exists>b \<in> set (rd_attempts s). at_participant b = p \<and> at_parent b = Some a \<and> at_root_item b = Some (ii_child e) \<and>
              state_of_result s (p, at_id b, ii_child e) = Some ToBeRecomputed)))"

definition results_to_recompute :: "nat \<Rightarrow> results_db \<Rightarrow> result_key list" where
  "results_to_recompute chunk s =
     take chunk [k. (k, m) \<leftarrow> rd_propagate s, m = ToBeRecomputed \<and> \<not> has_marked_child s k]"

text \<open>The four statements of one transaction, for a chunk that is not empty.\<close>

definition recompute_chunk :: "result_key list \<Rightarrow> results_db \<Rightarrow> results_db" where
  "recompute_chunk ks s =
     (let marks = map (\<lambda>(k, m). (k, if k \<in> set ks then Recomputing else m)) (rd_propagate s);
          results = map (\<lambda>r. if map_of marks (rs_key r) = Some Recomputing then recompute_row s r else r) (rd_results s);
          modified = (\<lambda>k. \<exists>r \<in> set (rd_results s). rs_key r = k \<and> item_of s (rs_item r) \<noteq> None \<and> row_modified r (recompute_row s r))
      in s\<lparr>rd_results := results,
           rd_propagate := filter (\<lambda>(k, m). m \<noteq> Recomputing)
             (map (\<lambda>(k, m). (k, if m = Recomputing \<and> modified k then ToBePropagated else m)) marks)\<rparr>)"

function recompute_marked :: "nat \<Rightarrow> results_db \<Rightarrow> results_db" where
  "recompute_marked chunk s =
     (let ks = results_to_recompute chunk s in
      if ks = [] then s else recompute_marked chunk (recompute_chunk ks s))"
  by pat_completeness auto

definition count_marked :: "results_db \<Rightarrow> nat" where
  "count_marked s = length (filter (\<lambda>(k, m). m = ToBeRecomputed) (rd_propagate s))"

lemma count_recompute_chunk:
  assumes "ks \<noteq> []" and "set ks \<subseteq> set [k. (k, m) \<leftarrow> rd_propagate s, m = ToBeRecomputed \<and> P k]"
  shows "count_marked (recompute_chunk ks s) < count_marked s"
proof -
  define f where "f = (\<lambda>(k :: result_key, m). k \<notin> set ks \<and> m = ToBeRecomputed)"
  have "count_marked (recompute_chunk ks s) = length (filter f (rd_propagate s))"
    unfolding count_marked_def recompute_chunk_def Let_def f_def
    by (simp add: filter_map comp_def case_prod_beta) (rule arg_cong [where f = length], rule filter_cong, auto)
  also have "\<dots> < count_marked s"
  proof -
    from assms obtain k where "k \<in> set ks" "(k, ToBeRecomputed) \<in> set (rd_propagate s)" by (cases ks) auto
    then have "(k, ToBeRecomputed) \<in> set (filter (\<lambda>(k, m). m = ToBeRecomputed) (rd_propagate s))"
      and "\<not> f (k, ToBeRecomputed)" by (simp_all add: f_def)
    then have "length (filter f (filter (\<lambda>(k, m). m = ToBeRecomputed) (rd_propagate s))) <
        length (filter (\<lambda>(k, m). m = ToBeRecomputed) (rd_propagate s))"
      by (rule length_filter_less)
    moreover have "filter f (filter (\<lambda>(k, m). m = ToBeRecomputed) (rd_propagate s)) = filter f (rd_propagate s)"
      by (simp add: f_def) (rule filter_cong, auto)
    ultimately show ?thesis by (simp add: count_marked_def)
  qed
  finally show ?thesis .
qed

termination recompute_marked
proof (relation "measure (\<lambda>(chunk, s). count_marked s)")
  fix chunk s ks
  assume ks: "ks = results_to_recompute chunk s" "ks \<noteq> []"
  have "set ks \<subseteq> set [k. (k, m) \<leftarrow> rd_propagate s, m = ToBeRecomputed \<and> \<not> has_marked_child s k]"
    unfolding ks(1) results_to_recompute_def by (rule set_take_subset)
  then show "((chunk, recompute_chunk ks s), (chunk, s)) \<in> measure (\<lambda>(chunk, s). count_marked s)"
    using count_recompute_chunk [OF ks(2)] by simp
qed simp

declare recompute_marked.simps [simp del]

section \<open>The propagation\<close>

text \<open>The loop, None standing for a run that does not end; the chunk sizes are 200 and 1000 in the code.\<close>

partial_function (option) propagate_loop ::
  "nat \<Rightarrow> nat \<Rightarrow> id option \<Rightarrow> nat \<Rightarrow> id list \<Rightarrow> results_db \<Rightarrow> (results_db \<times> nat \<times> id list) option" where
  "propagate_loop c1 c2 participant n is s =
     (case unlock_items participant (mark_parents c1 s) of (s1, m, js) \<Rightarrow>
        if rd_propagate s1 = [] then Some (s1, n + m, is @ js)
        else propagate_loop c1 c2 participant (n + m) (is @ js) (recompute_marked c2 s1))"

declare propagate_loop.simps [code]

text \<open>
  The triggers \<open>after_insert_permissions_generated\<close> and \<open>after_update_permissions_generated\<close>: a pair that becomes visible marks
  the results of the members of the group below the item, with INSERT IGNORE.
\<close>

definition pair_view :: "generated_row list \<Rightarrow> id \<times> id \<Rightarrow> nat" where
  "pair_view t k = (case tbl_find pgen_key k t of None \<Rightarrow> 1 | Some g \<Rightarrow> pgen_can_view g)"

definition newly_visible :: "db \<Rightarrow> db \<Rightarrow> (id \<times> id) list" where
  "newly_visible d d' =
     [pgen_key g. g \<leftarrow> db_permissions_generated d', pgen_can_view g \<noteq> 1 \<and> pair_view (db_permissions_generated d) (pgen_key g) = 1]"

definition results_below :: "results_db \<Rightarrow> id \<times> id \<Rightarrow> result_key list" where
  "results_below s gi =
     [rs_key r. r \<leftarrow> rd_results s, (snd gi, rs_item r) \<in> set (db_items_ancestors (rd_db s)) \<and> anc (rd_db s) (fst gi) (rs_participant r)]"

definition insert_mark :: "result_key \<Rightarrow> (result_key, propagation_state) gomap \<Rightarrow> (result_key, propagation_state) gomap" where
  "insert_mark k t = (if map_of t k = None then t @ [(k, ToBePropagated)] else t)"

definition mark_newly_visible :: "db \<Rightarrow> results_db \<Rightarrow> results_db" where
  "mark_newly_visible d s =
     s\<lparr>rd_propagate := fold insert_mark (concat (map (results_below s) (newly_visible d (rd_db s)))) (rd_propagate s)\<rparr>"

definition access_step_with_triggers :: "results_db \<Rightarrow> results_db \<times> nat" where
  "access_step_with_triggers s =
     (case access_step (rd_db s) of (d, n) \<Rightarrow> (mark_newly_visible (rd_db s) (s\<lparr>rd_db := d\<rparr>), n))"

partial_function (option) compute_access_with_triggers :: "results_db \<Rightarrow> results_db option" where
  "compute_access_with_triggers s =
     (if snd (access_step_with_triggers s) > 0 then compute_access_with_triggers (fst (access_step_with_triggers s))
      else Some (fst (access_step_with_triggers s)))"

partial_function (option) propagate_results :: "nat \<Rightarrow> nat \<Rightarrow> id option \<Rightarrow> id list \<Rightarrow> results_db \<Rightarrow> (results_db \<times> id list) option" where
  "propagate_results c1 c2 participant is s =
     (case propagate_loop c1 c2 participant 0 [] s of
        None \<Rightarrow> None
      | Some r \<Rightarrow>
          (case r of (s1, n, js) \<Rightarrow>
             if n = 0 then Some (s1, is @ js)
             else (case compute_access_with_triggers s1 of
                     None \<Rightarrow> None
                   | Some s2 \<Rightarrow> propagate_results c1 c2 participant (is @ js) s2)))"

declare compute_access_with_triggers.simps [code] propagate_results.simps [code]

definition propagation_chunk_size :: nat where
  "propagation_chunk_size = 200"

definition recomputation_chunk_size :: nat where
  "recomputation_chunk_size = 1000"

definition propagate_and_collect :: "id \<Rightarrow> results_db \<Rightarrow> (results_db \<times> id list) option" where
  "propagate_and_collect participant s =
     propagate_results propagation_chunk_size recomputation_chunk_size (Some participant) [] s"

section \<open>Recomputation requested for items\<close>

text \<open>\<open>setResultsPropagationFromTableResultsRecomputeForItems\<close>: the results of the listed items, not yet marked.\<close>

definition results_of_listed_items :: "results_db \<Rightarrow> result_key list" where
  "results_of_listed_items s =
     [rs_key r. r \<leftarrow> rd_results s, map_of (rd_recompute_for_items s) (rs_item r) = Some True \<and>
        state_of_result s (rs_key r) \<noteq> Some ToBeRecomputed]"

definition mark_listed_chunk :: "nat \<Rightarrow> results_db \<Rightarrow> results_db" where
  "mark_listed_chunk chunk s =
     s\<lparr>rd_propagate := fold (\<lambda>k. AList.update k ToBeRecomputed) (take chunk (results_of_listed_items s)) (rd_propagate s)\<rparr>"

partial_function (option) mark_listed :: "nat \<Rightarrow> results_db \<Rightarrow> results_db option" where
  "mark_listed chunk s =
     (if results_of_listed_items s = [] then Some (s\<lparr>rd_recompute_for_items := filter (\<lambda>(i, b). \<not> b) (rd_recompute_for_items s)\<rparr>)
      else mark_listed chunk (mark_listed_chunk chunk s))"

declare mark_listed.simps [code]

definition set_results_propagation_from_listed_items :: "results_db \<Rightarrow> results_db option" where
  "set_results_propagation_from_listed_items s =
     mark_listed 20000 (s\<lparr>rd_recompute_for_items := map (\<lambda>(i, b). (i, True)) (rd_recompute_for_items s)\<rparr>)"

definition process_results_recompute_for_items_and_propagate :: "results_db \<Rightarrow> results_db option" where
  "process_results_recompute_for_items_and_propagate s =
     (case set_results_propagation_from_listed_items s of
        None \<Rightarrow> None
      | Some s1 \<Rightarrow> map_option fst (propagate_results propagation_chunk_size recomputation_chunk_size None [] s1))"

text \<open>\<open>MarkAsToBePropagated\<close>: INSERT IGNORE.\<close>

definition mark_as_to_be_propagated :: "result_key \<Rightarrow> results_db \<Rightarrow> results_db" where
  "mark_as_to_be_propagated k s = s\<lparr>rd_propagate := insert_mark k (rd_propagate s)\<rparr>"

end
