(* ===== verification/ResultsSpec.thy ===== *)
theory ResultsSpec
  imports Results
begin

text \<open>
  Recomputing results: what one chunk does, and the contract of the whole loop.  On item graphs without cycles every marked
  result is recomputed exactly once, from the final values of its children, and exactly the changed ones are
  marked for propagation.
\<close>

section \<open>One result\<close>

lemma recompute_row_fields [simp]:
  "rs_participant (recompute_row s r) = rs_participant r" "rs_attempt (recompute_row s r) = rs_attempt r"
  "rs_item (recompute_row s r) = rs_item r" "rs_score_edit_rule (recompute_row s r) = rs_score_edit_rule r"
  "rs_score_edit_value (recompute_row s r) = rs_score_edit_value r" "rs_score_obtained_at (recompute_row s r) = rs_score_obtained_at r"
  "rs_started_at (recompute_row s r) = rs_started_at r" "rs_hints_requested (recompute_row s r) = rs_hints_requested r"
  "rs_hints_cached (recompute_row s r) = rs_hints_cached r" "rs_latest_hint_at (recompute_row s r) = rs_latest_hint_at r"
  by (simp_all add: recompute_row_def recompute_result_def Let_def split: option.split)

lemma recompute_row_key [simp]: "rs_key (recompute_row s r) = rs_key r"
  by (simp add: rs_key_def)

lemma children_stats_key:
  assumes "rs_key r' = rs_key r"
  shows "children_stats s r' = children_stats s r"
proof -
  have eq: "rs_item r' = rs_item r" "rs_participant r' = rs_participant r" "rs_attempt r' = rs_attempt r"
    using assms by (simp_all add: rs_key_def)
  then have "stats_of_child s r' e = stats_of_child s r e" for e
    by (simp only: stats_of_child_def child_results_def)
  with eq(1) show ?thesis by (simp only: children_stats_def)
qed

lemma recompute_row_idem: "recompute_row s (recompute_row s r) = recompute_row s r"
proof (cases "item_of s (rs_item r)")
  case None
  then show ?thesis by (simp add: recompute_row_def)
next
  case (Some it)
  define r1 where "r1 = recompute_result s it r"
  let ?cs = "children_stats s r"
  have f: "rs_participant r1 = rs_participant r" "rs_attempt r1 = rs_attempt r" "rs_item r1 = rs_item r"
    "rs_score_edit_rule r1 = rs_score_edit_rule r" "rs_score_edit_value r1 = rs_score_edit_value r"
    "rs_latest_activity_at r1 = max (ifnull (sql_max (map cs_latest_activity_at ?cs)) min_time) (rs_latest_activity_at r)"
    "rs_tasks_tried r1 = ifnull (sql_sum (map cs_tasks_tried ?cs)) 0"
    "rs_tasks_with_help r1 = ifnull (sql_sum (map cs_tasks_with_help ?cs)) 0"
    "rs_validated_at r1 = computed_validated_at (it_validation_type it) ?cs" "rs_score_computed r1 = computed_score it r ?cs"
    by (simp_all add: r1_def recompute_result_def Let_def)
  have "children_stats s r1 = ?cs"
    by (rule children_stats_key) (simp add: rs_key_def f)
  moreover have "computed_score it r1 ?cs = computed_score it r ?cs"
    by (simp only: computed_score_def edited_score_def f)
  ultimately have "recompute_result s it r1 = r1"
    by (intro result_row.equality) (simp_all add: recompute_result_def Let_def f)
  with Some show ?thesis by (simp add: recompute_row_def r1_def) (simp add: recompute_result_def Let_def)
qed

text \<open>A changed row counts as modified, and so does a row that was never touched.\<close>

lemma recompute_row_modified:
  assumes "recompute_row s r \<noteq> r \<or> rs_latest_activity_at r = min_time"
  shows "row_modified r (recompute_row s r)"
proof (rule ccontr)
  let ?r = "recompute_row s r"
  assume "\<not> row_modified r ?r"
  then have eq: "rs_latest_activity_at ?r = rs_latest_activity_at r" "rs_tasks_tried ?r = rs_tasks_tried r"
    "rs_tasks_with_help ?r = rs_tasks_with_help r" "rs_validated_at ?r = rs_validated_at r"
    "rs_score_computed ?r = rs_score_computed r" "rs_latest_activity_at ?r \<noteq> min_time"
    by (simp_all add: row_modified_def)
  then have "?r = r" by (intro result_row.equality) simp_all
  with assms eq(1,6) show False by simp
qed

text \<open>The results a result is computed from.\<close>

definition child_row :: "results_db \<Rightarrow> result_row \<Rightarrow> result_row \<Rightarrow> bool" where
  "child_row s c r =
     (rs_participant c = rs_participant r \<and>
      (\<exists>e \<in> set (db_items_items (rd_db s)). ii_parent e = rs_item r \<and> ii_child e = rs_item c) \<and>
      (\<exists>a \<in> set (rd_attempts s). at_key a = (rs_participant c, rs_attempt c) \<and>
         (rs_attempt c = rs_attempt r \<or> at_root_item a = Some (rs_item c) \<and> at_parent a = Some (rs_attempt r))))"

lemma child_row_keys: "rs_key c' = rs_key c \<Longrightarrow> rs_key r' = rs_key r \<Longrightarrow> child_row s c' r' = child_row s c r"
  by (simp add: child_row_def rs_key_def)

text \<open>What the propagation never changes.\<close>

definition same_frame :: "results_db \<Rightarrow> results_db \<Rightarrow> bool" where
  "same_frame s s' = (db_items_items (rd_db s') = db_items_items (rd_db s) \<and> rd_items s' = rd_items s \<and>
     rd_attempts s' = rd_attempts s \<and> rd_dependencies s' = rd_dependencies s \<and>
     db_items_ancestors (rd_db s') = db_items_ancestors (rd_db s))"

lemma same_frame_refl [simp]: "same_frame s s"
  by (simp add: same_frame_def)

lemma same_frame_trans: "same_frame s s' \<Longrightarrow> same_frame s' s'' \<Longrightarrow> same_frame s s''"
  by (simp add: same_frame_def)

lemma child_row_frame: "same_frame s s' \<Longrightarrow> child_row s' c r = child_row s c r"
  by (simp add: child_row_def same_frame_def)

lemma child_results_row:
  assumes "e \<in> set (db_items_items (rd_db s))" and "ii_parent e = rs_item r"
  shows "child_results s r (ii_child e) = filter (\<lambda>c. rs_item c = ii_child e \<and> child_row s c r) (rd_results s)"
  unfolding child_results_def by (rule filter_cong [OF refl]) (use assms in \<open>auto simp: child_row_def\<close>)

text \<open>A result only depends on the rows of its children.\<close>

lemma children_stats_cong:
  assumes "same_frame s s'"
    and "filter (\<lambda>c. child_row s c r) (rd_results s') = filter (\<lambda>c. child_row s c r) (rd_results s)"
  shows "children_stats s' r = children_stats s r"
proof -
  have child: "child_results s' r (ii_child e) = child_results s r (ii_child e)"
    if "e \<in> set (db_items_items (rd_db s))" "ii_parent e = rs_item r" for e
  proof -
    have "e \<in> set (db_items_items (rd_db s'))" using that(1) assms(1) by (simp add: same_frame_def)
    then have "child_results s' r (ii_child e) = filter (\<lambda>c. rs_item c = ii_child e) (filter (\<lambda>c. child_row s c r) (rd_results s'))"
      using that(2) by (simp add: child_results_row child_row_frame [OF assms(1)] conj_commute)
    also have "\<dots> = child_results s r (ii_child e)"
      unfolding assms(2) using that by (simp add: child_results_row conj_commute)
    finally show ?thesis .
  qed
  have "stats_of_child s' r e = stats_of_child s r e"
    if "e \<in> set (db_items_items (rd_db s))" "ii_parent e = rs_item r" for e
    by (simp only: stats_of_child_def child [OF that])
  moreover have "db_items_items (rd_db s') = db_items_items (rd_db s)" "rd_items s' = rd_items s"
    using assms(1) by (simp_all add: same_frame_def)
  ultimately show ?thesis
    unfolding children_stats_def by (intro arg_cong [where f = concat] map_cong) (auto cong: if_cong)
qed

lemma recompute_row_cong:
  assumes "same_frame s s'"
    and "filter (\<lambda>c. child_row s c r) (rd_results s') = filter (\<lambda>c. child_row s c r) (rd_results s)"
  shows "recompute_row s' r = recompute_row s r"
proof -
  have "item_of s' i = item_of s i" for i using assms(1) by (simp add: item_of_def same_frame_def)
  then show ?thesis
    by (simp only: recompute_row_def recompute_result_def children_stats_cong [OF assms])
qed

lemma filter_map_id:
  assumes "\<And>x. x \<in> set xs \<Longrightarrow> P (f x) = P x" and "\<And>x. x \<in> set xs \<Longrightarrow> P x \<Longrightarrow> f x = x"
  shows "filter P (map f xs) = filter P xs"
  using assms by (induction xs) auto

lemma recompute_row_map:
  assumes "same_frame s s'" and "rd_results s' = map f (rd_results s)" and "\<And>c. rs_key (f c) = rs_key c"
    and "\<And>c. c \<in> set (rd_results s) \<Longrightarrow> child_row s c r \<Longrightarrow> f c = c"
  shows "recompute_row s' r = recompute_row s r"
proof (rule recompute_row_cong [OF assms(1)])
  show "filter (\<lambda>c. child_row s c r) (rd_results s') = filter (\<lambda>c. child_row s c r) (rd_results s)"
    unfolding assms(2) by (rule filter_map_id) (simp_all add: child_row_keys [OF assms(3) refl] assms(4))
qed

section \<open>One chunk\<close>

definition propagate_ok :: "results_db \<Rightarrow> bool" where
  "propagate_ok s = (tbl_unique rs_key (rd_results s) \<and> distinct (map fst (rd_propagate s)) \<and>
     (\<forall>k. state_of_result s k \<noteq> Some Recomputing))"

definition modified_key :: "results_db \<Rightarrow> result_key \<Rightarrow> bool" where
  "modified_key s k = (\<exists>r \<in> set (rd_results s). rs_key r = k \<and> item_of s (rs_item r) \<noteq> None \<and> row_modified r (recompute_row s r))"

lemma map_of_map_key: "map_of (map (\<lambda>(k, m). (k, f k m)) xs) k = map_option (f k) (map_of xs k)"
  by (induction xs) auto

lemma map_of_filter_value:
  assumes "distinct (map fst xs)"
  shows "map_of (filter (\<lambda>(k, m). P m) xs) k = (case map_of xs k of None \<Rightarrow> None | Some m \<Rightarrow> if P m then Some m else None)"
  using assms by (induction xs) (auto split: option.splits simp: map_of_eq_None_iff image_iff)

lemma distinct_map_keys: "distinct (map fst (map (\<lambda>(k, m). (k, f k m)) xs)) = distinct (map fst xs)"
  by (simp add: comp_def case_prod_beta)

lemma distinct_filter_keys: "distinct (map fst xs) \<Longrightarrow> distinct (map fst (filter P xs))"
  by (induction xs) auto

lemma recompute_chunk_effect:
  assumes "propagate_ok s" and "\<forall>k \<in> set ks. state_of_result s k = Some ToBeRecomputed"
  shows "rd_results (recompute_chunk ks s) = map (\<lambda>r. if rs_key r \<in> set ks then recompute_row s r else r) (rd_results s)"
    "state_of_result (recompute_chunk ks s) k =
       (if k \<in> set ks then (if modified_key s k then Some ToBePropagated else None) else state_of_result s k)"
    "same_frame s (recompute_chunk ks s)" "rd_db (recompute_chunk ks s) = rd_db s"
    "rd_recompute_for_items (recompute_chunk ks s) = rd_recompute_for_items s"
    "propagate_ok (recompute_chunk ks s)"
proof -
  let ?marks = "map (\<lambda>(k, m). (k, if k \<in> set ks then Recomputing else m)) (rd_propagate s)"
  let ?new = "map (\<lambda>(k, m). (k, if m = Recomputing \<and> modified_key s k then ToBePropagated else m)) ?marks"
  have marks: "map_of ?marks k = (if k \<in> set ks then Some Recomputing else state_of_result s k)" for k
    using assms(2) by (cases "state_of_result s k") (auto simp: map_of_map_key)
  have d: "distinct (map fst (rd_propagate s))" and nr: "state_of_result s k \<noteq> Some Recomputing" for k
    using assms(1) unfolding propagate_ok_def by blast+
  have results: "rd_results (recompute_chunk ks s) =
      map (\<lambda>r. if map_of ?marks (rs_key r) = Some Recomputing then recompute_row s r else r) (rd_results s)"
    by (simp only: recompute_chunk_def Let_def) simp
  then show eq: "rd_results (recompute_chunk ks s) = map (\<lambda>r. if rs_key r \<in> set ks then recompute_row s r else r) (rd_results s)"
    unfolding marks using nr by (auto intro: map_cong)
  have propagate: "rd_propagate (recompute_chunk ks s) = filter (\<lambda>(k, m). m \<noteq> Recomputing) ?new"
    by (simp only: recompute_chunk_def Let_def modified_key_def) simp
  have dn: "distinct (map fst ?new)" unfolding distinct_map_keys by (rule d)
  have state: "state_of_result (recompute_chunk ks s) k =
      (if k \<in> set ks then (if modified_key s k then Some ToBePropagated else None) else state_of_result s k)" for k
    unfolding propagate map_of_filter_value [OF dn] map_of_map_key [where f = "\<lambda>k m. if m = Recomputing \<and> modified_key s k then ToBePropagated else m"] marks
    using nr [of k] by (auto split: option.split)
  then show "state_of_result (recompute_chunk ks s) k =
      (if k \<in> set ks then (if modified_key s k then Some ToBePropagated else None) else state_of_result s k)" .
  show "same_frame s (recompute_chunk ks s)" "rd_db (recompute_chunk ks s) = rd_db s"
    "rd_recompute_for_items (recompute_chunk ks s) = rd_recompute_for_items s"
    by (simp_all add: recompute_chunk_def Let_def same_frame_def)
  have "map rs_key (rd_results (recompute_chunk ks s)) = map rs_key (rd_results s)"
    unfolding eq by (simp add: comp_def cong: map_cong)
  then have "tbl_unique rs_key (rd_results (recompute_chunk ks s))"
    using assms(1) by (simp add: propagate_ok_def tbl_unique_def)
  moreover have "distinct (map fst (rd_propagate (recompute_chunk ks s)))"
    unfolding propagate by (rule distinct_filter_keys [OF dn])
  ultimately show "propagate_ok (recompute_chunk ks s)"
    using nr by (simp add: propagate_ok_def state)
qed

section \<open>The loop\<close>

definition ranked :: "(id \<Rightarrow> nat) \<Rightarrow> results_db \<Rightarrow> bool" where
  "ranked rank s = ((\<forall>e \<in> set (db_items_items (rd_db s)). rank (ii_parent e) < rank (ii_child e)) \<and>
     (\<forall>(a, c) \<in> set (db_items_ancestors (rd_db s)). rank a < rank c))"

lemma ranked_frame: "same_frame s s' \<Longrightarrow> ranked rank s' = ranked rank s"
  by (simp add: ranked_def same_frame_def)

definition key_rank :: "(id \<Rightarrow> nat) \<Rightarrow> result_key \<Rightarrow> nat" where
  "key_rank rank k = rank (snd (snd k))"

lemma marked_child_key:
  assumes "child_row s c r" and "state_of_result s (rs_key c) = Some ToBeRecomputed"
  shows "has_marked_child s (rs_key r)"
proof -
  from assms(1) obtain e a where ea: "rs_participant c = rs_participant r" "e \<in> set (db_items_items (rd_db s))"
      "ii_parent e = rs_item r" "ii_child e = rs_item c" "a \<in> set (rd_attempts s)" "at_key a = (rs_participant c, rs_attempt c)"
    and cond: "rs_attempt c = rs_attempt r \<or> at_root_item a = Some (rs_item c) \<and> at_parent a = Some (rs_attempt r)"
    unfolding child_row_def by blast
  show ?thesis
  proof (cases "rs_attempt c = rs_attempt r")
    case True
    then have "state_of_result s (rs_participant r, rs_attempt r, ii_child e) = Some ToBeRecomputed"
      using assms(2) ea(1,4) by (simp add: rs_key_def)
    with ea(2,3) show ?thesis unfolding has_marked_child_def rs_key_def prod.case by blast
  next
    case False
    with cond have "at_root_item a = Some (ii_child e)" "at_parent a = Some (rs_attempt r)" using ea(4) by auto
    moreover have "at_participant a = rs_participant r" "at_id a = rs_attempt c" using ea(1,6) by (simp_all add: at_key_def)
    moreover have "state_of_result s (rs_participant r, at_id a, ii_child e) = Some ToBeRecomputed"
      using assms(2) ea(1,4) calculation by (simp add: rs_key_def)
    ultimately show ?thesis using ea(2,3,5) unfolding has_marked_child_def rs_key_def prod.case by blast
  qed
qed

lemma has_marked_child_rank:
  assumes "ranked rank s" and "has_marked_child s k"
  obtains k' where "state_of_result s k' = Some ToBeRecomputed" "key_rank rank k < key_rank rank k'"
  using assms unfolding has_marked_child_def ranked_def key_rank_def by (auto split: prod.splits)

lemma set_selected_keys: "k \<in> set [k. (k, m) \<leftarrow> xs, P m \<and> Q k] \<longleftrightarrow> (\<exists>m. (k, m) \<in> set xs \<and> P m \<and> Q k)"
  by auto

text \<open>Nothing is left to recompute only if nothing is marked.\<close>

lemma nothing_to_recompute:
  assumes "ranked rank s" and "0 < chunk" and "distinct (map fst (rd_propagate s))" and "results_to_recompute chunk s = []"
  shows "state_of_result s k \<noteq> Some ToBeRecomputed"
proof
  assume k: "state_of_result s k = Some ToBeRecomputed"
  let ?M = "{k. state_of_result s k = Some ToBeRecomputed}"
  have "?M \<subseteq> fst ` set (rd_propagate s)" by (force dest: map_of_SomeD)
  then have fin: "finite (key_rank rank ` ?M)" by (simp add: finite_subset)
  have none: "has_marked_child s k" if "state_of_result s k = Some ToBeRecomputed" for k
  proof (rule ccontr)
    assume "\<not> has_marked_child s k"
    with map_of_SomeD [OF that] have "k \<in> set [k. (k, m) \<leftarrow> rd_propagate s, m = ToBeRecomputed \<and> \<not> has_marked_child s k]"
      unfolding set_selected_keys by blast
    then have "[k. (k, m) \<leftarrow> rd_propagate s, m = ToBeRecomputed \<and> \<not> has_marked_child s k] \<noteq> []" by (rule length_pos_if_in_set [THEN length_greater_0_conv [THEN iffD1]])
    with assms(2,4) show False unfolding results_to_recompute_def take_eq_Nil by blast
  qed
  have "key_rank rank k \<in> key_rank rank ` ?M" using k by blast
  then have "Max (key_rank rank ` ?M) \<in> key_rank rank ` ?M" using Max_in [OF fin] by blast
  then obtain m where m: "state_of_result s m = Some ToBeRecomputed" "key_rank rank m = Max (key_rank rank ` ?M)" by auto
  from has_marked_child_rank [OF assms(1) none [OF m(1)]] obtain k' where
    "state_of_result s k' = Some ToBeRecomputed" "key_rank rank m < key_rank rank k'" .
  then show False using Max_ge [OF fin, of "key_rank rank k'"] m(2) by auto
qed

definition row_modified_in :: "results_db \<Rightarrow> results_db \<Rightarrow> result_key \<Rightarrow> bool" where
  "row_modified_in s0 s k =
     (\<exists>r \<in> set (rd_results s0). rs_key r = k \<and> item_of s0 (rs_item r) \<noteq> None \<and> row_modified r (recompute_row s r))"

text \<open>The state of the loop, started in \<open>s0\<close>, when the keys in \<open>P\<close> are done.\<close>

definition loop_state :: "results_db \<Rightarrow> result_key set \<Rightarrow> results_db \<Rightarrow> bool" where
  "loop_state s0 P s =
     (P \<subseteq> {k. state_of_result s0 k = Some ToBeRecomputed} \<and> propagate_ok s \<and> same_frame s0 s \<and> rd_db s = rd_db s0 \<and>
      rd_recompute_for_items s = rd_recompute_for_items s0 \<and>
      rd_results s = map (\<lambda>r. if rs_key r \<in> P then recompute_row s r else r) (rd_results s0) \<and>
      (\<forall>k. state_of_result s k =
         (if k \<in> P then (if row_modified_in s0 s k then Some ToBePropagated else None) else state_of_result s0 k)) \<and>
      (\<forall>r c. rs_key r \<in> P \<and> child_row s0 c r \<longrightarrow> state_of_result s (rs_key c) \<noteq> Some ToBeRecomputed))"

lemma loop_state_start: "propagate_ok s \<Longrightarrow> loop_state s {} s"
  unfolding loop_state_def by simp

lemma loop_state_step:
  assumes "loop_state s0 P s" and "\<And>k. k \<in> set ks \<Longrightarrow> state_of_result s k = Some ToBeRecomputed \<and> \<not> has_marked_child s k"
  shows "loop_state s0 (P \<union> set ks) (recompute_chunk ks s)"
proof -
  let ?s = "recompute_chunk ks s" and ?f = "\<lambda>c. if rs_key c \<in> set ks then recompute_row s c else c"
  have inv: "P \<subseteq> {k. state_of_result s0 k = Some ToBeRecomputed}" "propagate_ok s" "same_frame s0 s" "rd_db s = rd_db s0"
    "rd_recompute_for_items s = rd_recompute_for_items s0"
    "rd_results s = map (\<lambda>r. if rs_key r \<in> P then recompute_row s r else r) (rd_results s0)"
    and state: "\<And>k. state_of_result s k =
         (if k \<in> P then (if row_modified_in s0 s k then Some ToBePropagated else None) else state_of_result s0 k)"
    and kids: "\<And>r c. rs_key r \<in> P \<Longrightarrow> child_row s0 c r \<Longrightarrow> state_of_result s (rs_key c) \<noteq> Some ToBeRecomputed"
    using assms(1) unfolding loop_state_def by blast+
  have marked: "\<forall>k \<in> set ks. state_of_result s k = Some ToBeRecomputed" using assms(2) by blast
  note eff = recompute_chunk_effect [OF inv(2) marked]
  have fresh: "k \<notin> P" if "k \<in> set ks" for k using bspec [OF marked that] state [of k] by (auto split: if_splits)
  have kids': "state_of_result s (rs_key c) \<noteq> Some ToBeRecomputed" if "rs_key r \<in> P \<union> set ks" "child_row s0 c r" for r c
  proof (cases "rs_key r \<in> P")
    case True
    with kids that(2) show ?thesis by blast
  next
    case False
    with that(1) assms(2) have "\<not> has_marked_child s (rs_key r)" by blast
    with marked_child_key that(2) child_row_frame [OF inv(3)] show ?thesis by blast
  qed
  have fk: "rs_key (?f c) = rs_key c" for c by (cases "rs_key c \<in> set ks") simp_all
  have same: "recompute_row ?s r = recompute_row s r" if "rs_key r \<in> P \<union> set ks" for r
  proof (rule recompute_row_map [OF eff(3) eff(1) fk])
    fix c assume "child_row s c r"
    then have "rs_key c \<notin> set ks" using kids' [OF that] marked child_row_frame [OF inv(3)] by blast
    then show "?f c = c" by simp
  qed
  have "rd_results ?s = map (\<lambda>r. if rs_key r \<in> P \<union> set ks then recompute_row ?s r else r) (rd_results s0)"
  proof -
    have "rd_results ?s = map (\<lambda>r. ?f (if rs_key r \<in> P then recompute_row s r else r)) (rd_results s0)"
      by (simp only: eff(1) inv(6) map_map comp_def)
    also have "\<dots> = map (\<lambda>r. if rs_key r \<in> P \<union> set ks then recompute_row ?s r else r) (rd_results s0)"
    proof (rule map_cong [OF refl])
      fix r
      show "?f (if rs_key r \<in> P then recompute_row s r else r) = (if rs_key r \<in> P \<union> set ks then recompute_row ?s r else r)"
      proof (cases "rs_key r \<in> P")
        case True
        then have "rs_key r \<notin> set ks" using fresh by blast
        with True same [of r] show ?thesis by simp
      next
        case False
        with same [of r] show ?thesis by simp
      qed
    qed
    finally show ?thesis .
  qed
  moreover have "state_of_result ?s k = (if k \<in> P \<union> set ks then (if row_modified_in s0 ?s k then Some ToBePropagated else None)
      else state_of_result s0 k)" for k
  proof -
    have m: "row_modified_in s0 ?s k = row_modified_in s0 s k" if "k \<in> P \<union> set ks"
      unfolding row_modified_in_def by (rule bex_cong [OF refl]) (use same that in auto)
    have items: "item_of s i = item_of s0 i" for i using inv(3) by (simp add: item_of_def same_frame_def)
    have "modified_key s k = row_modified_in s0 s k" if "k \<in> set ks"
      unfolding modified_key_def row_modified_in_def inv(6) items using fresh [OF that] by (auto split: if_splits)
    with m show ?thesis by (simp add: eff(2) state fresh)
  qed
  moreover have "state_of_result ?s (rs_key c) \<noteq> Some ToBeRecomputed" if "rs_key r \<in> P \<union> set ks" "child_row s0 c r" for r c
    using kids' [OF that] by (simp add: eff(2))
  moreover have "P \<union> set ks \<subseteq> {k. state_of_result s0 k = Some ToBeRecomputed}"
    using inv(1) marked fresh state by (auto split: if_splits)
  ultimately show ?thesis
    unfolding loop_state_def eff(4,5) inv(4,5) using eff(6) same_frame_trans [OF inv(3) eff(3)] by blast
qed

lemma to_recompute:
  "k \<in> set (results_to_recompute chunk s) \<Longrightarrow> distinct (map fst (rd_propagate s)) \<Longrightarrow>
     state_of_result s k = Some ToBeRecomputed \<and> \<not> has_marked_child s k"
  unfolding results_to_recompute_def by (drule in_set_takeD) (auto intro: map_of_is_SomeI split: if_splits)

lemma recompute_marked_state:
  assumes "loop_state s0 P s"
  shows "\<exists>P'. loop_state s0 P' (recompute_marked chunk s) \<and> results_to_recompute chunk (recompute_marked chunk s) = []"
  using assms
proof (induction chunk s arbitrary: P rule: recompute_marked.induct)
  case (1 chunk s)
  let ?ks = "results_to_recompute chunk s"
  show ?case
  proof (cases "?ks = []")
    case True
    with 1(2) show ?thesis by (auto simp: recompute_marked.simps [of chunk s])
  next
    case False
    have d: "distinct (map fst (rd_propagate s))" using 1(2) by (simp add: loop_state_def propagate_ok_def)
    have "loop_state s0 (P \<union> set ?ks) (recompute_chunk ?ks s)"
      by (rule loop_state_step [OF 1(2) to_recompute [OF _ d]])
    from 1(1) [OF refl False this] False show ?thesis by (simp add: recompute_marked.simps [of chunk s] Let_def)
  qed
qed

text \<open>The loop's contract.\<close>

lemma recompute_marked_spec:
  assumes "propagate_ok s" and "ranked rank s" and "0 < chunk" and "s' = recompute_marked chunk s"
  shows "same_frame s s'" "rd_db s' = rd_db s" "rd_recompute_for_items s' = rd_recompute_for_items s" "propagate_ok s'"
    "rd_results s' = map (\<lambda>r. if state_of_result s (rs_key r) = Some ToBeRecomputed then recompute_row s' r else r) (rd_results s)"
    "state_of_result s' k = (if state_of_result s k = Some ToBeRecomputed
       then (if row_modified_in s s' k then Some ToBePropagated else None) else state_of_result s k)"
proof -
  from recompute_marked_state [OF loop_state_start [OF assms(1)]] obtain P where
    P: "loop_state s P s'" and stop: "results_to_recompute chunk s' = []" unfolding assms(4) by blast
  then have fr: "same_frame s s'" and ok: "propagate_ok s'" by (simp_all add: loop_state_def)
  have none: "state_of_result s' k \<noteq> Some ToBeRecomputed" for k
    by (rule nothing_to_recompute [OF _ assms(3) _ stop]) (use fr ok assms(2) in \<open>simp_all add: ranked_frame propagate_ok_def\<close>)
  have all: "P = {k. state_of_result s k = Some ToBeRecomputed}"
  proof
    show "{k. state_of_result s k = Some ToBeRecomputed} \<subseteq> P"
    proof
      fix k assume "k \<in> {k. state_of_result s k = Some ToBeRecomputed}"
      with none [of k] P show "k \<in> P" unfolding loop_state_def by (cases "k \<in> P") auto
    qed
  qed (use P in \<open>simp add: loop_state_def\<close>)
  show "same_frame s s'" "propagate_ok s'" by (rule fr, rule ok)
  show "rd_db s' = rd_db s" "rd_recompute_for_items s' = rd_recompute_for_items s"
    using P by (simp_all add: loop_state_def)
  show "rd_results s' = map (\<lambda>r. if state_of_result s (rs_key r) = Some ToBeRecomputed then recompute_row s' r else r) (rd_results s)"
    using P unfolding loop_state_def all mem_Collect_eq by blast
  show "state_of_result s' k = (if state_of_result s k = Some ToBeRecomputed
       then (if row_modified_in s s' k then Some ToBePropagated else None) else state_of_result s k)"
    using P unfolding loop_state_def all mem_Collect_eq by blast
qed

end
