(* ===== verification/ResultsPropagation.thy ===== *)
theory ResultsPropagation
  imports ResultsSpec "HOL-Library.Multiset"
begin

text \<open>
  The propagation loop: what marking the parents and unlocking items do to the marks and the results, that every
  round moves the marks towards the roots of the item graph (so the loop ends), and that the results of chapters are all
  computed from their children when it ends, provided that one chunk takes all marks.  Marks that
  wait for a later chunk can be lost, which \<open>ResultsExamples\<close> shows.
\<close>

section \<open>Marking a chunk\<close>

lemma mark_propagating_keys [simp]: "map fst (mark_propagating n ps) = map fst ps"
  by (induction n ps rule: mark_propagating.induct) auto

lemma mark_propagating_state:
  "map_of (mark_propagating n ps) k = map_of ps k \<or>
   map_of ps k = Some ToBePropagated \<and> map_of (mark_propagating n ps) k = Some Propagating"
  by (induction n ps rule: mark_propagating.induct) auto

lemma mark_propagating_some:
  assumes "0 < n" and "distinct (map fst ps)" and "map_of ps k = Some ToBePropagated"
  shows "\<exists>k'. map_of ps k' = Some ToBePropagated \<and> map_of (mark_propagating n ps) k' = Some Propagating"
  using assms
proof (induction n ps rule: mark_propagating.induct)
  case (1 n)
  then show ?case by simp
next
  case (2 n k0 m ps)
  show ?case
  proof (cases "m = ToBePropagated")
    case True
    with 2(3) show ?thesis by (intro exI [of _ k0]) simp
  next
    case False
    then have "map_of ps k = Some ToBePropagated" using 2(5) by (auto split: if_splits)
    with 2(2,3,4) False obtain k' where k': "map_of ps k' = Some ToBePropagated" "map_of (mark_propagating n ps) k' = Some Propagating"
      by auto
    then have "k' \<noteq> k0" using 2(4) by (force dest: map_of_SomeD)
    with k' False show ?thesis by (intro exI [of _ k']) simp
  qed
qed

lemma mark_propagating_all:
  assumes "length (filter (\<lambda>(k, m). m = ToBePropagated) ps) \<le> n"
  shows "map_of (mark_propagating n ps) k \<noteq> Some ToBePropagated"
  using assms by (induction n ps arbitrary: k rule: mark_propagating.induct) (auto split: if_splits)

definition marks_parent :: "results_db \<Rightarrow> result_row \<Rightarrow> attempt_row \<Rightarrow> items_items_row \<Rightarrow> item_row \<Rightarrow> attempt_row \<Rightarrow> bool" where
  "marks_parent s r a e it b =
     (r \<in> set (rd_results s) \<and> state_of_result s (rs_key r) = Some Propagating \<and>
      a \<in> set (rd_attempts s) \<and> at_key a = (rs_participant r, rs_attempt r) \<and>
      e \<in> set (db_items_items (rd_db s)) \<and> ii_child e = rs_item r \<and> it \<in> set (rd_items s) \<and> it_id it = ii_parent e \<and>
      b \<in> set (rd_attempts s) \<and> at_participant b = rs_participant r \<and> attempt_above a r = Some (at_id b) \<and>
      parent_markable s it b (at_participant b, at_id b, it_id it))"

lemma set_results_to_mark:
  "set (results_to_mark s) = {((at_participant b, at_id b, it_id it), result_exists s (at_participant b, at_id b, it_id it)) |
     r a e it b. marks_parent s r a e it b}"
proof -
  have "x \<in> set (results_to_mark s) \<longleftrightarrow> (\<exists>r a e it b. marks_parent s r a e it b \<and>
      x = ((at_participant b, at_id b, it_id it), result_exists s (at_participant b, at_id b, it_id it)))" for x
    unfolding results_to_mark_def marks_parent_def
    by (simp only: in_concat_if in_singleton) blast
  then show ?thesis by blast
qed

section \<open>Inserting missing results\<close>

interpretation ins: keyed_update rs_key "\<lambda>r. r"
  by unfold_locales simp

lemma new_result_key [simp]: "rs_key (new_result k) = k"
  by (simp add: new_result_def rs_key_def)

lemma insert_result_cases: "insert_result k t = (if tbl_has rs_key k t then t else t @ [new_result k])"
  by (simp add: insert_result_def tbl_upsert_def cong: if_cong)

lemma fold_insert_result:
  "\<exists>new. fold insert_result ks t = t @ map new_result new \<and> distinct new \<and> set new = {k \<in> set ks. \<not> tbl_has rs_key k t}"
proof (induction ks arbitrary: t)
  case Nil
  then show ?case by simp
next
  case (Cons k ks)
  show ?case
  proof (cases "tbl_has rs_key k t")
    case True
    with Cons.IH [of t] show ?thesis by (auto simp: insert_result_cases)
  next
    case False
    from Cons.IH [of "t @ [new_result k]"] obtain new where
      "fold insert_result ks (t @ [new_result k]) = (t @ [new_result k]) @ map new_result new" "distinct new"
      "set new = {j \<in> set ks. \<not> tbl_has rs_key j (t @ [new_result k])}" by blast
    with False show ?thesis by (intro exI [of _ "k # new"]) (simp_all, simp add: insert_result_cases, auto simp: tbl_has_def)
  qed
qed

lemma fold_update_state: "map_of (fold (\<lambda>k. AList.update k v) ks m) k = (if k \<in> set ks then Some v else map_of m k)"
  by (rule map_of_fold_update)

section \<open>The first statements of a round\<close>

text \<open>The keys, the foreign keys of results and marks, and that a result lies within the item its attempt was started on.\<close>

definition tables_ok :: "results_db \<Rightarrow> bool" where
  "tables_ok s =
     (propagate_ok s \<and> tbl_unique at_key (rd_attempts s) \<and>
      (\<forall>r \<in> set (rd_results s). (\<exists>it \<in> set (rd_items s). it_id it = rs_item r) \<and>
         (\<exists>a \<in> set (rd_attempts s). at_key a = (rs_participant r, rs_attempt r) \<and> within_attempt s a (rs_item r))) \<and>
      (\<forall>k. state_of_result s k \<noteq> None \<longrightarrow> result_exists s k))"

definition no_state :: "propagation_state \<Rightarrow> results_db \<Rightarrow> bool" where
  "no_state m s = (\<forall>k. state_of_result s k \<noteq> Some m)"

lemma no_stateD: "no_state m s \<Longrightarrow> state_of_result s k \<noteq> Some m"
  unfolding no_state_def by blast

lemma tables_okD: "tables_ok s \<Longrightarrow> r \<in> set (rd_results s) \<Longrightarrow> (\<exists>it \<in> set (rd_items s). it_id it = rs_item r) \<and>
     (\<exists>a \<in> set (rd_attempts s). at_key a = (rs_participant r, rs_attempt r) \<and> within_attempt s a (rs_item r))"
  unfolding tables_ok_def by blast

lemma tables_ok_mark: "tables_ok s \<Longrightarrow> state_of_result s k \<noteq> None \<Longrightarrow> result_exists s k"
  unfolding tables_ok_def by blast

lemma result_exists_keys: "result_exists s k \<longleftrightarrow> k \<in> rs_key ` set (rd_results s)"
  by (auto simp: result_exists_def tbl_has_def)

definition marking :: "nat \<Rightarrow> results_db \<Rightarrow> results_db" where
  "marking chunk s = s\<lparr>rd_propagate := mark_propagating chunk (rd_propagate s)\<rparr>"

definition marked_keys :: "nat \<Rightarrow> results_db \<Rightarrow> result_key set" where
  "marked_keys chunk s = fst ` set (results_to_mark (marking chunk s))"

lemma mark_parents_results:
  "\<exists>new. rd_results (mark_parents chunk s) = rd_results s @ map new_result new \<and> distinct new \<and>
     set new = {k \<in> marked_keys chunk s. \<not> result_exists s k}"
proof -
  let ?marks = "results_to_mark (marking chunk s)"
  have eq: "rd_results (mark_parents chunk s) = fold insert_result [k. (k, found) \<leftarrow> ?marks, \<not> found] (rd_results s)"
    by (simp add: mark_parents_def marking_def Let_def)
  have found: "found = result_exists s k" if "(k, found) \<in> set ?marks" for k found
    using that by (auto simp: set_results_to_mark result_exists_def marking_def)
  have "set [k. (k, found) \<leftarrow> xs, \<not> found] = {k. (k, False) \<in> set xs}" for xs :: "(result_key \<times> bool) list"
    by (induction xs) auto
  then have "set [k. (k, found) \<leftarrow> ?marks, \<not> found] = {k. (k, False) \<in> set ?marks}" .
  also have "\<dots> = {k \<in> marked_keys chunk s. \<not> result_exists s k}"
    unfolding marked_keys_def using found by force
  finally have missing: "set [k. (k, found) \<leftarrow> ?marks, \<not> found] = {k \<in> marked_keys chunk s. \<not> result_exists s k}" .
  obtain new where new: "rd_results (mark_parents chunk s) = rd_results s @ map new_result new" "distinct new"
    "set new = {k \<in> set [k. (k, found) \<leftarrow> ?marks, \<not> found]. \<not> tbl_has rs_key k (rd_results s)}"
    using fold_insert_result unfolding eq by blast
  from new(3) have "set new = {k \<in> marked_keys chunk s. \<not> result_exists s k}"
    unfolding missing result_exists_def by blast
  with new(1,2) show ?thesis by blast
qed

lemma mark_parents_state:
  "state_of_result (mark_parents chunk s) k =
     (if k \<in> marked_keys chunk s then Some ToBeRecomputed else state_of_result (marking chunk s) k)"
  by (simp add: mark_parents_def marked_keys_def marking_def Let_def fold_update_state)

lemma mark_parents_frame [simp]: "rd_db (mark_parents chunk s) = rd_db s" "same_frame s (mark_parents chunk s)"
  "rd_recompute_for_items (mark_parents chunk s) = rd_recompute_for_items s"
  by (simp_all add: mark_parents_def Let_def same_frame_def)

lemma marking_frame [simp]: "rd_results (marking chunk s) = rd_results s" "rd_attempts (marking chunk s) = rd_attempts s"
  "rd_items (marking chunk s) = rd_items s" "rd_db (marking chunk s) = rd_db s"
  by (simp_all add: marking_def)

lemma marking_state:
  "state_of_result (marking chunk s) k = state_of_result s k \<or>
   state_of_result s k = Some ToBePropagated \<and> state_of_result (marking chunk s) k = Some Propagating"
  using mark_propagating_state by (simp add: marking_def)

text \<open>Where a marked key comes from.\<close>

lemma marked_key_origin:
  assumes "k \<in> marked_keys chunk s"
  obtains r a e it b where "r \<in> set (rd_results s)" "state_of_result (marking chunk s) (rs_key r) = Some Propagating"
    "a \<in> set (rd_attempts s)" "at_key a = (rs_participant r, rs_attempt r)"
    "e \<in> set (db_items_items (rd_db s))" "ii_child e = rs_item r" "it \<in> set (rd_items s)" "it_id it = ii_parent e"
    "b \<in> set (rd_attempts s)" "at_participant b = rs_participant r" "attempt_above a r = Some (at_id b)"
    "k = (at_participant b, at_id b, it_id it)" "parent_markable (marking chunk s) it b k"
  using assms unfolding marked_keys_def set_results_to_mark marks_parent_def by auto

lemma within_attempt_frame: "same_frame s s' \<Longrightarrow> within_attempt s' a i = within_attempt s a i"
  by (simp add: within_attempt_def same_frame_def split: option.split)

lemma mark_parents_tables_ok:
  assumes "tables_ok s"
  shows "tables_ok (mark_parents chunk s)"
proof -
  let ?s = "mark_parents chunk s"
  obtain new where new: "rd_results ?s = rd_results s @ map new_result new" "distinct new"
    "set new = {k \<in> marked_keys chunk s. \<not> result_exists s k}" using mark_parents_results by blast
  have ok: "propagate_ok s" "tbl_unique at_key (rd_attempts s)"
    and fk: "\<And>r. r \<in> set (rd_results s) \<Longrightarrow> (\<exists>it \<in> set (rd_items s). it_id it = rs_item r) \<and>
         (\<exists>a \<in> set (rd_attempts s). at_key a = (rs_participant r, rs_attempt r) \<and> within_attempt s a (rs_item r))"
    and marks: "\<And>k. state_of_result s k \<noteq> None \<Longrightarrow> result_exists s k"
    using assms unfolding tables_ok_def by blast+
  have fr: "rd_items ?s = rd_items s" "rd_attempts ?s = rd_attempts s"
    using mark_parents_frame(2) [of s chunk] by (simp_all add: same_frame_def)
  have exists: "result_exists ?s k \<longleftrightarrow> result_exists s k \<or> k \<in> set new" for k
    by (auto simp: result_exists_def tbl_has_def new(1) bex_Un)
  have "tbl_unique rs_key (rd_results ?s)"
    using ok(1) new(2,3) by (auto simp: propagate_ok_def tbl_unique_def new(1) comp_def result_exists_def tbl_has_def)
  moreover have "distinct (map fst (rd_propagate ?s))"
    using ok(1) by (simp add: mark_parents_def Let_def propagate_ok_def distinct_fold_update)
  moreover have "state_of_result ?s k \<noteq> Some Recomputing" for k
  proof -
    have "state_of_result s k \<noteq> Some Recomputing" using ok(1) unfolding propagate_ok_def by blast
    with marking_state [of chunk s k] show ?thesis unfolding mark_parents_state by auto
  qed
  ultimately have "propagate_ok ?s" unfolding propagate_ok_def by blast
  moreover have "(\<exists>it \<in> set (rd_items s). it_id it = rs_item r) \<and>
      (\<exists>a \<in> set (rd_attempts s). at_key a = (rs_participant r, rs_attempt r) \<and> within_attempt s a (rs_item r))"
    if r: "r \<in> set (rd_results ?s)" for r
  proof (cases "r \<in> set (rd_results s)")
    case True
    then show ?thesis by (rule fk)
  next
    case False
    then obtain k where k: "k \<in> set new" "r = new_result k" using r new(1) by auto
    then have "k \<in> marked_keys chunk s" "\<not> result_exists s k" using new(3) by auto
    then obtain it b where ib: "it \<in> set (rd_items s)" "b \<in> set (rd_attempts s)" "k = (at_participant b, at_id b, it_id it)"
      "parent_markable (marking chunk s) it b k" by (auto elim: marked_key_origin)
    then have "within_attempt (marking chunk s) b (it_id it)"
      using \<open>\<not> result_exists s k\<close> by (auto simp: parent_markable_def Let_def result_exists_def)
    then have "within_attempt s b (it_id it)" by (simp add: within_attempt_def marking_def split: option.splits)
    with ib(1-3) k(2) show ?thesis by (auto simp: new_result_def at_key_def)
  qed
  moreover have "result_exists ?s k" if "state_of_result ?s k \<noteq> None" for k
    using that marks [of k] marking_state [of chunk s k] unfolding exists new(3) mark_parents_state by (auto split: if_splits)
  ultimately show ?thesis
    using ok(2) within_attempt_frame [OF mark_parents_frame(2)] unfolding tables_ok_def fr by blast
qed

section \<open>Unlocking\<close>

lemma upsert_permissions_granted_frame:
  "db_items_items (upsert_permissions_granted upd r d) = db_items_items d"
  "db_items_ancestors (upsert_permissions_granted upd r d) = db_items_ancestors d"
  "db_now (upsert_permissions_granted upd r d) = db_now d"
  by (simp_all add: upsert_permissions_granted_def Let_def mark_permission_self_def)

lemma fold_unlock_item_frame:
  "db_items_items (fst (fold unlock_item us dn)) = db_items_items (fst dn)"
  "db_items_ancestors (fst (fold unlock_item us dn)) = db_items_ancestors (fst dn)"
  by (induction us arbitrary: dn) (auto simp: unlock_item_def Let_def upsert_permissions_granted_frame split: prod.splits)

lemma unlock_items_effect:
  assumes "unlock_items participant s = (s', n, js)"
  shows "same_frame s s'" "rd_results s' = rd_results s" "rd_recompute_for_items s' = rd_recompute_for_items s"
    "rd_propagate s' = filter (\<lambda>(k, m). m \<noteq> Propagating) (rd_propagate s)"
proof -
  obtain d m where f: "fold unlock_item (items_to_unlock s) (rd_db s, 0) = (d, m)"
    by (cases "fold unlock_item (items_to_unlock s) (rd_db s, 0)")
  then have "s' = s\<lparr>rd_db := d, rd_propagate := filter (\<lambda>(k, m). m \<noteq> Propagating) (rd_propagate s)\<rparr>"
    using assms by (simp add: unlock_items_def Let_def)
  with fold_unlock_item_frame [of "items_to_unlock s" "(rd_db s, 0)"] f
  show "same_frame s s'" "rd_results s' = rd_results s" "rd_recompute_for_items s' = rd_recompute_for_items s"
    "rd_propagate s' = filter (\<lambda>(k, m). m \<noteq> Propagating) (rd_propagate s)"
    by (simp_all add: same_frame_def)
qed

lemma unlock_items_state:
  assumes "unlock_items participant s = (s', n, js)" and "distinct (map fst (rd_propagate s))"
  shows "state_of_result s' k = (if state_of_result s k = Some Propagating then None else state_of_result s k)"
  unfolding unlock_items_effect(4) [OF assms(1)] map_of_filter_value [OF assms(2)] by (auto split: option.split)

lemma unlock_items_tables_ok:
  assumes "unlock_items participant s = (s', n, js)" and "tables_ok s"
  shows "tables_ok s'"
proof -
  note eff = unlock_items_effect [OF assms(1)]
  have d: "distinct (map fst (rd_propagate s))" using assms(2) by (simp add: tables_ok_def propagate_ok_def)
  note state = unlock_items_state [OF assms(1) d]
  have "propagate_ok s'"
    using assms(2) d eff(2,4) distinct_filter_keys [OF d] unfolding tables_ok_def propagate_ok_def by (simp add: state)
  moreover have "result_exists s' k = result_exists s k" for k by (simp add: result_exists_def eff(2))
  ultimately show ?thesis
    using assms(2) eff(1,2) within_attempt_frame [OF eff(1)] unfolding tables_ok_def state same_frame_def by auto
qed

section \<open>A round\<close>

definition round_start :: "results_db \<Rightarrow> bool" where
  "round_start s = (tables_ok s \<and> no_state Propagating s)"

text \<open>After unlocking, the first statements of a round leave these marks.\<close>

lemma opening_state:
  assumes "round_start s" and "unlock_items participant (mark_parents chunk s) = (s1, n, js)"
  shows "state_of_result s1 k = (if k \<in> marked_keys chunk s then Some ToBeRecomputed
     else if state_of_result (marking chunk s) k = Some Propagating then None else state_of_result s k)"
proof -
  have "distinct (map fst (rd_propagate (mark_parents chunk s)))"
    using mark_parents_tables_ok assms(1) unfolding round_start_def tables_ok_def propagate_ok_def by blast
  note state = unlock_items_state [OF assms(2) this]
  have "state_of_result s k \<noteq> Some Propagating" using assms(1) unfolding round_start_def no_state_def by blast
  then show ?thesis using marking_state [of chunk s k] unfolding state mark_parents_state by auto
qed

lemma opening_round_start:
  assumes "round_start s" and "unlock_items participant (mark_parents chunk s) = (s1, n, js)"
  shows "round_start s1"
proof -
  have "tables_ok s1"
    using unlock_items_tables_ok [OF assms(2) mark_parents_tables_ok] assms(1) by (simp add: round_start_def)
  moreover have "state_of_result s1 k \<noteq> Some Propagating" for k
    using no_stateD [of Propagating s k] assms(1) unfolding opening_state [OF assms] round_start_def by auto
  ultimately show ?thesis unfolding round_start_def no_state_def by blast
qed

lemma opening_frame:
  assumes "unlock_items participant (mark_parents chunk s) = (s1, n, js)"
  shows "same_frame s s1"
  by (rule same_frame_trans [OF mark_parents_frame(2) unlock_items_effect(1) [OF assms]])

lemma recompute_marked_round_start:
  assumes "round_start s" and "ranked rank s" and "0 < chunk"
  shows "round_start (recompute_marked chunk s)" "no_state ToBeRecomputed (recompute_marked chunk s)"
proof -
  let ?s = "recompute_marked chunk s"
  have ok: "propagate_ok s" using assms(1) by (simp add: round_start_def tables_ok_def)
  note spec = recompute_marked_spec [OF ok assms(2,3) refl]
  have "map rs_key (rd_results ?s) = map rs_key (rd_results s)"
    unfolding spec(5) map_map comp_def if_distrib [where f = rs_key] recompute_row_key if_cancel by (rule refl)
  then have keys: "rs_key ` set (rd_results ?s) = rs_key ` set (rd_results s)" by (metis set_map)
  then have exists: "result_exists ?s k = result_exists s k" for k by (simp add: result_exists_keys)
  have fr: "rd_items ?s = rd_items s" "rd_attempts ?s = rd_attempts s" using spec(1) by (simp_all add: same_frame_def)
  have "(\<exists>it \<in> set (rd_items s). it_id it = rs_item r) \<and>
      (\<exists>a \<in> set (rd_attempts s). at_key a = (rs_participant r, rs_attempt r) \<and> within_attempt ?s a (rs_item r))"
    if "r \<in> set (rd_results ?s)" for r
  proof -
    from that keys obtain r0 where "r0 \<in> set (rd_results s)" "rs_key r0 = rs_key r" by (metis imageE imageI)
    moreover from this have "rs_item r0 = rs_item r" "rs_participant r0 = rs_participant r" "rs_attempt r0 = rs_attempt r"
      by (simp_all add: rs_key_def)
    ultimately show ?thesis
      using tables_okD [of s r0] assms(1) unfolding within_attempt_frame [OF spec(1)] round_start_def by simp
  qed
  moreover have "result_exists ?s k" if "state_of_result ?s k \<noteq> None" for k
  proof -
    have "state_of_result s k \<noteq> None" using that unfolding spec(6) by (auto split: if_splits)
    then show ?thesis using tables_ok_mark assms(1) unfolding exists round_start_def by blast
  qed
  ultimately have "tables_ok ?s"
    using spec(4) assms(1) unfolding tables_ok_def fr round_start_def by blast
  moreover have "state_of_result ?s k \<noteq> Some Propagating" "state_of_result ?s k \<noteq> Some ToBeRecomputed" for k
    using no_stateD [of Propagating s k] assms(1) unfolding spec(6) round_start_def by auto
  ultimately show "round_start ?s" "no_state ToBeRecomputed ?s" unfolding round_start_def no_state_def by blast+
qed

section \<open>Termination\<close>

definition pending :: "results_db \<Rightarrow> result_key set" where
  "pending s = {k. state_of_result s k = Some ToBePropagated}"

lemma finite_pending: "finite (pending s)"
proof (rule finite_subset)
  show "pending s \<subseteq> fst ` set (rd_propagate s)" unfolding pending_def by (force dest: map_of_SomeD)
qed simp

definition pending_ranks :: "(id \<Rightarrow> nat) \<Rightarrow> results_db \<Rightarrow> nat multiset" where
  "pending_ranks rank s = image_mset (key_rank rank) (mset_set (pending s))"

text \<open>A round takes some of the waiting marks and adds marks with smaller ranks only.\<close>

lemma ranks_decrease:
  assumes "pending s' \<subseteq> (pending s - T) \<union> N" and "T \<subseteq> pending s" and "T \<noteq> {}"
    and "\<And>k. k \<in> N \<Longrightarrow> \<exists>t \<in> T. key_rank rank k < key_rank rank t"
  shows "(pending_ranks rank s', pending_ranks rank s) \<in> mult {(x, y). x < y}"
proof -
  let ?I = "pending s' \<inter> (pending s - T)" and ?K = "pending s' - (pending s - T)" and ?J = "pending s - (pending s' \<inter> (pending s - T))"
  let ?f = "\<lambda>A. image_mset (key_rank rank) (mset_set A)"
  have fin: "finite (pending s)" "finite (pending s')" by (rule finite_pending)+
  have split: "?f (A \<union> B) = ?f A + ?f B" if "finite A" "finite B" "A \<inter> B = {}" for A B
    using mset_set_Union [OF that] by simp
  have "pending s = ?I \<union> ?J" "pending s' = ?I \<union> ?K" by blast+
  moreover have "?f (?I \<union> ?J) = ?f ?I + ?f ?J" "?f (?I \<union> ?K) = ?f ?I + ?f ?K"
    by (rule split; use fin in blast)+
  ultimately have eq: "pending_ranks rank s = ?f ?I + ?f ?J" "pending_ranks rank s' = ?f ?I + ?f ?K"
    unfolding pending_ranks_def by simp_all
  have "T \<subseteq> ?J" using assms(2) by blast
  then have "?J \<noteq> {}" and TJ: "\<And>t. t \<in> T \<Longrightarrow> key_rank rank t \<in># ?f ?J" using assms(3) fin by auto
  then have "?f ?J \<noteq> {#}" using fin by (simp add: mset_set_empty_iff)
  moreover have "\<forall>x \<in># ?f ?K. \<exists>y \<in># ?f ?J. (x, y) \<in> {(x, y). x < y}"
  proof
    fix x assume "x \<in># ?f ?K"
    then obtain k where "k \<in> ?K" "x = key_rank rank k" using fin by auto
    moreover from this(1) assms(1) have "k \<in> N" by blast
    ultimately show "\<exists>y \<in># ?f ?J. (x, y) \<in> {(x, y). x < y}" using assms(4) TJ by blast
  qed
  ultimately show ?thesis unfolding eq by (rule one_step_implies_mult)
qed

lemma no_marks_left:
  assumes "round_start s" and "no_state ToBeRecomputed s" and "pending s = {}"
  shows "rd_propagate s = []"
proof -
  have "state_of_result s k = None" for k
  proof (cases "state_of_result s k")
    case (Some m)
    moreover have "state_of_result s k \<noteq> Some Recomputing"
      using assms(1) unfolding round_start_def tables_ok_def propagate_ok_def by blast
    moreover have "state_of_result s k \<noteq> Some ToBePropagated" using assms(3) unfolding pending_def by blast
    ultimately show ?thesis
      using no_stateD [OF assms(2), of k] no_stateD [of Propagating s k] assms(1) by (cases m) (auto simp: round_start_def)
  qed simp
  then have "map_of (rd_propagate s) = Map.empty" by blast
  then show ?thesis by simp
qed

text \<open>A round without marks to recompute at its start lowers the ranks of the waiting marks.\<close>

lemma round_decreases:
  assumes "round_start s" and "ranked rank s" and "no_state ToBeRecomputed s" and "0 < c1" and "0 < c2"
    and "unlock_items participant (mark_parents c1 s) = (s1, n, js)" and "rd_propagate s1 \<noteq> []"
  shows "(pending_ranks rank (recompute_marked c2 s1), pending_ranks rank s) \<in> mult {(x, y). x < y}"
proof -
  let ?s = "recompute_marked c2 s1" and ?T = "{k. state_of_result (marking c1 s) k = Some Propagating}"
  note open1 = opening_state [OF assms(1,6)]
  have rs1: "round_start s1" by (rule opening_round_start [OF assms(1,6)])
  have rk1: "ranked rank s1" using assms(2) ranked_frame [OF opening_frame [OF assms(6)]] by simp
  have "propagate_ok s1" using rs1 by (simp add: round_start_def tables_ok_def)
  note spec = recompute_marked_spec [OF this rk1 assms(5) refl]
  have T: "?T \<subseteq> pending s"
  proof
    fix k assume "k \<in> ?T"
    moreover have "state_of_result s k \<noteq> Some Propagating" using no_stateD assms(1) by (simp add: round_start_def)
    ultimately show "k \<in> pending s" using marking_state [of c1 s k] unfolding pending_def by auto
  qed
  have sub: "pending ?s \<subseteq> (pending s - ?T) \<union> marked_keys c1 s"
  proof
    fix k assume "k \<in> pending ?s"
    then have "state_of_result s1 k = Some ToBeRecomputed \<or> state_of_result s1 k = Some ToBePropagated"
      unfolding pending_def mem_Collect_eq spec(6) by (auto split: if_splits)
    with no_stateD [OF assms(3), of k] show "k \<in> (pending s - ?T) \<union> marked_keys c1 s"
      unfolding open1 pending_def by (auto split: if_splits)
  qed
  have ne: "?T \<noteq> {}"
  proof
    assume "?T = {}"
    have none: "marked_keys c1 s = {}"
    proof (rule ccontr)
      assume "marked_keys c1 s \<noteq> {}"
      then obtain k where "k \<in> marked_keys c1 s" by blast
      from marked_key_origin [OF this] obtain r where "state_of_result (marking c1 s) (rs_key r) = Some Propagating" by metis
      with \<open>?T = {}\<close> show False by blast
    qed
    have "pending s = {}"
    proof (rule ccontr)
      assume "pending s \<noteq> {}"
      then obtain k where "state_of_result s k = Some ToBePropagated" unfolding pending_def by blast
      moreover have "distinct (map fst (rd_propagate s))" using assms(1) by (simp add: round_start_def tables_ok_def propagate_ok_def)
      ultimately have "\<exists>k'. state_of_result (marking c1 s) k' = Some Propagating"
        using mark_propagating_some [OF assms(4)] unfolding marking_def by simp blast
      with \<open>?T = {}\<close> show False by blast
    qed
    then have "rd_propagate s = []" by (rule no_marks_left [OF assms(1,3)])
    then have "state_of_result s1 k = None" for k unfolding open1 none by simp
    then have "map_of (rd_propagate s1) = Map.empty" by blast
    with assms(7) show False by simp
  qed
  have "\<exists>t \<in> ?T. key_rank rank k < key_rank rank t" if k: "k \<in> marked_keys c1 s" for k
  proof -
    from k obtain r e where "state_of_result (marking c1 s) (rs_key r) = Some Propagating" "e \<in> set (db_items_items (rd_db s))"
      "ii_child e = rs_item r" "snd (snd k) = ii_parent e" by (auto elim!: marked_key_origin)
    with assms(2) show ?thesis
      unfolding ranked_def by (intro bexI [of _ "rs_key r"]) (auto simp: key_rank_def rs_key_def)
  qed
  then show ?thesis by (rule ranks_decrease [OF sub T ne])
qed

text \<open>The loop ends, and what every round keeps holds where it ends.\<close>

lemma propagate_loop_rule:
  assumes "round_start s" and "ranked rank s" and "0 < c1" and "0 < c2" and "I n s"
    and step: "\<And>s s1 n m js. round_start s \<Longrightarrow> ranked rank s \<Longrightarrow> I n s \<Longrightarrow>
      unlock_items participant (mark_parents c1 s) = (s1, m, js) \<Longrightarrow> I (n + m) (recompute_marked c2 s1)"
  shows "\<exists>s0 s' n0 m js is'. round_start s0 \<and> ranked rank s0 \<and> I n0 s0 \<and>
    unlock_items participant (mark_parents c1 s0) = (s', m, js) \<and> rd_propagate s' = [] \<and>
    propagate_loop c1 c2 participant n is s = Some (s', n0 + m, is')"
proof -
  let ?goal = "\<lambda>s n is. \<exists>s0 s' n0 m js is'. round_start s0 \<and> ranked rank s0 \<and> I n0 s0 \<and>
    unlock_items participant (mark_parents c1 s0) = (s', m, js) \<and> rd_propagate s' = [] \<and>
    propagate_loop c1 c2 participant n is s = Some (s', n0 + m, is')"
  have one: "?goal s n is"
    if s: "round_start s" "ranked rank s" "I n s"
      and rest: "\<And>s1 m js is. unlock_items participant (mark_parents c1 s) = (s1, m, js) \<Longrightarrow> rd_propagate s1 \<noteq> [] \<Longrightarrow>
        ?goal (recompute_marked c2 s1) (n + m) is" for s n "is"
  proof -
    obtain s1 m js where u: "unlock_items participant (mark_parents c1 s) = (s1, m, js)"
      by (cases "unlock_items participant (mark_parents c1 s)")
    show ?thesis
    proof (cases "rd_propagate s1 = []")
      case True
      with u have "propagate_loop c1 c2 participant n is s = Some (s1, n + m, is @ js)"
        by (subst propagate_loop.simps) simp
      with s u True show ?thesis by blast
    next
      case False
      with u have "propagate_loop c1 c2 participant n is s = propagate_loop c1 c2 participant (n + m) (is @ js) (recompute_marked c2 s1)"
        by (subst propagate_loop.simps) simp
      with rest [OF u False] show ?thesis by simp
    qed
  qed
  have next_round: "round_start (recompute_marked c2 s1)" "no_state ToBeRecomputed (recompute_marked c2 s1)"
      "ranked rank (recompute_marked c2 s1)"
    if "round_start s" "ranked rank s" "unlock_items participant (mark_parents c1 s) = (s1, m, js)" for s s1 m js
  proof -
    have "round_start s1" "ranked rank s1"
      using opening_round_start [OF that(1,3)] that(2) ranked_frame [OF opening_frame [OF that(3)]] by simp_all
    note n = recompute_marked_round_start [OF this assms(4)]
    show "round_start (recompute_marked c2 s1)" "no_state ToBeRecomputed (recompute_marked c2 s1)" by (rule n)+
    have "propagate_ok s1" using \<open>round_start s1\<close> by (simp add: round_start_def tables_ok_def)
    from recompute_marked_spec(1) [OF this \<open>ranked rank s1\<close> assms(4) refl]
    show "ranked rank (recompute_marked c2 s1)" using \<open>ranked rank s1\<close> ranked_frame by blast
  qed
  have wf: "wf (mult {(x :: nat, y). x < y})" by (intro wf_mult wf)
  have no_marks: "?goal s n is" if "round_start s" "ranked rank s" "I n s" "no_state ToBeRecomputed s" for s n "is"
    using that
  proof (induction "pending_ranks rank s" arbitrary: s n "is" rule: wf_induct_rule [OF wf])
    case 1
    show ?case
    proof (rule one [OF 1(2-4)])
      fix s1 m js "is"
      assume u: "unlock_items participant (mark_parents c1 s) = (s1, m, js)" and ne: "rd_propagate s1 \<noteq> []"
      note nr = next_round [OF 1(2,3) u]
      show "?goal (recompute_marked c2 s1) (n + m) is"
        by (rule 1(1) [OF round_decreases [OF 1(2,3,5) assms(3,4) u ne] nr(1,3) step [OF 1(2-4) u] nr(2)])
    qed
  qed
  show ?thesis
  proof (rule one [OF assms(1,2,5)])
    fix s1 m js "is"
    assume u: "unlock_items participant (mark_parents c1 s) = (s1, m, js)"
    note nr = next_round [OF assms(1,2) u]
    show "?goal (recompute_marked c2 s1) (n + m) is"
      by (rule no_marks [OF nr(1,3) step [OF assms(1,2,5) u] nr(2)])
  qed
qed

end
