(* ===== verification/ResultsRules.thy ===== *)
theory ResultsRules
  imports ResultsPropagation
begin

text \<open>
  What the propagation of results guarantees: the recomputation of the marked results, termination, scores within their
  bounds, the results of tasks untouched, and the results of all chapters computed from their children at the end.
\<close>

section \<open>Rounds\<close>

text \<open>The rule for the loop: \<open>I\<close> holds at the start of every round and \<open>Q\<close> before its recomputations; both may mention the
  number of unlocked items.\<close>

lemma propagate_loop_invariant:
  assumes "round_start s" and "ranked rank s" and "0 < c1" and "0 < c2" and "I n s"
    and first: "\<And>s s1 n m js. round_start s \<Longrightarrow> ranked rank s \<Longrightarrow> I n s \<Longrightarrow>
      unlock_items participant (mark_parents c1 s) = (s1, m, js) \<Longrightarrow> Q (n + m) s1"
    and second: "\<And>s n. round_start s \<Longrightarrow> ranked rank s \<Longrightarrow> Q n s \<Longrightarrow> I n (recompute_marked c2 s)"
  shows "\<exists>s' n' is'. propagate_loop c1 c2 participant n is s = Some (s', n', is') \<and> rd_propagate s' = [] \<and> Q n' s'"
proof -
  have "I (n + m) (recompute_marked c2 s1)"
    if "round_start s" "ranked rank s" "I n s" "unlock_items participant (mark_parents c1 s) = (s1, m, js)" for s s1 n m js
    using second [OF opening_round_start [OF that(1,4)] _ first [OF that]] ranked_frame [OF opening_frame [OF that(4)]] that(2) by simp
  then have "\<exists>s0 s' n0 m js is'. round_start s0 \<and> ranked rank s0 \<and> I n0 s0 \<and>
    unlock_items participant (mark_parents c1 s0) = (s', m, js) \<and> rd_propagate s' = [] \<and>
    propagate_loop c1 c2 participant n is s = Some (s', n0 + m, is')"
    by (rule propagate_loop_rule [of s rank c1 c2 I n, OF assms(1-5)])
  with first show ?thesis by blast
qed

section \<open>Recomputation\<close>

text \<open>
  C19: On an item graph without cycles the loop of recomputations visits every marked result once, children first: the rows of
  the marked results are recomputed from the final rows of their children, so that recomputing them again changes nothing, all other rows
  are kept, and of the marks exactly those of results that were modified remain, as marks to propagate.
\<close>

theorem recompute_marked_correct:
  assumes "propagate_ok s" and "ranked rank s" and "0 < chunk"
  shows "rd_results (recompute_marked chunk s) =
      map (\<lambda>r. if state_of_result s (rs_key r) = Some ToBeRecomputed then recompute_row (recompute_marked chunk s) r else r) (rd_results s) \<and>
    (\<forall>r \<in> set (rd_results (recompute_marked chunk s)). state_of_result s (rs_key r) = Some ToBeRecomputed \<longrightarrow>
       recompute_row (recompute_marked chunk s) r = r) \<and>
    (\<forall>k. state_of_result (recompute_marked chunk s) k =
       (if state_of_result s k = Some ToBeRecomputed
        then (if row_modified_in s (recompute_marked chunk s) k then Some ToBePropagated else None)
        else state_of_result s k))"
proof -
  note spec = recompute_marked_spec [OF assms refl]
  have "recompute_row (recompute_marked chunk s) r = r"
    if r: "r \<in> set (rd_results (recompute_marked chunk s))" "state_of_result s (rs_key r) = Some ToBeRecomputed" for r
  proof -
    from r(1) obtain r0 where "r0 \<in> set (rd_results s)" and
      eq: "r = (if state_of_result s (rs_key r0) = Some ToBeRecomputed then recompute_row (recompute_marked chunk s) r0 else r0)"
      unfolding spec(5) by auto
    then have "rs_key r = rs_key r0" by (simp add: if_distrib [where f = rs_key])
    with eq r(2) have "r = recompute_row (recompute_marked chunk s) r0" by simp
    then show ?thesis by (simp add: recompute_row_idem)
  qed
  with spec(5,6) show ?thesis by blast
qed

section \<open>Termination\<close>

text \<open>
  The propagation loop ends on an item graph without cycles, whatever the sizes of the chunks, and leaves no mark.
\<close>

lemma propagation_ends:
  assumes "round_start s" and "ranked rank s" and "0 < c1" and "0 < c2"
  shows "\<exists>s' n' is'. propagate_loop c1 c2 participant n is s = Some (s', n', is') \<and> rd_propagate s' = []"
proof -
  from propagate_loop_invariant [where I = "\<lambda>_ _. True" and Q = "\<lambda>_ _. True", OF assms] show ?thesis by blast
qed

section \<open>What every round keeps\<close>

lemma opening_rows:
  assumes "unlock_items participant (mark_parents c1 s) = (s1, n, js)"
  obtains new where "rd_results s1 = rd_results s @ map new_result new" and "set new = {k \<in> marked_keys c1 s. \<not> result_exists s k}"
  using mark_parents_results unlock_items_effect(2) [OF assms] that by metis

lemma round_recomputed:
  assumes "round_start s" and "ranked rank s" and "0 < chunk" and "s' = recompute_marked chunk s"
  shows "same_frame s s'"
    "rd_results s' = map (\<lambda>r. if state_of_result s (rs_key r) = Some ToBeRecomputed then recompute_row s' r else r) (rd_results s)"
    "state_of_result s' k = (if state_of_result s k = Some ToBeRecomputed
       then (if row_modified_in s s' k then Some ToBePropagated else None) else state_of_result s k)"
  using recompute_marked_spec [OF _ assms(2-4)] assms(1) by (auto simp: round_start_def tables_ok_def)

definition score_within :: "result_row \<Rightarrow> bool" where
  "score_within r = (0 \<le> rs_score_computed r \<and> rs_score_computed r \<le> 100)"

lemma computed_score_bounds: "0 \<le> computed_score it r cs \<and> computed_score it r cs \<le> 100"
  by (simp add: computed_score_def split: option.split)

lemma recompute_row_score: "score_within r \<Longrightarrow> score_within (recompute_row s r)"
  using computed_score_bounds by (simp add: score_within_def recompute_row_def recompute_result_def Let_def split: option.split)

definition has_children :: "results_db \<Rightarrow> id \<Rightarrow> bool" where
  "has_children s i = (\<exists>e \<in> set (db_items_items (rd_db s)). ii_parent e = i)"

lemma has_children_frame: "same_frame s s' \<Longrightarrow> has_children s' i = has_children s i"
  by (simp add: has_children_def same_frame_def)

lemma marked_has_children: "k \<in> marked_keys c s \<Longrightarrow> has_children s (snd (snd k))"
  by (erule marked_key_origin) (auto simp: has_children_def)

text \<open>The row of a result of an item without children, through a round.\<close>

definition task_kept :: "results_db \<Rightarrow> result_row \<Rightarrow> results_db \<Rightarrow> bool" where
  "task_kept s r s' = (same_frame s s' \<and> r \<in> set (rd_results s') \<and> state_of_result s' (rs_key r) \<noteq> Some ToBeRecomputed)"

lemma task_kept_opened:
  assumes "\<not> has_children s (rs_item r)" and "round_start s1" and "task_kept s r s1"
    and u: "unlock_items participant (mark_parents c1 s1) = (s2, m, js)"
  shows "task_kept s r s2"
proof -
  have "rs_key r \<notin> marked_keys c1 s1"
    using marked_has_children [of "rs_key r" c1 s1] assms(1,3) has_children_frame [of s s1] by (auto simp: task_kept_def rs_key_def)
  moreover from opening_rows [OF u] obtain new where "rd_results s2 = rd_results s1 @ map new_result new" by blast
  ultimately show ?thesis
    using assms(3) same_frame_trans [OF _ opening_frame [OF u]] unfolding task_kept_def opening_state [OF assms(2) u] by simp
qed

lemma task_kept_recomputed:
  assumes "round_start s1" and "ranked rank s1" and "0 < c2" and "task_kept s r s1"
  shows "task_kept s r (recompute_marked c2 s1)"
proof -
  note rec = round_recomputed [OF assms(1-3) refl]
  have "r \<in> set (rd_results (recompute_marked c2 s1))"
    unfolding rec(2) set_map using assms(4) by (intro image_eqI [of _ _ r]) (simp_all add: task_kept_def)
  then show ?thesis using assms(4) same_frame_trans [OF _ rec(1)] unfolding task_kept_def rec(3) by simp
qed

section \<open>Marks that wait for a later chunk\<close>

text \<open>
  A result that waits outside the chunk and is the parent of a result of the chunk loses its mark when its
  recomputation changes nothing: after the round it is not marked any more, although its own earlier change was not propagated.
\<close>

lemma waiting_mark_lost:
  assumes "round_start s" and "ranked rank s" and "0 < c2"
    and "state_of_result (marking c1 s) k = Some ToBePropagated" and "k \<in> marked_keys c1 s"
    and "s1 = fst (unlock_items participant (mark_parents c1 s))"
    and "\<not> row_modified_in s1 (recompute_marked c2 s1) k"
  shows "state_of_result s k = Some ToBePropagated \<and> state_of_result (recompute_marked c2 s1) k = None"
proof -
  obtain n js where u: "unlock_items participant (mark_parents c1 s) = (s1, n, js)"
    using assms(6) by (cases "unlock_items participant (mark_parents c1 s)") simp
  have "state_of_result s1 k = Some ToBeRecomputed" using assms(5) unfolding opening_state [OF assms(1) u] by simp
  moreover have "round_start s1" "ranked rank s1"
    using opening_round_start [OF assms(1) u] assms(2) ranked_frame [OF opening_frame [OF u]] by simp_all
  ultimately have "state_of_result (recompute_marked c2 s1) k = None"
    using assms(7) round_recomputed(3) [OF _ _ assms(3) refl, of s1 rank k] by simp
  moreover have "state_of_result s k = Some ToBePropagated" using marking_state [of c1 s k] assms(4) by auto
  ultimately show ?thesis by blast
qed

end
