(* ===== verification/ResultsUnlocking.thy ===== *)
theory ResultsUnlocking
  imports ResultsRules
begin

text \<open>
  Unlocking items: reached dependencies become grants, no grant is lowered, the permissions stay consistent up to their
  marks, and the recursion of the propagation after an unlocking ends: every further run unlocks a pair of a
  participant and an item that was locked.
\<close>

section \<open>Unlocked pairs\<close>

definition unlocked :: "db \<Rightarrow> id \<Rightarrow> item_row \<Rightarrow> bool" where
  "unlocked d p it =
     (case tbl_find pg_key (p, it_id it, p, ItemUnlocking) (db_permissions_granted d) of
        None \<Rightarrow> False | Some g \<Rightarrow> already_unlocked (db_now d) it g)"

lemma unlocked_alt: "unlocked d p it \<longleftrightarrow>
   (\<exists>g. tbl_find pg_key (p, it_id it, p, ItemUnlocking) (db_permissions_granted d) = Some g \<and> already_unlocked (db_now d) it g)"
  by (simp add: unlocked_def split: option.split)

interpretation unl: keyed_update pg_key "unlock_update now view enter_from"
  by unfold_locales (simp add: pg_key_def unlock_update_def)

lemma content_level [simp]: "content_level = 3"
  by code_simp

lemma already_unlocked_alt:
  "already_unlocked now it g \<longleftrightarrow> (if it_requires_explicit_entry it then pg_can_enter_from g \<le> now \<and> pg_can_enter_until g = max_time
     else content_level \<le> pg_can_view g)"
  by (auto simp: already_unlocked_def)

lemma already_unlocked_update: "already_unlocked now it g \<Longrightarrow> already_unlocked now it (unlock_update now view t g)"
  by (auto simp: already_unlocked_alt unlock_update_def split: if_splits)

text \<open>The entry of the temporary table for a participant and an item.\<close>

definition unlock_entry :: "time \<Rightarrow> id \<Rightarrow> item_row \<Rightarrow> id \<times> id \<times> nat \<times> time" where
  "unlock_entry now p it = (p, it_id it, if it_requires_explicit_entry it then 1 else content_level,
     if it_requires_explicit_entry it then now else max_time)"

lemma set_items_to_unlock:
  assumes "tbl_unique pg_key (db_permissions_granted (rd_db s))"
  shows "u \<in> set (items_to_unlock s) \<longleftrightarrow>
    (\<exists>r dp it. r \<in> set (rd_results s) \<and> state_of_result s (rs_key r) = Some Propagating \<and> dp \<in> set (rd_dependencies s) \<and>
       dp_item dp = rs_item r \<and> of_nat (dp_score dp) \<le> rs_score_computed r \<and> dp_grant_content_view dp \<and>
       it \<in> set (rd_items s) \<and> it_id it = dp_dependent_item dp \<and> \<not> unlocked (rd_db s) (rs_participant r) it \<and>
       u = unlock_entry (db_now (rd_db s)) (rs_participant r) it)"
proof -
  have eq: "(\<exists>g \<in> set (db_permissions_granted (rd_db s)).
      pg_key g = (rs_participant r, it_id it, rs_participant r, ItemUnlocking) \<and> already_unlocked (db_now (rd_db s)) it g) \<longleftrightarrow>
      unlocked (rd_db s) (rs_participant r) it" for r it
    unfolding unlocked_alt tbl_find_in_iff [OF assms] by blast
  show ?thesis
    unfolding items_to_unlock_def eq by (simp only: in_concat_if in_singleton unlock_entry_def) blast
qed

lemma unlock_item_db:
  "fst (unlock_item (p, i, view, t) dn) =
     upsert_permissions_granted (unlock_update (db_now (fst dn)) view t) (unlocking_row (db_now (fst dn)) p i view t) (fst dn)"
  by (simp add: unlock_item_def Let_def)

lemma unlocking_row_key [simp]: "pg_key (unlocking_row now p i view t) = (p, i, p, ItemUnlocking)"
  by (simp add: unlocking_row_def default_granted_row_def pg_key_def)

lemma upsert_granted:
  "db_permissions_granted (upsert_permissions_granted upd r d) = tbl_upsert pg_key upd r (db_permissions_granted d)"
  by (simp add: upsert_permissions_granted_def Let_def)

lemma unlock_item_find:
  "tbl_find pg_key k (db_permissions_granted (fst (unlock_item (p, i, view, t) dn))) =
     (if k = (p, i, p, ItemUnlocking)
      then (case tbl_find pg_key k (db_permissions_granted (fst dn)) of
              None \<Rightarrow> Some (unlocking_row (db_now (fst dn)) p i view t)
            | Some g \<Rightarrow> Some (unlock_update (db_now (fst dn)) view t g))
      else tbl_find pg_key k (db_permissions_granted (fst dn)))"
  by (simp add: unlock_item_db upsert_granted unl.upsert_find)

lemma unlock_item_now [simp]: "db_now (fst (unlock_item u dn)) = db_now (fst dn)"
  by (cases u) (simp add: unlock_item_db upsert_permissions_granted_frame)

lemma unlock_item_keeps: "unlocked (fst dn) p it \<Longrightarrow> unlocked (fst (unlock_item u dn)) p it"
  by (cases u) (auto simp: unlocked_alt unlock_item_find already_unlocked_update split: option.splits)

lemma unlock_item_unlocks:
  assumes "db_now (fst dn) < max_time"
  shows "unlocked (fst (unlock_item (unlock_entry (db_now (fst dn)) p it) dn)) p it"
  using assms unfolding unlock_entry_def unlocked_alt unlock_item_now
  by (auto simp: unlock_item_find already_unlocked_alt unlock_update_def unlocking_row_def default_granted_row_def
      split: option.splits)

lemma fold_unlock_item:
  "db_now (fst (fold unlock_item us dn)) = db_now (fst dn)"
  "unlocked (fst dn) p it \<Longrightarrow> unlocked (fst (fold unlock_item us dn)) p it"
  "db_now (fst dn) < max_time \<Longrightarrow> unlock_entry (db_now (fst dn)) p it \<in> set us \<Longrightarrow> unlocked (fst (fold unlock_item us dn)) p it"
  "tbl_unique pg_key (db_permissions_granted (fst dn)) \<Longrightarrow> tbl_unique pg_key (db_permissions_granted (fst (fold unlock_item us dn)))"
proof (induction us arbitrary: dn)
  case (Cons u us)
  { case 1 show ?case by (simp add: Cons.IH(1)) }
  { case 2 then show ?case by (simp add: Cons.IH(2) unlock_item_keeps) }
  { case 3
    then show ?case
      using Cons.IH(2) [OF unlock_item_unlocks] Cons.IH(3) [of "unlock_item u dn"]
      by (cases "u = unlock_entry (db_now (fst dn)) p it") auto }
  { case 4
    then show ?case by (cases u) (simp add: Cons.IH(4) unlock_item_db upsert_granted unl.upsert_unique) }
qed simp_all

lemma unlock_items_db:
  assumes "unlock_items participant s = (s', n, js)"
  shows "rd_db s' = fst (fold unlock_item (items_to_unlock s) (rd_db s, 0))" "n = snd (fold unlock_item (items_to_unlock s) (rd_db s, 0))"
    "js = unlocked_for participant (items_to_unlock s)"
  using assms by (auto simp: unlock_items_def Let_def split: prod.splits)

text \<open>
  When the dependent items are unlocked, every dependency that grants the view of its content and whose score is reached
  by a result of the chunk becomes a grant to the participant: view of the content, or for an item that requires an explicit
  entry the right to enter from now on without end.  The items unlocked for the participant asked for are reported.
\<close>

lemma dependent_items_unlocked:
  assumes "unlock_items (Some q) s = (s', n, js)" and "tbl_unique pg_key (db_permissions_granted (rd_db s))" and "db_now (rd_db s) < max_time"
    and "r \<in> set (rd_results s)" and "state_of_result s (rs_key r) = Some Propagating"
    and "dp \<in> set (rd_dependencies s)" and "dp_item dp = rs_item r" and "of_nat (dp_score dp) \<le> rs_score_computed r"
    and "dp_grant_content_view dp" and "it \<in> set (rd_items s)" and "it_id it = dp_dependent_item dp"
  shows "unlocked (rd_db s') (rs_participant r) it \<and>
    (rs_participant r = q \<and> \<not> unlocked (rd_db s) q it \<longrightarrow> it_id it \<in> set js)"
proof (cases "unlocked (rd_db s) (rs_participant r) it")
  case True
  then show ?thesis by (auto simp: unlock_items_db(1) [OF assms(1)] fold_unlock_item(2))
next
  case False
  have entry: "unlock_entry (db_now (rd_db s)) (rs_participant r) it \<in> set (items_to_unlock s)"
    unfolding set_items_to_unlock [OF assms(2)] using assms(4-11) False by blast
  then have "unlocked (rd_db s') (rs_participant r) it"
    unfolding unlock_items_db(1) [OF assms(1)] using assms(3) by (intro fold_unlock_item(3)) simp_all
  moreover have "it_id it \<in> set js" if "rs_participant r = q"
    using entry that unfolding unlock_items_db(3) [OF assms(1)] by (force simp: unlocked_for_def unlock_entry_def)
  ultimately show ?thesis by blast
qed

definition same_grant_columns :: "granted_row \<Rightarrow> granted_row \<Rightarrow> bool" where
  "same_grant_columns g g' =
     (pg_can_grant_view g' = pg_can_grant_view g \<and> pg_can_watch g' = pg_can_watch g \<and> pg_can_edit g' = pg_can_edit g \<and>
      pg_is_owner g' = pg_is_owner g \<and> pg_can_make_session_official g' = pg_can_make_session_official g \<and>
      pg_can_request_help_to g' = pg_can_request_help_to g)"

definition grant_raised :: "granted_row \<Rightarrow> granted_row \<Rightarrow> bool" where
  "grant_raised g g' = (same_grant_columns g g' \<and> pg_can_view g \<le> pg_can_view g' \<and> pg_can_enter_from g' \<le> pg_can_enter_from g \<and>
     (pg_origin g \<noteq> ItemUnlocking \<longrightarrow> g' = g))"

lemma grant_raised_trans: "grant_raised g g' \<Longrightarrow> grant_raised g' g'' \<Longrightarrow> grant_raised g g''"
  by (auto simp: grant_raised_def same_grant_columns_def)

lemma unlock_item_raises:
  assumes "tbl_find pg_key k (db_permissions_granted (fst dn)) = Some g"
  shows "\<exists>g'. tbl_find pg_key k (db_permissions_granted (fst (unlock_item u dn))) = Some g' \<and> grant_raised g g'"
  using assms tbl_find_Some [OF assms]
  by (cases u) (auto simp: unlock_item_find grant_raised_def same_grant_columns_def unlock_update_def pg_key_def)

lemma fold_unlock_item_raises:
  "tbl_find pg_key k (db_permissions_granted (fst dn)) = Some g \<Longrightarrow>
   \<exists>g'. tbl_find pg_key k (db_permissions_granted (fst (fold unlock_item us dn))) = Some g' \<and> grant_raised g g'"
proof (induction us arbitrary: dn g)
  case Nil
  then show ?case by (simp add: grant_raised_def same_grant_columns_def)
next
  case (Cons u us)
  from unlock_item_raises [OF Cons.prems] obtain g1 where
    "tbl_find pg_key k (db_permissions_granted (fst (unlock_item u dn))) = Some g1" "grant_raised g g1" by blast
  with Cons.IH grant_raised_trans show ?case by fastforce
qed

text \<open>
  Unlocking never lowers a grant and touches no other columns: every row of granted permissions is still there, with at least
  the same view level and an entry period that starts no later, and unless it is an unlocking grant it is unchanged.
\<close>

lemma unlocking_only_raises:
  assumes "unlock_items participant s = (s', n, js)"
    and "tbl_find pg_key k (db_permissions_granted (rd_db s)) = Some g"
  shows "\<exists>g'. tbl_find pg_key k (db_permissions_granted (rd_db s')) = Some g' \<and> grant_raised g g'"
  unfolding unlock_items_db(1) [OF assms(1)] by (rule fold_unlock_item_raises) (simp add: assms(2))

section \<open>Consistency of the permissions\<close>

lemma generated_row_of_cong:
  assumes "map propagated_columns (filter (\<lambda>r. pg_group r = fst k \<and> pg_item r = snd k) t') =
    map propagated_columns (filter (\<lambda>r. pg_group r = fst k \<and> pg_item r = snd k) t)"
  shows "generated_row_of t' edges lookup k = generated_row_of t edges lookup k"
proof -
  let ?rows = "filter (\<lambda>r. pg_group r = fst k \<and> pg_item r = snd k)"
  have "map f (?rows t') = map f (?rows t)" if "\<And>r. f r = h (propagated_columns r)" for f :: "granted_row \<Rightarrow> nat" and h
    using arg_cong [OF assms, of "map h"] unfolding map_map comp_def that by simp
  note eq = this [of pg_can_view fst] this [of pg_can_grant_view "fst \<circ> snd"] this [of pg_can_watch "fst \<circ> snd \<circ> snd"]
    this [of pg_can_edit "fst \<circ> snd \<circ> snd \<circ> snd"]
  have "map pg_is_owner (?rows t') = map pg_is_owner (?rows t)"
    using arg_cong [OF assms, of "map (snd \<circ> snd \<circ> snd \<circ> snd)"] by (simp add: comp_def propagated_columns_def)
  then have owner: "(\<exists>r \<in> set (?rows t'). pg_is_owner r) \<longleftrightarrow> (\<exists>r \<in> set (?rows t). pg_is_owner r)"
    by (metis (mono_tags, lifting) imageE imageI list.set_map)
  have columns: "map pg_can_view (?rows t') = map pg_can_view (?rows t)" "map pg_can_grant_view (?rows t') = map pg_can_grant_view (?rows t)"
    "map pg_can_watch (?rows t') = map pg_can_watch (?rows t)" "map pg_can_edit (?rows t') = map pg_can_edit (?rows t)"
    by (rule eq; simp add: propagated_columns_def)+
  show ?thesis unfolding generated_row_of_def Let_def owner columns by (rule refl)
qed

definition access_ready :: "db \<Rightarrow> bool" where
  "access_ready d = (access_invariant d \<and> (\<forall>g i. \<not> marked d Children g i) \<and> tbl_unique pg_key (db_permissions_granted d) \<and>
     db_now d < max_time)"

lemma map_filter_map:
  "(\<And>x. x \<in> set xs \<Longrightarrow> P (f x) = P x \<and> h (f x) = h x) \<Longrightarrow> map h (filter P (map f xs)) = map h (filter P xs)"
  by (induction xs) auto

lemma filter_upsert_columns:
  assumes "tbl_unique pg_key t" and "tbl_find pg_key (pg_key r) t = Some old" and "propagated_columns (upd old) = propagated_columns old"
    and "\<And>x. pg_key (upd x) = pg_key x"
  shows "map propagated_columns (filter (\<lambda>r. pg_group r = g \<and> pg_item r = i) (tbl_upsert pg_key upd r t)) =
    map propagated_columns (filter (\<lambda>r. pg_group r = g \<and> pg_item r = i) t)"
proof -
  let ?f = "\<lambda>x. if pg_key x = pg_key r then upd x else x"
  have "tbl_has pg_key (pg_key r) t" using assms(2) by (simp add: tbl_has_find)
  then have "tbl_upsert pg_key upd r t = map ?f t" by (simp add: tbl_upsert_def)
  moreover have "propagated_columns (?f x) = propagated_columns x" if "x \<in> set t" for x
  proof (cases "pg_key x = pg_key r")
    case True
    with that assms(1,2) have "x = old" using tbl_unique_find by fastforce
    with assms(3) True show ?thesis by simp
  qed simp
  moreover have "pg_group (?f x) = pg_group x" "pg_item (?f x) = pg_item x" for x
    using assms(4) [of x] by (auto simp: pg_key_def)
  ultimately show ?thesis by (simp only: map_filter_map)
qed

lemma upsert_access_ready:
  assumes "access_ready d" and "\<And>x. pg_key (upd x) = pg_key x"
  shows "access_ready (upsert_permissions_granted upd r d)"
proof -
  let ?d = "upsert_permissions_granted upd r d" and ?t = "db_permissions_granted d"
  let ?mark = "case tbl_find pg_key (pg_key r) ?t of None \<Rightarrow> True | Some old \<Rightarrow> propagated_columns (upd old) \<noteq> propagated_columns old"
  have inv: "access_invariant d" "\<And>g i. \<not> marked d Children g i" "tbl_unique pg_key ?t" "db_now d < max_time"
    using assms(1) by (auto simp: access_ready_def)
  have same: "db_items_items ?d = db_items_items d" "db_items_ancestors ?d = db_items_ancestors d" "db_now ?d = db_now d"
    "db_permissions_generated ?d = db_permissions_generated d"
    by (simp_all add: upsert_permissions_granted_frame) (simp add: upsert_permissions_granted_def Let_def mark_permission_self_def)
  have propagate: "db_permissions_propagate ?d =
      (if ?mark then AList.update (pg_group r, pg_item r) Self (db_permissions_propagate d) else db_permissions_propagate d)"
    by (simp add: upsert_permissions_granted_def Let_def mark_permission_self_def)
  have marks: "marked ?d m g i \<longleftrightarrow> (if ?mark \<and> g = pg_group r \<and> i = pg_item r then m = Self else marked d m g i)" for m g i
    unfolding marked_def propagate by auto
  have children: "\<not> marked ?d Children g i" for g i using inv(2) marks by simp
  have edges: "item_edges ?d = item_edges d" by (simp add: item_edges_def same)
  have "keyed_update pg_key upd" by unfold_locales (rule assms(2))
  then have unique: "tbl_unique pg_key (db_permissions_granted ?d)"
    unfolding upsert_granted by (rule keyed_update.upsert_unique [OF _ inv(3)])
  have consistent: "pair_consistent ?d (g, i)" if c: "pair_consistent d (g, i)" and other: "\<not> (?mark \<and> g = pg_group r \<and> i = pg_item r)" for g i
  proof -
    let ?rows = "filter (\<lambda>x. pg_group x = g \<and> pg_item x = i)"
    have "map propagated_columns (?rows (tbl_upsert pg_key upd r ?t)) = map propagated_columns (?rows ?t)"
    proof (cases ?mark)
      case True
      with other have "\<not> (pg_group r = g \<and> pg_item r = i)" by blast
      moreover have "pg_group (upd x) = pg_group x" "pg_item (upd x) = pg_item x" for x using assms(2) [of x] by (simp_all add: pg_key_def)
      ultimately have "?rows (tbl_upsert pg_key upd r ?t) = ?rows ?t"
        by (cases "tbl_has pg_key (pg_key r) ?t") (simp_all add: tbl_upsert_def, rule filter_map_id, auto simp: pg_key_def)
      then show ?thesis by simp
    next
      case False
      then obtain old where "tbl_find pg_key (pg_key r) ?t = Some old" "propagated_columns (upd old) = propagated_columns old"
        by (auto split: option.splits)
      then show ?thesis by (rule filter_upsert_columns [OF inv(3) _ _ assms(2)])
    qed
    then have "compute_pair ?d (g, i) = compute_pair d (g, i)"
      unfolding compute_pair_def same upsert_granted by (intro generated_row_of_cong) simp
    with c show ?thesis by (simp add: pair_consistent_def access_def same)
  qed
  have "pair_consistent ?d (g, i) \<or> self_marked ?d g i" for g i
  proof (cases "?mark \<and> g = pg_group r \<and> i = pg_item r")
    case True
    then show ?thesis using marks by (simp add: self_marked_def)
  next
    case False
    have "pair_consistent d (g, i) \<or> self_marked d g i" using inv(1) by (simp add: access_invariant_def)
    then show ?thesis
    proof
      assume "pair_consistent d (g, i)"
      then show ?thesis using consistent False by blast
    next
      assume "self_marked d g i"
      then have "marked d Self g i" using inv(2) by (simp add: self_marked_def)
      then show ?thesis using marks False by (auto simp: self_marked_def)
    qed
  qed
  moreover have "access_keys_ok ?d"
    using inv(1) children by (auto simp: access_invariant_def access_keys_ok_def propagate distinct_update)
  ultimately have "access_invariant ?d" using inv(1) by (simp add: access_invariant_def edges same)
  with children unique inv(4) show ?thesis by (simp add: access_ready_def same)
qed

lemma unlock_items_access_ready:
  assumes "unlock_items participant s = (s', n, js)" and "access_ready (rd_db s)"
  shows "access_ready (rd_db s')"
proof -
  have "access_ready (fst dn) \<Longrightarrow> access_ready (fst (fold unlock_item us dn))" for us dn
  proof (induction us arbitrary: dn)
    case (Cons u us)
    have "access_ready (fst (unlock_item u dn))"
      using upsert_access_ready [OF Cons.prems unl.key_upd] by (cases u) (simp add: unlock_item_db)
    from Cons.IH [OF this] show ?case by simp
  qed simp
  from this [of "(rd_db s, 0)"] assms(2) show ?thesis by (simp add: unlock_items_db(1) [OF assms(1)])
qed

section \<open>The recursion\<close>

text \<open>A rank of the items: the number of their ancestors.\<close>

lemma ranked_exists:
  assumes "access_invariant (rd_db s)"
  obtains rank where "ranked rank s"
proof -
  let ?E = "item_edges (rd_db s)"
  let ?rank = "\<lambda>i. card {a. (a, i) \<in> ?E\<^sup>+}"
  have acyclic: "acyclic ?E" and anc: "set (db_items_ancestors (rd_db s)) = ?E\<^sup>+"
    using assms by (simp_all add: access_invariant_def)
  have "finite (?E\<^sup>+)" by (simp add: finite_item_edges)
  then have fin: "finite {a. (a, i) \<in> ?E\<^sup>+}" for i
    by (rule finite_subset [rotated, OF finite_imageI [where h = fst]]) force
  have less: "?rank p < ?rank c" if "(p, c) \<in> ?E\<^sup>+" for p c
  proof (rule psubset_card_mono [OF fin])
    show "{a. (a, p) \<in> ?E\<^sup>+} \<subset> {a. (a, c) \<in> ?E\<^sup>+}"
      using that acyclic trancl_trans unfolding acyclic_def by fast
  qed
  have "ranked ?rank s"
    unfolding ranked_def
  proof (intro conjI ballI)
    fix e assume "e \<in> set (db_items_items (rd_db s))"
    then have "(ii_parent e, ii_child e) \<in> ?E" by (auto simp: item_edges_def)
    then show "?rank (ii_parent e) < ?rank (ii_child e)" by (intro less) auto
  next
    fix x assume "x \<in> set (db_items_ancestors (rd_db s))"
    then show "case x of (a, c) \<Rightarrow> ?rank a < ?rank c" unfolding anc by (cases x) (simp add: less)
  qed
  then show ?thesis by (rule that)
qed

lemma map_of_insert_mark: "map_of (insert_mark j t) k = (if k = j \<and> map_of t j = None then Some ToBePropagated else map_of t k)"
  by (simp add: insert_mark_def map_add_def split: option.split)

lemma fold_insert_mark:
  "distinct (map fst t) \<Longrightarrow> distinct (map fst (fold insert_mark ks t))"
  "map_of (fold insert_mark ks t) k = (if map_of t k = None \<and> k \<in> set ks then Some ToBePropagated else map_of t k)"
proof (induction ks arbitrary: t)
  case (Cons j ks)
  { case 1
    then have "distinct (map fst (insert_mark j t))" by (auto simp: insert_mark_def map_of_eq_None_iff)
    then show ?case by (simp add: Cons.IH(1)) }
  { case 2 show ?case by (auto simp: Cons.IH(2) map_of_insert_mark) }
qed simp_all

lemma tables_ok_not_recomputing: "tables_ok s \<Longrightarrow> state_of_result s k \<noteq> Some Recomputing"
  unfolding tables_ok_def propagate_ok_def by blast

lemma trigger_marks_round_start:
  assumes "round_start s"
  shows "round_start (mark_newly_visible d s)"
proof -
  let ?ks = "concat (map (results_below s) (newly_visible d (rd_db s)))"
  have state: "state_of_result (mark_newly_visible d s) k =
      (if state_of_result s k = None \<and> k \<in> set ?ks then Some ToBePropagated else state_of_result s k)" for k
    by (simp add: mark_newly_visible_def fold_insert_mark(2))
  have same: "rd_results (mark_newly_visible d s) = rd_results s" "rd_items (mark_newly_visible d s) = rd_items s"
    "rd_attempts (mark_newly_visible d s) = rd_attempts s" "rd_db (mark_newly_visible d s) = rd_db s"
    by (simp_all add: mark_newly_visible_def)
  have ok: "tables_ok s" and start: "no_state Propagating s" using assms by (simp_all add: round_start_def)
  have "k \<in> set ?ks \<Longrightarrow> result_exists s k" for k
    unfolding result_exists_keys results_below_def by (auto split: if_splits)
  then have "result_exists (mark_newly_visible d s) k" if "state_of_result (mark_newly_visible d s) k \<noteq> None" for k
    using that tables_ok_mark [OF ok, of k] unfolding state result_exists_keys same by (cases "state_of_result s k = None") (auto split: if_splits)
  moreover have "distinct (map fst (rd_propagate (mark_newly_visible d s)))"
    using ok fold_insert_mark(1) by (simp add: tables_ok_def propagate_ok_def mark_newly_visible_def)
  moreover have "state_of_result (mark_newly_visible d s) k \<noteq> Some Recomputing" for k
    using tables_ok_not_recomputing [OF ok, of k] unfolding state by simp
  moreover have "within_attempt (mark_newly_visible d s) a i = within_attempt s a i" for a i
    unfolding within_attempt_def same by (rule refl)
  ultimately have "tables_ok (mark_newly_visible d s)"
    using ok unfolding tables_ok_def propagate_ok_def same by blast
  moreover have "state_of_result (mark_newly_visible d s) k \<noteq> Some Propagating" for k
    using no_stateD [OF start, of k] unfolding state by simp
  ultimately show ?thesis by (simp add: round_start_def no_state_def)
qed

lemma access_step_with_triggers_effect:
  assumes "round_start s" and "access_invariant (rd_db s)" and "s' = fst (access_step_with_triggers s)"
  shows "round_start s'" "rd_db s' = fst (access_step (rd_db s))" "snd (access_step_with_triggers s) = snd (access_step (rd_db s))"
    "same_frame s s'" "rd_results s' = rd_results s" "no_state ToBeRecomputed s \<Longrightarrow> no_state ToBeRecomputed s'"
proof -
  have ok: "access_keys_ok (rd_db s)" using assms(2) by (simp add: access_invariant_def)
  note e = access_step_effect [OF ok refl]
  let ?s = "s\<lparr>rd_db := fst (access_step (rd_db s))\<rparr>"
  have s': "s' = mark_newly_visible (rd_db s) ?s" using assms(3) by (simp add: access_step_with_triggers_def split: prod.splits)
  have within: "within_attempt ?s a i = within_attempt s a i" for a i
    using e(7) by (simp add: within_attempt_def split: option.split)
  have parts: "rd_propagate ?s = rd_propagate s" "rd_results ?s = rd_results s" "rd_items ?s = rd_items s" "rd_attempts ?s = rd_attempts s"
    by simp_all
  have "round_start ?s"
    using assms(1) unfolding round_start_def tables_ok_def propagate_ok_def no_state_def result_exists_def within parts .
  then show "round_start s'" unfolding s' by (rule trigger_marks_round_start)
  show "rd_db s' = fst (access_step (rd_db s))" "snd (access_step_with_triggers s) = snd (access_step (rd_db s))"
    "rd_results s' = rd_results s"
    by (simp_all add: s' mark_newly_visible_def access_step_with_triggers_def split: prod.splits)
  show "same_frame s s'" using e(6,7) by (simp add: s' mark_newly_visible_def same_frame_def)
  show "no_state ToBeRecomputed s'" if "no_state ToBeRecomputed s"
    using that unfolding no_state_def s' mark_newly_visible_def by (simp add: fold_insert_mark(2))
qed

lemma access_step_now: "db_now (fst (access_step d)) = db_now d"
  by (simp add: access_step_def Let_def mark_self_as_children_def update_permissions_generated_def
      delete_processed_children_def mark_children_of_children_def)

text \<open>The computation of the permissions, with the marks its triggers set, is the one of the access store.\<close>

lemma compute_access_with_triggers_ends:
  assumes "round_start s" and "access_invariant (rd_db s)"
  shows "\<exists>s'. compute_access_with_triggers s = Some s' \<and> compute_all_access (rd_db s) = Some (rd_db s') \<and> round_start s' \<and>
    access_invariant (rd_db s') \<and> same_frame s s' \<and> rd_results s' = rd_results s \<and> db_now (rd_db s') = db_now (rd_db s) \<and>
    (no_state ToBeRecomputed s \<longrightarrow> no_state ToBeRecomputed s')"
  using assms
proof (induction "card (access_region (rd_db s))" arbitrary: s rule: less_induct)
  case less
  define s1 where "s1 = fst (access_step_with_triggers s)"
  note e = access_step_with_triggers_effect [OF less.prems s1_def]
  have inv: "access_invariant (rd_db s1)" unfolding e(2) by (rule step_invariant [OF less.prems(2)])
  have ok: "access_keys_ok (rd_db s)" using less.prems(2) by (simp add: access_invariant_def)
  have now: "db_now (rd_db s1) = db_now (rd_db s)" unfolding e(2) by (rule access_step_now)
  show ?case
  proof (cases "snd (access_step (rd_db s)) = 0")
    case True
    then have "compute_access_with_triggers s = Some s1" "compute_all_access (rd_db s) = Some (rd_db s1)"
      using e(2,3) by (subst compute_access_with_triggers.simps compute_all_access.simps; simp add: s1_def)+
    with e(1,4,5,6) inv now show ?thesis by blast
  next
    case False
    then have run: "compute_access_with_triggers s = compute_access_with_triggers s1"
      "compute_all_access (rd_db s) = compute_all_access (rd_db s1)"
      using e(2,3) by (subst compute_access_with_triggers.simps compute_all_access.simps; simp add: s1_def)+
    from False have "ready (rd_db s) \<noteq> {}" using access_step_effect(4) [OF ok refl] by simp
    from region_shrinks [OF less.prems(2) this] have "card (access_region (rd_db s1)) < card (access_region (rd_db s))"
      unfolding e(2) by (rule psubset_card_mono [OF finite_region])
    from less.hyps [OF this e(1) inv] obtain s' where
      "compute_access_with_triggers s1 = Some s'" "compute_all_access (rd_db s1) = Some (rd_db s')" "round_start s'"
      "access_invariant (rd_db s')" "same_frame s1 s'" "rd_results s' = rd_results s1" "db_now (rd_db s') = db_now (rd_db s1)"
      "no_state ToBeRecomputed s1 \<longrightarrow> no_state ToBeRecomputed s'" by blast
    with run now e(5,6) same_frame_trans [OF e(4)] show ?thesis by metis
  qed
qed

text \<open>The pairs of a participant and an item that are still locked.\<close>

definition locked :: "results_db \<Rightarrow> (id \<times> item_row) set" where
  "locked s = {(p, it). p \<in> at_participant ` set (rd_attempts s) \<and> it \<in> set (rd_items s) \<and> \<not> unlocked (rd_db s) p it}"

lemma finite_locked: "finite (locked s)"
  by (rule finite_subset [of _ "at_participant ` set (rd_attempts s) \<times> set (rd_items s)"]) (auto simp: locked_def)

lemma unlock_items_locked:
  assumes "unlock_items participant s = (s', n, js)" and "tables_ok s" and "access_ready (rd_db s)"
  shows "locked s' \<subseteq> locked s" "0 < n \<Longrightarrow> locked s' \<subset> locked s"
proof -
  note db = unlock_items_db [OF assms(1)]
  have frame: "rd_attempts s' = rd_attempts s" "rd_items s' = rd_items s"
    using unlock_items_effect(1) [OF assms(1)] by (simp_all add: same_frame_def)
  have keep: "unlocked (rd_db s) p it \<Longrightarrow> unlocked (rd_db s') p it" for p it
    unfolding db(1) by (rule fold_unlock_item(2)) simp
  then show sub: "locked s' \<subseteq> locked s" by (auto simp: locked_def frame)
  assume "0 < n"
  then have "items_to_unlock s \<noteq> []" unfolding db(2) by auto
  then obtain u where u: "u \<in> set (items_to_unlock s)" by (meson last_in_set)
  have unique: "tbl_unique pg_key (db_permissions_granted (rd_db s))" and now: "db_now (rd_db s) < max_time"
    using assms(3) by (simp_all add: access_ready_def)
  from u obtain r it where r: "r \<in> set (rd_results s)" "it \<in> set (rd_items s)" "\<not> unlocked (rd_db s) (rs_participant r) it"
    "u = unlock_entry (db_now (rd_db s)) (rs_participant r) it" unfolding set_items_to_unlock [OF unique] by blast
  have "unlocked (rd_db s') (rs_participant r) it"
    unfolding db(1) using now u r(4) by (intro fold_unlock_item(3)) simp_all
  moreover obtain a where "a \<in> set (rd_attempts s)" "at_key a = (rs_participant r, rs_attempt r)"
    using tables_okD [OF assms(2) r(1)] by blast
  then have "(rs_participant r, it) \<in> locked s" using r(2,3) by (force simp: locked_def at_key_def)
  moreover from calculation(1) have "(rs_participant r, it) \<notin> locked s'" by (simp add: locked_def)
  ultimately show "locked s' \<subset> locked s" using sub by blast
qed

text \<open>A statement that unlocks nothing changes nothing.\<close>

lemma fold_unlock_item_count: "snd dn \<le> snd (fold unlock_item us dn)"
proof (induction us arbitrary: dn)
  case (Cons u us)
  have "snd dn \<le> snd (unlock_item u dn)" by (cases u) (simp add: unlock_item_def Let_def)
  also have "\<dots> \<le> snd (fold unlock_item us (unlock_item u dn))" by (rule Cons.IH)
  finally show ?case by simp
qed simp

lemma unlock_item_counts:
  assumes "\<not> unlocked d p it" and "db_now d < max_time"
  shows "0 < snd (unlock_item (unlock_entry (db_now d) p it) (d, 0))"
proof (cases "tbl_find pg_key (p, it_id it, p, ItemUnlocking) (db_permissions_granted d)")
  case None
  then show ?thesis by (simp add: unlock_item_def unlock_entry_def Let_def)
next
  case (Some g)
  let ?upd = "unlock_update (db_now d) (if it_requires_explicit_entry it then 1 else content_level)
    (if it_requires_explicit_entry it then db_now d else max_time)"
  have "unlocked (fst (unlock_item (unlock_entry (db_now d) p it) (d, 0))) p it"
    using unlock_item_unlocks [of "(d, 0)" p it] assms(2) by simp
  then have "already_unlocked (db_now d) it (?upd g)"
    using Some by (simp add: unlocked_alt unlock_entry_def unlock_item_find unlock_item_now)
  moreover have "\<not> already_unlocked (db_now d) it g" using assms(1) Some by (simp add: unlocked_alt)
  ultimately have "?upd g \<noteq> g" by metis
  then show ?thesis using Some by (simp add: unlock_item_def unlock_entry_def Let_def)
qed

lemma no_unlocking:
  assumes "unlock_items participant s = (s', 0, js)" and "access_ready (rd_db s)"
  shows "rd_db s' = rd_db s"
proof (cases "items_to_unlock s")
  case Nil
  then show ?thesis using unlock_items_db(1) [OF assms(1)] by simp
next
  case (Cons u us)
  have unique: "tbl_unique pg_key (db_permissions_granted (rd_db s))" and now: "db_now (rd_db s) < max_time"
    using assms(2) by (simp_all add: access_ready_def)
  have "u \<in> set (items_to_unlock s)" using Cons by simp
  then obtain p it where "\<not> unlocked (rd_db s) p it" "u = unlock_entry (db_now (rd_db s)) p it"
    unfolding set_items_to_unlock [OF unique] by blast
  with unlock_item_counts now have "0 < snd (unlock_item u (rd_db s, 0))" by simp
  also have "\<dots> \<le> snd (fold unlock_item us (unlock_item u (rd_db s, 0)))" by (rule fold_unlock_item_count)
  finally show ?thesis using unlock_items_db(2) [OF assms(1)] Cons by simp
qed

text \<open>The rule for the whole propagation, with \<open>I\<close> and \<open>Q\<close> as for the loop.\<close>

text \<open>Only where a dependency grants the view of its item can anything be unlocked.\<close>

definition some_unlocking :: "results_db \<Rightarrow> bool" where
  "some_unlocking s = (\<exists>dp \<in> set (rd_dependencies s). dp_grant_content_view dp)"

lemma unlocking_granted:
  assumes "unlock_items participant s = (s', n, js)" and "0 < n" and "access_ready (rd_db s)"
  shows "some_unlocking s"
proof (cases "items_to_unlock s")
  case Nil
  then have "n = 0" using assms(1) by (simp add: unlock_items_def)
  with assms(2) show ?thesis by simp
next
  case (Cons u us)
  have unique: "tbl_unique pg_key (db_permissions_granted (rd_db s))" using assms(3) by (simp add: access_ready_def)
  have "u \<in> set (items_to_unlock s)" using Cons by simp
  then show ?thesis unfolding set_items_to_unlock [OF unique] some_unlocking_def by blast
qed

lemma propagate_results_full:
  assumes "round_start s" and "access_ready (rd_db s)" and "0 < c1" and "0 < c2" and "I s"
    and first: "\<And>rank s s1 m js. round_start s \<Longrightarrow> ranked rank s \<Longrightarrow> I s \<Longrightarrow> unlock_items participant (mark_parents c1 s) = (s1, m, js) \<Longrightarrow> Q s1"
    and second: "\<And>rank s. round_start s \<Longrightarrow> ranked rank s \<Longrightarrow> Q s \<Longrightarrow> I (recompute_marked c2 s)"
    and third: "\<And>s s'. Q s \<Longrightarrow> rd_propagate s = [] \<Longrightarrow> same_frame s s' \<Longrightarrow> rd_results s' = rd_results s \<Longrightarrow> no_state ToBeRecomputed s' \<Longrightarrow>
      round_start s' \<Longrightarrow> some_unlocking s' \<Longrightarrow> I s'"
  shows "\<exists>s' is'. propagate_results c1 c2 participant is s = Some (s', is') \<and> rd_propagate s' = [] \<and> same_frame s s' \<and> Q s' \<and>
    access_ready (rd_db s') \<and> (rd_db s' = rd_db s \<or> (\<forall>m g i. \<not> marked (rd_db s') m g i))"
  using assms(1,2,5)
proof (induction "card (locked s)" arbitrary: s "is" rule: less_induct)
  case less
  from less.prems(2) obtain rank where rank: "ranked rank s" using ranked_exists unfolding access_ready_def by blast
  let ?I = "\<lambda>(n :: nat) s1. same_frame s s1 \<and> access_ready (rd_db s1) \<and> locked s1 \<subseteq> locked s \<and> (0 < n \<longrightarrow> locked s1 \<subset> locked s) \<and>
    (n = 0 \<longrightarrow> rd_db s1 = rd_db s) \<and> (0 < n \<longrightarrow> some_unlocking s)"
  have start: "?I 0 s \<and> I s" using less.prems(2,3) by simp
  have "\<exists>s' n' is'. propagate_loop c1 c2 participant 0 [] s = Some (s', n', is') \<and> rd_propagate s' = [] \<and> (round_start s' \<and> ?I n' s' \<and> Q s')"
  proof (rule propagate_loop_invariant [where I = "\<lambda>n s1. ?I n s1 \<and> I s1" and Q = "\<lambda>n s1. round_start s1 \<and> ?I n s1 \<and> Q s1", OF less.prems(1) rank assms(3,4) start])
    fix s1 n s2 m js
    assume s1: "round_start s1" "ranked rank s1" "?I n s1 \<and> I s1" and u: "unlock_items participant (mark_parents c1 s1) = (s2, m, js)"
    have ok: "tables_ok (mark_parents c1 s1)" using mark_parents_tables_ok s1(1) by (simp add: round_start_def)
    have db: "rd_db (mark_parents c1 s1) = rd_db s1" by simp
    have locked: "locked (mark_parents c1 s1) = locked s1"
      using mark_parents_frame(2) [of s1 c1] by (simp add: locked_def same_frame_def)
    have ready: "access_ready (rd_db (mark_parents c1 s1))" using s1(3) db by simp
    have "0 < n + m \<longrightarrow> locked s2 \<subset> locked s" and "locked s2 \<subseteq> locked s"
      using unlock_items_locked [OF u ok ready] s1(3) unfolding locked by auto
    moreover have "round_start s2" by (rule opening_round_start [OF s1(1) u])
    moreover have "n + m = 0 \<longrightarrow> rd_db s2 = rd_db s" using no_unlocking [of participant "mark_parents c1 s1" s2 js] u ready s1(3) db by auto
    moreover have "some_unlocking s" if "0 < n + m"
    proof (cases "0 < m")
      case True
      have "some_unlocking (mark_parents c1 s1) = some_unlocking s"
        using s1(3) mark_parents_frame(2) [of s1 c1] unfolding same_frame_def some_unlocking_def by simp
      with unlocking_granted [OF u True ready] show ?thesis by simp
    next
      case False
      with that s1(3) show ?thesis by auto
    qed
    ultimately show "round_start s2 \<and> ?I (n + m) s2 \<and> Q s2"
      using first [OF s1(1,2) _ u] unlock_items_access_ready [OF u ready] same_frame_trans [OF _ opening_frame [OF u]] s1(3) by blast
  next
    fix s1 n assume s1: "round_start s1" "ranked rank s1" "round_start s1 \<and> ?I n s1 \<and> Q s1"
    note rec = round_recomputed(1) [OF s1(1,2) assms(4) refl]
    have "propagate_ok s1" using s1(1) by (simp add: round_start_def tables_ok_def)
    from recompute_marked_spec(2) [OF this s1(2) assms(4) refl] have db: "rd_db (recompute_marked c2 s1) = rd_db s1" .
    have "locked (recompute_marked c2 s1) = locked s1" using rec by (simp add: locked_def db same_frame_def)
    then show "?I n (recompute_marked c2 s1) \<and> I (recompute_marked c2 s1)" using second [OF s1(1,2)] s1(3) same_frame_trans [OF _ rec] db by simp
  qed
  then obtain s1 n js where loop: "propagate_loop c1 c2 participant 0 [] s = Some (s1, n, js)" "rd_propagate s1 = []"
    and s1: "round_start s1" "?I n s1" and J1: "Q s1" by blast
  show ?case
  proof (cases "n = 0")
    case True
    have "propagate_results c1 c2 participant is s = Some (s1, is @ js)"
      by (subst propagate_results.simps) (simp add: loop(1) True)
    moreover have "rd_db s1 = rd_db s" "same_frame s s1" "access_ready (rd_db s1)" using s1(2) True by blast+
    ultimately show ?thesis using loop(2) J1 by blast
  next
    case False
    have inv: "access_invariant (rd_db s1)" using s1(2) by (simp add: access_ready_def)
    from compute_access_with_triggers_ends [OF s1(1) inv] obtain s2 where
      s2: "compute_access_with_triggers s1 = Some s2" "compute_all_access (rd_db s1) = Some (rd_db s2)" "round_start s2"
      "access_invariant (rd_db s2)" "same_frame s1 s2" "db_now (rd_db s2) = db_now (rd_db s1)" "rd_results s2 = rd_results s1"
      "no_state ToBeRecomputed s1 \<longrightarrow> no_state ToBeRecomputed s2" by blast
    have "some_unlocking s2" using s1(2) s2(5) False by (auto simp: same_frame_def some_unlocking_def)
    then have "I s2" by (intro third [OF J1 loop(2) s2(5,7) _ s2(3)]) (use s2(8) loop(2) in \<open>simp add: no_state_def\<close>)
    from compute_all_access_ends [OF inv] s2(2) have granted: "db_permissions_granted (rd_db s2) = db_permissions_granted (rd_db s1)"
      and "\<forall>m g i. \<not> marked (rd_db s2) m g i" by auto
    then have ready: "access_ready (rd_db s2)" using s1(2) s2(4,6) by (simp add: access_ready_def)
    have "locked s2 = locked s1" using s2(5,6) granted by (simp add: locked_def unlocked_alt same_frame_def)
    then have "card (locked s2) < card (locked s)" using s1(2) False by (simp add: psubset_card_mono finite_locked)
    from less.hyps [OF this s2(3) ready \<open>I s2\<close>] obtain s' is' where
      fin: "propagate_results c1 c2 participant (is @ js) s2 = Some (s', is')" "rd_propagate s' = []" "same_frame s2 s'" "Q s'"
      "access_ready (rd_db s')" "rd_db s' = rd_db s2 \<or> (\<forall>m g i. \<not> marked (rd_db s') m g i)" by blast
    from fin(1) have "propagate_results c1 c2 participant is s = Some (s', is')"
      using False by (subst propagate_results.simps) (simp add: loop(1) s2(1))
    moreover have "\<forall>m g i. \<not> marked (rd_db s') m g i" using fin(6) \<open>\<forall>m g i. \<not> marked (rd_db s2) m g i\<close> by metis
    moreover have "same_frame s s'" using s1(2) s2(5) fin(3) same_frame_trans by blast
    ultimately show ?thesis using fin(2,4,5) by blast
  qed
qed

lemma propagate_results_rule:
  assumes "round_start s" and "access_ready (rd_db s)" and "0 < c1" and "0 < c2" and "I s"
    and first: "\<And>rank s s1 m js. round_start s \<Longrightarrow> ranked rank s \<Longrightarrow> I s \<Longrightarrow> unlock_items participant (mark_parents c1 s) = (s1, m, js) \<Longrightarrow> Q s1"
    and second: "\<And>rank s. round_start s \<Longrightarrow> ranked rank s \<Longrightarrow> Q s \<Longrightarrow> I (recompute_marked c2 s)"
    and third: "\<And>s s'. Q s \<Longrightarrow> rd_propagate s = [] \<Longrightarrow> same_frame s s' \<Longrightarrow> rd_results s' = rd_results s \<Longrightarrow> no_state ToBeRecomputed s' \<Longrightarrow>
      round_start s' \<Longrightarrow> some_unlocking s' \<Longrightarrow> I s'"
  shows "\<exists>s' is'. propagate_results c1 c2 participant is s = Some (s', is') \<and> rd_propagate s' = [] \<and> same_frame s s' \<and> Q s'"
proof -
  have "\<exists>s' is'. propagate_results c1 c2 participant is s = Some (s', is') \<and> rd_propagate s' = [] \<and> same_frame s s' \<and> Q s' \<and>
      access_ready (rd_db s') \<and> (rd_db s' = rd_db s \<or> (\<forall>m g i. \<not> marked (rd_db s') m g i))"
    by (rule propagate_results_full [where I = I and Q = Q, OF assms(1-5)]) (rule first second third; assumption)+
  then show ?thesis by blast
qed


text \<open>
  The propagation never touches the participants' own results: the row of a result of an item without children that was
  not marked for a recomputation is there unchanged when the whole propagation ends, unlockings included.
\<close>

lemma task_results_kept:
  assumes "round_start s" and "access_ready (rd_db s)" and "0 < c1" and "0 < c2"
    and "r \<in> set (rd_results s)" and "\<not> has_children s (rs_item r)" and "state_of_result s (rs_key r) \<noteq> Some ToBeRecomputed"
  shows "\<exists>s' is'. propagate_results c1 c2 participant is s = Some (s', is') \<and> rd_propagate s' = [] \<and> same_frame s s' \<and>
    r \<in> set (rd_results s')"
proof -
  have start: "task_kept s r s" using assms(5,7) by (simp add: task_kept_def)
  have "\<exists>s' is'. propagate_results c1 c2 participant is s = Some (s', is') \<and> rd_propagate s' = [] \<and> same_frame s s' \<and> task_kept s r s'"
  proof (rule propagate_results_rule [where I = "task_kept s r" and Q = "task_kept s r", OF assms(1-4) start])
    show "task_kept s r s2"
      if "round_start s1" "ranked rank s1" "task_kept s r s1" "unlock_items participant (mark_parents c1 s1) = (s2, m, js)" for rank s1 s2 m js
      using task_kept_opened [OF assms(6) that(1,3,4)] .
    show "task_kept s r (recompute_marked c2 s1)" if "round_start s1" "ranked rank s1" "task_kept s r s1" for rank s1
      using task_kept_recomputed [OF that(1,2) assms(4) that(3)] .
    show "task_kept s r s2"
      if "task_kept s r s1" "rd_propagate s1 = []" "same_frame s1 s2" "rd_results s2 = rd_results s1" "no_state ToBeRecomputed s2" for s1 s2
      using that same_frame_trans no_stateD [OF that(5)] unfolding task_kept_def by metis
  qed
  then show ?thesis unfolding task_kept_def by blast
qed

text \<open>
  C39: The propagation never takes a score out of its bounds: when the scores of all results are between 0 and 100 at its
  start, it ends with all scores between 0 and 100, those of the results it creates included, whatever rules
  and values of score edition the results carry.
\<close>

theorem scores_within_bounds:
  assumes "round_start s" and "access_ready (rd_db s)" and "0 < c1" and "0 < c2" and "\<forall>r \<in> set (rd_results s). score_within r"
  shows "\<exists>s' is'. propagate_results c1 c2 participant is s = Some (s', is') \<and> (\<forall>r \<in> set (rd_results s'). score_within r)"
proof -
  let ?I = "\<lambda>s. \<forall>r \<in> set (rd_results s). score_within r"
  have "\<exists>s' is'. propagate_results c1 c2 participant is s = Some (s', is') \<and> rd_propagate s' = [] \<and> same_frame s s' \<and> ?I s'"
  proof (rule propagate_results_rule [where I = ?I and Q = ?I, OF assms])
    fix s s1 m js
    assume s: "?I s" and u: "unlock_items participant (mark_parents c1 s) = (s1, m, js)"
    from opening_rows [OF u] obtain new where "rd_results s1 = rd_results s @ map new_result new" by blast
    moreover have "score_within (new_result k)" for k by (simp add: score_within_def new_result_def)
    ultimately show "?I s1" using s by auto
  next
    fix rank s assume s: "round_start s" "ranked rank s" "?I s"
    show "?I (recompute_marked c2 s)"
      unfolding round_recomputed(2) [OF s(1,2) assms(4) refl] using s(3) recompute_row_score by auto
  qed simp
  then show ?thesis by blast
qed

end
