(* ===== verification/ResultsSettled.thy ===== *)
theory ResultsSettled
  imports ResultsUnlocking
begin

text \<open>
  The purpose of the propagation: at its end the result of every chapter is what its children give.  The invariant of the
  rounds is that every chapter whose result differs is waiting: it is marked, or a child is marked.
\<close>

section \<open>The invariant\<close>

definition computed_from_children :: "results_db \<Rightarrow> result_row \<Rightarrow> bool" where
  "computed_from_children s r = (recompute_row s r = r)"

text \<open>A new row counts as modified when it is recomputed, even if the recomputation keeps its defaults.\<close>

definition awaits_child :: "results_db \<Rightarrow> result_row \<Rightarrow> bool" where
  "awaits_child s r = (\<exists>c \<in> set (rd_results s). child_row s c r \<and>
     (state_of_result s (rs_key c) = Some ToBePropagated \<or>
      state_of_result s (rs_key c) = Some ToBeRecomputed \<and> rs_latest_activity_at c = min_time))"

definition covered :: "results_db \<Rightarrow> bool" where
  "covered s = (\<forall>r \<in> set (rd_results s). has_children s (rs_item r) \<longrightarrow>
     computed_from_children s r \<or> state_of_result s (rs_key r) = Some ToBeRecomputed \<or> awaits_child s r)"

text \<open>
  A result is directly above another one when its item is a parent of the other's item and its attempt the one from which the other was
  reached.  The results that the propagation may mark are those above the marked ones; where items can be unlocked, any
  result may be marked later.
\<close>

definition results_above :: "results_db \<Rightarrow> (result_key \<times> result_key) set" where
  "results_above s = {(k, k'). \<exists>x \<in> set (rd_attempts s). \<exists>y \<in> set (rd_attempts s). \<exists>e \<in> set (db_items_items (rd_db s)). \<exists>it \<in> set (rd_items s).
     k = (at_participant x, at_id x, ii_child e) \<and> k' = (at_participant y, at_id y, it_id it) \<and>
     at_participant y = at_participant x \<and> it_id it = ii_parent e \<and>
     (if at_root_item x = Some (ii_child e) then at_parent x = Some (at_id y) else at_id y = at_id x)}"

definition may_be_marked :: "results_db \<Rightarrow> result_key set" where
  "may_be_marked s = {k'. \<exists>k. (state_of_result s k \<noteq> None \<or> some_unlocking s \<and> result_exists s k) \<and> (k, k') \<in> (results_above s)\<^sup>*}"

definition marks_fit :: "nat \<Rightarrow> results_db \<Rightarrow> bool" where
  "marks_fit chunk s = (card (may_be_marked s) \<le> chunk)"

lemma results_above_frame: "same_frame s s' \<Longrightarrow> results_above s' = results_above s"
  by (simp add: results_above_def same_frame_def)

lemma results_above_end:
  assumes "(k, k') \<in> results_above s"
  obtains y it where "y \<in> set (rd_attempts s)" "it \<in> set (rd_items s)" "k' = (at_participant y, at_id y, it_id it)"
  using assms unfolding results_above_def mem_Collect_eq prod.case by blast

lemma may_be_marked_subset:
  assumes "\<And>k. state_of_result s k \<noteq> None \<or> some_unlocking s \<and> result_exists s k \<Longrightarrow> k \<in> K"
    and "\<And>k k'. (k, k') \<in> results_above s \<Longrightarrow> k \<in> K \<Longrightarrow> k' \<in> K"
  shows "may_be_marked s \<subseteq> K"
proof
  fix k' assume "k' \<in> may_be_marked s"
  then obtain k where k: "k \<in> K" "(k, k') \<in> (results_above s)\<^sup>*" using assms(1) unfolding may_be_marked_def by blast
  from k(2,1) show "k' \<in> K" by (induction rule: rtrancl_induct) (use assms(2) in blast)+
qed

lemma finite_may_be_marked: "finite (may_be_marked s)"
proof -
  let ?ends = "(\<lambda>(y, it). (at_participant y, at_id y, it_id it)) ` (set (rd_attempts s) \<times> set (rd_items s))"
  have "may_be_marked s \<subseteq> fst ` set (rd_propagate s) \<union> rs_key ` set (rd_results s) \<union> ?ends"
  proof (rule may_be_marked_subset)
    fix k assume "state_of_result s k \<noteq> None \<or> some_unlocking s \<and> result_exists s k"
    then show "k \<in> fst ` set (rd_propagate s) \<union> rs_key ` set (rd_results s) \<union> ?ends"
      unfolding map_of_eq_None_iff result_exists_keys by blast
  next
    fix k k' assume "(k, k') \<in> results_above s"
    then obtain y it where y: "y \<in> set (rd_attempts s)" "it \<in> set (rd_items s)" "k' = (at_participant y, at_id y, it_id it)"
      by (rule results_above_end)
    then have "(y, it) \<in> set (rd_attempts s) \<times> set (rd_items s)" by simp
    then have "k' \<in> ?ends" unfolding y(3) by (rule rev_image_eqI) simp
    then show "k' \<in> fst ` set (rd_propagate s) \<union> rs_key ` set (rd_results s) \<union> ?ends" by (rule UnI2)
  qed
  then show ?thesis by (rule finite_subset) simp
qed

lemma marks_fit_shrink:
  assumes "marks_fit chunk s" and "same_frame s s'"
    and "\<And>k. state_of_result s' k \<noteq> None \<or> some_unlocking s \<and> result_exists s' k \<Longrightarrow> k \<in> may_be_marked s"
  shows "marks_fit chunk s'"
proof -
  have unl: "some_unlocking s' = some_unlocking s" using assms(2) by (simp add: some_unlocking_def same_frame_def)
  have "may_be_marked s' \<subseteq> may_be_marked s"
  proof
    fix k' assume "k' \<in> may_be_marked s'"
    then obtain k where "k \<in> may_be_marked s" "(k, k') \<in> (results_above s)\<^sup>*"
      using assms(3) unfolding may_be_marked_def unl results_above_frame [OF assms(2)] by blast
    then show "k' \<in> may_be_marked s" unfolding may_be_marked_def by (auto intro: rtrancl_trans)
  qed
  then show ?thesis
    using assms(1) card_mono [OF finite_may_be_marked] unfolding marks_fit_def by (meson le_trans)
qed

text \<open>A simple bound: the number of attempts times the number of items.\<close>

lemma all_marks_fit:
  assumes "tables_ok s" and "length (rd_attempts s) * length (rd_items s) \<le> chunk"
  shows "marks_fit chunk s"
proof -
  let ?keys = "(\<lambda>((p, a), i). (p, a, i)) ` (set (map at_key (rd_attempts s)) \<times> set (map it_id (rd_items s)))"
  have start: "k \<in> ?keys" if "state_of_result s k \<noteq> None \<or> some_unlocking s \<and> result_exists s k" for k
  proof -
    from that obtain r where r: "r \<in> set (rd_results s)" "k = rs_key r"
      using tables_ok_mark [OF assms(1), of k] unfolding result_exists_keys by blast
    from tables_okD [OF assms(1) r(1)] obtain a it where
      "a \<in> set (rd_attempts s)" "at_key a = (rs_participant r, rs_attempt r)" "it \<in> set (rd_items s)" "it_id it = rs_item r" by blast
    then have "((rs_participant r, rs_attempt r), rs_item r) \<in> set (map at_key (rd_attempts s)) \<times> set (map it_id (rd_items s))"
      unfolding set_map by (metis SigmaI imageI)
    then show ?thesis unfolding r(2) rs_key_def by force
  qed
  have "may_be_marked s \<subseteq> ?keys"
  proof (rule may_be_marked_subset [OF start])
    fix k k' assume "(k, k') \<in> results_above s"
    then obtain y it where y: "y \<in> set (rd_attempts s)" "it \<in> set (rd_items s)" "k' = (at_participant y, at_id y, it_id it)"
      by (rule results_above_end)
    then have "(at_key y, it_id it) \<in> set (map at_key (rd_attempts s)) \<times> set (map it_id (rd_items s))" by simp
    then show "k' \<in> ?keys" by (rule rev_image_eqI) (simp add: y(3) at_key_def)
  qed
  then have "card (may_be_marked s) \<le> card ?keys" by (rule card_mono [rotated]) simp
  also have "\<dots> \<le> card (set (map at_key (rd_attempts s)) \<times> set (map it_id (rd_items s)))" by (rule card_image_le) simp
  also have "\<dots> \<le> length (rd_attempts s) * length (rd_items s)"
    unfolding card_cartesian_product by (metis card_length length_map mult_le_mono)
  finally show ?thesis using assms(2) by (simp add: marks_fit_def)
qed

lemma all_computed:
  assumes "rd_propagate s = []" and "covered s" and "r \<in> set (rd_results s)" and "has_children s (rs_item r)"
  shows "computed_from_children s r"
  using assms unfolding covered_def awaits_child_def by simp

lemma few_marks:
  assumes "tables_ok s" and "marks_fit chunk s"
  shows "length (rd_propagate s) \<le> chunk"
proof -
  have "set (map fst (rd_propagate s)) \<subseteq> may_be_marked s"
    unfolding may_be_marked_def map_of_eq_None_iff set_map by blast
  then have "card (set (map fst (rd_propagate s))) \<le> card (may_be_marked s)" by (rule card_mono [OF finite_may_be_marked])
  then show ?thesis
    using assms distinct_card [of "map fst (rd_propagate s)"] by (simp add: tables_ok_def propagate_ok_def marks_fit_def)
qed

lemma whole_chunk:
  assumes "tables_ok s" and "marks_fit chunk s" and "state_of_result s k = Some ToBePropagated"
  shows "state_of_result (marking chunk s) k = Some Propagating"
proof -
  have "length (filter (\<lambda>(k, m). m = ToBePropagated) (rd_propagate s)) \<le> chunk"
    using few_marks [OF assms(1,2)] length_filter_le order_trans by blast
  then have "state_of_result (marking chunk s) k \<noteq> Some ToBePropagated"
    by (simp add: marking_def mark_propagating_all)
  with marking_state [of chunk s k] assms(3) show ?thesis by auto
qed

section \<open>The first statements of a round\<close>

text \<open>The result above a result: the attempt found by the code is the attempt of the parent's result.\<close>

lemma attempt_above_child:
  assumes "tables_ok s" and "ranked rank s" and "r \<in> set (rd_results s)" and "child_row s c r"
  obtains a b e it where "a \<in> set (rd_attempts s)" "at_key a = (rs_participant c, rs_attempt c)"
    "b \<in> set (rd_attempts s)" "at_participant b = rs_participant c" "at_id b = rs_attempt r" "attempt_above a c = Some (rs_attempt r)"
    "e \<in> set (db_items_items (rd_db s))" "ii_child e = rs_item c" "it \<in> set (rd_items s)" "it_id it = ii_parent e" "ii_parent e = rs_item r"
proof -
  from assms(4) obtain a e where a: "rs_participant c = rs_participant r" "a \<in> set (rd_attempts s)"
      "at_key a = (rs_participant c, rs_attempt c)"
      "rs_attempt c = rs_attempt r \<or> at_root_item a = Some (rs_item c) \<and> at_parent a = Some (rs_attempt r)"
    and e: "e \<in> set (db_items_items (rd_db s))" "ii_parent e = rs_item r" "ii_child e = rs_item c"
    unfolding child_row_def by blast
  from tables_okD [OF assms(1,3)] obtain it b where it: "it \<in> set (rd_items s)" "it_id it = rs_item r"
    and b: "b \<in> set (rd_attempts s)" "at_key b = (rs_participant r, rs_attempt r)" "within_attempt s b (rs_item r)" by blast
  have above: "attempt_above a c = Some (rs_attempt r)"
  proof (cases "rs_attempt c = rs_attempt r")
    case False
    with a(4) show ?thesis by (simp add: attempt_above_def)
  next
    case True
    have "a = b"
      using assms(1) a(1-3) b(1,2) True inj_onD [of at_key "set (rd_attempts s)" a b]
      by (simp add: tables_ok_def tbl_unique_def distinct_map)
    have lower: "rank (rs_item r) < rank (rs_item c)" using assms(2) e unfolding ranked_def by force
    have "at_root_item a \<noteq> Some (rs_item c)"
    proof
      assume "at_root_item a = Some (rs_item c)"
      with b(3) \<open>a = b\<close> have "rs_item c = rs_item r \<or> (rs_item c, rs_item r) \<in> set (db_items_ancestors (rd_db s))"
        by (simp add: within_attempt_def)
      with lower assms(2) show False unfolding ranked_def by fastforce
    qed
    with True show ?thesis by (simp add: attempt_above_def)
  qed
  show ?thesis
  proof (rule that [of a b e it])
    show "at_participant b = rs_participant c" "at_id b = rs_attempt r" using b(2) a(1) by (simp_all add: at_key_def)
    show "it_id it = ii_parent e" using it e by simp
  qed (fact a b e it above)+
qed

lemma propagating_marks_parent:
  assumes "round_start s" and "ranked rank s" and "r \<in> set (rd_results s)" and "c \<in> set (rd_results s)" and "child_row s c r"
    and "state_of_result (marking chunk s) (rs_key c) = Some Propagating" and "state_of_result s (rs_key r) \<noteq> Some ToBeRecomputed"
  shows "rs_key r \<in> marked_keys chunk s"
proof -
  have ok: "tables_ok s" using assms(1) by (simp add: round_start_def)
  from attempt_above_child [OF ok assms(2,3,5)] obtain a b e it where
    w: "a \<in> set (rd_attempts s)" "at_key a = (rs_participant c, rs_attempt c)"
    "b \<in> set (rd_attempts s)" "at_participant b = rs_participant c" "at_id b = rs_attempt r" "attempt_above a c = Some (rs_attempt r)"
    "e \<in> set (db_items_items (rd_db s))" "ii_child e = rs_item c" "it \<in> set (rd_items s)" "it_id it = ii_parent e" "ii_parent e = rs_item r" .
  have "rs_participant c = rs_participant r" using assms(5) by (simp add: child_row_def)
  then have key: "(at_participant b, at_id b, it_id it) = rs_key r" using w by (simp add: rs_key_def)
  have "state_of_result (marking chunk s) (rs_key r) \<noteq> Some ToBeRecomputed"
    using marking_state [of chunk s "rs_key r"] assms(7) by auto
  moreover have "result_exists (marking chunk s) (rs_key r)" using assms(3) by (auto simp: result_exists_keys)
  ultimately have "parent_markable (marking chunk s) it b (rs_key r)" by (simp add: parent_markable_def)
  then have "marks_parent (marking chunk s) c a e it b"
    unfolding marks_parent_def key using w assms(4,6) by simp
  then have "(rs_key r, result_exists (marking chunk s) (rs_key r)) \<in> set (results_to_mark (marking chunk s))"
    unfolding set_results_to_mark key [symmetric] by blast
  then show ?thesis unfolding marked_keys_def by force
qed

lemma opening_keeps_recomputed:
  assumes "round_start s" and "unlock_items participant (mark_parents chunk s) = (s1, m, js)"
    and "state_of_result s k = Some ToBeRecomputed"
  shows "state_of_result s1 k = Some ToBeRecomputed"
  using marking_state [of chunk s k] assms(3) unfolding opening_state [OF assms(1,2)] by auto

lemma opening_covered:
  assumes "round_start s" and "ranked rank s" and "marks_fit chunk s" and "covered s"
    and "unlock_items participant (mark_parents chunk s) = (s1, m, js)"
  shows "covered s1" "no_state ToBePropagated s1"
proof -
  have ok: "tables_ok s" using assms(1) by (simp add: round_start_def)
  note frame = opening_frame [OF assms(5)] and state = opening_state [OF assms(1,5)]
  from opening_rows [OF assms(5)] obtain new where
    rows: "rd_results s1 = rd_results s @ map new_result new" and new: "set new = {k \<in> marked_keys chunk s. \<not> result_exists s k}" .
  have gone: "state_of_result s1 k \<noteq> Some ToBePropagated" for k
    using whole_chunk [OF ok assms(3), of k] unfolding state by auto
  then show "no_state ToBePropagated s1" by (simp add: no_state_def)
  have "computed_from_children s1 r \<or> state_of_result s1 (rs_key r) = Some ToBeRecomputed \<or> awaits_child s1 r"
    if r: "r \<in> set (rd_results s1)" and h: "has_children s1 (rs_item r)" for r
  proof (cases "r \<in> set (rd_results s)")
    case False
    then have "rs_key r \<in> marked_keys chunk s" using r rows new by auto
    then show ?thesis by (simp add: state)
  next
    case True
    with assms(4) h consider "computed_from_children s r" | "state_of_result s (rs_key r) = Some ToBeRecomputed" | "awaits_child s r"
      unfolding covered_def has_children_frame [OF frame] by blast
    then show ?thesis
    proof cases
      case 1
      show ?thesis
      proof (cases "\<exists>k \<in> set new. child_row s (new_result k) r")
        case True
        then obtain k where k: "k \<in> set new" "child_row s1 (new_result k) r" by (auto simp: child_row_frame [OF frame])
        moreover have "state_of_result s1 (rs_key (new_result k)) = Some ToBeRecomputed" using k(1) new by (simp add: state)
        moreover have "rs_latest_activity_at (new_result k) = min_time" by (simp add: new_result_def)
        moreover have "new_result k \<in> set (rd_results s1)" using k(1) rows by simp
        ultimately have "awaits_child s1 r" unfolding awaits_child_def by blast
        then show ?thesis by blast
      next
        case False
        then have "filter (\<lambda>c. child_row s c r) (rd_results s1) = filter (\<lambda>c. child_row s c r) (rd_results s)"
          by (simp add: rows filter_empty_conv)
        from recompute_row_cong [OF frame this] 1 show ?thesis by (simp add: computed_from_children_def)
      qed
    next
      case 2
      then show ?thesis using opening_keeps_recomputed [OF assms(1,5)] by blast
    next
      case 3
      then obtain c where c: "c \<in> set (rd_results s)" "child_row s c r"
        "state_of_result s (rs_key c) = Some ToBePropagated \<or>
         state_of_result s (rs_key c) = Some ToBeRecomputed \<and> rs_latest_activity_at c = min_time"
        unfolding awaits_child_def by blast
      from c(3) show ?thesis
      proof
        assume "state_of_result s (rs_key c) = Some ToBePropagated"
        note marks = propagating_marks_parent [OF assms(1,2) True c(1,2) whole_chunk [OF ok assms(3) this]]
        have "state_of_result s1 (rs_key r) = Some ToBeRecomputed"
          using marks opening_keeps_recomputed [OF assms(1,5), of "rs_key r"]
          by (cases "state_of_result s (rs_key r) = Some ToBeRecomputed") (simp_all add: state)
        then show ?thesis by blast
      next
        assume "state_of_result s (rs_key c) = Some ToBeRecomputed \<and> rs_latest_activity_at c = min_time"
        moreover from this have "state_of_result s1 (rs_key c) = Some ToBeRecomputed"
          using opening_keeps_recomputed [OF assms(1,5)] by blast
        moreover have "c \<in> set (rd_results s1)" "child_row s1 c r" using c(1,2) rows child_row_frame [OF frame] by simp_all
        ultimately have "awaits_child s1 r" unfolding awaits_child_def by blast
        then show ?thesis by blast
      qed
    qed
  qed
  then show "covered s1" unfolding covered_def by blast
qed

section \<open>The recomputations\<close>

lemma item_of_result:
  assumes "tables_ok s" and "c \<in> set (rd_results s)"
  shows "item_of s (rs_item c) \<noteq> None"
  using tables_okD [OF assms] by (auto simp: item_of_def tbl_find_None)

lemma modified_child_awaited:
  assumes "round_start s" and "ranked rank s" and "0 < chunk" and "c \<in> set (rd_results s)" and "child_row s c r"
    and "state_of_result s (rs_key c) = Some ToBeRecomputed"
    and "recompute_row (recompute_marked chunk s) c \<noteq> c \<or> rs_latest_activity_at c = min_time"
  shows "awaits_child (recompute_marked chunk s) r"
proof -
  let ?s = "recompute_marked chunk s"
  note rec = round_recomputed [OF assms(1-3) refl]
  have "tables_ok s" using assms(1) by (simp add: round_start_def)
  then have "row_modified_in s ?s (rs_key c)"
    using assms(4) item_of_result recompute_row_modified [OF assms(7)] unfolding row_modified_in_def by blast
  then have "state_of_result ?s (rs_key (recompute_row ?s c)) = Some ToBePropagated"
    unfolding recompute_row_key rec(3) using assms(6) by simp
  moreover have "recompute_row ?s c \<in> set (rd_results ?s)"
    unfolding rec(2) set_map using assms(4,6) by (intro image_eqI [of _ _ c]) simp_all
  moreover have "child_row ?s (recompute_row ?s c) r"
    using assms(5) child_row_frame [OF rec(1)] child_row_keys [OF recompute_row_key refl] by blast
  ultimately show ?thesis unfolding awaits_child_def by blast
qed

lemma recompute_covered:
  assumes "round_start s" and "ranked rank s" and "0 < chunk" and "covered s" and "no_state ToBePropagated s"
  shows "covered (recompute_marked chunk s)"
proof -
  let ?s = "recompute_marked chunk s"
  let ?f = "\<lambda>c. if state_of_result s (rs_key c) = Some ToBeRecomputed then recompute_row ?s c else c"
  note rec = round_recomputed [OF assms(1-3) refl]
  have fk: "rs_key (?f c) = rs_key c" for c by simp
  have "computed_from_children ?s r' \<or> awaits_child ?s r'" if r': "r' \<in> set (rd_results ?s)" and h: "has_children ?s (rs_item r')" for r'
  proof -
    from r' obtain r where r: "r \<in> set (rd_results s)" "r' = ?f r" unfolding rec(2) by auto
    show ?thesis
    proof (cases "state_of_result s (rs_key r) = Some ToBeRecomputed")
      case True
      with r(2) show ?thesis by (simp add: computed_from_children_def recompute_row_idem)
    next
      case False
      then have eq: "r' = r" using r(2) by simp
      from h have "has_children s (rs_item r)" unfolding eq has_children_frame [OF rec(1)] .
      with assms(4) r(1) False consider "computed_from_children s r" | "awaits_child s r" unfolding covered_def by blast
      then show ?thesis
      proof cases
        case 1
        show ?thesis
        proof (cases "\<exists>c \<in> set (rd_results s). child_row s c r \<and> ?f c \<noteq> c")
          case True
          then obtain c where "c \<in> set (rd_results s)" "child_row s c r" "state_of_result s (rs_key c) = Some ToBeRecomputed"
            "recompute_row ?s c \<noteq> c" by (auto split: if_splits)
          from modified_child_awaited [OF assms(1-3) this(1-3)] this(4) show ?thesis unfolding eq by blast
        next
          case False
          then have "recompute_row ?s r = recompute_row s r"
            by (intro recompute_row_map [OF rec(1,2) fk]) blast
          with 1 show ?thesis unfolding eq computed_from_children_def by simp
        qed
      next
        case 2
        then obtain c where "c \<in> set (rd_results s)" "child_row s c r" "state_of_result s (rs_key c) = Some ToBeRecomputed"
          "rs_latest_activity_at c = min_time" using no_stateD [OF assms(5)] unfolding awaits_child_def by blast
        from modified_child_awaited [OF assms(1-3) this(1-3)] this(4) show ?thesis unfolding eq by blast
      qed
    qed
  qed
  then show ?thesis unfolding covered_def by blast
qed

lemma above_marked:
  assumes "k \<in> marked_keys chunk s"
  shows "k \<in> may_be_marked s"
proof -
  obtain r a e it b where w: "r \<in> set (rd_results s)" "state_of_result (marking chunk s) (rs_key r) = Some Propagating"
    "a \<in> set (rd_attempts s)" "at_key a = (rs_participant r, rs_attempt r)"
    "e \<in> set (db_items_items (rd_db s))" "ii_child e = rs_item r" "it \<in> set (rd_items s)" "it_id it = ii_parent e"
    "b \<in> set (rd_attempts s)" "at_participant b = rs_participant r" "attempt_above a r = Some (at_id b)"
    "k = (at_participant b, at_id b, it_id it)" "parent_markable (marking chunk s) it b k"
    by (rule marked_key_origin [OF assms])
  have "rs_key r = (at_participant a, at_id a, ii_child e)" using w(4,6) by (simp add: rs_key_def at_key_def)
  moreover have "if at_root_item a = Some (ii_child e) then at_parent a = Some (at_id b) else at_id b = at_id a"
    using w(4,6,11) by (auto simp: attempt_above_def at_key_def split: if_splits)
  moreover have "at_participant b = at_participant a" using w(4,10) by (simp add: at_key_def)
  ultimately have "(rs_key r, k) \<in> results_above s"
    unfolding results_above_def mem_Collect_eq prod.case using w(3,5,7,8,9,12) by blast
  moreover have "state_of_result s (rs_key r) \<noteq> None" using marking_state [of chunk s "rs_key r"] w(2) by (metis option.discI)
  ultimately show ?thesis unfolding may_be_marked_def by blast
qed

lemma opening_fits:
  assumes "round_start s" and "marks_fit c s" and u: "unlock_items participant (mark_parents chunk s) = (s1, m, js)"
  shows "marks_fit c s1"
proof (rule marks_fit_shrink [OF assms(2) opening_frame [OF u]])
  fix k assume k: "state_of_result s1 k \<noteq> None \<or> some_unlocking s \<and> result_exists s1 k"
  from opening_rows [OF u] obtain new where
    rows: "rd_results s1 = rd_results s @ map new_result new" "set new = {k \<in> marked_keys chunk s. \<not> result_exists s k}" .
  show "k \<in> may_be_marked s"
  proof (cases "k \<in> marked_keys chunk s")
    case True
    then show ?thesis by (rule above_marked)
  next
    case False
    then have "k \<notin> set new" using rows(2) by simp
    then have "result_exists s1 k = result_exists s k" unfolding result_exists_keys rows(1) by (auto simp: image_Un image_image)
    moreover have "state_of_result s k \<noteq> None" if "state_of_result s1 k \<noteq> None"
      using that False unfolding opening_state [OF assms(1) u] by (simp split: if_splits)
    ultimately show ?thesis using k unfolding may_be_marked_def by blast
  qed
qed

lemma recompute_fits:
  assumes "round_start s" and "ranked rank s" and "0 < chunk" and "marks_fit c s"
  shows "marks_fit c (recompute_marked chunk s)"
proof (rule marks_fit_shrink [OF assms(4) round_recomputed(1) [OF assms(1-3) refl]])
  note rec = round_recomputed [OF assms(1-3) refl]
  fix k assume k: "state_of_result (recompute_marked chunk s) k \<noteq> None \<or> some_unlocking s \<and> result_exists (recompute_marked chunk s) k"
  have "rs_key ` set (rd_results (recompute_marked chunk s)) = rs_key ` set (rd_results s)"
    unfolding rec(2) set_map image_image by (rule image_cong) simp_all
  then have "result_exists (recompute_marked chunk s) k = result_exists s k" unfolding result_exists_keys by simp
  moreover have "state_of_result s k \<noteq> None" if "state_of_result (recompute_marked chunk s) k \<noteq> None"
    using that unfolding rec(3) by (simp split: if_splits)
  ultimately show "k \<in> may_be_marked s" using k unfolding may_be_marked_def by blast
qed

lemma unlocked_fits:
  assumes "marks_fit c s" and "same_frame s s'" and "rd_results s' = rd_results s" and "round_start s'" and "some_unlocking s'"
  shows "marks_fit c s'"
proof (rule marks_fit_shrink [OF assms(1,2)])
  fix k assume k: "state_of_result s' k \<noteq> None \<or> some_unlocking s \<and> result_exists s' k"
  have unl: "some_unlocking s" using assms(2,5) by (simp add: some_unlocking_def same_frame_def)
  have "tables_ok s'" using assms(4) by (simp add: round_start_def)
  from k have "result_exists s' k" using tables_ok_mark [OF \<open>tables_ok s'\<close>, of k] by blast
  then have "result_exists s k" unfolding result_exists_keys assms(3) .
  with unl show "k \<in> may_be_marked s" unfolding may_be_marked_def by blast
qed

section \<open>The result of the propagation\<close>

lemma propagation_settles:
  assumes "round_start s" and "access_ready (rd_db s)" and "0 < c1" and "0 < c2" and "marks_fit c1 s" and "covered s"
  shows "\<exists>s' is'. propagate_results c1 c2 participant is s = Some (s', is') \<and>
    (\<forall>r \<in> set (rd_results s'). has_children s' (rs_item r) \<longrightarrow> computed_from_children s' r)"
proof -
  let ?I = "\<lambda>s. marks_fit c1 s \<and> covered s"
  let ?Q = "\<lambda>s. marks_fit c1 s \<and> covered s \<and> no_state ToBePropagated s"
  have start: "?I s" using assms(5,6) by simp
  have "\<exists>s' is'. propagate_results c1 c2 participant is s = Some (s', is') \<and> rd_propagate s' = [] \<and> same_frame s s' \<and> ?Q s'"
  proof (rule propagate_results_rule [where I = ?I and Q = ?Q, OF assms(1-4) start])
    fix rank s s1 m js
    assume s: "round_start s" "ranked rank s" "?I s" and u: "unlock_items participant (mark_parents c1 s) = (s1, m, js)"
    with opening_covered [OF s(1,2) _ _ u] opening_fits [OF s(1) _ u] show "?Q s1" by blast
  next
    fix rank s assume s: "round_start s" "ranked rank s" "?Q s"
    with recompute_covered [OF s(1,2) assms(4)] recompute_fits [OF s(1,2) assms(4)] show "?I (recompute_marked c2 s)" by blast
  next
    fix s s' assume s: "?Q s" "rd_propagate s = []" and frame: "same_frame s s'" and rows: "rd_results s' = rd_results s"
      and start': "round_start s'" "some_unlocking s'"
    have same: "recompute_row s' r = recompute_row s r" for r by (rule recompute_row_cong [OF frame]) (simp add: rows)
    have c: "covered s" using s(1) by blast
    have "computed_from_children s' r" if "r \<in> set (rd_results s')" "has_children s' (rs_item r)" for r
      using all_computed [OF s(2) c, of r] that unfolding rows has_children_frame [OF frame] computed_from_children_def same by blast
    then have "covered s'" unfolding covered_def by blast
    then show "?I s'" using s unlocked_fits [OF _ frame rows start'] by blast
  qed
  then obtain s' is' where fin: "propagate_results c1 c2 participant is s = Some (s', is')" "rd_propagate s' = []" "covered s'"
    by blast
  with all_computed show ?thesis by blast
qed

text \<open>
  C17: Suppose that, when the propagation starts, the result of every chapter is computed from its children, or is marked, or waits for a
  marked child, and that one chunk (200 marks in the code) can take all results that may ever be marked in it: those above
  the marked ones, or all results where items can be unlocked.  Then it ends with the result of every chapter
  computed from its children: recomputing any of them once more changes nothing.
\<close>

theorem chapters_computed:
  assumes "round_start s" and "access_ready (rd_db s)" and "0 < c1" and "0 < c2" and "marks_fit c1 s" and "covered s"
  shows "\<exists>s' is'. propagate_results c1 c2 participant is s = Some (s', is') \<and>
    (\<forall>r \<in> set (rd_results s'). has_children s' (rs_item r) \<longrightarrow> computed_from_children s' r)"
  by (rule propagation_settles [OF assms])

end
