(* ===== verification/Grading.thy ===== *)
theory Grading
  imports ResultsSettled
begin

text \<open>
  Saving a grade (app/api/items/save_grade.go): the grading of an answer is stored once, the result of the participant is
  updated and propagated in the same transaction.  The service marks with the propagation tables of its connection
  (\<open>SetPropagationsModeToSync\<close>), which are empty when it starts; they are \<open>rd_propagate\<close> here.  The
  tokens are given as the data they carry once their signatures are verified.
\<close>

section \<open>Data\<close>

record answer_row =
  an_id :: id
  an_created_at :: time

record grading_row =
  gr_answer :: id
  gr_score :: rat
  gr_graded_at :: time

record grading_db =
  gd_results :: results_db
  gd_answers :: "answer_row list"
  gd_gradings :: "grading_row list"

record answer_token =
  ak_user :: id
  ak_user_answer :: id
  ak_local_item :: id
  ak_participant :: id
  ak_attempt :: id

record score_token =
  sc_score :: rat
  sc_user :: id
  sc_user_answer :: id
  sc_local_item :: id
  sc_participant :: id
  sc_attempt :: id

text \<open>\<open>score_computed\<close> cannot be NULL.\<close>

datatype grade_error = NullScore

definition grade_key :: "score_token \<Rightarrow> result_key" where
  "grade_key t = (sc_participant t, sc_attempt t, sc_local_item t)"

section \<open>The request\<close>

text \<open>Without a score token (or a platform with a key) the data come from the answer token and the score.\<close>

definition unmarshal_answer_token :: "(string + answer_token) option \<Rightarrow> string + answer_token" where
  "unmarshal_answer_token parsed =
     (case parsed of
        None \<Rightarrow> Inl ''missing answer_token''
      | Some (Inl e) \<Rightarrow> Inl (''invalid answer_token: '' @ e)
      | Some (Inr a) \<Rightarrow> Inr a)"

definition reconstruct_score_token :: "(string + answer_token) option \<Rightarrow> rat option \<Rightarrow> string + score_token" where
  "reconstruct_score_token parsed score =
     bind_result (unmarshal_answer_token parsed) (\<lambda>a.
       case score of
         None \<Rightarrow> Inl ''missing score''
       | Some v \<Rightarrow> Inr \<lparr>sc_score = v, sc_user = ak_user a, sc_user_answer = ak_user_answer a, sc_local_item = ak_local_item a,
                      sc_participant = ak_participant a, sc_attempt = ak_attempt a\<rparr>)"

text \<open>
  \<open>token\<close> is the outcome of \<open>UnmarshalDependingOnItemPlatform\<close> on a given score token: an error, or whether the platform
  has a key with the data of the token.
\<close>

definition unmarshal_score_token ::
  "(string + bool \<times> score_token) option \<Rightarrow> (string + answer_token) option \<Rightarrow> rat option \<Rightarrow> string + score_token" where
  "unmarshal_score_token token parsed score =
     (case token of
        Some (Inl e) \<Rightarrow> Inl e
      | Some (Inr (has_platform_key, t)) \<Rightarrow> if has_platform_key then Inr t else reconstruct_score_token parsed score
      | None \<Rightarrow> reconstruct_score_token parsed score)"

section \<open>The grading\<close>

text \<open>\<open>gradings\<close>: the answer is the primary key and a foreign key; the score cannot be NULL.\<close>

definition save_new_score_into_gradings :: "score_token \<Rightarrow> grading_db \<Rightarrow> grading_db \<times> bool" where
  "save_new_score_into_gradings t s =
     (if tbl_has gr_answer (sc_user_answer t) (gd_gradings s) \<or> \<not> tbl_has an_id (sc_user_answer t) (gd_answers s) then (s, False)
      else (s\<lparr>gd_gradings := gd_gradings s @ [\<lparr>gr_answer = sc_user_answer t, gr_score = sc_score t,
               gr_graded_at = db_now (rd_db (gd_results s))\<rparr>]\<rparr>, True))"

text \<open>\<open>newScoreExpression\<close>, None standing for NULL.\<close>

definition new_score :: "rat \<Rightarrow> result_row \<Rightarrow> rat option" where
  "new_score score r = map_option (\<lambda>v. min (max (max v (rs_score_computed r)) 0) 100) (edited_score r score)"

text \<open>The CASE for \<open>score_obtained_at\<close>, which is evaluated before \<open>score_computed\<close> changes; comparisons with NULL do not hold.\<close>

definition new_score_obtained_at :: "rat \<Rightarrow> answer_row \<Rightarrow> result_row \<Rightarrow> time option" where
  "new_score_obtained_at score a r =
     (if rs_score_obtained_at r = None \<or> (case new_score score r of None \<Rightarrow> False | Some v \<Rightarrow> rs_score_computed r < v)
      then Some (an_created_at a)
      else if new_score score r = Some (rs_score_computed r)
      then map_option (\<lambda>t. min t (an_created_at a)) (rs_score_obtained_at r)
      else rs_score_obtained_at r)"

definition new_validated_at :: "bool \<Rightarrow> answer_row \<Rightarrow> result_row \<Rightarrow> time option" where
  "new_validated_at validated a r =
     (if validated then Some (min (ifnull (rs_validated_at r) (an_created_at a)) (an_created_at a)) else rs_validated_at r)"

definition grade_result :: "rat \<Rightarrow> bool \<Rightarrow> answer_row \<Rightarrow> result_row \<Rightarrow> grade_error + result_row" where
  "grade_result score validated a r =
     (case new_score score r of
        None \<Rightarrow> Inl NullScore
      | Some v \<Rightarrow> Inr (r\<lparr>rs_tasks_tried := 1, rs_score_obtained_at := new_score_obtained_at score a r,
                        rs_score_computed := v, rs_validated_at := new_validated_at validated a r\<rparr>))"

text \<open>UPDATE results JOIN answers; no result or no answer means that no row is updated.\<close>

definition update_graded_result :: "score_token \<Rightarrow> bool \<Rightarrow> grading_db \<Rightarrow> grade_error + grading_db" where
  "update_graded_result t validated s =
     (case tbl_find an_id (sc_user_answer t) (gd_answers s) of
        None \<Rightarrow> Inr s
      | Some a \<Rightarrow>
          (case tbl_find rs_key (grade_key t) (rd_results (gd_results s)) of
             None \<Rightarrow> Inr s
           | Some r \<Rightarrow>
               bind_result (grade_result (sc_score t) validated a r) (\<lambda>r'.
                 Inr (s\<lparr>gd_results := (gd_results s)\<lparr>rd_results :=
                   map (\<lambda>x. if rs_key x = grade_key t then r' else x) (rd_results (gd_results s))\<rparr>\<rparr>))))"

text \<open>None stands for a propagation that does not end.\<close>

definition save_grading_results :: "score_token \<Rightarrow> grading_db \<Rightarrow> (grade_error + grading_db \<times> bool \<times> bool \<times> id list) option" where
  "save_grading_results t s =
     (let validated = (sc_score t = 100); (s1, saved) = save_new_score_into_gradings t s
      in if \<not> saved then Some (Inr (s1, validated, False, []))
         else case update_graded_result t validated s1 of
                Inl e \<Rightarrow> Some (Inl e)
              | Inr s2 \<Rightarrow>
                  map_option (\<lambda>(r, unlocked_items). Inr (s2\<lparr>gd_results := r\<rparr>, validated, True, unlocked_items))
                    (propagate_and_collect (sc_participant t) (mark_as_to_be_propagated (grade_key t) (gd_results s2))))"

text \<open>The service; an error rolls the transaction back.  The unlocked items come sorted and without repetition.\<close>

datatype grade_response = AlreadyGradedOrNotFound | GradeFailed grade_error | GradeCreated bool "id list"

definition save_grade :: "score_token \<Rightarrow> grading_db \<Rightarrow> (grading_db \<times> grade_response) option" where
  "save_grade t s =
     map_option (\<lambda>r. case r of
         Inl e \<Rightarrow> (s, GradeFailed e)
       | Inr (s', validated, ok, unlocked_items) \<Rightarrow>
           (s', if ok then GradeCreated validated (sort (remdups unlocked_items)) else AlreadyGradedOrNotFound))
       (save_grading_results t s)"

section \<open>The graded row\<close>

lemma grade_result_key: "grade_result score validated a r = Inr r' \<Longrightarrow> rs_key r' = rs_key r"
  by (auto simp: grade_result_def rs_key_def split: option.splits)

lemma new_score_bounds: "new_score score r = Some v \<Longrightarrow> 0 \<le> v \<and> v \<le> 100"
  by (auto simp: new_score_def)

text \<open>A valid score never drops.\<close>

lemma new_score_best: "new_score score r = Some v \<Longrightarrow> rs_score_computed r \<le> 100 \<Longrightarrow> rs_score_computed r \<le> v"
  by (auto simp: new_score_def)

text \<open>The row after the grading: the best score, and validated once and for all by a full score.\<close>

definition graded_row_ok :: "rat \<Rightarrow> answer_row \<Rightarrow> result_row \<Rightarrow> result_row \<Rightarrow> bool" where
  "graded_row_ok score a r r' =
     (rs_key r' = rs_key r \<and> rs_tasks_tried r' = 1 \<and> rs_score_computed r \<le> rs_score_computed r' \<and> score_within r' \<and>
      (rs_score_edit_rule r = None \<longrightarrow> rs_score_computed r' = min (max (max score (rs_score_computed r)) 0) 100) \<and>
      (rs_validated r' \<longleftrightarrow> rs_validated r \<or> score = 100) \<and>
      (rs_score_computed r < rs_score_computed r' \<longrightarrow> rs_score_obtained_at r' = Some (an_created_at a)))"

lemma grade_result_ok:
  assumes "rs_score_edit_rule r = None \<or> rs_score_edit_value r \<noteq> None" and "score_within r"
  shows "\<exists>r'. grade_result score (score = 100) a r = Inr r' \<and> graded_row_ok score a r r'"
proof -
  have "edited_score r score \<noteq> None"
    using assms(1) by (auto simp: edited_score_def split: option.splits edit_rule.splits)
  then obtain e where e: "edited_score r score = Some e" by blast
  then obtain v where v: "new_score score r = Some v" "v = min (max (max e (rs_score_computed r)) 0) 100" by (simp add: new_score_def)
  have "e = score" if "rs_score_edit_rule r = None" using e that by (simp add: edited_score_def)
  with v new_score_bounds [OF v(1)] new_score_best [OF v(1)] assms(2) show ?thesis
    by (auto simp: grade_result_def graded_row_ok_def rs_key_def score_within_def new_score_obtained_at_def new_validated_at_def rs_validated_def)
qed

lemma rounds_after_grading:
  assumes "tables_ok s" and "rd_propagate s = []" and "result_exists s k" and "\<And>x. rs_key (f x) = rs_key x"
    and "s' = mark_as_to_be_propagated k (s\<lparr>rd_results := map f (rd_results s)\<rparr>)"
  shows "round_start s'"
proof -
  have state: "state_of_result s' j = (if j = k then Some ToBePropagated else None)" for j
    using assms(2) by (simp add: assms(5) mark_as_to_be_propagated_def map_of_insert_mark)
  have rows: "rd_results s' = map f (rd_results s)" "rd_items s' = rd_items s" "rd_attempts s' = rd_attempts s" "rd_db s' = rd_db s"
    by (simp_all add: assms(5) mark_as_to_be_propagated_def)
  have keys: "map rs_key (rd_results s') = map rs_key (rd_results s)" unfolding rows(1) by (simp add: comp_def assms(4))
  have exists: "result_exists s' j = result_exists s j" for j
    unfolding result_exists_keys using keys by (metis list.set_map)
  have within: "within_attempt s' a i = within_attempt s a i" for a i unfolding within_attempt_def rows by (rule refl)
  have fields: "rs_item (f x) = rs_item x" "rs_participant (f x) = rs_participant x" "rs_attempt (f x) = rs_attempt x" for x
    using assms(4) [of x] by (simp_all add: rs_key_def)
  have "(\<exists>it \<in> set (rd_items s). it_id it = rs_item r) \<and>
      (\<exists>a \<in> set (rd_attempts s). at_key a = (rs_participant r, rs_attempt r) \<and> within_attempt s a (rs_item r))"
    if "r \<in> set (rd_results s')" for r
    using that tables_okD [OF assms(1)] unfolding rows set_map by (auto simp: fields)
  moreover have "distinct (map fst (rd_propagate s'))"
    using assms(2) by (simp add: assms(5) mark_as_to_be_propagated_def insert_mark_def)
  moreover have "tbl_unique rs_key (rd_results s')"
    using assms(1) keys by (simp add: tables_ok_def propagate_ok_def tbl_unique_def)
  moreover have "tbl_unique at_key (rd_attempts s)" using assms(1) by (simp add: tables_ok_def)
  moreover have "state_of_result s' j \<noteq> Some Recomputing" "state_of_result s' j \<noteq> Some Propagating" for j
    unfolding state by simp_all
  moreover have "result_exists s' j" if "state_of_result s' j \<noteq> None" for j
    using that assms(3) unfolding state exists by (simp split: if_splits)
  ultimately show ?thesis
    unfolding round_start_def tables_ok_def propagate_ok_def no_state_def rows within by blast
qed

text \<open>The graded result is marked, so all chapters above it wait for it.\<close>

lemma covered_after_grading:
  assumes computed: "\<forall>x \<in> set (rd_results s). has_children s (rs_item x) \<longrightarrow> computed_from_children s x"
    and r: "r \<in> set (rd_results s)" "rs_key r = k" "\<not> has_children s (rs_item r)" and r': "rs_key r' = k"
    and none: "rd_propagate s = []"
    and s': "s' = mark_as_to_be_propagated k (s\<lparr>rd_results := map (\<lambda>x. if rs_key x = k then r' else x) (rd_results s)\<rparr>)"
  shows "covered s'"
proof -
  let ?f = "\<lambda>x. if rs_key x = k then r' else x"
  have rows: "rd_results s' = map ?f (rd_results s)" and frame: "same_frame s s'"
    by (simp_all add: s' mark_as_to_be_propagated_def same_frame_def)
  have state: "state_of_result s' k = Some ToBePropagated" by (simp add: s' none mark_as_to_be_propagated_def map_of_insert_mark)
  have fk: "rs_key (?f x) = rs_key x" for x using r' by simp
  have in': "r' \<in> set (rd_results s')" unfolding rows using r(1,2) by (auto intro: image_eqI [of _ _ r])
  have "computed_from_children s' x \<or> awaits_child s' x" if x: "x \<in> set (rd_results s')" and h: "has_children s' (rs_item x)" for x
  proof -
    from x obtain y where y: "y \<in> set (rd_results s)" "x = ?f y" unfolding rows by auto
    have "rs_item y = rs_item x" using y(2) fk [of y] by (simp add: rs_key_def)
    then have hy: "has_children s (rs_item y)" using h has_children_frame [OF frame] by simp
    have "rs_key y \<noteq> k" using hy r(2,3) by (auto simp: rs_key_def)
    then have eq: "x = y" using y(2) by simp
    show ?thesis
    proof (cases "child_row s' r' x")
      case True
      then show ?thesis using in' state r' unfolding awaits_child_def by blast
    next
      case False
      have "?f c = c" if "c \<in> set (rd_results s)" "child_row s c x" for c
      proof -
        have "rs_key c \<noteq> k"
        proof
          assume "rs_key c = k"
          then have "child_row s r' x" using that(2) child_row_keys [of c r' x x s] r' by simp
          with False show False by (simp add: child_row_frame [OF frame])
        qed
        then show ?thesis by simp
      qed
      then have "recompute_row s' x = recompute_row s x"
        by (intro recompute_row_map [OF frame rows fk]) blast
      with computed y(1) hy eq show ?thesis by (simp add: computed_from_children_def)
    qed
  qed
  then show ?thesis unfolding covered_def by blast
qed

lemma marks_fit_after_grading:
  assumes "\<And>x. rs_key (f x) = rs_key x"
  shows "marks_fit c (mark_as_to_be_propagated k (s\<lparr>rd_results := map f (rd_results s)\<rparr>)) = marks_fit c (mark_as_to_be_propagated k s)"
proof -
  have "results_above (s\<lparr>rd_results := rs, rd_propagate := m\<rparr>) = results_above s" for rs m by (simp add: results_above_def)
  moreover have "rs_key ` set (map f (rd_results s)) = rs_key ` set (rd_results s)" by (simp add: image_image assms)
  ultimately show ?thesis
    by (simp add: marks_fit_def may_be_marked_def mark_as_to_be_propagated_def result_exists_keys some_unlocking_def results_above_def)
qed

section \<open>What the service guarantees\<close>

lemma grade_saved_aux:
  assumes "tables_ok (gd_results s)" and "rd_propagate (gd_results s) = []" and "access_ready (rd_db (gd_results s))"
    and "tbl_find an_id (sc_user_answer t) (gd_answers s) = Some a" and "\<not> tbl_has gr_answer (sc_user_answer t) (gd_gradings s)"
    and "r \<in> set (rd_results (gd_results s))" and "rs_key r = grade_key t" and "\<not> has_children (gd_results s) (sc_local_item t)"
    and "rs_score_edit_rule r = None \<or> rs_score_edit_value r \<noteq> None" and "score_within r"
    and computed: "\<forall>x \<in> set (rd_results (gd_results s)). has_children (gd_results s) (rs_item x) \<longrightarrow> computed_from_children (gd_results s) x"
    and fit: "marks_fit propagation_chunk_size (mark_as_to_be_propagated (grade_key t) (gd_results s))"
  shows "\<exists>s' is' r'. save_grade t s = Some (s', GradeCreated (sc_score t = 100) is') \<and> rd_propagate (gd_results s') = [] \<and>
    gd_gradings s' = gd_gradings s @ [\<lparr>gr_answer = sc_user_answer t, gr_score = sc_score t, gr_graded_at = db_now (rd_db (gd_results s))\<rparr>] \<and>
    r' \<in> set (rd_results (gd_results s')) \<and> graded_row_ok (sc_score t) a r r' \<and>
    (\<forall>x \<in> set (rd_results (gd_results s')). has_children (gd_results s') (rs_item x) \<longrightarrow> computed_from_children (gd_results s') x)"
proof -
  let ?g = "\<lparr>gr_answer = sc_user_answer t, gr_score = sc_score t, gr_graded_at = db_now (rd_db (gd_results s))\<rparr>"
  from grade_result_ok [OF assms(9,10)] obtain r' where
    r': "grade_result (sc_score t) (sc_score t = 100) a r = Inr r'" "graded_row_ok (sc_score t) a r r'" by blast
  let ?f = "\<lambda>x. if rs_key x = grade_key t then r' else x"
  let ?rs = "(gd_results s)\<lparr>rd_results := map ?f (rd_results (gd_results s))\<rparr>"
  let ?m = "mark_as_to_be_propagated (grade_key t) ?rs"
  have key: "rs_key r' = grade_key t" using r'(2) assms(7) by (simp add: graded_row_ok_def)
  have "tbl_has an_id (sc_user_answer t) (gd_answers s)" using assms(4) by (simp add: tbl_has_find)
  with assms(5) have saved: "save_new_score_into_gradings t s = (s\<lparr>gd_gradings := gd_gradings s @ [?g]\<rparr>, True)"
    by (simp add: save_new_score_into_gradings_def)
  have "tbl_unique rs_key (rd_results (gd_results s))" using assms(1) by (simp add: tables_ok_def propagate_ok_def)
  then have found: "tbl_find rs_key (grade_key t) (rd_results (gd_results s)) = Some r"
    using assms(6,7) by (simp add: tbl_find_in_iff)
  have exists: "result_exists (gd_results s) (grade_key t)"
    unfolding result_exists_keys using imageI [OF assms(6), of rs_key] assms(7) by simp
  have start: "round_start ?m"
    by (rule rounds_after_grading [OF assms(1,2) exists _ refl]) (simp add: key)
  have parts: "rd_db ?m = rd_db (gd_results s)" "rd_results ?m = rd_results ?rs"
    by (simp_all add: mark_as_to_be_propagated_def)
  have row: "r' \<in> set (rd_results ?m)" unfolding parts(2) using assms(6,7) by (auto intro: image_eqI [of _ _ r])
  have children: "\<not> has_children ?m (rs_item r')"
    using assms(8) key unfolding has_children_def parts by (simp add: rs_key_def grade_key_def)
  have unmarked: "state_of_result ?m (rs_key r') \<noteq> Some ToBeRecomputed"
    using assms(2) by (simp add: mark_as_to_be_propagated_def map_of_insert_mark)
  have ready: "access_ready (rd_db ?m)" using assms(3) parts by simp
  from task_results_kept [OF start ready _ _ row children unmarked, of propagation_chunk_size recomputation_chunk_size "Some (sc_participant t)" "[]"]
  obtain s1 is1 where run: "propagate_and_collect (sc_participant t) ?m = Some (s1, is1)" "rd_propagate s1 = []" "r' \<in> set (rd_results s1)"
    by (auto simp: propagate_and_collect_def propagation_chunk_size_def recomputation_chunk_size_def)
  have item: "\<not> has_children (gd_results s) (rs_item r)" using assms(7,8) by (simp add: rs_key_def grade_key_def)
  have "covered ?m" by (rule covered_after_grading [OF computed assms(6,7) item key assms(2) refl])
  moreover have "marks_fit propagation_chunk_size ?m" using fit by (subst marks_fit_after_grading) (simp_all add: key)
  ultimately have settled: "\<forall>x \<in> set (rd_results s1). has_children s1 (rs_item x) \<longrightarrow> computed_from_children s1 x"
    using propagation_settles [OF start ready, of propagation_chunk_size recomputation_chunk_size "Some (sc_participant t)" "[]"] run(1)
    by (auto simp: propagate_and_collect_def propagation_chunk_size_def recomputation_chunk_size_def)
  have update: "update_graded_result t (sc_score t = 100) (s\<lparr>gd_gradings := gd_gradings s @ [?g]\<rparr>) =
      Inr (s\<lparr>gd_gradings := gd_gradings s @ [?g], gd_results := ?rs\<rparr>)"
    using found assms(4) r'(1) by (simp add: update_graded_result_def)
  have "save_grade t s = Some (s\<lparr>gd_gradings := gd_gradings s @ [?g], gd_results := s1\<rparr>,
      GradeCreated (sc_score t = 100) (sort (remdups is1)))"
    using saved update run(1) by (simp add: save_grade_def save_grading_results_def Let_def)
  with run(2,3) r'(2) settled show ?thesis by (intro exI conjI) (assumption | simp)+
qed


text \<open>
  An answer is graded once: after its grade was saved, any other token for the same answer is refused, whatever its score,
  and changes nothing.
\<close>

lemma answer_graded_once:
  assumes "save_grade t s = Some (s', GradeCreated validated unlocked_items)" and "sc_user_answer t' = sc_user_answer t"
  shows "save_grade t' s' = Some (s', AlreadyGradedOrNotFound)"
proof -
  obtain is1 where res: "save_grading_results t s = Some (Inr (s', validated, True, is1))"
    using assms(1) unfolding save_grade_def by (cases "save_grading_results t s") (auto split: sum.splits if_splits)
  obtain s1 saved where s1: "save_new_score_into_gradings t s = (s1, saved)" by (cases "save_new_score_into_gradings t s")
  with res have saved by (cases saved) (auto simp: save_grading_results_def Let_def)
  with s1 res obtain s2 where s2: "update_graded_result t (sc_score t = 100) s1 = Inr s2" "gd_gradings s' = gd_gradings s2"
    by (auto simp: save_grading_results_def Let_def split: sum.splits)
  from s2(1) have "gd_gradings s2 = gd_gradings s1"
    by (auto simp: update_graded_result_def grade_result_def split: option.splits)
  moreover have "tbl_has gr_answer (sc_user_answer t) (gd_gradings s1)"
    using s1 \<open>saved\<close> by (auto simp: save_new_score_into_gradings_def tbl_has_def split: if_splits)
  ultimately have "save_new_score_into_gradings t' s' = (s', False)"
    using s2(2) assms(2) by (simp add: save_new_score_into_gradings_def)
  then show ?thesis by (simp add: save_grade_def save_grading_results_def Let_def)
qed

text \<open>
  A grade below the best score moves the time the score was obtained: for an answer created before, it becomes the creation
  of that answer, although the answer did not reach the score; the last case of the query, which keeps the time, never applies.
\<close>

lemma lower_grade_moves_obtained_at:
  assumes "score_within r" and "rs_score_edit_rule r = None" and "score < rs_score_computed r"
    and "rs_score_obtained_at r = Some obtained" and "an_created_at a < obtained"
  shows "\<exists>r'. grade_result score (score = 100) a r = Inr r' \<and> rs_score_computed r' = rs_score_computed r \<and>
    rs_score_obtained_at r' = Some (an_created_at a)"
proof -
  have "new_score score r = Some (rs_score_computed r)"
    using assms(1-3) by (simp add: new_score_def edited_score_def score_within_def)
  with assms(4,5) show ?thesis by (simp add: grade_result_def new_score_obtained_at_def)
qed

end
