(* ===== verification/ResultsListed.thy ===== *)
theory ResultsListed
  imports ResultsUnlocking
begin

text \<open>
  Recomputations requested for items (\<open>results_recompute_for_items\<close>): the loop that marks the results of the listed items
  chunk by chunk ends, marks exactly these, and empties the list.
\<close>

definition listed_key :: "results_db \<Rightarrow> result_key \<Rightarrow> bool" where
  "listed_key s k = (\<exists>r \<in> set (rd_results s). rs_key r = k \<and> map_of (rd_recompute_for_items s) (rs_item r) = Some True)"

lemma set_results_of_listed_items:
  "k \<in> set (results_of_listed_items s) \<longleftrightarrow> listed_key s k \<and> state_of_result s k \<noteq> Some ToBeRecomputed"
  unfolding results_of_listed_items_def listed_key_def by (simp only: in_concat_if in_singleton) blast

lemma mark_listed_chunk_frame [simp]:
  "rd_results (mark_listed_chunk c s) = rd_results s" "rd_recompute_for_items (mark_listed_chunk c s) = rd_recompute_for_items s"
  "listed_key (mark_listed_chunk c s) = listed_key s"
  by (simp_all add: mark_listed_chunk_def listed_key_def fun_eq_iff)

lemma mark_listed_chunk_state:
  "state_of_result (mark_listed_chunk c s) k =
     (if k \<in> set (take c (results_of_listed_items s)) then Some ToBeRecomputed else state_of_result s k)"
  by (simp add: mark_listed_chunk_def map_of_fold_update)

lemma mark_listed_chunk_shrinks:
  assumes "0 < c" and "results_of_listed_items s \<noteq> []"
  shows "card (set (results_of_listed_items (mark_listed_chunk c s))) < card (set (results_of_listed_items s))"
proof (rule psubset_card_mono)
  let ?k = "hd (results_of_listed_items s)"
  have "?k \<in> set (take c (results_of_listed_items s))" using assms by (cases "results_of_listed_items s"; cases c) simp_all
  then have "?k \<notin> set (results_of_listed_items (mark_listed_chunk c s))"
    unfolding set_results_of_listed_items by (simp add: mark_listed_chunk_state)
  moreover have "?k \<in> set (results_of_listed_items s)" using assms(2) by simp
  moreover have "set (results_of_listed_items (mark_listed_chunk c s)) \<subseteq> set (results_of_listed_items s)"
    by (rule subsetI) (simp add: set_results_of_listed_items mark_listed_chunk_state split: if_splits)
  ultimately show "set (results_of_listed_items (mark_listed_chunk c s)) \<subset> set (results_of_listed_items s)" by blast
qed simp

lemma mark_listed_ends:
  assumes "0 < c"
  shows "\<exists>s'. mark_listed c s = Some s' \<and> rd_results s' = rd_results s \<and>
    rd_recompute_for_items s' = filter (\<lambda>(i, b). \<not> b) (rd_recompute_for_items s) \<and>
    (\<forall>k. state_of_result s' k = (if listed_key s k then Some ToBeRecomputed else state_of_result s k))"
proof (induction "card (set (results_of_listed_items s))" arbitrary: s rule: less_induct)
  case less
  show ?case
  proof (cases "results_of_listed_items s = []")
    case True
    then have "state_of_result s k = Some ToBeRecomputed" if "listed_key s k" for k
      using set_results_of_listed_items [of k s] that by simp
    moreover have "mark_listed c s = Some (s\<lparr>rd_recompute_for_items := filter (\<lambda>(i, b). \<not> b) (rd_recompute_for_items s)\<rparr>)"
      using True by (subst mark_listed.simps) simp
    ultimately show ?thesis by simp
  next
    case False
    then have run: "mark_listed c s = mark_listed c (mark_listed_chunk c s)" by (subst mark_listed.simps) simp
    have "state_of_result (mark_listed_chunk c s) k = state_of_result s k" if "\<not> listed_key s k" for k
      using that set_results_of_listed_items in_set_takeD unfolding mark_listed_chunk_state by metis
    then have "(if listed_key s k then Some ToBeRecomputed else state_of_result (mark_listed_chunk c s) k) =
        (if listed_key s k then Some ToBeRecomputed else state_of_result s k)" for k by simp
    with less.hyps [OF mark_listed_chunk_shrinks [OF assms False]] show ?thesis
      unfolding run mark_listed_chunk_frame by metis
  qed
qed

text \<open>
  The marking of the results of listed items ends; then all results of the items that were listed at its start are marked
  for a recomputation, all other marks are as before, no result has changed and the list is empty.
\<close>

lemma listed_results_marked:
  "\<exists>s'. set_results_propagation_from_listed_items s = Some s' \<and> rd_results s' = rd_results s \<and> rd_recompute_for_items s' = [] \<and>
    (\<forall>k. state_of_result s' k =
      (if \<exists>r \<in> set (rd_results s). rs_key r = k \<and> rs_item r \<in> fst ` set (rd_recompute_for_items s)
       then Some ToBeRecomputed else state_of_result s k))"
proof -
  let ?s = "s\<lparr>rd_recompute_for_items := map (\<lambda>(i, b). (i, True)) (rd_recompute_for_items s)\<rparr>"
  have "map_of (map (\<lambda>(i, b). (i, True)) m) i = Some True \<longleftrightarrow> i \<in> fst ` set m" for m :: "(id, bool) gomap" and i
    by (induction m) auto
  then have listed: "listed_key ?s k \<longleftrightarrow> (\<exists>r \<in> set (rd_results s). rs_key r = k \<and> rs_item r \<in> fst ` set (rd_recompute_for_items s))" for k
    by (simp add: listed_key_def)
  have empty: "filter (\<lambda>(i, b). \<not> b) (map (\<lambda>(i, b). (i, True)) m) = []" for m :: "(id, bool) gomap"
    by (induction m) auto
  have parts: "rd_results ?s = rd_results s" "rd_propagate ?s = rd_propagate s"
    "filter (\<lambda>(i, b). \<not> b) (rd_recompute_for_items ?s) = []" using empty by simp_all
  show ?thesis
    using mark_listed_ends [of 20000 ?s] unfolding parts listed set_results_propagation_from_listed_items_def by simp
qed

end
