(* ===== verification/ResultsExamples.thy ===== *)
theory ResultsExamples
  imports ResultsSettled ResultsListed MembershipExamples
begin

text \<open>
  The propagation of results on a chapter (1) in a chapter (2) with a task (3): the theorems applied there, and a run that
  loses a mark when the marks do not fit in a chunk.
\<close>

definition ex_edge :: "id \<Rightarrow> id \<Rightarrow> items_items_row" where
  "ex_edge p c = \<lparr>ii_parent = p, ii_child = c, ii_child_order = 1, ii_category = Undefined, ii_content_view_propagation = AsContent,
     ii_upper_view_levels_propagation = AsIs, ii_grant_view_propagation = True, ii_watch_propagation = True,
     ii_edit_propagation = True, ii_request_help_propagation = True, ii_score_weight = 1\<rparr>"

definition ex_item :: "id \<Rightarrow> item_row" where
  "ex_item i = \<lparr>it_id = i, it_type = Chapter, it_text_id = None, it_requires_explicit_entry = False, it_no_score = False,
     it_validation_type = ValidationAll, it_read_only = False, it_allows_multiple_attempts = False, it_duration = None,
     it_participants_group = None, it_entry_is_team = False, it_entry_max_team_size = 0,
     it_entry_min_admitted_members_ratio = AdmittedNone, it_entry_frozen_teams = False, it_entering_time_min = min_time,
     it_entering_time_max = max_time\<rparr>"

definition ex_result :: "id \<Rightarrow> rat \<Rightarrow> time \<Rightarrow> nat \<Rightarrow> result_row" where
  "ex_result i score t tried =
     (new_result (10, 0, i))\<lparr>rs_score_computed := score, rs_latest_activity_at := t, rs_tasks_tried := tried\<rparr>"

text \<open>The task was solved and the inner chapter is up to date; both wait, the outer chapter is not computed yet.\<close>

definition ex_results :: results_db where
  "ex_results = \<lparr>rd_db = ex_empty_db\<lparr>db_items_items := [ex_edge 1 2, ex_edge 2 3], db_items_ancestors := [(1, 2), (1, 3), (2, 3)]\<rparr>,
     rd_items = map ex_item [1, 2, 3],
     rd_attempts = [\<lparr>at_participant = 10, at_id = 0, at_creator = None, at_parent = None, at_root_item = None, at_created_at = 10,
        at_ended_at = None, at_allows_submissions_until = max_time\<rparr>],
     rd_results = [ex_result 1 0 40 0, ex_result 2 80 50 1, ex_result 3 80 50 1],
     rd_dependencies = [], rd_contest_items = [], rd_propagate = [((10, 0, 3), ToBePropagated), ((10, 0, 2), ToBePropagated)],
     rd_recompute_for_items = []\<rparr>"

text \<open>The same tables with the chapters marked for a recomputation.\<close>

definition ex_marked :: results_db where
  "ex_marked = ex_results\<lparr>rd_propagate := [((10, 0, 1), ToBeRecomputed), ((10, 0, 2), ToBeRecomputed)]\<rparr>"

definition ex_rank :: "id \<Rightarrow> nat" where
  "ex_rank i = nat i"

lemmas ex_results_simps = ex_results_def ex_marked_def ex_item_def ex_result_def new_result_def rs_key_def at_key_def

lemma ex_results_start: "round_start ex_results"
  by (simp add: ex_results_simps round_start_def tables_ok_def propagate_ok_def no_state_def tbl_unique_def
      within_attempt_def result_exists_def tbl_has_def)

lemma ex_marked_ok: "propagate_ok ex_marked"
  by (simp add: ex_results_simps propagate_ok_def tbl_unique_def)

lemma ex_ranked: "ranked ex_rank ex_results" "ranked ex_rank ex_marked"
  by code_simp+

section \<open>The theorems applied\<close>

lemma recompute_marked_correct_witness:
  "state_of_result (recompute_marked 1000 ex_marked) (10, 0, 1) = Some ToBePropagated \<and>
   state_of_result (recompute_marked 1000 ex_marked) (10, 0, 2) = None"
proof -
  have "row_modified_in ex_marked (recompute_marked 1000 ex_marked) (10, 0, 1)"
    and "\<not> row_modified_in ex_marked (recompute_marked 1000 ex_marked) (10, 0, 2)" by code_simp+
  moreover have "state_of_result ex_marked (10, 0, 1) = Some ToBeRecomputed" "state_of_result ex_marked (10, 0, 2) = Some ToBeRecomputed"
    by code_simp+
  ultimately show ?thesis using recompute_marked_correct [OF ex_marked_ok ex_ranked(2), of 1000] by simp
qed

lemma propagation_ends_witness:
  "\<exists>s' n' is'. propagate_loop 200 1000 (Some 10) 0 [] ex_results = Some (s', n', is') \<and> rd_propagate s' = []"
  by (rule propagation_ends [OF ex_results_start ex_ranked(1)]) simp_all

section \<open>A lost mark\<close>

text \<open>The loop on the example, with the scores it ends with.\<close>

definition final_scores :: "nat \<Rightarrow> rat list option" where
  "final_scores chunk =
     map_option (\<lambda>(s, n, is). map rs_score_computed (rd_results s)) (propagate_loop chunk 1000 (Some 10) 0 [] ex_results)"

text \<open>
  With a chunk for both marks the outer chapter gets its score.  When the mark of the inner chapter has to wait for the next chunk, the
  mark of the task overwrites it with 'to_be_recomputed'; the recomputation changes nothing and deletes it, and the
  outer chapter keeps its old score.
\<close>

lemma ex_final_scores: "final_scores 200 = Some [80, 80, 80] \<and> final_scores 1 = Some [0, 80, 80]"
  by code_simp

definition ex_opened :: results_db where
  "ex_opened = fst (unlock_items (Some 10) (mark_parents 1 ex_results))"

lemma waiting_mark_lost_witness:
  "state_of_result ex_results (10, 0, 2) = Some ToBePropagated \<and>
   state_of_result (recompute_marked 1000 ex_opened) (10, 0, 2) = None \<and> final_scores 1 = Some [0, 80, 80]"
proof -
  have "state_of_result (marking 1 ex_results) (10, 0, 2) = Some ToBePropagated" by code_simp
  moreover have "(10, 0, 2) \<in> marked_keys 1 ex_results" by code_simp
  moreover have "\<not> row_modified_in ex_opened (recompute_marked 1000 ex_opened) (10, 0, 2)" by code_simp
  ultimately show ?thesis
    using waiting_mark_lost [OF ex_results_start ex_ranked(1) _ _ _ ex_opened_def, of 1000 "(10, 0, 2)"] ex_final_scores by simp
qed

section \<open>Unlocking\<close>

text \<open>A score of 80 on the task unlocks another item (4).\<close>

definition ex_unlock :: results_db where
  "ex_unlock = ex_results\<lparr>rd_items := map ex_item [1, 2, 3, 4],
     rd_dependencies := [\<lparr>dp_item = 3, dp_dependent_item = 4, dp_score = 80, dp_grant_content_view = True\<rparr>],
     rd_recompute_for_items := [(1, False)]\<rparr>"

definition ex_unlocking :: results_db where
  "ex_unlocking = marking 200 ex_unlock"

definition ex_unlocked :: "results_db \<times> nat \<times> id list" where
  "ex_unlocked = unlock_items (Some 10) ex_unlocking"

lemma ex_unlocked_run: "unlock_items (Some 10) ex_unlocking = (fst ex_unlocked, fst (snd ex_unlocked), snd (snd ex_unlocked))"
  by (simp add: ex_unlocked_def)

lemma dependent_items_unlocked_witness:
  "\<not> unlocked (rd_db ex_unlocking) 10 (ex_item 4) \<and> unlocked (rd_db (fst ex_unlocked)) 10 (ex_item 4) \<and> 4 \<in> set (snd (snd ex_unlocked))"
proof -
  let ?dp = "\<lparr>dp_item = 3, dp_dependent_item = 4, dp_score = 80, dp_grant_content_view = True\<rparr>"
  have locked: "\<not> unlocked (rd_db ex_unlocking) 10 (ex_item 4)" by code_simp
  have "unlocked (rd_db (fst ex_unlocked)) (rs_participant (ex_result 3 80 50 1)) (ex_item 4) \<and>
      (rs_participant (ex_result 3 80 50 1) = 10 \<and> \<not> unlocked (rd_db ex_unlocking) 10 (ex_item 4) \<longrightarrow> it_id (ex_item 4) \<in> set (snd (snd ex_unlocked)))"
  proof (rule dependent_items_unlocked [OF ex_unlocked_run, where dp = ?dp])
    show "tbl_unique pg_key (db_permissions_granted (rd_db ex_unlocking))" "db_now (rd_db ex_unlocking) < max_time"
      "ex_result 3 80 50 1 \<in> set (rd_results ex_unlocking)"
      "state_of_result ex_unlocking (rs_key (ex_result 3 80 50 1)) = Some Propagating"
      "?dp \<in> set (rd_dependencies ex_unlocking)" "dp_item ?dp = rs_item (ex_result 3 80 50 1)"
      "of_nat (dp_score ?dp) \<le> rs_score_computed (ex_result 3 80 50 1)" "dp_grant_content_view ?dp"
      "ex_item 4 \<in> set (rd_items ex_unlocking)" "it_id (ex_item 4) = dp_dependent_item ?dp"
      by code_simp+
  qed
  moreover have "rs_participant (ex_result 3 80 50 1) = 10" "it_id (ex_item 4) = 4" by code_simp+
  ultimately show ?thesis using locked by simp
qed

text \<open>A grant of the same origin that is too low, as an earlier entry in the table.\<close>

definition ex_low_grant :: granted_row where
  "ex_low_grant = (unlocking_row 50 10 4 1 max_time)\<lparr>pg_can_watch := 2\<rparr>"

definition ex_low :: results_db where
  "ex_low = ex_unlocking\<lparr>rd_db := (rd_db ex_unlocking)\<lparr>db_permissions_granted := [ex_low_grant]\<rparr>\<rparr>"

lemma unlocking_only_raises_witness:
  "\<exists>g'. tbl_find pg_key (10, 4, 10, ItemUnlocking) (db_permissions_granted (rd_db (fst (unlock_items (Some 10) ex_low)))) = Some g' \<and>
    grant_raised ex_low_grant g'"
proof (rule unlocking_only_raises)
  show "unlock_items (Some 10) ex_low = (fst (unlock_items (Some 10) ex_low), fst (snd (unlock_items (Some 10) ex_low)),
    snd (snd (unlock_items (Some 10) ex_low)))" by simp
  show "tbl_find pg_key (10, 4, 10, ItemUnlocking) (db_permissions_granted (rd_db ex_low)) = Some ex_low_grant" by code_simp
qed

lemma ex_results_edges: "item_edges (rd_db ex_unlock) = {(1, 2), (2, 3)}"
proof -
  have "item_edges (rd_db ex_unlock) = (\<lambda>e. (ii_parent e, ii_child e)) ` set [ex_edge 1 2, ex_edge 2 3]"
    by (auto simp: item_edges_def ex_unlock_def ex_results_def)
  then show ?thesis by (simp add: ex_edge_def)
qed

lemma ex_unlock_access_ready: "access_ready (rd_db ex_unlock)"
proof -
  have none: "access (rd_db ex_unlock) k = no_access k" for k
    by (simp add: access_def tbl_find_def ex_unlock_def ex_results_def ex_empty_db_def)
  have "pair_consistent (rd_db ex_unlock) (g, i)" for g i
    unfolding pair_consistent_def none compute_pair_def generated_row_of_def Let_def
    by (auto simp: no_access_def ex_unlock_def ex_results_def ex_edge_def ex_empty_db_def ifnull_max_def
        parent_levels_def parent_view_def generated_lookup_def tbl_find_def)
  moreover have "acyclic (item_edges (rd_db ex_unlock))"
    unfolding ex_results_edges by (rule acyclicI_order [where f = uminus]) auto
  moreover have "(item_edges (rd_db ex_unlock))\<^sup>+ = {(1, 2), (1, 3), (2, 3)}"
  proof -
    have "(item_edges (rd_db ex_unlock))\<^sup>+ \<subseteq> {(1, 2), (1, 3), (2, 3)}"
      by (rule trancl_Int_subset) (auto simp: ex_results_edges)
    moreover have "(1, 3) \<in> (item_edges (rd_db ex_unlock))\<^sup>+"
      by (rule trancl_into_trancl [OF r_into_trancl, of 1 2]) (simp_all add: ex_results_edges)
    ultimately show ?thesis by (auto simp: ex_results_edges)
  qed
  ultimately show ?thesis
    by (auto simp: access_ready_def access_invariant_def access_keys_ok_def marked_def ex_unlock_def ex_results_def ex_empty_db_def
        tbl_unique_def max_time_def)
qed

lemma ex_unlock_start: "round_start ex_unlock"
  by (simp add: ex_unlock_def ex_results_simps round_start_def tables_ok_def propagate_ok_def no_state_def tbl_unique_def
      within_attempt_def result_exists_def tbl_has_def)


lemma task_results_kept_witness:
  "\<exists>s' is'. propagate_results 200 1000 (Some 10) [] ex_unlock = Some (s', is') \<and> rd_propagate s' = [] \<and> same_frame ex_unlock s' \<and>
    ex_result 3 80 50 1 \<in> set (rd_results s')"
proof (rule task_results_kept [OF ex_unlock_start ex_unlock_access_ready])
  show "ex_result 3 80 50 1 \<in> set (rd_results ex_unlock)" "\<not> has_children ex_unlock (rs_item (ex_result 3 80 50 1))"
    "state_of_result ex_unlock (rs_key (ex_result 3 80 50 1)) \<noteq> Some ToBeRecomputed"
    by code_simp+
qed simp_all

lemma chapters_computed_witness:
  "\<exists>s' is'. propagate_results 200 1000 (Some 10) [] ex_unlock = Some (s', is') \<and>
    filter (\<lambda>r. has_children s' (rs_item r) \<and> \<not> computed_from_children s' r) (rd_results s') = []"
proof -
  have "tables_ok ex_unlock" using ex_unlock_start by (simp add: round_start_def)
  moreover have "length (rd_attempts ex_unlock) * length (rd_items ex_unlock) \<le> 200" by code_simp
  ultimately have fit: "marks_fit 200 ex_unlock" by (rule all_marks_fit)
  have "covered ex_unlock" by code_simp
  from chapters_computed [OF ex_unlock_start ex_unlock_access_ready _ _ fit this, of 1000 "Some 10" "[]"] show ?thesis
    by (simp add: filter_empty_conv)
qed

lemma scores_within_bounds_witness:
  "\<exists>s' is'. propagate_results 200 1000 (Some 10) [] ex_unlock = Some (s', is') \<and> list_all score_within (rd_results s')"
proof -
  have "\<forall>r \<in> set (rd_results ex_unlock). score_within r" by code_simp
  from scores_within_bounds [OF ex_unlock_start ex_unlock_access_ready _ _ this, of 200 1000 "Some 10" "[]"] show ?thesis
    by (simp add: list_all_iff)
qed

end
