(* ===== verification/GradingExamples.thy ===== *)
theory GradingExamples
  imports Grading ResultsExamples
begin

text \<open>
  A task with 30 points whose best answer was created at 50; a grade of 100 for another answer unlocks an item.
\<close>

definition ex_solving :: result_row where
  "ex_solving = (ex_result 3 30 50 1)\<lparr>rs_score_obtained_at := Some 50\<rparr>"

definition ex_grading :: grading_db where
  "ex_grading = \<lparr>gd_results = ex_unlock\<lparr>rd_results := [ex_result 1 30 50 1, ex_result 2 30 50 1, ex_solving], rd_propagate := []\<rparr>,
     gd_answers = [\<lparr>an_id = 7, an_created_at = 45\<rparr>, \<lparr>an_id = 8, an_created_at = 60\<rparr>], gd_gradings = []\<rparr>"

definition ex_token :: "rat \<Rightarrow> score_token" where
  "ex_token score = \<lparr>sc_score = score, sc_user = 10, sc_user_answer = 8, sc_local_item = 3, sc_participant = 10, sc_attempt = 0\<rparr>"

lemma ex_grading_tables: "tables_ok (gd_results ex_grading)"
  by (simp add: ex_grading_def ex_solving_def ex_unlock_def ex_results_simps tables_ok_def propagate_ok_def tbl_unique_def
      within_attempt_def result_exists_def tbl_has_def)

lemma ex_grading_ready: "access_ready (rd_db (gd_results ex_grading))"
  using ex_unlock_access_ready by (simp add: ex_grading_def)

lemma ex_grading_fits: "marks_fit propagation_chunk_size (mark_as_to_be_propagated (grade_key (ex_token 100)) (gd_results ex_grading))"
proof (rule all_marks_fit)
  show "tables_ok (mark_as_to_be_propagated (grade_key (ex_token 100)) (gd_results ex_grading))"
    by (simp add: ex_grading_def ex_solving_def ex_unlock_def ex_results_simps tables_ok_def propagate_ok_def tbl_unique_def
        within_attempt_def result_exists_def tbl_has_def mark_as_to_be_propagated_def insert_mark_def grade_key_def ex_token_def)
qed code_simp


definition ex_graded :: grading_db where
  "ex_graded = (case save_grade (ex_token 100) ex_grading of None \<Rightarrow> ex_grading | Some (s, _) \<Rightarrow> s)"

lemma ex_graded_run: "save_grade (ex_token 100) ex_grading = Some (ex_graded, GradeCreated True [4])"
proof -
  have "map_option snd (save_grade (ex_token 100) ex_grading) = Some (GradeCreated True [4])" by code_simp
  then show ?thesis by (auto simp: ex_graded_def)
qed

lemma answer_graded_once_witness: "save_grade (ex_token 50) ex_graded = Some (ex_graded, AlreadyGradedOrNotFound)"
  by (rule answer_graded_once [OF ex_graded_run]) (simp add: ex_token_def)

lemma lower_grade_moves_obtained_at_witness:
  "\<exists>r'. grade_result 10 (10 = (100 :: rat)) \<lparr>an_id = 7, an_created_at = 45\<rparr> ex_solving = Inr r' \<and>
    rs_score_computed r' = rs_score_computed ex_solving \<and> rs_score_obtained_at r' = Some 45"
proof -
  have "score_within ex_solving" "rs_score_edit_rule ex_solving = None" "10 < rs_score_computed ex_solving"
    "rs_score_obtained_at ex_solving = Some 50" by code_simp+
  from lower_grade_moves_obtained_at [OF this, of "\<lparr>an_id = 7, an_created_at = 45\<rparr>"] show ?thesis by simp
qed

end
