(* ===== verification/GroupRelations.thy ===== *)
theory GroupRelations
  imports Threads Ancestors
begin

text \<open>
  Relations of groups outside the transitions: \<open>CreateRelation\<close>, \<open>CreateRelationsWithoutChecking\<close>, \<open>DeleteRelation\<close> and the
  deletion of a group with its orphaned descendants (app/database/group_group_store.go), and the services that add and
  remove a subgroup and delete a group (app/api/groups/add_child.go, remove_child.go, delete_group.go).  Threads
  count because a helper group cannot be deleted.  The table \<open>filters\<close> is not modelled.
\<close>

section \<open>Creating relations\<close>

datatype relation_error = RelationCycle | RelationFailed db_error

definition lift_relation :: "db_error + 'a \<Rightarrow> relation_error + 'a" where
  "lift_relation r = (case r of Inl e \<Rightarrow> Inl (RelationFailed e) | Inr x \<Rightarrow> Inr x)"

text \<open>InsertMap of the two ids: the other columns have their defaults.\<close>

definition plain_relation :: "id \<Rightarrow> id \<Rightarrow> gg_row" where
  "plain_relation parent child =
     \<lparr>gg_parent = parent, gg_child = child, gg_expires_at = max_time, gg_personal_info_view_approved_at = None,
      gg_lock_membership_approved_at = None, gg_watch_approved_at = None, gg_is_team_membership = False\<rparr>"

definition is_ancestor_row :: "db \<Rightarrow> id \<Rightarrow> id \<Rightarrow> bool" where
  "is_ancestor_row d a c = (\<exists>r \<in> set (db_groups_ancestors d). ga_ancestor r = a \<and> ga_child r = c)"

definition create_relation :: "id \<Rightarrow> id \<Rightarrow> db \<Rightarrow> relation_error + db" where
  "create_relation parent child d =
     (if is_ancestor_row d child parent then Inl RelationCycle
      else
        let d1 = fst (delete_groups_groups (\<lambda>r. gg_child r = child \<and> gg_parent r = parent) d);
            d2 = delete_pending_rows (\<lambda>r. pr_group r = parent \<and> pr_member r = child) d1
        in bind_result (lift_relation (insert_groups_groups (plain_relation parent child) d2)) (\<lambda>d3.
           bind_result (lift_relation (groups_create_new_ancestors d3)) (\<lambda>d4. Inr (schedule_results_propagation d4))))"

text \<open>The relations come with any columns; one INSERT for all.\<close>

definition create_relations_without_checking :: "gg_row list \<Rightarrow> db \<Rightarrow> db_error + db" where
  "create_relations_without_checking rs d =
     bind_result (fold_result insert_groups_groups rs d) groups_create_new_ancestors"

section \<open>Deleting groups\<close>

definition delete_objects_linked_to_groups :: "id list \<Rightarrow> db \<Rightarrow> db \<times> nat \<times> nat" where
  "delete_objects_linked_to_groups ids d =
     (let (d1, n1) = delete_groups_groups (\<lambda>r. gg_parent r \<in> set ids) d;
          (d2, n2) = delete_groups_groups (\<lambda>r. gg_child r \<in> set ids) d1;
          (d3, n3) = delete_permissions_granted (\<lambda>r. pg_source_group r \<in> set ids) d2
      in (d3, n1 + n2, n3))"

text \<open>
  DELETE FROM \<open>groups\<close>.  The foreign keys of most tables cascade; those of the helper group of a thread, of
  \<open>can_request_help_to\<close> and of the source group of a grant do not, and make the statement fail.
\<close>

definition delete_groups :: "id list \<Rightarrow> threads_db \<Rightarrow> db_error + threads_db" where
  "delete_groups ids s =
     (let d = td_db s;
          threads = filter (\<lambda>t. th_participant t \<notin> set ids) (td_threads s);
          granted = filter (\<lambda>p. pg_group p \<notin> set ids) (db_permissions_granted d)
      in if (\<exists>t \<in> set threads. th_helper_group t \<in> set ids) \<or>
            (\<exists>p \<in> set granted. pg_source_group p \<in> set ids \<or>
               (case pg_can_request_help_to p of None \<Rightarrow> False | Some h \<Rightarrow> h \<in> set ids))
         then Inl ForeignKeyConstraint
         else Inr (s\<lparr>td_threads := threads,
                td_validated_results := filter (\<lambda>(p, i). p \<notin> set ids) (td_validated_results s),
                td_db := d\<lparr>
                  db_groups := filter (\<lambda>g. g_id g \<notin> set ids) (db_groups d),
                  db_groups_groups := filter (\<lambda>r. gg_parent r \<notin> set ids \<and> gg_child r \<notin> set ids) (db_groups_groups d),
                  db_groups_ancestors := filter (\<lambda>r. ga_ancestor r \<notin> set ids \<and> ga_child r \<notin> set ids) (db_groups_ancestors d),
                  db_groups_propagate := filter (\<lambda>(g, m). g \<notin> set ids) (db_groups_propagate d),
                  db_pending := filter (\<lambda>r. pr_group r \<notin> set ids \<and> pr_member r \<notin> set ids) (db_pending d),
                  db_changes := filter (\<lambda>r. ch_group r \<notin> set ids \<and> ch_member r \<notin> set ids) (db_changes d),
                  db_managers := filter (\<lambda>r. gm_group r \<notin> set ids \<and> gm_manager r \<notin> set ids) (db_managers d),
                  db_permissions_granted := granted,
                  db_permissions_generated := filter (\<lambda>p. pgen_group p \<notin> set ids) (db_permissions_generated d),
                  db_permissions_propagate := filter (\<lambda>((g, i), m). g \<notin> set ids) (db_permissions_propagate d)\<rparr>\<rparr>))"

text \<open>The descendants that may go with the group, and those of them with other groups of this kind above them only.\<close>

definition candidates_for_deletion :: "id \<Rightarrow> db \<Rightarrow> id list" where
  "candidates_for_deletion g d =
     [g_id x. x \<leftarrow> db_groups d, a \<leftarrow> groups_ancestors_active d,
        ga_child a = g_id x \<and> ga_ancestor a \<noteq> ga_child a \<and> ga_ancestor a = g \<and> g_type x \<noteq> Base \<and> g_type x \<noteq> User]"

definition orphans :: "id list \<Rightarrow> db \<Rightarrow> id list" where
  "orphans candidates d =
     [g_id x. x \<leftarrow> db_groups d, g_id x \<in> set candidates \<and>
        \<not> (\<exists>a \<in> set (groups_ancestors_active d). ga_ancestor a \<notin> set candidates \<and> ga_child a = g_id x \<and> ga_ancestor a \<noteq> ga_child a)]"

definition ancestors_if_relations_deleted :: "db \<times> nat \<times> nat \<Rightarrow> db_error + db \<times> nat" where
  "ancestors_if_relations_deleted r =
     (case r of (d, relations, permissions) \<Rightarrow>
        bind_result (if 0 < relations then groups_create_new_ancestors d else Inr d) (\<lambda>d'. Inr (d', permissions)))"

definition delete_group_and_orphaned_descendants :: "id \<Rightarrow> threads_db \<Rightarrow> db_error + threads_db" where
  "delete_group_and_orphaned_descendants g s =
     (let candidates = candidates_for_deletion g (td_db s) in
      bind_result (ancestors_if_relations_deleted (delete_objects_linked_to_groups [g] (td_db s))) (\<lambda>(d1, n1).
        let ids = (if candidates = [] then [] else orphans candidates d1) in
        bind_result (if ids = [] then Inr (d1, 0) else ancestors_if_relations_deleted (delete_objects_linked_to_groups ids d1)) (\<lambda>(d2, n2).
          bind_result (delete_groups (ids @ [g]) (s\<lparr>td_db := d2\<rparr>)) (\<lambda>s3.
            Inr (if 0 < n1 + n2 then s3\<lparr>td_db := schedule_permissions_propagation (td_db s3)\<rparr> else s3)))))"

definition delete_relation :: "id \<Rightarrow> id \<Rightarrow> bool \<Rightarrow> threads_db \<Rightarrow> db_error + threads_db" where
  "delete_relation parent child should_delete_orphans s =
     (if (\<forall>r \<in> set (groups_groups_active (td_db s)). gg_child r = child \<longrightarrow> gg_parent r = parent) \<and> should_delete_orphans
      then delete_group_and_orphaned_descendants child s
      else
        let d1 = fst (delete_groups_groups (\<lambda>r. gg_parent r = parent \<and> gg_child r = child) (td_db s));
            (d2, n) = delete_permissions_granted
              (\<lambda>p. pg_origin p = GroupMembership \<and> pg_source_group p = parent \<and> pg_group p = child) d1
        in bind_result (groups_create_new_ancestors d2) (\<lambda>d3.
             Inr (s\<lparr>td_db := (if 0 < n then schedule_permissions_propagation d3 else d3)\<rparr>)))"

section \<open>The services\<close>

datatype group_service_error = Forbidden | ForbiddenCycle | OwnParent | NotEmpty | Failed db_error

definition lift_service :: "db_error + 'a \<Rightarrow> group_service_error + 'a" where
  "lift_service r = (case r of Inl e \<Rightarrow> Inl (Failed e) | Inr x \<Rightarrow> Inr x)"

text \<open>The numbers of the ENUM \<open>can_manage\<close>: 'none', 'memberships', 'memberships_and_group'.\<close>

abbreviation manage_none :: nat where "manage_none \<equiv> 1"

abbreviation manage_memberships_and_group :: nat where "manage_memberships_and_group \<equiv> 3"

text \<open>The row of a group in the query of the rights, if there is one.\<close>

definition managed_group_row :: "db \<Rightarrow> id \<Rightarrow> id \<Rightarrow> id \<Rightarrow> bool \<Rightarrow> id \<Rightarrow> group_row option" where
  "managed_group_row d user parent child create g =
     (if \<exists>m \<in> set (managed_by d user g). (g = parent \<longrightarrow> gm_can_manage m \<noteq> manage_none) \<and>
           (create \<and> g = child \<longrightarrow> gm_can_manage m = manage_memberships_and_group)
      then group_by_id d g else None)"

definition has_rights_for_direct_relation :: "db \<Rightarrow> id \<Rightarrow> id \<Rightarrow> id \<Rightarrow> bool \<Rightarrow> bool" where
  "has_rights_for_direct_relation d user parent child create =
     (parent \<noteq> child \<and>
      (case (managed_group_row d user parent child create parent, managed_group_row d user parent child create child) of
         (Some p, Some c) \<Rightarrow> g_type p \<noteq> User \<and> g_type p \<noteq> Team \<and> g_type c \<noteq> Base \<and> g_type c \<noteq> User
       | _ \<Rightarrow> False))"

definition add_child :: "id \<Rightarrow> id \<Rightarrow> id \<Rightarrow> db \<Rightarrow> group_service_error + db" where
  "add_child user parent child d =
     (if parent = child then Inl OwnParent
      else if \<not> has_rights_for_direct_relation d user parent child True then Inl Forbidden
      else case create_relation parent child d of
             Inl RelationCycle \<Rightarrow> Inl ForbiddenCycle
           | Inl (RelationFailed e) \<Rightarrow> Inl (Failed e)
           | Inr d' \<Rightarrow> Inr d')"

definition remove_child :: "id \<Rightarrow> id \<Rightarrow> id \<Rightarrow> bool \<Rightarrow> threads_db \<Rightarrow> group_service_error + threads_db" where
  "remove_child user parent child delete_orphans s =
     (if \<not> has_rights_for_direct_relation (td_db s) user parent child False then Inl Forbidden
      else if \<not> (\<exists>r \<in> set (groups_groups_active (td_db s)). gg_parent r = parent \<and> gg_child r = child) then Inl Forbidden
      else lift_service (delete_relation parent child delete_orphans s))"

text \<open>The error of the foreign key is recovered into a local variable and lost.\<close>

definition update_helper_group_id :: "id \<Rightarrow> id \<Rightarrow> threads_db \<Rightarrow> threads_db" where
  "update_helper_group_id old new s =
     (if (\<exists>t \<in> set (td_threads s). th_helper_group t = old) \<and> \<not> group_exists (td_db s) new then s
      else s\<lparr>td_threads := map (\<lambda>t. if th_helper_group t = old then t\<lparr>th_helper_group := new\<rparr> else t) (td_threads s)\<rparr>)"

definition delete_group :: "id \<Rightarrow> id \<Rightarrow> id \<Rightarrow> threads_db \<Rightarrow> group_service_error + threads_db" where
  "delete_group all_users user g s =
     (if \<not> (\<exists>m \<in> set (managed_by (td_db s) user g). gm_can_manage m = manage_memberships_and_group) \<or>
         (case group_by_id (td_db s) g of None \<Rightarrow> True | Some x \<Rightarrow> g_type x = User) then Inl Forbidden
      else if \<exists>r \<in> set (groups_groups_active (td_db s)). gg_parent r = g then Inl NotEmpty
      else lift_service (delete_group_and_orphaned_descendants g (update_helper_group_id g all_users s)))"

end
