(* ===== verification/GroupRelationRules.thy ===== *)
theory GroupRelationRules
  imports GroupRelations
begin

text \<open>
  What the operations on relations of groups guarantee: the cache of the ancestors stays right, a deletion takes exactly the
  orphaned descendants, a new relation makes no cycle of active relations; and what goes wrong when expired
  relations form a cycle.
\<close>

section \<open>The cache of the ancestors\<close>

definition ancestors_cached :: "db \<Rightarrow> bool" where
  "ancestors_cached d =
     (db_now d < max_time \<and> acyclic (set (group_edges (db_groups_groups d))) \<and>
      (\<forall>r \<in> set (db_groups_groups d). group_exists d (gg_parent r) \<and> group_exists d (gg_child r)) \<and>
      (\<forall>u g. db_now d \<le> u \<and> u < max_time \<and> group_exists d g \<longrightarrow> has_self_row u (db_groups_ancestors d) g) \<and>
      (\<forall>u c. db_now d \<le> u \<and> u < max_time \<longrightarrow>
         groups_up u (db_groups_ancestors d) c = {a. (a, c) \<in> (groups_rel u (db_groups_groups d))\<^sup>+}) \<and>
      (\<forall>c. \<not> todo (db_groups_propagate d) c))"

lemma ancestors_loop_keeps:
  assumes "ancestors_loop rec edges rows marks = Inr (rows', marks')" and "I rows"
    and "\<And>proc rows rows'. rec proc rows = Inr rows' \<Longrightarrow> I rows \<Longrightarrow> I rows'"
  shows "I rows'"
  using assms
proof (induction rec edges rows marks rule: ancestors_loop.induct)
  case (1 rec edges rows marks)
  let ?proc = "mark_as_processing edges marks"
  obtain rows1 where r: "rec ?proc rows = Inr rows1"
    using 1(2) by (subst (asm) ancestors_loop.simps) (auto split: sum.splits)
  have I1: "I rows1" by (rule 1(4) [OF r 1(3)])
  show ?case
  proof (cases "?proc = []")
    case True
    with 1(2) r have "rows' = rows1" by (subst (asm) ancestors_loop.simps) simp
    with I1 show ?thesis by simp
  next
    case False
    with 1(2) r have "ancestors_loop rec edges rows1 (mark_done ?proc marks) = Inr (rows', marks')"
      by (subst (asm) ancestors_loop.simps) simp
    from 1(1) [OF r False this I1 1(4)] show ?thesis .
  qed
qed

text \<open>After a change of the relations that marks the children concerned, the recomputation makes the cache right again.\<close>

lemma ancestors_recomputed:
  assumes cached: "ancestors_cached d" and acyclic: "acyclic (set (group_edges (db_groups_groups d1)))"
    and same: "db_now d1 = db_now d" "db_groups_ancestors d1 = db_groups_ancestors d" "db_groups d1 = db_groups d"
    and exist: "\<And>r. r \<in> set (db_groups_groups d1) \<Longrightarrow> group_exists d (gg_parent r) \<and> group_exists d (gg_child r)"
    and marked: "\<And>u p c. \<not> todo (db_groups_propagate d1) c \<Longrightarrow>
      (p, c) \<in> groups_rel u (db_groups_groups d1) \<longleftrightarrow> (p, c) \<in> groups_rel u (db_groups_groups d)"
  shows "\<exists>d2. groups_create_new_ancestors d1 = Inr d2 \<and> ancestors_cached d2 \<and> db_groups d2 = db_groups d1 \<and>
    db_groups_groups d2 = db_groups_groups d1 \<and> db_now d2 = db_now d1 \<and> db_pending d2 = db_pending d1 \<and>
    db_permissions_granted d2 = db_permissions_granted d1"
proof -
  let ?gg = "db_groups_groups d1" and ?now = "db_now d" and ?anc = "db_groups_ancestors d"
  have now: "?now < max_time"
    and self: "\<And>u g. ?now \<le> u \<Longrightarrow> u < max_time \<Longrightarrow> group_exists d g \<Longrightarrow> has_self_row u ?anc g"
    and old: "\<And>u c. ?now \<le> u \<Longrightarrow> u < max_time \<Longrightarrow> groups_up u ?anc c = {a. (a, c) \<in> (groups_rel u (db_groups_groups d))\<^sup>+}"
    using cached by (auto simp: ancestors_cached_def)
  have ends: "group_exists d p \<and> group_exists d c" if "(p, c) \<in> set (group_edges ?gg)" for p c
    using exist that by (auto simp: group_edges_set)
  have "self_rows_ok u ?gg ?anc" if "?now \<le> u" "u < max_time" for u
    using ends self that by (auto simp: self_rows_ok_def)
  from groups_ancestors_recomputed [OF acyclic this old marked now, of "db_groups_propagate d1"] obtain anc' marks' where
    run: "create_new_ancestors_groups ?now ?gg ?anc (db_groups_propagate d1) = Inr (anc', marks')"
    and up: "\<And>u c. ?now \<le> u \<Longrightarrow> u < max_time \<Longrightarrow> groups_up u anc' c = {a. (a, c) \<in> (groups_rel u ?gg)\<^sup>+}"
    and finished: "\<And>c. \<not> todo marks' c" by blast
  have self': "has_self_row u anc' g" if "?now \<le> u" "u < max_time" "group_exists d g" for u g
    using ancestors_loop_keeps [OF run [unfolded create_new_ancestors_groups_def], where I = "\<lambda>rows. has_self_row u rows g"]
      self [OF that] recompute_groups_self by blast
  let ?d2 = "d1\<lparr>db_groups_ancestors := anc', db_groups_propagate := marks'\<rparr>"
  have "groups_create_new_ancestors d1 = Inr ?d2"
    using run by (simp add: groups_create_new_ancestors_def same)
  moreover have "ancestors_cached ?d2"
    using now acyclic exist self' up finished by (simp add: ancestors_cached_def same group_exists_def)
  ultimately show ?thesis by (intro exI [of _ ?d2]) simp
qed

section \<open>Deleting the objects linked to groups\<close>

lemma delete_groups_groups_marks:
  "todo (db_groups_propagate (fst (delete_groups_groups P d))) c \<longleftrightarrow>
     todo (db_groups_propagate d) c \<or> (\<exists>r \<in> set (db_groups_groups d). P r \<and> \<not> gg_is_team_membership r \<and> gg_child r = c)"
proof -
  have "todo (db_groups_propagate (fold (\<lambda>r. if gg_is_team_membership r then id else mark_group_todo (gg_child r)) rs d)) c \<longleftrightarrow>
      todo (db_groups_propagate d) c \<or> (\<exists>r \<in> set rs. \<not> gg_is_team_membership r \<and> gg_child r = c)" for rs
    by (induction rs arbitrary: d) (auto simp: mark_group_todo_def)
  from this [of "filter P (db_groups_groups d)"] show ?thesis
    by (auto simp: delete_groups_groups_def Let_def)
qed

lemma groups_rel_deleted:
  assumes "\<not> (\<exists>r \<in> set gg. P r \<and> \<not> gg_is_team_membership r \<and> gg_child r = c)"
  shows "(p, c) \<in> groups_rel u (tbl_delete P gg) \<longleftrightarrow> (p, c) \<in> groups_rel u gg"
  using assms by (auto simp: groups_rel_def)

lemma acyclic_deleted: "acyclic (set (group_edges gg)) \<Longrightarrow> acyclic (set (group_edges (tbl_delete P gg)))"
  by (rule acyclic_subset) (auto simp: group_edges_def)

definition without_groups :: "id list \<Rightarrow> gg_row list \<Rightarrow> gg_row list" where
  "without_groups ids gg = filter (\<lambda>r. gg_parent r \<notin> set ids \<and> gg_child r \<notin> set ids) gg"

lemma objects_deleted:
  assumes cached: "ancestors_cached d"
  shows "\<exists>d1 n. ancestors_if_relations_deleted (delete_objects_linked_to_groups ids d) = Inr (d1, n) \<and> ancestors_cached d1 \<and>
    db_groups d1 = db_groups d \<and> db_groups_groups d1 = without_groups ids (db_groups_groups d) \<and> db_now d1 = db_now d"
proof -
  let ?P = "\<lambda>r. gg_parent r \<in> set ids" and ?Q = "\<lambda>r. gg_child r \<in> set ids"
  define e1 where "e1 = delete_groups_groups ?P d"
  define e2 where "e2 = delete_groups_groups ?Q (fst e1)"
  define e3 where "e3 = delete_permissions_granted (\<lambda>r. pg_source_group r \<in> set ids) (fst e2)"
  have objects: "delete_objects_linked_to_groups ids d = (fst e3, snd e1 + snd e2, snd e3)"
    by (simp add: delete_objects_linked_to_groups_def e1_def e2_def e3_def case_prod_beta Let_def)
  have gg: "db_groups_groups (fst e3) = tbl_delete ?Q (tbl_delete ?P (db_groups_groups d))"
    and same: "db_now (fst e3) = db_now d" "db_groups_ancestors (fst e3) = db_groups_ancestors d" "db_groups (fst e3) = db_groups d"
    and marks: "db_groups_propagate (fst e3) = db_groups_propagate (fst e2)"
    by (simp_all add: e1_def e2_def e3_def db_simps)
  have without: "tbl_delete ?Q (tbl_delete ?P (db_groups_groups d)) = without_groups ids (db_groups_groups d)"
    by (simp add: tbl_delete_def without_groups_def filter_filter)
  show ?thesis
  proof (cases "snd e1 + snd e2 = 0")
    case True
    then have "filter ?P (db_groups_groups d) = []" "filter ?Q (db_groups_groups (fst e1)) = []"
      by (simp_all add: e1_def e2_def delete_groups_groups_def Let_def)
    moreover from this have "fst e1 = d" "fst e2 = d"
      by (simp_all add: e1_def e2_def delete_groups_groups_def Let_def tbl_delete_def filter_empty_conv filter_id_conv)
    ultimately have "db_groups_groups (fst e3) = db_groups_groups d" "db_groups_propagate (fst e3) = db_groups_propagate d"
      by (simp_all add: e3_def db_simps)
    then have "ancestors_cached (fst e3)" using cached same by (simp add: ancestors_cached_def group_exists_def)
    then show ?thesis using True objects same gg without by (cases e3) (auto simp: ancestors_if_relations_deleted_def)
  next
    case False
    have "\<exists>d2. groups_create_new_ancestors (fst e3) = Inr d2 \<and> ancestors_cached d2 \<and> db_groups d2 = db_groups (fst e3) \<and>
        db_groups_groups d2 = db_groups_groups (fst e3) \<and> db_now d2 = db_now (fst e3) \<and> db_pending d2 = db_pending (fst e3) \<and>
        db_permissions_granted d2 = db_permissions_granted (fst e3)"
    proof (rule ancestors_recomputed [OF cached _ same])
      show "acyclic (set (group_edges (db_groups_groups (fst e3))))"
        unfolding gg using cached by (intro acyclic_deleted) (simp add: ancestors_cached_def)
      show "group_exists d (gg_parent r) \<and> group_exists d (gg_child r)" if "r \<in> set (db_groups_groups (fst e3))" for r
        using that cached unfolding gg by (auto simp: ancestors_cached_def)
      show "(p, c) \<in> groups_rel u (db_groups_groups (fst e3)) \<longleftrightarrow> (p, c) \<in> groups_rel u (db_groups_groups d)"
        if "\<not> todo (db_groups_propagate (fst e3)) c" for u p c
      proof -
        have "\<not> (\<exists>r \<in> set (db_groups_groups (fst e1)). ?Q r \<and> \<not> gg_is_team_membership r \<and> gg_child r = c)"
          and "\<not> (\<exists>r \<in> set (db_groups_groups d). ?P r \<and> \<not> gg_is_team_membership r \<and> gg_child r = c)"
          using that unfolding marks e2_def delete_groups_groups_marks [of ?Q] by (auto simp: e1_def delete_groups_groups_marks)
        then show ?thesis unfolding gg by (simp add: groups_rel_deleted e1_def db_simps)
      qed
    qed
    then show ?thesis using False objects same gg without by (auto simp: ancestors_if_relations_deleted_def)
  qed
qed

section \<open>Deleting a group\<close>

text \<open>A group that may go with \<open>g\<close>: a descendant that is neither a user nor a base group.  It is an orphan when, once the relations of
  \<open>g\<close> are gone, only such groups are above it.\<close>

definition may_go :: "db \<Rightarrow> id \<Rightarrow> id \<Rightarrow> bool" where
  "may_go d g i = ((g, i) \<in> (groups_rel (db_now d) (db_groups_groups d))\<^sup>+ \<and>
     (\<exists>x \<in> set (db_groups d). g_id x = i \<and> g_type x \<noteq> Base \<and> g_type x \<noteq> User))"

definition orphaned :: "db \<Rightarrow> id \<Rightarrow> id \<Rightarrow> bool" where
  "orphaned d g i = (may_go d g i \<and>
     (\<forall>a. (a, i) \<in> (groups_rel (db_now d) (without_groups [g] (db_groups_groups d)))\<^sup>+ \<longrightarrow> may_go d g a))"

lemma groups_rel_edges: "groups_rel u gg \<subseteq> set (group_edges gg)"
  by (auto simp: groups_rel_def group_edges_def)

lemma cached_ancestor:
  assumes "ancestors_cached d"
  shows "(\<exists>r \<in> set (groups_ancestors_active d). ga_ancestor r = a \<and> ga_child r = c \<and> a \<noteq> c) \<longleftrightarrow>
    (a, c) \<in> (groups_rel (db_now d) (db_groups_groups d))\<^sup>+"
proof -
  have "groups_up (db_now d) (db_groups_ancestors d) c = {a. (a, c) \<in> (groups_rel (db_now d) (db_groups_groups d))\<^sup>+}"
    using assms by (simp add: ancestors_cached_def)
  then show ?thesis by (auto simp: groups_up_def groups_ancestors_active_def)
qed

lemma set_candidates:
  assumes "ancestors_cached d"
  shows "i \<in> set (candidates_for_deletion g d) \<longleftrightarrow> may_go d g i"
proof -
  have "i \<in> set (candidates_for_deletion g d) \<longleftrightarrow> (\<exists>r \<in> set (groups_ancestors_active d). ga_ancestor r = g \<and> ga_child r = i \<and> g \<noteq> i) \<and>
      (\<exists>x \<in> set (db_groups d). g_id x = i \<and> g_type x \<noteq> Base \<and> g_type x \<noteq> User)"
    proof -
    have "i \<in> set [f x. x \<leftarrow> xs, a \<leftarrow> ys, R x a] \<longleftrightarrow> (\<exists>x \<in> set xs. \<exists>a \<in> set ys. R x a \<and> f x = i)"
      for f :: "group_row \<Rightarrow> id" and xs and ys :: "ancestor_row list" and R by (induction xs) auto
    note in_list = this [where f = g_id and xs = "db_groups d" and ys = "groups_ancestors_active d"
      and R = "\<lambda>x a. ga_child a = g_id x \<and> ga_ancestor a \<noteq> ga_child a \<and> ga_ancestor a = g \<and> g_type x \<noteq> Base \<and> g_type x \<noteq> User"]
    show ?thesis unfolding candidates_for_deletion_def in_list
      by (rule iffI; elim bexE conjE; (rule conjI)?; rule bexI; (rule bexI)?; (assumption | simp))
  qed
  then show ?thesis unfolding cached_ancestor [OF assms] may_go_def .
qed

lemma set_orphans:
  assumes "ancestors_cached d"
  shows "i \<in> set (orphans candidates d) \<longleftrightarrow> i \<in> set candidates \<and> i \<in> g_id ` set (db_groups d) \<and>
    (\<forall>a. (a, i) \<in> (groups_rel (db_now d) (db_groups_groups d))\<^sup>+ \<longrightarrow> a \<in> set candidates)"
proof -
  have "i \<in> set (orphans candidates d) \<longleftrightarrow> i \<in> set candidates \<and> i \<in> g_id ` set (db_groups d) \<and>
      (\<forall>a. (\<exists>r \<in> set (groups_ancestors_active d). ga_ancestor r = a \<and> ga_child r = i \<and> a \<noteq> i) \<longrightarrow> a \<in> set candidates)"
    by (auto simp: orphans_def)
  then show ?thesis unfolding cached_ancestor [OF assms] .
qed

lemma delete_groups_effect:
  assumes "delete_groups ids s = Inr s'"
  shows "db_groups (td_db s') = filter (\<lambda>x. g_id x \<notin> set ids) (db_groups (td_db s))"
    "db_groups_groups (td_db s') = without_groups ids (db_groups_groups (td_db s))"
    "db_now (td_db s') = db_now (td_db s)"
    "db_groups_ancestors (td_db s') = filter (\<lambda>r. ga_ancestor r \<notin> set ids \<and> ga_child r \<notin> set ids) (db_groups_ancestors (td_db s))"
    "db_groups_propagate (td_db s') = filter (\<lambda>(g, m). g \<notin> set ids) (db_groups_propagate (td_db s))"
  using assms by (auto simp: delete_groups_def Let_def without_groups_def split: if_splits)

lemma schedule_permissions_same:
  "db_groups (schedule_permissions_propagation d) = db_groups d" "db_groups_groups (schedule_permissions_propagation d) = db_groups_groups d"
  "ancestors_cached (schedule_permissions_propagation d) = ancestors_cached d"
  by (simp_all add: schedule_permissions_propagation_def ancestors_cached_def group_exists_def)

text \<open>
  C23: The deletion of a group removes that group and exactly its orphaned descendants: the descendants other than users and
  base groups such that, without the relations of the deleted group, every group still above them is such a
  descendant too.  All other groups stay, and no relation of a deleted group is left.
\<close>

theorem orphans_deleted:
  assumes "ancestors_cached (td_db s)" and "delete_group_and_orphaned_descendants g s = Inr s'"
  shows "db_groups (td_db s') = filter (\<lambda>x. g_id x \<noteq> g \<and> \<not> orphaned (td_db s) g (g_id x)) (db_groups (td_db s)) \<and>
    db_groups_groups (td_db s') =
      filter (\<lambda>r. \<not> (gg_parent r = g \<or> orphaned (td_db s) g (gg_parent r)) \<and> \<not> (gg_child r = g \<or> orphaned (td_db s) g (gg_child r)))
        (db_groups_groups (td_db s))"
proof -
  let ?d = "td_db s" and ?cs = "candidates_for_deletion g (td_db s)"
  from objects_deleted [OF assms(1), of "[g]"] obtain d1 n1 where
    d1: "ancestors_if_relations_deleted (delete_objects_linked_to_groups [g] ?d) = Inr (d1, n1)" "ancestors_cached d1"
      "db_groups d1 = db_groups ?d" "db_groups_groups d1 = without_groups [g] (db_groups_groups ?d)" "db_now d1 = db_now ?d" by blast
  define ids where "ids = (if ?cs = [] then [] else orphans ?cs d1)"
  have ids: "i \<in> set ids \<longleftrightarrow> orphaned ?d g i" for i
  proof -
    have "i \<in> set ids \<longleftrightarrow> i \<in> set (orphans ?cs d1)" by (simp add: ids_def orphans_def)
    also have "\<dots> \<longleftrightarrow> orphaned ?d g i"
      unfolding set_orphans [OF d1(2)] set_candidates [OF assms(1)] d1(3-5) orphaned_def by (auto simp: may_go_def)
    finally show ?thesis .
  qed
  obtain d2 n2 where d2: "(if ids = [] then Inr (d1, 0) else ancestors_if_relations_deleted (delete_objects_linked_to_groups ids d1)) = Inr (d2, n2)"
      "db_groups d2 = db_groups d1" "db_groups_groups d2 = without_groups ids (db_groups_groups d1)"
  proof (cases "ids = []")
    case True
    then show ?thesis using that [of d1 0] by (simp add: without_groups_def)
  next
    case False
    with objects_deleted [OF d1(2), of ids] show ?thesis using that by auto
  qed
  from assms(2) d1(1) d2(1) obtain s3 where s3: "delete_groups (ids @ [g]) (s\<lparr>td_db := d2\<rparr>) = Inr s3"
      "db_groups (td_db s') = db_groups (td_db s3)" "db_groups_groups (td_db s') = db_groups_groups (td_db s3)"
    unfolding delete_group_and_orphaned_descendants_def Let_def ids_def [symmetric]
    by (cases "delete_groups (ids @ [g]) (s\<lparr>td_db := d2\<rparr>)") (auto simp: ids_def schedule_permissions_same split: if_splits)
  note del = delete_groups_effect [OF s3(1)]
  have "db_groups (td_db s') = filter (\<lambda>x. g_id x \<notin> set (ids @ [g])) (db_groups ?d)"
    using s3(2) del(1) d2(2) d1(3) by simp
  moreover have "db_groups_groups (td_db s') = filter (\<lambda>r. gg_parent r \<notin> set (ids @ [g]) \<and> gg_child r \<notin> set (ids @ [g])) (db_groups_groups ?d)"
    using s3(3) del(2) d2(3) d1(4) by (simp add: without_groups_def) (rule filter_cong, auto)
  ultimately show ?thesis by (auto simp: ids intro!: filter_cong)
qed

section \<open>Creating a relation\<close>

text \<open>
  A relation is created only if it makes no cycle of active relations: afterwards the active relations are acyclic, the relation is
  there without an end, no request of the child to join the parent is left, and the relations of all other pairs are unchanged.
\<close>

lemma relation_created:
  assumes "ancestors_cached d" and "create_relation parent child d = Inr d'"
  shows "acyclic (groups_rel (db_now d) (db_groups_groups d')) \<and>
    (\<exists>r. tbl_find gg_key (parent, child) (db_groups_groups d') = Some r \<and> gg_expires_at r = max_time) \<and>
    tbl_find pr_key (parent, child) (db_pending d') = None \<and>
    filter (\<lambda>r. gg_key r \<noteq> (parent, child)) (db_groups_groups d') = filter (\<lambda>r. gg_key r \<noteq> (parent, child)) (db_groups_groups d)"
proof -
  let ?P = "\<lambda>r. gg_child r = child \<and> gg_parent r = parent"
  define d1 where "d1 = fst (delete_groups_groups ?P d)"
  define d2 where "d2 = delete_pending_rows (\<lambda>r. pr_group r = parent \<and> pr_member r = child) d1"
  have not_above: "\<not> is_ancestor_row d child parent" using assms(2) by (auto simp: create_relation_def split: if_splits)
  then obtain d3 d4 where d3: "insert_groups_groups (plain_relation parent child) d2 = Inr d3" and d4: "groups_create_new_ancestors d3 = Inr d4"
      and d': "d' = schedule_results_propagation d4"
    using assms(2) unfolding create_relation_def Let_def d1_def [symmetric] d2_def [symmetric]
    by (cases "insert_groups_groups (plain_relation parent child) d2") (auto simp: lift_relation_def split: sum.splits)
  have same: "db_groups d2 = db_groups d" "db_groups_groups d2 = tbl_delete ?P (db_groups_groups d)"
    "db_pending d2 = tbl_delete (\<lambda>r. pr_group r = parent \<and> pr_member r = child) (db_pending d)"
    by (simp_all add: d2_def d1_def delete_pending_rows_def db_simps)
  obtain team where rows: "db_groups_groups d3 = tbl_delete ?P (db_groups_groups d) @ [(plain_relation parent child)\<lparr>gg_is_team_membership := team\<rparr>]"
      and pending: "db_pending d3 = db_pending d2" and parent: "group_exists d parent"
    using d3 same by (auto simp: insert_groups_groups_def Let_def mark_group_todo_def plain_relation_def group_exists_def group_by_id_def
        tbl_has_find split: option.splits if_splits)
  have after: "db_groups_groups d' = db_groups_groups d3" "db_pending d' = db_pending d3"
    using d4 by (auto simp: d' schedule_results_propagation_def groups_create_new_ancestors_def split: sum.splits prod.splits)
  let ?R = "groups_rel (db_now d) (db_groups_groups d)"
  have up: "groups_up (db_now d) (db_groups_ancestors d) parent = {a. (a, parent) \<in> ?R\<^sup>+}"
    and "has_self_row (db_now d) (db_groups_ancestors d) parent" and acyclic: "acyclic (set (group_edges (db_groups_groups d)))"
    using assms(1) parent by (auto simp: ancestors_cached_def)
  then have "child \<noteq> parent" using not_above by (auto simp: has_self_row_def is_ancestor_row_def)
  moreover have "(child, parent) \<notin> ?R\<^sup>+"
  proof
    assume "(child, parent) \<in> ?R\<^sup>+"
    then have "child \<in> groups_up (db_now d) (db_groups_ancestors d) parent" unfolding up by simp
    with not_above show False by (auto simp: groups_up_def is_ancestor_row_def)
  qed
  ultimately have "acyclic (insert (parent, child) ?R)"
    using acyclic_subset [OF acyclic groups_rel_edges] by (simp add: acyclic_insert rtrancl_eq_or_trancl)
  moreover have "groups_rel (db_now d) (db_groups_groups d') \<subseteq> insert (parent, child) ?R"
    unfolding after rows by (auto simp: groups_rel_def plain_relation_def)
  ultimately have "acyclic (groups_rel (db_now d) (db_groups_groups d'))" by (rule acyclic_subset)
  moreover have "tbl_find gg_key (parent, child) (tbl_delete ?P (db_groups_groups d)) = None"
    by (auto simp: tbl_find_None gg_key_def)
  then have "\<exists>r. tbl_find gg_key (parent, child) (db_groups_groups d') = Some r \<and> gg_expires_at r = max_time"
    unfolding after rows tbl_find_append_new by (simp add: gg_key_def plain_relation_def)
  moreover have "tbl_find pr_key (parent, child) (db_pending d') = None"
    unfolding after pending same by (auto simp: tbl_find_None pr_key_def)
  moreover have "filter (\<lambda>r. gg_key r \<noteq> (parent, child)) (db_groups_groups d') = filter (\<lambda>r. gg_key r \<noteq> (parent, child)) (db_groups_groups d)"
    unfolding after rows by (simp add: gg_key_def plain_relation_def tbl_delete_def) (rule filter_cong, auto)
  ultimately show ?thesis by blast
qed

section \<open>Cycles through expired relations\<close>

lemma blocked_not_processed:
  assumes "\<And>c. c \<in> C \<Longrightarrow> todo marks c \<and> (\<exists>p \<in> C. (p, c) \<in> set edges)" and "c \<in> C"
  shows "c \<notin> set (mark_as_processing edges marks)"
  using assms unfolding set_mark_as_processing by blast

lemma blocked_loop:
  assumes "ancestors_loop (recompute_groups now gg) edges rows marks = Inr (rows', marks')"
    and "\<And>c. c \<in> C \<Longrightarrow> todo marks c \<and> (\<exists>p \<in> C. (p, c) \<in> set edges)" and "c \<in> C" and "now \<le> u"
  shows "todo marks' c \<and> groups_up u rows' c = groups_up u rows c"
  using assms
proof (induction "recompute_groups now gg" edges rows marks rule: ancestors_loop.induct)
  case (1 edges rows marks)
  let ?proc = "mark_as_processing edges marks"
  have out: "c \<notin> set ?proc" if "c \<in> C" for c by (rule blocked_not_processed [OF 1(3) that])
  obtain rows1 where r: "recompute_groups now gg ?proc rows = Inr rows1"
    using 1(2) by (subst (asm) ancestors_loop.simps) (auto split: sum.splits)
  have up: "groups_up u rows1 c = groups_up u rows c" by (rule groups_up_frame [OF r out [OF 1(4)] 1(5)])
  show ?case
  proof (cases "?proc = []")
    case True
    with 1(2) r have "rows' = rows1 \<and> marks' = mark_done ?proc marks" by (subst (asm) ancestors_loop.simps) simp
    with up 1(3) [OF 1(4)] out [OF 1(4)] show ?thesis by (simp add: map_of_mark_done)
  next
    case False
    with 1(2) r have run: "ancestors_loop (recompute_groups now gg) edges rows1 (mark_done ?proc marks) = Inr (rows', marks')"
      by (subst (asm) ancestors_loop.simps) simp
    have "todo (mark_done ?proc marks) c \<and> (\<exists>p \<in> C. (p, c) \<in> set edges)" if "c \<in> C" for c
      using 1(3) [OF that] out [OF that] by (simp add: map_of_mark_done)
    from 1(1) [OF r False run this 1(4,5)] up show ?thesis by simp
  qed
qed

text \<open>
  The recomputation of the ancestors looks at expired relations when it decides what to process: groups that are all marked and each have a
  parent among them, be it by an expired relation, are never processed; they stay marked and keep the ancestors they had.
\<close>

lemma expired_cycle_blocks:
  assumes "create_new_ancestors_groups now gg rows marks = Inr (rows', marks')"
    and "\<And>c. c \<in> C \<Longrightarrow> todo marks c \<and> (\<exists>p \<in> C. (p, c) \<in> set (group_edges gg))" and "c \<in> C" and "now \<le> u"
  shows "todo marks' c \<and> groups_up u rows' c = groups_up u rows c"
proof (rule blocked_loop [OF assms(1) [unfolded create_new_ancestors_groups_def] _ assms(3,4)])
  show "todo (mark_descendants (map (\<lambda>r. (ga_ancestor r, ga_child r)) rows) marks) c \<and> (\<exists>p \<in> C. (p, c) \<in> set (group_edges gg))"
    if "c \<in> C" for c
    using assms(2) [OF that] by (simp add: todo_mark_descendants)
qed

end
