(* ===== verification/MembershipSuccess.thy ===== *)
theory MembershipSuccess
  imports MembershipGuarantees GroupRelationRules
begin

text \<open>
  A transition between existing groups does not fail: the rows it writes collide with no key, and the recomputation of the ancestors
  ends without error.  What the recomputation needs of the tables is kept, so the next transition succeeds as well.
\<close>

section \<open>The rows written\<close>

text \<open>The column \<open>is_team_membership\<close>, which the triggers fill in, tells the type of the parent.\<close>

definition team_parent :: "db \<Rightarrow> id \<Rightarrow> bool" where
  "team_parent d p = (map_option g_type (group_by_id d p) = Some Team)"

definition team_flags_ok :: "db \<Rightarrow> bool" where
  "team_flags_ok d = (\<forall>r \<in> set (db_groups_groups d). gg_is_team_membership r = team_parent d (gg_parent r))"

text \<open>What the writes on the relations of one parent change: the rows of the pairs with a child in \<open>C\<close>, whose children are marked
  unless the parent is a team; rows added have a child in \<open>I\<close>.\<close>

definition relations_written :: "id \<Rightarrow> id set \<Rightarrow> id set \<Rightarrow> db \<Rightarrow> db \<Rightarrow> bool" where
  "relations_written parent C I d d' =
     (db_now d' = db_now d \<and> db_groups d' = db_groups d \<and> db_groups_ancestors d' = db_groups_ancestors d \<and>
      (\<forall>r \<in> set (db_groups_groups d'). r \<in> set (db_groups_groups d) \<or>
         gg_parent r = parent \<and> gg_child r \<in> C \<inter> I \<and> group_exists d (gg_child r) \<and> gg_is_team_membership r = team_parent d parent) \<and>
      (\<forall>r \<in> set (db_groups_groups d). gg_parent r = parent \<and> gg_child r \<in> C \<or> r \<in> set (db_groups_groups d')) \<and>
      (\<forall>c. todo (db_groups_propagate d) c \<longrightarrow> todo (db_groups_propagate d') c) \<and>
      (\<forall>c. todo (db_groups_propagate d') c \<longrightarrow> todo (db_groups_propagate d) c \<or> \<not> team_parent d parent \<and> c \<in> C) \<and>
      (\<forall>c \<in> C. team_parent d parent \<or> todo (db_groups_propagate d') c))"

lemma relations_written_refl: "relations_written parent {} I d d"
  by (simp add: relations_written_def)

lemma relations_written_flags: "relations_written parent C I d d' \<Longrightarrow> team_flags_ok d \<Longrightarrow> team_flags_ok d'"
  unfolding relations_written_def team_flags_ok_def team_parent_def group_by_id_def by auto

lemma relations_written_trans:
  assumes "relations_written parent C I d d1" and "relations_written parent C' I d1 d2"
  shows "relations_written parent (C \<union> C') I d d2"
proof -
  have tp: "team_parent d1 parent = team_parent d parent" and ex: "group_exists d1 c = group_exists d c" for c
    using assms(1) by (simp_all add: relations_written_def team_parent_def group_by_id_def group_exists_def)
  note w1 = assms(1) [unfolded relations_written_def] and w2 = assms(2) [unfolded relations_written_def tp ex]
  have "\<forall>r \<in> set (db_groups_groups d2). r \<in> set (db_groups_groups d) \<or> gg_parent r = parent \<and> gg_child r \<in> (C \<union> C') \<inter> I \<and>
      group_exists d (gg_child r) \<and> gg_is_team_membership r = team_parent d parent"
    using w1 w2 by blast
  moreover have "\<forall>r \<in> set (db_groups_groups d). gg_parent r = parent \<and> gg_child r \<in> C \<union> C' \<or> r \<in> set (db_groups_groups d2)"
    using w1 w2 by blast
  moreover have "\<forall>c. todo (db_groups_propagate d2) c \<longrightarrow> todo (db_groups_propagate d) c \<or> \<not> team_parent d parent \<and> c \<in> C \<union> C'"
    using w1 w2 by blast
  moreover have "\<forall>c \<in> C \<union> C'. team_parent d parent \<or> todo (db_groups_propagate d2) c"
    using w1 w2 by blast
  ultimately show ?thesis using w1 w2 unfolding relations_written_def by simp
qed

lemma delete_relations_written:
  assumes flags: "team_flags_ok d"
  shows "relations_written parent {c. \<exists>r \<in> set (db_groups_groups d). gg_parent r = parent \<and> gg_child r = c \<and>
      c \<in> set (map fst (p_delete_relation p))} I d (fst (delete_relations parent li p d))"
proof (cases "map fst (p_delete_relation p) = []")
  case True
  then show ?thesis by (simp add: delete_relations_def relations_written_refl)
next
  case False
  let ?P = "\<lambda>r. gg_parent r = parent \<and> gg_child r \<in> set (map fst (p_delete_relation p))"
  have rows: "db_groups_groups (fst (delete_relations parent li p d)) = tbl_delete ?P (db_groups_groups d)"
    and marks: "db_groups_propagate (fst (delete_relations parent li p d)) = db_groups_propagate (fst (delete_groups_groups ?P d))"
    and same: "db_now (fst (delete_relations parent li p d)) = db_now d" "db_groups (fst (delete_relations parent li p d)) = db_groups d"
      "db_groups_ancestors (fst (delete_relations parent li p d)) = db_groups_ancestors d"
    using False by (simp_all add: delete_relations_def Let_def case_prod_beta db_simps)
  show ?thesis
    unfolding relations_written_def rows marks same delete_groups_groups_marks
    using flags by (auto simp: team_flags_ok_def)
qed

lemma insert_pending_frame:
  assumes "fold_result (insert_group_pending_request parent approvals) ias d = Inr d'"
  shows "db_groups_groups d' = db_groups_groups d \<and> db_now d' = db_now d \<and> db_groups d' = db_groups d \<and>
    db_groups_ancestors d' = db_groups_ancestors d \<and> db_groups_propagate d' = db_groups_propagate d"
  using assms
proof (induction ias arbitrary: d)
  case Nil
  then show ?case by simp
next
  case (Cons ia ias)
  then obtain d1 where d1: "insert_group_pending_request parent approvals ia d = Inr d1"
      and rest: "fold_result (insert_group_pending_request parent approvals) ias d1 = Inr d'"
    by (auto split: sum.splits)
  have "db_groups_groups d1 = db_groups_groups d \<and> db_now d1 = db_now d \<and> db_groups d1 = db_groups d \<and>
    db_groups_ancestors d1 = db_groups_ancestors d \<and> db_groups_propagate d1 = db_groups_propagate d"
    using d1 by (auto simp: insert_group_pending_request_def insert_pending_def Let_def split: sum.splits if_splits)
  with Cons.IH [OF rest] show ?case by simp
qed

lemma upsert_written:
  assumes run: "upsert_groups_groups r d = Inr d'" and flags: "team_flags_ok d" and i: "gg_child r \<in> I"
  shows "relations_written (gg_parent r) {gg_child r} I d d'"
proof -
  from run obtain p where p: "group_by_id d (gg_parent r) = Some p" "group_exists d (gg_child r)"
      and d': "d' = (if g_type p = Team then d else mark_group_todo (gg_child r) d)\<lparr>db_groups_groups :=
        tbl_upsert gg_key (set_gg_expires max_time) (r\<lparr>gg_is_team_membership := (g_type p = Team)\<rparr>) (db_groups_groups d)\<rparr>"
    by (auto simp: upsert_groups_groups_def upsert_groups_groups_until_def Let_def split: option.splits if_splits)
  have team: "team_parent d (gg_parent r) = (g_type p = Team)" using p(1) by (simp add: team_parent_def)
  have "\<forall>x \<in> set (db_groups_groups d'). x \<in> set (db_groups_groups d) \<or>
      gg_parent x = gg_parent r \<and> gg_child x \<in> {gg_child r} \<inter> I \<and> group_exists d (gg_child x) \<and> gg_is_team_membership x = (g_type p = Team)"
    using flags p i unfolding d'
    by (auto simp: gg.set_upsert gg_key_def set_gg_expires_def team_flags_ok_def team_parent_def split: if_splits)
  moreover have "\<forall>x \<in> set (db_groups_groups d). gg_parent x = gg_parent r \<and> gg_child x \<in> {gg_child r} \<or> x \<in> set (db_groups_groups d')"
    unfolding d' by (auto simp: gg.set_upsert gg_key_def split: if_splits)
  ultimately show ?thesis
    unfolding relations_written_def team by (intro conjI) (simp_all add: d' mark_group_todo_def)
qed

lemma insert_rows_written:
  assumes "fold_result (insert_relation parent olds approvals) ids d = Inr d'" and "team_flags_ok d" and "set ids \<subseteq> I"
  shows "relations_written parent (set ids) I d d'"
  using assms
proof (induction ids arbitrary: d)
  case Nil
  then show ?case by (simp add: relations_written_refl)
next
  case (Cons i ids)
  then obtain d1 where d1: "insert_relation parent olds approvals i d = Inr d1"
      and rest: "fold_result (insert_relation parent olds approvals) ids d1 = Inr d'"
    by (auto split: sum.splits)
  have w: "relations_written parent {i} I d d1"
    using d1 upsert_written [OF _ Cons.prems(2)] Cons.prems(3) unfolding insert_relation_def by (fastforce split: prod.splits)
  from relations_written_trans [OF w Cons.IH [OF rest relations_written_flags [OF w Cons.prems(2)]]] Cons.prems(3) show ?case by simp
qed

text \<open>Up to the recomputation of the ancestors.\<close>

lemma plan_rows_written:
  assumes d1: "d1 = fst (delete_relations parent li p (delete_pending parent p d))"
    and d2: "insert_group_pending_requests parent approvals p d1 = Inr d2"
    and d3: "insert_relations parent li olds approvals p d2 = Inr (d3, anc2, results)" and flags: "team_flags_ok d"
  shows "\<exists>C. relations_written parent C (set (map fst (p_insert_relation p))) d d3 \<and>
    (p_delete_relation p = [] \<and> p_insert_relation p = [] \<longrightarrow> C = {})"
proof -
  let ?I = "set (map fst (p_insert_relation p))" and ?d0 = "delete_pending parent p d"
  have same0: "relations_written parent C ?I ?d0 e = relations_written parent C ?I d e" "team_flags_ok ?d0 = team_flags_ok d" for C e
    by (simp_all add: relations_written_def team_parent_def group_by_id_def group_exists_def team_flags_ok_def
        delete_pending_def Let_def delete_pending_rows_def)
  obtain C1 where w1: "relations_written parent C1 ?I d d1" and C1: "p_delete_relation p = [] \<longrightarrow> C1 = {}"
    using delete_relations_written [of ?d0 parent p ?I li] flags unfolding same0 d1 by fastforce
  note s2 = insert_pending_frame [OF d2 [unfolded insert_group_pending_requests_def]]
  have w2: "relations_written parent C1 ?I d d2"
    using w1 s2 by (simp add: relations_written_def)
  note f2 = relations_written_flags [OF w2 flags]
  show ?thesis
  proof (cases "map fst (p_insert_relation p) = []")
    case True
    with d3 have "d3 = d2" by (simp add: insert_relations_def)
    with w2 C1 show ?thesis by blast
  next
    case False
    with d3 have "fold_result (insert_relation parent olds approvals) (map fst (p_insert_relation p)) d2 = Inr d3"
      by (auto simp: insert_relations_def Let_def split: sum.splits)
    from relations_written_trans [OF w2 insert_rows_written [OF this f2 subset_refl]] False show ?thesis by blast
  qed
qed

section \<open>Transitions succeed\<close>

lemma written_edges:
  assumes w: "relations_written parent C I d d'"
  shows "set (group_edges (db_groups_groups d')) \<subseteq> set (group_edges (db_groups_groups d)) \<union> {parent} \<times> I"
proof (rule subrelI)
  fix a c assume "(a, c) \<in> set (group_edges (db_groups_groups d'))"
  then obtain r where "r \<in> set (db_groups_groups d')" "gg_parent r = a" "gg_child r = c" "\<not> gg_is_team_membership r"
    by (auto simp: group_edges_set)
  with w show "(a, c) \<in> set (group_edges (db_groups_groups d)) \<union> {parent} \<times> I"
    unfolding relations_written_def by (auto simp: group_edges_set)
qed

lemma written_rel:
  assumes w: "relations_written parent C I d d'" and flags: "team_flags_ok d"
    and "\<not> todo (db_groups_propagate d') c \<or> team_parent d parent"
  shows "(a, c) \<in> groups_rel u (db_groups_groups d') \<longleftrightarrow> (a, c) \<in> groups_rel u (db_groups_groups d)"
proof -
  have flags': "team_flags_ok d'" by (rule relations_written_flags [OF w flags])
  have tp: "team_parent d' q = team_parent d q" for q
    using w by (simp add: relations_written_def team_parent_def group_by_id_def)
  have rows: "r \<in> set (db_groups_groups d') \<longleftrightarrow> r \<in> set (db_groups_groups d)"
    if "gg_child r = c" "\<not> gg_is_team_membership r" for r
  proof (cases "gg_parent r = parent \<and> c \<in> C")
    case True
    then have "team_parent d parent" using w assms(3) unfolding relations_written_def by blast
    with True that flags flags' tp show ?thesis unfolding team_flags_ok_def by blast
  next
    case False
    with w that show ?thesis unfolding relations_written_def by blast
  qed
  then show ?thesis by (auto simp: groups_rel_def)
qed

lemma inserted_not_above:
  assumes ok: "ancestors_cached d" and p: "p = transition_plan action parent children approvals g d"
    and expired: "\<forall>c \<in> set children. (c, parent) \<in> (set (group_edges (db_groups_groups d)))\<^sup>+ \<longrightarrow>
      (c, parent) \<in> (groups_rel (db_now d) (db_groups_groups d))\<^sup>+"
    and c: "c \<in> set (map fst (p_insert_relation p))"
  shows "(c, parent) \<notin> (set (group_edges (db_groups_groups d)))\<^sup>*"
proof
  assume up: "(c, parent) \<in> (set (group_edges (db_groups_groups d)))\<^sup>*"
  have ins: "map_of (p_insert_relation p) c \<noteq> None" using c unfolding keys_map_of .
  obtain to where to: "c \<in> set children" "child_decision action parent approvals g d c = (Success, to)"
      "plan_view p c = decision_view (membership d parent c) (Success, to)"
    using planned_insertions [OF p] ins by blast
  have "c \<noteq> parent" using decision_Success(4) [OF to(2) [unfolded child_decision_def]] .
  with up to(1) expired have "(c, parent) \<in> (groups_rel (db_now d) (db_groups_groups d))\<^sup>+"
    by (auto simp: rtrancl_eq_or_trancl)
  then have "\<exists>r \<in> set (db_groups_ancestors d). ga_ancestor r = c \<and> ga_child r = parent"
    unfolding cached_ancestor [OF ok, symmetric] by (auto simp: groups_ancestors_active_def)
  moreover have "plan_view (build_transitions_plan parent children (old_actions_map d parent children) (group_limits (db_now d) g) approvals action) c
      = decision_view (membership d parent c) (Success, to)"
    using to(1,2) by (simp add: build_plan_view get_state_of child_decision_def state_of_action)
  with to(3) ins have "map_of (p_check_cycle (build_transitions_plan parent children (old_actions_map d parent children)
             (group_limits (db_now d) g) approvals action)) c \<noteq> None"
    by (auto simp: plan_view_def decision_view_def)
  ultimately have "map_of (p_results p) c \<noteq> Some Success" using cycle_dropped [OF p] by blast
  with to(3) show False by (simp add: plan_view_def decision_view_def)
qed

lemma ancestors_cached_same:
  assumes "ancestors_cached d" and "db_now d' = db_now d" "db_groups_ancestors d' = db_groups_ancestors d" "db_groups d' = db_groups d"
    and "acyclic (set (group_edges (db_groups_groups d')))"
    and "\<forall>r \<in> set (db_groups_groups d'). group_exists d (gg_parent r) \<and> group_exists d (gg_child r)"
    and "\<And>u. groups_rel u (db_groups_groups d') = groups_rel u (db_groups_groups d)" and "\<And>c. \<not> todo (db_groups_propagate d') c"
  shows "ancestors_cached d'"
  using assms(1,5,6,8) by (simp add: ancestors_cached_def assms(2,3,4,7) group_exists_def)

lemma schedule_cached:
  "ancestors_cached (schedule_results_propagation d) = ancestors_cached d"
  "team_flags_ok (schedule_results_propagation d) = team_flags_ok d"
  "team_flags_ok (schedule_permissions_propagation d) = team_flags_ok d"
  by (simp_all add: schedule_results_propagation_def schedule_permissions_propagation_def ancestors_cached_def group_exists_def
      team_flags_ok_def team_parent_def group_by_id_def)

lemma writes_succeed:
  assumes ok: "consistent d" "ancestors_cached d" "team_flags_ok d"
    and g: "group_by_id d parent = Some g" and children: "\<forall>c \<in> set children. group_exists d c"
    and expired: "\<forall>c \<in> set children. (c, parent) \<in> (set (group_edges (db_groups_groups d)))\<^sup>+ \<longrightarrow>
      (c, parent) \<in> (groups_rel (db_now d) (db_groups_groups d))\<^sup>+"
    and p: "p = transition_plan action parent children approvals g d"
  shows "\<exists>d'. transition_writes parent by (group_limits (db_now d) g) (old_actions_map d parent children) approvals p d = Inr d' \<and>
    ancestors_cached d' \<and> team_flags_ok d'"
proof -
  let ?li = "group_limits (db_now d) g" and ?olds = "old_actions_map d parent children"
  obtain d1 anc1 perm where del: "delete_relations parent ?li p (delete_pending parent p d) = (d1, anc1, perm)"
    by (cases "delete_relations parent ?li p (delete_pending parent p d)")
  from writes_before_ancestors [OF ok(1) g children p] obtain d2 d3 anc2 results where
      d2: "insert_group_pending_requests parent approvals p d1 = Inr d2"
      and d3: "insert_relations parent ?li ?olds approvals p d2 = Inr (d3, anc2, results)"
      and inserted: "set (map fst (p_insert_relation p)) \<subseteq> set children"
    unfolding del fst_conv by blast
  define d4 where "d4 = insert_membership_changes parent by p d3"
  from plan_rows_written [OF _ d2 d3 ok(3)] obtain C where
      w3: "relations_written parent C (set (map fst (p_insert_relation p))) d d3"
      and C: "p_delete_relation p = [] \<and> p_insert_relation p = [] \<longrightarrow> C = {}"
    using del by (metis fst_conv)
  have w: "relations_written parent C (set (map fst (p_insert_relation p))) d d4"
    using w3 by (simp add: d4_def insert_membership_changes_def relations_written_def)
  have same: "db_now d4 = db_now d" "db_groups_ancestors d4 = db_groups_ancestors d" "db_groups d4 = db_groups d"
    using w by (simp_all add: relations_written_def)
  have acyclic: "acyclic (set (group_edges (db_groups_groups d4)))"
    using inserted_not_above [OF ok(2) p expired] ok(2)
    by (intro acyclic_subset [OF acyclic_fan written_edges [OF w]]) (auto simp: ancestors_cached_def)
  have exist: "group_exists d (gg_parent r) \<and> group_exists d (gg_child r)" if "r \<in> set (db_groups_groups d4)" for r
    using w that ok(2) g unfolding relations_written_def ancestors_cached_def
    by (auto simp: group_exists_def group_by_id_def tbl_has_find)
  have flags4: "team_flags_ok d4" by (rule relations_written_flags [OF w ok(3)])
  have "\<exists>d5. (if anc1 \<or> anc2 then groups_create_new_ancestors d4 else Inr d4) = Inr d5 \<and> ancestors_cached d5 \<and> team_flags_ok d5"
  proof (cases "anc1 \<or> anc2")
    case True
    have "\<not> todo (db_groups_propagate d4) c \<Longrightarrow> (a, c) \<in> groups_rel u (db_groups_groups d4) \<longleftrightarrow> (a, c) \<in> groups_rel u (db_groups_groups d)" for u a c
      by (rule written_rel [OF w ok(3)]) simp
    from ancestors_recomputed [OF ok(2) acyclic same exist this] True flags4 show ?thesis
      by (auto simp: team_flags_ok_def team_parent_def group_by_id_def)
  next
    case False
    have "anc1 = (p_delete_relation p \<noteq> [] \<and> \<not> li_is_team ?li)" using del
      by (auto simp: delete_relations_def Let_def split: prod.splits if_splits)
    moreover have "anc2 = (p_insert_relation p \<noteq> [] \<and> \<not> li_is_team ?li)" using d3
      by (auto simp: insert_relations_def Let_def split: sum.splits if_splits)
    moreover have "li_is_team ?li = team_parent d parent" by (simp add: group_limits_def team_parent_def g)
    ultimately have none: "team_parent d parent \<or> C = {}" using False C by blast
    then have todo: "\<not> todo (db_groups_propagate d4) c" for c
      using w ok(2) unfolding relations_written_def ancestors_cached_def by blast
    then have "(a, c) \<in> groups_rel u (db_groups_groups d4) \<longleftrightarrow> (a, c) \<in> groups_rel u (db_groups_groups d)" for u a c
      by (intro written_rel [OF w ok(3)]) simp
    then have "groups_rel u (db_groups_groups d4) = groups_rel u (db_groups_groups d)" for u by auto
    then have "ancestors_cached d4" using todo exist by (intro ancestors_cached_same [OF ok(2) same acyclic]) simp_all
    with False flags4 show ?thesis by simp
  qed
  then obtain d5 where d5: "(if anc1 \<or> anc2 then groups_create_new_ancestors d4 else Inr d4) = Inr d5"
      and ok5: "ancestors_cached d5" "team_flags_ok d5" by blast
  show ?thesis
    unfolding transition_writes_def del d2 d3 Let_def d4_def [symmetric] sum.case prod.case d5
    using ok5 by (simp add: schedule_cached schedule_permissions_same)
qed

lemma transition_total:
  assumes ok: "consistent d" "ancestors_cached d" "team_flags_ok d"
    and exist: "group_exists d parent" "\<forall>c \<in> set children. group_exists d c"
    and expired: "\<forall>c \<in> set children. (c, parent) \<in> (set (group_edges (db_groups_groups d)))\<^sup>+ \<longrightarrow>
      (c, parent) \<in> (groups_rel (db_now d) (db_groups_groups d))\<^sup>+"
  shows "\<exists>results requests d'. transition action parent children approvals by d = Inr (results, requests, d') \<and>
    consistent d' \<and> ancestors_cached d' \<and> team_flags_ok d'"
proof -
  obtain g where g: "group_by_id d parent = Some g"
    using exist(1) by (auto simp: group_exists_def group_by_id_def tbl_has_find)
  from writes_succeed [OF ok g exist(2) expired refl] obtain d' where
      "transition_writes parent by (group_limits (db_now d) g) (old_actions_map d parent children) approvals
         (transition_plan action parent children approvals g d) d = Inr d'" "ancestors_cached d'" "team_flags_ok d'" by blast
  then have run: "transition action parent children approvals by d = Inr (p_results (transition_plan action parent children approvals g d),
      p_approvals_to_request (transition_plan action parent children approvals g d), d')"
    by (simp add: transition_def g Let_def)
  have "db_now d < max_time" using ok(2) by (simp add: ancestors_cached_def)
  from step_consistent [OF membership_step.transit [OF run this] ok(1)] run show ?thesis
    using \<open>ancestors_cached d'\<close> \<open>team_flags_ok d'\<close> by blast
qed


end
