(* ===== verification/GroupRelationExamples.thy ===== *)
theory GroupRelationExamples
  imports MembershipSuccess ThreadExamples
begin

text \<open>
  Groups in a chain with a user at its end: the theorems on relations of groups applied to the creation of a relation and to
  the deletion of a group; and the run in which an expired relation blocks the recomputation of the ancestors.
\<close>

definition ex_relation :: "id \<Rightarrow> id \<Rightarrow> time \<Rightarrow> gg_row" where
  "ex_relation p c e = (plain_relation p c)\<lparr>gg_expires_at := e\<rparr>"

text \<open>The class 1 has the class 2, which has the class 3, which has the user 4; the class 5 is alone.\<close>

definition ex_unrelated :: db where
  "ex_unrelated = ex_empty_db\<lparr>db_groups := [ex_group 1 Class, ex_group 2 Class, ex_group 3 Class, ex_group 4 User, ex_group 5 Class],
     db_groups_ancestors := map self_row [1, 2, 3, 4, 5]\<rparr>"

definition ex_marked :: db where
  "ex_marked = ex_unrelated\<lparr>db_groups_groups := [ex_relation 1 2 max_time, ex_relation 2 3 max_time, ex_relation 3 4 max_time],
     db_groups_propagate := [(2, Todo), (3, Todo), (4, Todo)]\<rparr>"

definition ex_related :: db where
  "ex_related = (case groups_create_new_ancestors ex_marked of Inr d \<Rightarrow> d | Inl _ \<Rightarrow> ex_empty_db)"

definition ex_group_tree :: threads_db where
  "ex_group_tree = \<lparr>td_db = ex_related, td_threads = [], td_validated_results = []\<rparr>"

definition relation_after :: "'e + db \<Rightarrow> db" where
  "relation_after r = (case r of Inl _ \<Rightarrow> ex_empty_db | Inr d \<Rightarrow> d)"

lemma ex_unrelated_cached: "ancestors_cached ex_unrelated"
  by (auto simp: ancestors_cached_def ex_unrelated_def ex_empty_db_def group_edges_def groups_up_def groups_rel_def self_row_def
      has_self_row_def group_exists_def tbl_has_def ex_group_def max_time_def acyclic_def)

lemma ex_related_cached: "ancestors_cached ex_related"
proof -
  have "\<exists>d2. groups_create_new_ancestors ex_marked = Inr d2 \<and> ancestors_cached d2 \<and> db_groups d2 = db_groups ex_marked \<and>
      db_groups_groups d2 = db_groups_groups ex_marked \<and> db_now d2 = db_now ex_marked \<and> db_pending d2 = db_pending ex_marked \<and>
      db_permissions_granted d2 = db_permissions_granted ex_marked"
  proof (rule ancestors_recomputed [OF ex_unrelated_cached])
    show "acyclic (set (group_edges (db_groups_groups ex_marked)))"
      by (rule acyclicI_order [where f = uminus]) (auto simp: group_edges_def ex_marked_def ex_relation_def plain_relation_def)
    show "group_exists ex_unrelated (gg_parent r) \<and> group_exists ex_unrelated (gg_child r)" if "r \<in> set (db_groups_groups ex_marked)" for r
      using that by (auto simp: ex_marked_def ex_relation_def plain_relation_def group_exists_def tbl_has_def ex_unrelated_def
          ex_group_def)
    show "(p, c) \<in> groups_rel u (db_groups_groups ex_marked) \<longleftrightarrow> (p, c) \<in> groups_rel u (db_groups_groups ex_unrelated)"
      if "\<not> todo (db_groups_propagate ex_marked) c" for u p c
      using that by (auto simp: groups_rel_def ex_marked_def ex_relation_def plain_relation_def ex_unrelated_def ex_empty_db_def
          split: if_splits)
  qed (simp_all add: ex_marked_def)
  then show ?thesis by (auto simp: ex_related_def)
qed

lemma ex_delete_run: "delete_group_and_orphaned_descendants 2 ex_group_tree =
    Inr (threads_after (delete_group_and_orphaned_descendants 2 ex_group_tree))"
  by code_simp

lemma ex_delete_groups: "map g_id (db_groups (td_db (threads_after (delete_group_and_orphaned_descendants 2 ex_group_tree)))) = [1, 4, 5]"
  by code_simp

lemma ex_create_run: "create_relation 1 5 ex_related = Inr (relation_after (create_relation 1 5 ex_related))"
  by code_simp

section \<open>Witnesses\<close>

lemma ex_related_rows: "db_groups_groups ex_related = [ex_relation 1 2 max_time, ex_relation 2 3 max_time, ex_relation 3 4 max_time]"
  "db_now ex_related = 100" "db_pending ex_related = []" "keys_ok ex_related"
  by code_simp+


theorem orphans_deleted_witness:
  "filter (\<lambda>x. g_id x \<noteq> 2 \<and> \<not> orphaned ex_related 2 (g_id x)) (db_groups ex_related) =
     db_groups (td_db (threads_after (delete_group_and_orphaned_descendants 2 ex_group_tree))) \<and>
   map g_id (db_groups (td_db (threads_after (delete_group_and_orphaned_descendants 2 ex_group_tree)))) = [1, 4, 5]"
  using orphans_deleted [OF _ ex_delete_run] ex_related_cached ex_delete_groups by (simp add: ex_group_tree_def)

theorem relation_created_witness:
  "acyclic (groups_rel 100 (db_groups_groups (relation_after (create_relation 1 5 ex_related)))) \<and>
   (1, 5) \<in> set (map gg_key (db_groups_groups (relation_after (create_relation 1 5 ex_related))))"
proof -
  have "db_now ex_related = 100" by code_simp
  with relation_created [OF ex_related_cached ex_create_run] show ?thesis by (force dest: tbl_find_Some)
qed

section \<open>An expired relation in a cycle\<close>

text \<open>
  The class 3 was above the class 2 until 50, and its row of ancestors is gone.  Now 3 becomes a child of 2, and then 2
  leaves the class 1: 1 stays an ancestor of 2 and 3.
\<close>

definition ex_expired :: threads_db where
  "ex_expired = \<lparr>td_db = ex_unrelated\<lparr>db_groups_groups := [ex_relation 1 2 max_time, ex_relation 3 2 50],
      db_groups_ancestors := \<lparr>ga_ancestor = 1, ga_child = 2, ga_expires_at = max_time\<rparr> # map self_row [1, 2, 3, 4, 5]\<rparr>,
     td_threads = [], td_validated_results = []\<rparr>"

definition ex_expired_below :: threads_db where
  "ex_expired_below = ex_expired\<lparr>td_db := relation_after (create_relation 2 3 (td_db ex_expired))\<rparr>"

lemma stale_ancestors:
  "is_ancestor_row (td_db (threads_after (delete_relation 1 2 False ex_expired_below))) 1 2 \<and>
   map gg_key (db_groups_groups (td_db (threads_after (delete_relation 1 2 False ex_expired_below)))) = [(3, 2), (2, 3)]"
  by code_simp

lemma ex_blocked_run:
  "\<exists>rows' marks'. create_new_ancestors_groups 100 [ex_relation 3 2 50, ex_relation 2 3 max_time]
      (\<lparr>ga_ancestor = 1, ga_child = 2, ga_expires_at = max_time\<rparr> # map self_row [1, 2, 3]) [(2, Todo), (3, Todo)] = Inr (rows', marks')"
proof -
  have "case create_new_ancestors_groups 100 [ex_relation 3 2 50, ex_relation 2 3 max_time]
      (\<lparr>ga_ancestor = 1, ga_child = 2, ga_expires_at = max_time\<rparr> # map self_row [1, 2, 3]) [(2, Todo), (3, Todo)] of
      Inl _ \<Rightarrow> False | Inr _ \<Rightarrow> True" by code_simp
  then show ?thesis by (auto split: sum.splits)
qed

theorem expired_cycle_blocks_witness:
  "\<exists>rows' marks'. create_new_ancestors_groups 100 [ex_relation 3 2 50, ex_relation 2 3 max_time]
      (\<lparr>ga_ancestor = 1, ga_child = 2, ga_expires_at = max_time\<rparr> # map self_row [1, 2, 3]) [(2, Todo), (3, Todo)] = Inr (rows', marks') \<and>
     groups_up 100 rows' 2 = {1}"
proof -
  obtain rows' marks' where run: "create_new_ancestors_groups 100 [ex_relation 3 2 50, ex_relation 2 3 max_time]
      (\<lparr>ga_ancestor = 1, ga_child = 2, ga_expires_at = max_time\<rparr> # map self_row [1, 2, 3]) [(2, Todo), (3, Todo)] = Inr (rows', marks')"
    using ex_blocked_run by blast
  have "groups_up 100 rows' 2 =
      groups_up 100 (\<lparr>ga_ancestor = 1, ga_child = 2, ga_expires_at = max_time\<rparr> # map self_row [1, 2, 3]) 2"
  proof (rule expired_cycle_blocks [OF run, of "{2, 3}" 2 100, THEN conjunct2])
    show "todo [(2, Todo), (3, Todo)] c \<and>
        (\<exists>p \<in> {2, 3}. (p, c) \<in> set (group_edges [ex_relation 3 2 50, ex_relation 2 3 max_time]))" if "c \<in> {2, 3}" for c :: id
      using that by (auto simp: group_edges_def ex_relation_def plain_relation_def)
  qed simp_all
  also have "\<dots> = {1}" by (auto simp: groups_up_def self_row_def max_time_def)
  finally show ?thesis using run by blast
qed

end
