(* ===== verification/Participation.thy ===== *)
theory Participation
  imports Results Threads "HOL-Library.Option_ord"
begin

text \<open>
  Participation hierarchies, app/database/item_store.go: lists of items from a root activity or skill down to an item, walked by a
  participant in a chain of attempts.  The query joins one alias of \<open>visible_items\<close>, \<open>results\<close>, \<open>attempts\<close> and
  \<open>items_items\<close> per item; \<open>chain_rows\<close> is that join, from the left, and a row of it is the list of the attempts.
\<close>

section \<open>Visible items and roots\<close>

text \<open>\<open>visibleItemsFromListForGroupQuery\<close>, for one item: the highest level given to an ancestor of the participant, at least 'info'.\<close>

definition info_level :: nat where
  "info_level = (case view_index ''info'' of Inr i \<Rightarrow> i | Inl _ \<Rightarrow> 0)"

definition visible_level :: "results_db \<Rightarrow> id \<Rightarrow> id \<Rightarrow> nat option" where
  "visible_level s p i =
     (if item_of s i = None then None
      else sql_max [Some (pgen_can_view g). g \<leftarrow> matching_group_ancestors (rd_db s) p, pgen_item g = i \<and> info_level \<le> pgen_can_view g])"

definition visible_item :: "results_db \<Rightarrow> id \<Rightarrow> id \<Rightarrow> bool" where
  "visible_item s p i = (visible_level s p i \<noteq> None)"

definition content_visible :: "results_db \<Rightarrow> id \<Rightarrow> id \<Rightarrow> bool" where
  "content_visible s p i = (case visible_level s p i of None \<Rightarrow> False | Some l \<Rightarrow> content_level \<le> l)"

text \<open>\<open>rootActivities\<close> and \<open>rootSkills\<close>: of the ancestors of the participant and of the groups it manages.\<close>

definition is_root_item :: "results_db \<Rightarrow> id \<Rightarrow> id \<Rightarrow> bool" where
  "is_root_item s p i =
     (\<exists>g \<in> set (db_groups (rd_db s)).
        (anc (rd_db s) (g_id g) p \<or> managed_by (rd_db s) p (g_id g) \<noteq> []) \<and>
        (g_root_activity_id g = Some i \<or> g_root_skill_id g = Some i))"

section \<open>Chains of attempts\<close>

text \<open>\<open>IF(attempts.root_item_id = items.id, attempts.parent_attempt_id, attempts.id)\<close>: the attempt for the item above.\<close>

definition attempt_over :: "attempt_row \<Rightarrow> id \<Rightarrow> id option" where
  "attempt_over a i = (if at_root_item a = Some i then at_parent a else Some (at_id a))"

definition attempt_active :: "time \<Rightarrow> attempt_row \<Rightarrow> bool" where
  "attempt_active now a = (at_ended_at a = None \<and> now < at_allows_submissions_until a)"

text \<open>The join of \<open>results\<close> and \<open>attempts\<close> for an item: the attempts in which the participant started it.\<close>

definition started_attempts :: "results_db \<Rightarrow> id \<Rightarrow> bool \<Rightarrow> id \<Rightarrow> attempt_row list" where
  "started_attempts s p active i =
     [a. r \<leftarrow> rd_results s, rs_participant r = p \<and> rs_item r = i \<and> rs_started_at r \<noteq> None,
         a \<leftarrow> rd_attempts s, at_key a = (p, rs_attempt r) \<and> (active \<longrightarrow> attempt_active (db_now (rd_db s)) a)]"

definition follows :: "id option \<Rightarrow> attempt_row \<Rightarrow> id \<Rightarrow> bool" where
  "follows prev a i = (case prev of None \<Rightarrow> True | Some b \<Rightarrow> attempt_over a i = Some b)"

fun chain_rows :: "results_db \<Rightarrow> id \<Rightarrow> bool \<Rightarrow> bool \<Rightarrow> id option \<Rightarrow> id list \<Rightarrow> attempt_row list list" where
  "chain_rows s p active content prev [] = []"
| "chain_rows s p active content prev [i] = (if content \<longrightarrow> content_visible s p i then [[]] else [])"
| "chain_rows s p active content prev (i # j # is) =
     [a # as. a \<leftarrow> started_attempts s p active i, follows prev a i \<and> content_visible s p i,
        e \<leftarrow> db_items_items (rd_db s), ii_parent e = i \<and> ii_child e = j \<and> visible_item s p j,
        as \<leftarrow> chain_rows s p active content (Some (at_id a)) (j # is)]"

definition item_attempt_chain :: "results_db \<Rightarrow> id list \<Rightarrow> id \<Rightarrow> bool \<Rightarrow> bool \<Rightarrow> attempt_row list list" where
  "item_attempt_chain s ids p active content =
     (if ids \<noteq> [] \<and> visible_item s p (hd ids) \<and> is_root_item s p (hd ids) then chain_rows s p active content None ids else [])"

definition participation_hierarchy :: "results_db \<Rightarrow> id list \<Rightarrow> id \<Rightarrow> id \<Rightarrow> bool \<Rightarrow> bool \<Rightarrow> attempt_row list list" where
  "participation_hierarchy s ids p parent_attempt active content =
     filter (\<lambda>as. 1 < length ids \<longrightarrow> at_id (last as) = parent_attempt) (item_attempt_chain s ids p active content)"

definition is_valid_participation_hierarchy :: "results_db \<Rightarrow> id list \<Rightarrow> id \<Rightarrow> id \<Rightarrow> bool \<Rightarrow> bool" where
  "is_valid_participation_hierarchy s ids p parent_attempt content =
     (if ids = [] \<or> length ids = 1 \<and> parent_attempt \<noteq> 0 then False
      else participation_hierarchy s ids p parent_attempt True content \<noteq> [])"

section \<open>Breadcrumbs\<close>

text \<open>
  The column \<open>number\<close>: the position of the attempt among those with a result on the item and the same parent attempt, by the time the
  results were started, NULL first.
\<close>

definition attempt_number :: "results_db \<Rightarrow> id \<Rightarrow> attempt_row \<Rightarrow> nat option" where
  "attempt_number s i a =
     (let rows = sort_key rs_started_at
            [r. r \<leftarrow> rd_results s, rs_participant r = at_participant a \<and> rs_item r = i \<and>
              (\<exists>b \<in> set (rd_attempts s). at_key b = (rs_participant r, rs_attempt r) \<and> at_parent b = at_parent a)]
      in map_option fst (find (\<lambda>(n, r). rs_attempt r = at_id a) (zip [1..<length rows + 1] rows)))"

definition number_column :: "results_db \<Rightarrow> id \<Rightarrow> attempt_row \<Rightarrow> nat option" where
  "number_column s i a =
     (case item_of s i of
        None \<Rightarrow> None
      | Some it \<Rightarrow> if it_allows_multiple_attempts it then attempt_number s i a else None)"

type_synonym breadcrumbs = "(id, id) gomap \<times> (id, nat) gomap"

definition results_for_breadcrumbs :: "results_db \<Rightarrow> id list \<Rightarrow> attempt_row list \<Rightarrow> breadcrumbs" where
  "results_for_breadcrumbs s ids as =
     (fold (\<lambda>(i, a). AList.update i (at_id a)) (zip ids as) [],
      fold (\<lambda>(i, a) m. case number_column s i a of None \<Rightarrow> m | Some n \<Rightarrow> AList.update i n m) (zip ids as) [])"

definition breadcrumbs_hierarchy_for_parent_attempt :: "results_db \<Rightarrow> id list \<Rightarrow> id \<Rightarrow> id \<Rightarrow> breadcrumbs option" where
  "breadcrumbs_hierarchy_for_parent_attempt s ids p parent_attempt =
     (if ids = [] \<or> length ids = 1 \<and> parent_attempt \<noteq> 0 then None
      else case participation_hierarchy s ids p parent_attempt False False of
             [] \<Rightarrow> None
           | as # _ \<Rightarrow> Some (results_for_breadcrumbs s (butlast ids) as))"

text \<open>\<open>breadcrumbsHierarchyForAttempt\<close> joins the attempt of the last item, too.\<close>

definition breadcrumbs_rows :: "results_db \<Rightarrow> id list \<Rightarrow> id \<Rightarrow> id \<Rightarrow> bool \<Rightarrow> attempt_row list list" where
  "breadcrumbs_rows s ids p attempt content =
     [as @ [a]. as \<leftarrow> item_attempt_chain s ids p False content, a \<leftarrow> started_attempts s p False (last ids),
        at_id a = attempt \<and> follows (if as = [] then None else Some (at_id (last as))) a (last ids)]"

definition breadcrumbs_hierarchy_for_attempt :: "results_db \<Rightarrow> id list \<Rightarrow> id \<Rightarrow> id \<Rightarrow> breadcrumbs option" where
  "breadcrumbs_hierarchy_for_attempt s ids p attempt =
     (if ids = [] then None
      else case breadcrumbs_rows s ids p attempt False of
             [] \<Rightarrow> None
           | as # _ \<Rightarrow> Some (results_for_breadcrumbs s ids as))"

section \<open>Submission rights\<close>

datatype submission_refusal = NoAccessToTask | ItemReadOnly

text \<open>\<open>CheckSubmissionRights\<close>; None stands for the right to submit.\<close>

definition check_submission_rights :: "results_db \<Rightarrow> id \<Rightarrow> id \<Rightarrow> submission_refusal option" where
  "check_submission_rights s p i =
     (case item_of s i of
        None \<Rightarrow> Some NoAccessToTask
      | Some it \<Rightarrow> if \<not> content_visible s p i then Some NoAccessToTask else if it_read_only it then Some ItemReadOnly else None)"

end
