(* ===== verification/Attempts.thy ===== *)
theory Attempts
  imports Participation Ancestors
begin

text \<open>
  Starting and ending the work on an item: \<open>AttemptStore.CreateNew\<close> (app/database/attempt_store.go), the services start_result.go,
  start_result_path.go, create_attempt.go, end_attempt.go, and the entry into items that require it, with its
  conditions (get_entry_state.go, enter.go, all under app/api/items).  The table of users is the groups of type User.
\<close>

datatype participation_error = ParticipationForbidden | NoMultipleAttempts | ParticipationFailed db_error

definition lift_participation :: "db_error + 'a \<Rightarrow> participation_error + 'a" where
  "lift_participation r = (case r of Inl e \<Rightarrow> Inl (ParticipationFailed e) | Inr x \<Rightarrow> Inr x)"

abbreviation now_of :: "results_db \<Rightarrow> time" where
  "now_of s \<equiv> db_now (rd_db s)"

definition schedule_results :: "results_db \<Rightarrow> results_db" where
  "schedule_results s = s\<lparr>rd_db := schedule_results_propagation (rd_db s)\<rparr>"

section \<open>Starting a result\<close>

text \<open>INSERT ... ON DUPLICATE KEY UPDATE of one result; the boolean is \<open>RowsAffected() != 0\<close>.\<close>

definition started_row :: "time \<Rightarrow> result_row \<Rightarrow> result_row" where
  "started_row now r = r\<lparr>rs_started_at := Some now, rs_latest_activity_at := now\<rparr>"

definition start_if_not_started :: "time \<Rightarrow> result_row \<Rightarrow> result_row" where
  "start_if_not_started now r = (if rs_started_at r = None then started_row now r else r)"

definition insert_started_result :: "(result_row \<Rightarrow> result_row) \<Rightarrow> result_key \<Rightarrow> results_db \<Rightarrow> db_error + results_db" where
  "insert_started_result upd k s =
     (case k of (p, a, i) \<Rightarrow>
        if attempt_of s p a = None \<or> item_of s i = None then Inl ForeignKeyConstraint
        else Inr (s\<lparr>rd_results := tbl_upsert rs_key upd (started_row (now_of s) (new_result k)) (rd_results s)\<rparr>))"

definition start_result :: "id list \<Rightarrow> id \<Rightarrow> id \<Rightarrow> results_db \<Rightarrow> participation_error + results_db" where
  "start_result ids p a s =
     (if \<not> is_valid_participation_hierarchy s ids p a True then Inl ParticipationForbidden
      else case item_of s (last ids) of
             None \<Rightarrow> Inl ParticipationForbidden
           | Some it \<Rightarrow>
               if it_requires_explicit_entry it then Inl ParticipationForbidden
               else
                 let k = (p, a, last ids);
                     affected = (case tbl_find rs_key k (rd_results s) of None \<Rightarrow> True | Some r \<Rightarrow> rs_started_at r = None)
                 in bind_result (lift_participation (insert_started_result (start_if_not_started (now_of s)) k s)) (\<lambda>s1.
                      Inr (if affected then schedule_results (mark_as_to_be_propagated k s1) else s1)))"

section \<open>Starting the results of a path\<close>

text \<open>\<open>hasAccessToItemPath\<close>: COUNT(DISTINCT items.id) of the items with access to the content.\<close>

definition has_access_to_item_path :: "results_db \<Rightarrow> id \<Rightarrow> id list \<Rightarrow> bool" where
  "has_access_to_item_path s p ids = (length (filter (content_visible s p) (remdups ids)) = length ids)"

text \<open>One step of the join: the attempts for an item below the attempt of the item before, with what the result of the item says.\<close>

definition path_attempts :: "results_db \<Rightarrow> id \<Rightarrow> id option \<Rightarrow> item_row \<Rightarrow> (attempt_row \<times> result_row option) list" where
  "path_attempts s p prev it =
     [(a, tbl_find rs_key (p, at_id a, it_id it) (rd_results s)).
        a \<leftarrow> rd_attempts s, at_participant a = p \<and> (it_requires_explicit_entry it \<longrightarrow> at_root_item a = Some (it_id it)) \<and>
          follows prev a (it_id it)]"

definition result_started :: "result_row option \<Rightarrow> bool" where
  "result_started r = (case r of None \<Rightarrow> False | Some x \<Rightarrow> rs_started_at x \<noteq> None)"

text \<open>
  The condition on an attempt of the path: an item with an explicit entry has been entered, and a result to start needs active attempts
  so far.  \<open>active\<close> says that the attempts before are active.
\<close>

definition path_step_ok :: "results_db \<Rightarrow> bool \<Rightarrow> item_row \<Rightarrow> attempt_row \<times> result_row option \<Rightarrow> bool" where
  "path_step_ok s active it ar =
     ((it_requires_explicit_entry it \<longrightarrow> snd ar \<noteq> None) \<and>
      (result_started (snd ar) \<or> active \<and> attempt_active (now_of s) (fst ar)))"

fun path_rows :: "results_db \<Rightarrow> id \<Rightarrow> id option \<Rightarrow> bool \<Rightarrow> id list \<Rightarrow> (attempt_row \<times> result_row option) list list" where
  "path_rows s p prev active [] = [[]]"
| "path_rows s p prev active (i # is) =
     [ar # rows. it \<leftarrow> rd_items s, it_id it = i, ar \<leftarrow> path_attempts s p prev it, path_step_ok s active it ar,
        rows \<leftarrow> (case is of
                   [] \<Rightarrow> [[]]
                 | j # _ \<Rightarrow> [rows. e \<leftarrow> db_items_items (rd_db s), ii_parent e = i \<and> ii_child e = j,
                               rows \<leftarrow> path_rows s p (Some (at_id (fst ar))) (active \<and> attempt_active (now_of s) (fst ar)) is])]"

text \<open>ORDER BY the number whose bits, from the first item on, tell that the result is not started, then by the attempts downwards.\<close>

definition path_score :: "(attempt_row \<times> result_row option) list \<Rightarrow> nat" where
  "path_score rows = fold (\<lambda>(a, r) n. 2 * n + (if result_started r then 0 else 1)) rows 0"

fun ids_greater :: "id list \<Rightarrow> id list \<Rightarrow> bool" where
  "ids_greater (x # xs) (y # ys) = (y < x \<or> x = y \<and> ids_greater xs ys)"
| "ids_greater xs ys = False"

definition path_before :: "(attempt_row \<times> result_row option) list \<Rightarrow> (attempt_row \<times> result_row option) list \<Rightarrow> bool" where
  "path_before xs ys =
     (path_score xs < path_score ys \<or>
      path_score xs = path_score ys \<and> ids_greater (map (at_id \<circ> fst) xs) (map (at_id \<circ> fst) ys))"

fun first_by :: "('a \<Rightarrow> 'a \<Rightarrow> bool) \<Rightarrow> 'a list \<Rightarrow> 'a option" where
  "first_by before [] = None"
| "first_by before (x # xs) = (case first_by before xs of None \<Rightarrow> Some x | Some y \<Rightarrow> Some (if before y x then y else x))"

definition data_for_result_path_start :: "results_db \<Rightarrow> id \<Rightarrow> id list \<Rightarrow> (attempt_row \<times> result_row option) list option" where
  "data_for_result_path_start s p ids =
     (if \<not> has_access_to_item_path s p ids \<or> ids = [] \<or> \<not> is_root_item s p (hd ids) then None
      else first_by path_before
             (filter (\<lambda>rows. snd (hd rows) \<noteq> None \<or> at_id (fst (hd rows)) = 0) (path_rows s p None True ids)))"

definition start_result_path :: "id list \<Rightarrow> id \<Rightarrow> results_db \<Rightarrow> participation_error + (results_db \<times> id)" where
  "start_result_path ids p s =
     (case data_for_result_path_start s p ids of
        None \<Rightarrow> Inl ParticipationForbidden
      | Some rows \<Rightarrow>
          let to_start = [(p, at_id a, i). (i, a, r) \<leftarrow> zip ids rows, \<not> result_started r];
              attempt = at_id (fst (last rows))
          in if to_start = [] then Inr (s, attempt)
             else bind_result (lift_participation (fold_result (insert_started_result (started_row (now_of s))) to_start s)) (\<lambda>s1.
                    Inr (schedule_results (fold mark_as_to_be_propagated to_start s1), attempt)))"

section \<open>Creating an attempt\<close>

text \<open>\<open>IFNULL(MAX(id)+1, 0)\<close>.\<close>

definition next_attempt_id :: "id \<Rightarrow> results_db \<Rightarrow> id" where
  "next_attempt_id p s = ifnull (map_option (\<lambda>m. m + 1) (sql_max [Some (at_id a). a \<leftarrow> rd_attempts s, at_participant a = p])) 0"

definition insert_attempt :: "attempt_row \<Rightarrow> results_db \<Rightarrow> db_error + results_db" where
  "insert_attempt a s =
     (if tbl_has at_key (at_key a) (rd_attempts s) then Inl DuplicateEntry
      else if \<not> group_exists (rd_db s) (at_participant a) then Inl ForeignKeyConstraint
      else Inr (s\<lparr>rd_attempts := rd_attempts s @ [a]\<rparr>))"

definition insert_new_result :: "result_row \<Rightarrow> results_db \<Rightarrow> db_error + results_db" where
  "insert_new_result r s =
     (if result_exists s (rs_key r) then Inl DuplicateEntry
      else if item_of s (rs_item r) = None then Inl ForeignKeyConstraint
      else Inr (s\<lparr>rd_results := rd_results s @ [r]\<rparr>))"

definition create_new_attempt :: "id \<Rightarrow> id \<Rightarrow> id \<Rightarrow> id \<Rightarrow> results_db \<Rightarrow> db_error + (results_db \<times> id)" where
  "create_new_attempt p parent_attempt i creator s =
     (let a = next_attempt_id p s in
      bind_result (insert_attempt \<lparr>at_participant = p, at_id = a, at_creator = Some creator, at_parent = Some parent_attempt,
          at_root_item = Some i, at_created_at = now_of s, at_ended_at = None, at_allows_submissions_until = max_time\<rparr> s) (\<lambda>s1.
      bind_result (insert_new_result (started_row (now_of s) (new_result (p, a, i))) s1) (\<lambda>s2.
        Inr (schedule_results (mark_as_to_be_propagated (p, a, i) s2), a))))"

definition check_if_attempt_creation_is_possible :: "id \<Rightarrow> id \<Rightarrow> results_db \<Rightarrow> participation_error option" where
  "check_if_attempt_creation_is_possible i p s =
     (case item_of s i of
        None \<Rightarrow> Some ParticipationForbidden
      | Some it \<Rightarrow>
          if it_type it \<noteq> Task \<and> it_type it \<noteq> Chapter then Some ParticipationForbidden
          else if \<not> it_allows_multiple_attempts it \<and> (\<exists>r \<in> set (rd_results s). rs_participant r = p \<and> rs_item r = i)
          then Some NoMultipleAttempts else None)"

definition create_attempt :: "id list \<Rightarrow> id \<Rightarrow> id \<Rightarrow> id \<Rightarrow> results_db \<Rightarrow> participation_error + (results_db \<times> id)" where
  "create_attempt ids p parent_attempt user s =
     (if \<not> is_valid_participation_hierarchy s ids p parent_attempt True then Inl ParticipationForbidden
      else case check_if_attempt_creation_is_possible (last ids) p s of
             Some e \<Rightarrow> Inl e
           | None \<Rightarrow> lift_participation (create_new_attempt p parent_attempt (last ids) user s))"

section \<open>Ending an attempt\<close>

text \<open>
  The recursive query with UNION: rounds add the attempts whose parent was added in the round before and that are not there yet;
  the number of rounds is limited as in \<open>recursive_query\<close>.
\<close>

fun attempts_below :: "nat \<Rightarrow> attempt_row list \<Rightarrow> id list \<Rightarrow> id list \<Rightarrow> id list option" where
  "attempts_below n as found [] = Some found"
| "attempts_below n as found (a # new) =
     (if n = 0 then None
      else
        let next = remdups [at_id b. b \<leftarrow> as, (\<exists>c \<in> set (a # new). at_parent b = Some c) \<and> at_id b \<notin> set (found @ a # new)]
        in attempts_below (n - 1) as (found @ a # new) next)"

definition attempts_to_update :: "nat \<Rightarrow> id \<Rightarrow> id \<Rightarrow> results_db \<Rightarrow> id list option" where
  "attempts_to_update depth p a s =
     (let as = filter (\<lambda>b. at_participant b = p) (rd_attempts s)
      in attempts_below depth as [] [at_id b. b \<leftarrow> as, at_id b = a])"

definition end_attempt_row :: "time \<Rightarrow> attempt_row \<Rightarrow> attempt_row" where
  "end_attempt_row now a =
     a\<lparr>at_ended_at := Some (case at_ended_at a of None \<Rightarrow> now | Some t \<Rightarrow> min now t),
       at_allows_submissions_until := min now (at_allows_submissions_until a)\<rparr>"

text \<open>The participations of the ended attempts: relations to the groups of participants of their root items.\<close>

definition is_participation :: "results_db \<Rightarrow> id \<Rightarrow> id list \<Rightarrow> gg_row \<Rightarrow> bool" where
  "is_participation s p as r =
     (gg_child r = p \<and>
      (\<exists>a \<in> set (rd_attempts s). at_participant a = p \<and> at_id a \<in> set as \<and>
         (case at_root_item a of
            None \<Rightarrow> False
          | Some i \<Rightarrow> (case item_of s i of None \<Rightarrow> False | Some it \<Rightarrow> it_participants_group it = Some (gg_parent r)))))"

definition expire_relations :: "(gg_row \<Rightarrow> bool) \<Rightarrow> db \<Rightarrow> db" where
  "expire_relations P d =
     (let changed = filter (\<lambda>r. P r \<and> db_now d < gg_expires_at r \<and> \<not> gg_is_team_membership r) (db_groups_groups d);
          d1 = fold (\<lambda>r. mark_group_todo (gg_child r)) changed d
      in d1\<lparr>db_groups_groups := map (\<lambda>r. if P r then set_gg_expires (min (db_now d) (gg_expires_at r)) r else r) (db_groups_groups d)\<rparr>)"

definition end_attempts :: "id \<Rightarrow> id list \<Rightarrow> results_db \<Rightarrow> results_db" where
  "end_attempts p as s =
     s\<lparr>rd_attempts := map (\<lambda>a. if at_participant a = p \<and> at_id a \<in> set as then end_attempt_row (now_of s) a else a) (rd_attempts s),
       rd_db := expire_relations (is_participation s p as) (rd_db s)\<rparr>"

definition end_attempt :: "nat \<Rightarrow> id \<Rightarrow> id \<Rightarrow> results_db \<Rightarrow> participation_error + results_db" where
  "end_attempt depth p a s =
     (if a = 0 then Inl ParticipationForbidden
      else if \<not> (\<exists>b \<in> set (rd_attempts s). at_key b = (p, a) \<and> attempt_active (now_of s) b) then Inl ParticipationForbidden
      else case attempts_to_update depth p a s of
             None \<Rightarrow> Inl (ParticipationFailed cte_failure)
           | Some as \<Rightarrow>
               let s1 = end_attempts p as s
               in bind_result (lift_participation (groups_create_new_ancestors (rd_db s1))) (\<lambda>d. Inr (s1\<lparr>rd_db := d\<rparr>)))"

end
