(* ===== verification/Entry.thy ===== *)
theory Entry
  imports Attempts
begin

text \<open>
  Items that require an explicit entry: the entry state of a participant (app/api/items/get_entry_state.go), the entry itself
  (enter.go), and the check that a change of a team keeps the entry conditions of its active participations
  (\<open>CheckIfEntryConditionsStillSatisfiedForAllActiveParticipations\<close>, app/database/group_store.go).  The names and personal data in
  the answer are left out.
\<close>

section \<open>The entry state\<close>

datatype entry_state = EntryAlreadyStarted | EntryNotReady | EntryReady

text \<open>\<open>IFNULL(MAX(can_enter_from <= t AND t < can_enter_until), 0)\<close> over the grants of the ancestors.\<close>

definition enter_granted :: "results_db \<Rightarrow> time \<Rightarrow> id \<Rightarrow> id \<Rightarrow> bool" where
  "enter_granted s t i g =
     (\<exists>pg \<in> set (db_permissions_granted (rd_db s)).
        pg_item pg = i \<and> anc (rd_db s) (pg_group pg) g \<and> pg_can_enter_from pg \<le> t \<and> t < pg_can_enter_until pg)"

definition entering_open :: "time \<Rightarrow> item_row \<Rightarrow> bool" where
  "entering_open now it = (it_entering_time_min it \<le> now \<and> now < it_entering_time_max it)"

definition ratio_satisfied :: "admitted_members_ratio \<Rightarrow> nat \<Rightarrow> nat \<Rightarrow> bool" where
  "ratio_satisfied ratio members admitted =
     (ratio = AdmittedNone \<or> ratio = AdmittedAll \<and> admitted = members \<or> ratio = AdmittedHalf \<and> members \<le> admitted * 2 \<or>
      ratio = AdmittedOne \<and> 1 \<le> admitted)"

definition is_ready_to_enter :: "bool \<Rightarrow> item_row \<Rightarrow> nat \<Rightarrow> nat \<Rightarrow> bool \<Rightarrow> bool \<Rightarrow> bool \<Rightarrow> bool \<Rightarrow> bool" where
  "is_ready_to_enter already_started it members admitted violations team_is_frozen frozen_required team_can_enter =
     (if it_entry_is_team it \<and> (\<not> team_can_enter \<and> it_entry_max_team_size it < int members \<or> frozen_required \<and> \<not> team_is_frozen) \<or>
         \<not> team_can_enter \<and> \<not> ratio_satisfied (it_entry_min_admitted_members_ratio it) members admitted
      then False
      else \<not> violations \<and> (\<not> already_started \<or> it_allows_multiple_attempts it))"

definition compute_entry_state :: "bool \<Rightarrow> bool \<Rightarrow> item_row \<Rightarrow> nat \<Rightarrow> nat \<Rightarrow> bool \<Rightarrow> bool \<Rightarrow> bool \<Rightarrow> bool \<Rightarrow> entry_state" where
  "compute_entry_state already_started active it members admitted violations team_is_frozen frozen_required team_can_enter =
     (if already_started \<and> active then EntryAlreadyStarted
      else if is_ready_to_enter already_started it members admitted violations team_is_frozen frozen_required team_can_enter then EntryReady
      else EntryNotReady)"

text \<open>The users that are active members of a team.\<close>

definition team_users :: "db \<Rightarrow> id \<Rightarrow> id list" where
  "team_users d team =
     remdups [gg_child r. r \<leftarrow> groups_groups_active d, gg_parent r = team \<and>
       (\<exists>u \<in> set (db_groups d). g_id u = gg_child r \<and> g_type u = User)]"

definition discover_if_team_can_enter :: "results_db \<Rightarrow> id \<Rightarrow> item_row \<Rightarrow> bool" where
  "discover_if_team_can_enter s team it = (enter_granted s (now_of s) (it_id it) team \<and> entering_open (now_of s) it)"

definition member_can_enter :: "results_db \<Rightarrow> bool \<Rightarrow> item_row \<Rightarrow> id \<Rightarrow> bool" where
  "member_can_enter s team_can_enter it m = ((team_can_enter \<or> enter_granted s (now_of s) (it_id it) m) \<and> entering_open (now_of s) it)"

definition participations :: "results_db \<Rightarrow> id \<Rightarrow> id \<Rightarrow> attempt_row list" where
  "participations s p i = filter (\<lambda>a. at_participant a = p \<and> at_root_item a = Some i) (rd_attempts s)"

text \<open>The members that work on the item in another team.\<close>

definition violates_attempts_restriction :: "results_db \<Rightarrow> id \<Rightarrow> item_row \<Rightarrow> id \<Rightarrow> bool" where
  "violates_attempts_restriction s team it m =
     (let as = [a. r \<leftarrow> groups_groups_active (rd_db s), gg_child r = m \<and> gg_is_team_membership r \<and> gg_parent r \<noteq> team,
                   a \<leftarrow> participations s (gg_parent r) (it_id it)]
      in as \<noteq> [] \<and> ((\<exists>a \<in> set as. now_of s < at_allows_submissions_until a) \<or> \<not> it_allows_multiple_attempts it))"

definition team_children :: "db \<Rightarrow> id \<Rightarrow> id list" where
  "team_children d team = [gg_child r. r \<leftarrow> groups_groups_active d, gg_parent r = team]"

text \<open>Members, admitted members, whether the team may enter, and whether a member violates the restriction of attempts.\<close>

definition entry_state_info :: "results_db \<Rightarrow> id \<Rightarrow> id \<Rightarrow> item_row \<Rightarrow> db_error + (nat \<times> nat \<times> bool \<times> bool)" where
  "entry_state_info s g user it =
     (if g \<noteq> user then
        let team_can_enter = discover_if_team_can_enter s g it; ms = team_users (rd_db s) g
        in Inr (length ms, length (filter (member_can_enter s team_can_enter it) ms), team_can_enter,
                \<exists>m \<in> set (team_children (rd_db s) g). violates_attempts_restriction s g it m)
      else if \<not> (\<exists>r \<in> set (groups_ancestors_active (rd_db s)). ga_child r = g) then Inl RecordNotFound
      else Inr (1, if enter_granted s (now_of s) (it_id it) g \<and> entering_open (now_of s) it then 1 else 0, False, False))"

text \<open>\<open>TeamGroupForUser\<close>: the team, if the user is an active member.\<close>

definition team_group_for_user :: "db \<Rightarrow> id \<Rightarrow> id \<Rightarrow> group_row option" where
  "team_group_for_user d team user =
     (if \<exists>r \<in> set (groups_groups_active d). gg_parent r = team \<and> gg_child r = user
      then case group_by_id d team of None \<Rightarrow> None | Some g \<Rightarrow> if g_type g = Team then Some g else None
      else None)"

definition item_info_and_entry_state :: "id \<Rightarrow> id \<Rightarrow> id \<Rightarrow> results_db \<Rightarrow> participation_error + entry_state" where
  "item_info_and_entry_state i g user s =
     (case (if visible_item s g i then item_of s i else None) of
        None \<Rightarrow> Inl ParticipationForbidden
      | Some it \<Rightarrow>
          if \<not> it_requires_explicit_entry it \<or> (g \<noteq> user) \<noteq> it_entry_is_team it then Inl ParticipationForbidden
          else case (if g \<noteq> user then map_option g_frozen_membership (team_group_for_user (rd_db s) g user) else Some False) of
                 None \<Rightarrow> Inl ParticipationForbidden
               | Some frozen \<Rightarrow>
                   let ps = participations s g i in
                   bind_result (lift_participation (entry_state_info s g user it)) (\<lambda>(members, admitted, team_can_enter, violations).
                     Inr (compute_entry_state (ps \<noteq> []) (\<exists>a \<in> set ps. now_of s < at_allows_submissions_until a) it members admitted
                       violations frozen (g \<noteq> user \<and> it_entry_frozen_teams it) team_can_enter)))"

section \<open>Entering\<close>

definition total_additional_time :: "results_db \<Rightarrow> id \<Rightarrow> id \<Rightarrow> db_error + time" where
  "total_additional_time s g i =
     (if \<not> (\<exists>r \<in> set (groups_ancestors_active (rd_db s)). ga_child r = g) then Inl RecordNotFound
      else Inr (sum_list [ct_additional_time c. r \<leftarrow> groups_ancestors_active (rd_db s), ga_child r = g,
             c \<leftarrow> rd_contest_items s, ct_group c = ga_ancestor r \<and> ct_item c = i]))"

text \<open>\<open>IFNULL(DATE_ADD(...), '9999-12-31 23:59:59')\<close>: no duration, or a date MySQL cannot represent.\<close>

definition submissions_until :: "time \<Rightarrow> time option \<Rightarrow> time \<Rightarrow> time" where
  "submissions_until now duration additional =
     (case duration of None \<Rightarrow> max_time | Some t \<Rightarrow> if now + t + additional \<le> max_time then now + t + additional else max_time)"

definition participation_relation :: "id \<Rightarrow> id \<Rightarrow> time \<Rightarrow> gg_row" where
  "participation_relation parent child t =
     \<lparr>gg_parent = parent, gg_child = child, gg_expires_at = t, gg_personal_info_view_approved_at = None,
      gg_lock_membership_approved_at = None, gg_watch_approved_at = None, gg_is_team_membership = False\<rparr>"

definition enter_item :: "id \<Rightarrow> id \<Rightarrow> id \<Rightarrow> item_row \<Rightarrow> results_db \<Rightarrow> db_error + results_db" where
  "enter_item p parent_attempt user it s =
     (let now = now_of s; i = it_id it; a = next_attempt_id p s in
      bind_result (total_additional_time s p i) (\<lambda>additional.
        let until = submissions_until now (it_duration it) additional in
        bind_result (insert_attempt \<lparr>at_participant = p, at_id = a, at_creator = Some user, at_parent = Some parent_attempt,
            at_root_item = Some i, at_created_at = now, at_ended_at = None, at_allows_submissions_until = until\<rparr> s) (\<lambda>s1.
        bind_result (insert_new_result ((new_result (p, a, i))\<lparr>rs_started_at := Some now\<rparr>) s1) (\<lambda>s2.
          case it_participants_group it of
            None \<Rightarrow> Inr s2
          | Some g \<Rightarrow>
              bind_result (upsert_groups_groups_until until (participation_relation g p until) (rd_db s2)) (\<lambda>d3.
              bind_result (groups_create_new_ancestors d3) (\<lambda>d4.
                Inr (schedule_results (s2\<lparr>rd_db := d4\<rparr>))))))))"

definition enter :: "id list \<Rightarrow> id \<Rightarrow> id \<Rightarrow> id \<Rightarrow> results_db \<Rightarrow> participation_error + results_db" where
  "enter ids p parent_attempt user s =
     (if \<not> is_valid_participation_hierarchy s ids p parent_attempt False then Inl ParticipationForbidden
      else bind_result (item_info_and_entry_state (last ids) p user s) (\<lambda>state.
        if state \<noteq> EntryReady then Inl ParticipationForbidden
        else case item_of s (last ids) of
               None \<Rightarrow> Inl (ParticipationFailed RecordNotFound)
             | Some it \<Rightarrow> lift_participation (enter_item p parent_attempt user it s)))"

section \<open>Entry conditions of active participations\<close>

text \<open>The items of the active participations of a team, with the time each was first started.\<close>

definition active_participation_starts :: "results_db \<Rightarrow> id \<Rightarrow> id \<Rightarrow> time list" where
  "active_participation_starts s team i =
     [t. a \<leftarrow> participations s team i, attempt_active (now_of s) a,
         r \<leftarrow> rd_results s, rs_key r = (team, at_id a, i), Some t \<leftarrow> [rs_started_at r]]"

definition updated_members :: "db \<Rightarrow> id \<Rightarrow> id \<Rightarrow> bool \<Rightarrow> id list" where
  "updated_members d team user is_adding =
     (if is_adding then team_children d team @ [user] else filter (\<lambda>m. m \<noteq> user) (team_children d team))"

text \<open>The members with a row in \<open>groups_ancestors_active\<close>, each once.\<close>

definition counted_members :: "db \<Rightarrow> id list \<Rightarrow> id list" where
  "counted_members d ms = remdups [ga_child r. r \<leftarrow> groups_ancestors_active d, ga_child r \<in> set ms]"

definition breaks_entry_conditions :: "results_db \<Rightarrow> id list \<Rightarrow> time list \<Rightarrow> item_row \<Rightarrow> bool" where
  "breaks_entry_conditions s ms starts it =
     (case starts of
        [] \<Rightarrow> False
      | t # ts \<Rightarrow>
          ms \<noteq> [] \<and>
          (let admitted = length (filter (enter_granted s (fold min ts t) (it_id it)) ms)
           in \<not> ratio_satisfied (it_entry_min_admitted_members_ratio it) (length ms) admitted \<or>
              it_entry_max_team_size it < int (length ms)))"

definition entry_conditions_still_satisfied :: "results_db \<Rightarrow> id \<Rightarrow> id \<Rightarrow> bool \<Rightarrow> bool" where
  "entry_conditions_still_satisfied s team user is_adding =
     (let ms = counted_members (rd_db s) (updated_members (rd_db s) team user is_adding)
      in \<not> (\<exists>it \<in> set (rd_items s). breaks_entry_conditions s ms (active_participation_starts s team (it_id it)) it))"

end
