(* ===== verification/ParticipationRules.thy ===== *)
theory ParticipationRules
  imports Participation
begin

text \<open>
  What a participation hierarchy is: a path from a root to an item, all visible, and one chain of attempts that can be walked
  from the last attempt upwards.  The chain is unique, so the queries with LIMIT 1 have one answer.
\<close>

section \<open>The reference\<close>

text \<open>The path of items, and the attempt with a given number in which an item was started.\<close>

definition item_edge :: "results_db \<Rightarrow> id \<Rightarrow> id \<Rightarrow> bool" where
  "item_edge s i j = (\<exists>e \<in> set (db_items_items (rd_db s)). ii_parent e = i \<and> ii_child e = j)"

definition hierarchy_path :: "results_db \<Rightarrow> id \<Rightarrow> bool \<Rightarrow> id list \<Rightarrow> bool" where
  "hierarchy_path s p content ids =
     (ids \<noteq> [] \<and> is_root_item s p (hd ids) \<and> list_all (content_visible s p) (butlast ids) \<and> visible_item s p (last ids) \<and>
      (content \<longrightarrow> content_visible s p (last ids)) \<and> successively (item_edge s) ids)"

definition started_in :: "results_db \<Rightarrow> id \<Rightarrow> bool \<Rightarrow> id \<Rightarrow> id \<Rightarrow> attempt_row option" where
  "started_in s p active i b =
     (if \<exists>r \<in> set (rd_results s). rs_key r = (p, b, i) \<and> rs_started_at r \<noteq> None
      then case attempt_of s p b of
             None \<Rightarrow> None
           | Some a \<Rightarrow> if active \<longrightarrow> attempt_active (db_now (rd_db s)) a then Some a else None
      else None)"

text \<open>From the last item to the first: the items in reverse order.\<close>

fun walk_up :: "results_db \<Rightarrow> id \<Rightarrow> bool \<Rightarrow> id \<Rightarrow> id list \<Rightarrow> attempt_row list option" where
  "walk_up s p active b [] = Some []"
| "walk_up s p active b [i] = map_option (\<lambda>a. [a]) (started_in s p active i b)"
| "walk_up s p active b (i # j # is) =
     (case started_in s p active i b of
        None \<Rightarrow> None
      | Some a \<Rightarrow> (case attempt_over a i of None \<Rightarrow> None | Some c \<Rightarrow> map_option (\<lambda>as. as @ [a]) (walk_up s p active c (j # is))))"

section \<open>The rows of the join\<close>

fun chain_ok :: "results_db \<Rightarrow> id \<Rightarrow> bool \<Rightarrow> id option \<Rightarrow> id list \<Rightarrow> attempt_row list \<Rightarrow> bool" where
  "chain_ok s p active prev [] as = (as = [])"
| "chain_ok s p active prev (i # is) [] = False"
| "chain_ok s p active prev (i # is) (a # as) =
     (a \<in> set (started_attempts s p active i) \<and> follows prev a i \<and> chain_ok s p active (Some (at_id a)) is as)"

lemma chain_ok_Cons:
  "chain_ok s p active prev (i # is) as \<longleftrightarrow>
     (\<exists>a bs. as = a # bs \<and> a \<in> set (started_attempts s p active i) \<and> follows prev a i \<and> chain_ok s p active (Some (at_id a)) is bs)"
  by (cases as) auto

definition last_attempt :: "id option \<Rightarrow> attempt_row list \<Rightarrow> id option" where
  "last_attempt prev as = (if as = [] then prev else Some (at_id (last as)))"

lemma content_visible_visible: "content_visible s p i \<Longrightarrow> visible_item s p i"
  by (auto simp: content_visible_def visible_item_def split: option.splits)

lemma set_chain_rows_step:
  "as \<in> set (chain_rows s p active content prev (i # j # is)) \<longleftrightarrow>
     content_visible s p i \<and> item_edge s i j \<and> visible_item s p j \<and>
     (\<exists>a bs. as = a # bs \<and> a \<in> set (started_attempts s p active i) \<and> follows prev a i \<and>
        bs \<in> set (chain_rows s p active content (Some (at_id a)) (j # is)))"
  by (auto simp: item_edge_def)

lemma set_chain_rows:
  assumes "ids \<noteq> []" and "visible_item s p (hd ids)"
  shows "as \<in> set (chain_rows s p active content prev ids) \<longleftrightarrow>
    list_all (content_visible s p) (butlast ids) \<and> visible_item s p (last ids) \<and>
    (content \<longrightarrow> content_visible s p (last ids)) \<and> successively (item_edge s) ids \<and> chain_ok s p active prev (butlast ids) as"
  using assms
proof (induction ids arbitrary: prev as rule: induct_list012)
  case 1
  then show ?case by simp
next
  case (2 i)
  then show ?case by auto
next
  case (3 i j "is")
  show ?case
  proof (cases "visible_item s p j")
    case False
    then have "\<not> (list_all (content_visible s p) (butlast (j # is)) \<and> visible_item s p (last (j # is)))"
      by (cases "is") (auto dest: content_visible_visible)
    with False show ?thesis unfolding set_chain_rows_step by auto
  next
    case True
    let ?rest = "list_all (content_visible s p) (butlast (j # is)) \<and> visible_item s p (last (j # is)) \<and>
        (content \<longrightarrow> content_visible s p (last (j # is))) \<and> successively (item_edge s) (j # is)"
    have IH: "bs \<in> set (chain_rows s p active content (Some (at_id a)) (j # is)) \<longleftrightarrow>
        ?rest \<and> chain_ok s p active (Some (at_id a)) (butlast (j # is)) bs" for a bs
      using 3(2) [of bs "Some (at_id a)"] True by simp
    have "as \<in> set (chain_rows s p active content prev (i # j # is)) \<longleftrightarrow>
        content_visible s p i \<and> item_edge s i j \<and> ?rest \<and> chain_ok s p active prev (i # butlast (j # is)) as"
      unfolding set_chain_rows_step chain_ok_Cons using True IH by blast
    also have "\<dots> \<longleftrightarrow> list_all (content_visible s p) (butlast (i # j # is)) \<and> visible_item s p (last (i # j # is)) \<and>
        (content \<longrightarrow> content_visible s p (last (i # j # is))) \<and> successively (item_edge s) (i # j # is) \<and>
        chain_ok s p active prev (butlast (i # j # is)) as"
      by auto
    finally show ?thesis .
  qed
qed

lemma set_item_attempt_chain:
  "as \<in> set (item_attempt_chain s ids p active content) \<longleftrightarrow>
     hierarchy_path s p content ids \<and> chain_ok s p active None (butlast ids) as"
proof -
  have "visible_item s p (hd ids)" if "hierarchy_path s p content ids"
    using that by (cases ids) (auto simp: hierarchy_path_def split: if_splits dest: content_visible_visible)
  then show ?thesis
    using set_chain_rows [of ids s p as active content None]
    by (auto simp: item_attempt_chain_def hierarchy_path_def)
qed

section \<open>Chains, from the end\<close>

lemma last_attempt_Cons: "last_attempt (Some (at_id a)) as = last_attempt prev (a # as)"
  by (simp add: last_attempt_def)

lemma chain_ok_snoc:
  "chain_ok s p active prev (is @ [i]) as \<longleftrightarrow>
     (\<exists>bs a. as = bs @ [a] \<and> chain_ok s p active prev is bs \<and> a \<in> set (started_attempts s p active i) \<and>
        follows (last_attempt prev bs) a i)"
proof (induction "is" arbitrary: prev as)
  case Nil
  show ?case by (auto simp: last_attempt_def chain_ok_Cons)
next
  case (Cons j "is")
  have "chain_ok s p active prev ((j # is) @ [i]) as \<longleftrightarrow>
      (\<exists>b bs a. as = (b # bs) @ [a] \<and> chain_ok s p active prev (j # is) (b # bs) \<and> a \<in> set (started_attempts s p active i) \<and>
        follows (last_attempt prev (b # bs)) a i)"
    unfolding append_Cons chain_ok_Cons Cons.IH by (auto simp: last_attempt_Cons [of _ _ prev])
  also have "\<dots> \<longleftrightarrow> (\<exists>bs a. as = bs @ [a] \<and> chain_ok s p active prev (j # is) bs \<and> a \<in> set (started_attempts s p active i) \<and>
        follows (last_attempt prev bs) a i)"
    by (metis chain_ok_Cons)
  finally show ?case .
qed

lemma set_started_attempts:
  "a \<in> set (started_attempts s p active i) \<longleftrightarrow>
     a \<in> set (rd_attempts s) \<and> (active \<longrightarrow> attempt_active (db_now (rd_db s)) a) \<and> at_participant a = p \<and>
     (\<exists>r \<in> set (rd_results s). rs_key r = (p, at_id a, i) \<and> rs_started_at r \<noteq> None)"
proof -
  have "a \<in> set (started_attempts s p active i) \<longleftrightarrow>
      a \<in> set (rd_attempts s) \<and> (active \<longrightarrow> attempt_active (db_now (rd_db s)) a) \<and>
      (\<exists>r \<in> set (rd_results s). rs_participant r = p \<and> rs_item r = i \<and> rs_started_at r \<noteq> None \<and> at_key a = (p, rs_attempt r))"
    by (auto simp: started_attempts_def)
  then show ?thesis by (auto simp: at_key_def rs_key_def)
qed

lemma started_attempts_in:
  assumes "tbl_unique at_key (rd_attempts s)"
  shows "a \<in> set (started_attempts s p active i) \<longleftrightarrow> started_in s p active i (at_id a) = Some a"
proof -
  have "a \<in> set (started_attempts s p active i) \<longleftrightarrow> (\<exists>r \<in> set (rd_results s). rs_key r = (p, at_id a, i) \<and> rs_started_at r \<noteq> None) \<and>
      attempt_of s p (at_id a) = Some a \<and> (active \<longrightarrow> attempt_active (db_now (rd_db s)) a)"
    unfolding set_started_attempts attempt_of_def tbl_find_in_iff [OF assms] by (auto simp: at_key_def)
  also have "\<dots> \<longleftrightarrow> started_in s p active i (at_id a) = Some a"
    by (auto simp: started_in_def split: option.splits)
  finally show ?thesis .
qed

lemma started_in_id: "started_in s p active i b = Some a \<Longrightarrow> at_id a = b \<and> at_participant a = p \<and> a \<in> set (rd_attempts s)"
  by (auto simp: started_in_def attempt_of_def at_key_def split: if_splits option.splits dest!: tbl_find_Some)

lemma chain_walk:
  assumes "tbl_unique at_key (rd_attempts s)" and "is \<noteq> []"
  shows "chain_ok s p active None is as \<and> at_id (last as) = b \<longleftrightarrow> walk_up s p active b (rev is) = Some as"
  using assms(2)
proof (induction "is" arbitrary: as b rule: rev_induct)
  case Nil
  then show ?case by simp
next
  case (snoc i "is")
  note started = started_attempts_in [OF assms(1)]
  show ?case
  proof (cases "is" rule: rev_cases)
    case Nil
    then show ?thesis
      by (auto simp: chain_ok_snoc [of _ _ _ _ "[]", simplified] last_attempt_def follows_def started dest: started_in_id)
  next
    case (snoc js j)
    then have ne: "is \<noteq> []" and rev: "rev (is @ [i]) = i # j # rev js" "rev is = j # rev js" by simp_all
    have len: "bs \<noteq> []" if "chain_ok s p active None is bs" for bs using that ne by (cases "is") (auto simp: chain_ok_Cons)
    have over: "follows (last_attempt None bs) a i \<longleftrightarrow> attempt_over a i = Some (at_id (last bs))" if "chain_ok s p active None is bs" for a bs
      using len [OF that] by (simp add: last_attempt_def follows_def)
    have "chain_ok s p active None (is @ [i]) as \<longleftrightarrow>
        (\<exists>bs a. as = bs @ [a] \<and> chain_ok s p active None is bs \<and> started_in s p active i (at_id a) = Some a \<and>
          attempt_over a i = Some (at_id (last bs)))"
      unfolding chain_ok_snoc started by (intro ex_cong1 conj_cong refl) (simp add: over)
    note step = this
    have "chain_ok s p active None (is @ [i]) as \<and> at_id (last as) = b \<longleftrightarrow>
        (\<exists>bs a. as = bs @ [a] \<and> chain_ok s p active None is bs \<and> started_in s p active i b = Some a \<and>
          attempt_over a i = Some (at_id (last bs)))"
    proof -
      have at_b: "started_in s p active i b = Some a \<longleftrightarrow> started_in s p active i (at_id a) = Some a \<and> at_id a = b" for a
        by (auto dest: started_in_id)
      show ?thesis unfolding step at_b by (metis last_snoc)
    qed
    also have "\<dots> \<longleftrightarrow> (\<exists>a c bs. as = bs @ [a] \<and> started_in s p active i b = Some a \<and> attempt_over a i = Some c \<and>
        walk_up s p active c (rev is) = Some bs)"
      unfolding snoc.IH [OF ne, symmetric] by auto
    also have "\<dots> \<longleftrightarrow> walk_up s p active b (rev (is @ [i])) = Some as"
      unfolding rev by (auto split: option.splits)
    finally show ?thesis .
  qed
qed

section \<open>Validity and breadcrumbs\<close>

lemma hierarchy_validity:
  assumes "tbl_unique at_key (rd_attempts s)"
  shows "is_valid_participation_hierarchy s ids p b content \<longleftrightarrow>
    hierarchy_path s p content ids \<and> (if length ids = 1 then b = 0 else walk_up s p True b (rev (butlast ids)) \<noteq> None)"
proof (cases "butlast ids = []")
  case True
  then have "ids = [] \<or> length ids = 1" by (cases ids) (auto split: if_splits)
  moreover have "participation_hierarchy s ids p b True content \<noteq> [] \<longleftrightarrow> hierarchy_path s p content ids" if "length ids = 1"
  proof -
    have "as \<in> set (item_attempt_chain s ids p True content) \<longleftrightarrow> hierarchy_path s p content ids \<and> as = []" for as
      unfolding set_item_attempt_chain True by simp
    then show ?thesis using that by (simp add: participation_hierarchy_def) (metis list.set_intros(1) neq_Nil_conv empty_iff list.set(1))
  qed
  ultimately show ?thesis
    by (auto simp: is_valid_participation_hierarchy_def hierarchy_path_def)
next
  case False
  then have "1 < length ids" by (cases ids) (auto split: if_splits)
  then have "is_valid_participation_hierarchy s ids p b content \<longleftrightarrow>
      (\<exists>as. as \<in> set (item_attempt_chain s ids p True content) \<and> at_id (last as) = b)"
    by (auto simp: is_valid_participation_hierarchy_def participation_hierarchy_def filter_empty_conv)
  also have "\<dots> \<longleftrightarrow> hierarchy_path s p content ids \<and> (\<exists>as. walk_up s p True b (rev (butlast ids)) = Some as)"
    unfolding set_item_attempt_chain using chain_walk [OF assms False, of p True] by blast
  finally show ?thesis using \<open>1 < length ids\<close> by auto
qed

text \<open>
  C24: A participation hierarchy is valid exactly when its items are a path from a root, all but the last with access to their content,
  and walking up from the parent attempt, changing to the parent attempt at every root of an attempt, meets an active attempt
  with a started result for every item; for a root alone the parent attempt is 0.
\<close>

theorem hierarchy_valid_iff:
  assumes "tbl_unique at_key (rd_attempts s)"
  shows "is_valid_participation_hierarchy s ids p b content \<longleftrightarrow>
    hierarchy_path s p content ids \<and> (if length ids = 1 then b = 0 else walk_up s p True b (rev (butlast ids)) \<noteq> None)"
  by (rule hierarchy_validity [OF assms])

lemma first_of_unique: "(\<And>x. x \<in> set xs \<longleftrightarrow> y = Some x) \<Longrightarrow> (case xs of [] \<Rightarrow> None | x # _ \<Rightarrow> Some (f x)) = map_option f y"
  by (cases xs) force+

lemma breadcrumbs_rows_walk:
  assumes "tbl_unique at_key (rd_attempts s)"
  shows "as \<in> set (breadcrumbs_rows s ids p b content) \<longleftrightarrow>
    hierarchy_path s p content ids \<and> walk_up s p False b (rev ids) = Some as"
proof (cases "ids = []")
  case True
  then show ?thesis by (simp add: breadcrumbs_rows_def item_attempt_chain_def hierarchy_path_def)
next
  case False
  have chain: "chain_ok s p False None ids as \<longleftrightarrow> (\<exists>bs a. as = bs @ [a] \<and> chain_ok s p False None (butlast ids) bs \<and>
      a \<in> set (started_attempts s p False (last ids)) \<and> follows (last_attempt None bs) a (last ids))"
    using chain_ok_snoc [of s p False None "butlast ids" "last ids" as] unfolding append_butlast_last_id [OF False] .
  have "as \<in> set (breadcrumbs_rows s ids p b content) \<longleftrightarrow>
      (\<exists>bs a. bs \<in> set (item_attempt_chain s ids p False content) \<and> a \<in> set (started_attempts s p False (last ids)) \<and>
        at_id a = b \<and> follows (last_attempt None bs) a (last ids) \<and> as = bs @ [a])"
    unfolding last_attempt_def breadcrumbs_rows_def set_join2 by metis
  also have "\<dots> \<longleftrightarrow> hierarchy_path s p content ids \<and> chain_ok s p False None ids as \<and> at_id (last as) = b"
    unfolding set_item_attempt_chain chain by (metis last_snoc)
  finally show ?thesis using chain_walk [OF assms False, of p False as b] by simp
qed

text \<open>
  The breadcrumbs of an attempt are those of the only chain of attempts that ends with it, if there is one: the walk up from the attempt
  gives the attempt of every item, whether or not the attempts are still active.
\<close>

lemma breadcrumbs_unique:
  assumes "tbl_unique at_key (rd_attempts s)" and "ids \<noteq> []"
  shows "breadcrumbs_hierarchy_for_attempt s ids p b =
    (if hierarchy_path s p False ids then map_option (results_for_breadcrumbs s ids) (walk_up s p False b (rev ids)) else None)"
proof -
  have "(case breadcrumbs_rows s ids p b False of [] \<Rightarrow> None | as # _ \<Rightarrow> Some (results_for_breadcrumbs s ids as)) =
      map_option (results_for_breadcrumbs s ids) (if hierarchy_path s p False ids then walk_up s p False b (rev ids) else None)"
    by (rule first_of_unique) (simp add: breadcrumbs_rows_walk [OF assms(1)])
  then show ?thesis using assms(2) by (simp add: breadcrumbs_hierarchy_for_attempt_def)
qed

end
