(* ===== verification/EntryRules.thy ===== *)
theory EntryRules
  imports Entry AttemptRules Membership
begin

text \<open>
  Entering an item: the attempt and the membership in the group of participants end together, and an item without multiple attempts is
  entered once.
\<close>

lemma enter_run:
  assumes "enter ids p b user s = Inr s'"
  obtains it state where "item_of s (last ids) = Some it" "item_info_and_entry_state (last ids) p user s = Inr EntryReady"
    "enter_item p b user it s = Inr s'" "is_valid_participation_hierarchy s ids p b False"
  using assms by (auto simp: enter_def lift_participation_def bind_result_case split: if_splits option.splits sum.splits)

lemma participation_key: "gg_key (participation_relation g p t) = (g, p)"
  by (simp add: participation_relation_def gg_key_def)

lemma upsert_until_find:
  assumes "upsert_groups_groups_until t r d = Inr d'" and "gg_expires_at r = t"
  shows "\<exists>x. tbl_find gg_key (gg_key r) (db_groups_groups d') = Some x \<and> gg_expires_at x = t"
proof -
  obtain team where "db_groups_groups d' = tbl_upsert gg_key (set_gg_expires t) (r\<lparr>gg_is_team_membership := team\<rparr>) (db_groups_groups d)"
    using assms(1) by (auto simp: upsert_groups_groups_until_def Let_def mark_group_todo_def split: option.splits if_splits)
  moreover have "gg_key (r\<lparr>gg_is_team_membership := team\<rparr>) = gg_key r" by (simp add: gg_key_def)
  ultimately show ?thesis using assms(2) by (auto simp: gg.upsert_find set_gg_expires_def split: option.splits)
qed

lemma entry_ends_with_participation_aux:
  assumes "enter ids p b user s = Inr s'"
  shows "\<exists>it a additional. item_of s (last ids) = Some it \<and> total_additional_time s p (last ids) = Inr additional \<and>
    rd_attempts s' = rd_attempts s @ [a] \<and> at_participant a = p \<and> at_root_item a = Some (last ids) \<and> at_parent a = Some b \<and>
    (\<forall>x \<in> set (rd_attempts s). at_participant x = p \<longrightarrow> at_id x < at_id a) \<and> started s' (p, at_id a, last ids) \<and>
    at_allows_submissions_until a = submissions_until (now_of s) (it_duration it) additional \<and>
    (\<forall>g. it_participants_group it = Some g \<longrightarrow>
       (\<exists>r. tbl_find gg_key (g, p) (db_groups_groups (rd_db s')) = Some r \<and> gg_expires_at r = at_allows_submissions_until a))"
proof -
  obtain it where it: "item_of s (last ids) = Some it" and run: "enter_item p b user it s = Inr s'"
    by (rule enter_run [OF assms])
  have i: "it_id it = last ids" using it by (auto simp: item_of_def dest: tbl_find_Some)
  obtain additional where additional: "total_additional_time s p (last ids) = Inr additional"
    using run by (cases "total_additional_time s p (last ids)") (auto simp: enter_item_def Let_def i)
  define until where "until = submissions_until (now_of s) (it_duration it) additional"
  define a where "a = \<lparr>at_participant = p, at_id = next_attempt_id p s, at_creator = Some user, at_parent = Some b,
    at_root_item = Some (last ids), at_created_at = now_of s, at_ended_at = None, at_allows_submissions_until = until\<rparr>"
  define r where "r = (new_result (p, at_id a, last ids))\<lparr>rs_started_at := Some (now_of s)\<rparr>"
  define s2 where "s2 = s\<lparr>rd_attempts := rd_attempts s @ [a], rd_results := rd_results s @ [r]\<rparr>"
  have rest: "(case it_participants_group it of
            None \<Rightarrow> Inr s2
          | Some g \<Rightarrow>
              bind_result (upsert_groups_groups_until until (participation_relation g p until) (rd_db s2)) (\<lambda>d3.
              bind_result (groups_create_new_ancestors d3) (\<lambda>d4. Inr (schedule_results (s2\<lparr>rd_db := d4\<rparr>))))) = Inr s'"
  proof -
    have "bind_result (insert_attempt a s) (\<lambda>s1. bind_result (insert_new_result r s1) (\<lambda>s2. case it_participants_group it of
            None \<Rightarrow> Inr s2
          | Some g \<Rightarrow>
              bind_result (upsert_groups_groups_until until (participation_relation g p until) (rd_db s2)) (\<lambda>d3.
              bind_result (groups_create_new_ancestors d3) (\<lambda>d4. Inr (schedule_results (s2\<lparr>rd_db := d4\<rparr>)))))) = Inr s'"
      using run additional unfolding enter_item_def Let_def i a_def r_def until_def by simp
    moreover from this have "insert_attempt a s = Inr (s\<lparr>rd_attempts := rd_attempts s @ [a]\<rparr>)"
      by (auto simp: insert_attempt_def split: if_splits)
    ultimately show ?thesis
      unfolding s2_def by (auto simp: insert_new_result_def split: if_splits)
  qed
  then have tables: "rd_attempts s' = rd_attempts s @ [a]" "rd_results s' = rd_results s @ [r]"
    by (auto simp: s2_def schedule_results_def bind_result_case split: option.splits sum.splits)
  have "\<exists>x. tbl_find gg_key (g, p) (db_groups_groups (rd_db s')) = Some x \<and> gg_expires_at x = until" if "it_participants_group it = Some g" for g
  proof -
    from rest that obtain d3 d4 where d3: "upsert_groups_groups_until until (participation_relation g p until) (rd_db s2) = Inr d3"
      and d4: "groups_create_new_ancestors d3 = Inr d4" and s': "s' = schedule_results (s2\<lparr>rd_db := d4\<rparr>)"
      by (auto simp: bind_result_case split: sum.splits)
    from upsert_until_find [OF d3] have "\<exists>x. tbl_find gg_key (g, p) (db_groups_groups d3) = Some x \<and> gg_expires_at x = until"
      unfolding participation_key by (simp add: participation_relation_def)
    moreover have "db_groups_groups (rd_db s') = db_groups_groups d3"
      using d4 by (auto simp: s' schedule_results_def schedule_results_propagation_def groups_create_new_ancestors_def split: sum.splits prod.splits)
    ultimately show ?thesis by simp
  qed
  moreover have "rs_key r = (p, at_id a, last ids)" "rs_started_at r \<noteq> None" by (simp_all add: r_def new_result_def rs_key_def)
  then have "started s' (p, at_id a, last ids)" unfolding started_def tables by auto
  moreover have "at_id x < at_id a" if "x \<in> set (rd_attempts s)" "at_participant x = p" for x
    using next_attempt_id_greater [OF that] by (simp add: a_def)
  moreover have "at_participant a = p" "at_root_item a = Some (last ids)" "at_parent a = Some b" "at_allows_submissions_until a = until"
    by (simp_all add: a_def)
  ultimately show ?thesis
    using it additional tables(1) unfolding until_def by (intro exI [of _ it] exI [of _ a] exI [of _ additional]) simp
qed

text \<open>
  C28: Entering an item gives the participant a fresh attempt on it, with a started result, until the duration of the item and the additional time
  are over, and a membership in the group of participants that expires at that very instant.
\<close>

theorem entry_ends_with_participation:
  assumes "enter ids p b user s = Inr s'"
  shows "\<exists>it a additional. item_of s (last ids) = Some it \<and> total_additional_time s p (last ids) = Inr additional \<and>
    rd_attempts s' = rd_attempts s @ [a] \<and> at_participant a = p \<and> at_root_item a = Some (last ids) \<and> at_parent a = Some b \<and>
    (\<forall>x \<in> set (rd_attempts s). at_participant x = p \<longrightarrow> at_id x < at_id a) \<and> started s' (p, at_id a, last ids) \<and>
    at_allows_submissions_until a = submissions_until (now_of s) (it_duration it) additional \<and>
    (\<forall>g. it_participants_group it = Some g \<longrightarrow>
       (\<exists>r. tbl_find gg_key (g, p) (db_groups_groups (rd_db s')) = Some r \<and> gg_expires_at r = at_allows_submissions_until a))"
  by (rule entry_ends_with_participation_aux [OF assms])

text \<open>
  C27: Ending an attempt ends it and all attempts below it, for good.  As long as the attempts are as the service left them, whatever
  happens to all other tables: no participation hierarchy with one of them as its parent attempt is valid, so no result is
  started in it by its number, no attempt is created and no item entered below it; and starting a path starts no further result
  in it.  All other attempts are untouched.  (On a path of one item, a root, the services take the number 0 for no attempt.)
\<close>

theorem ended_attempts_closed:
  assumes "tbl_unique at_key (rd_attempts s)" and "end_attempt depth p a s = Inr s'"
    and t: "rd_attempts t = rd_attempts s'" and b: "(b, a) \<in> (parent_attempts (attempts_of s p))\<^sup>*"
  shows "(b \<noteq> 0 \<or> 1 < length ids \<longrightarrow> \<not> is_valid_participation_hierarchy t ids p b content \<and>
      start_result ids p b t = Inl ParticipationForbidden \<and> create_attempt ids p b user t = Inl ParticipationForbidden \<and>
      enter ids p b user t = Inl ParticipationForbidden) \<and>
    (\<forall>t' c i. start_result_path ids p t = Inr (t', c) \<and> started t' (p, b, i) \<longrightarrow> started t (p, b, i)) \<and>
    (\<forall>x \<in> set (rd_attempts s). at_participant x \<noteq> p \<or> (at_id x, a) \<notin> (parent_attempts (attempts_of s p))\<^sup>* \<longrightarrow> x \<in> set (rd_attempts s'))"
proof -
  note rows = ended_rows [OF assms(1,2), folded t]
  have closed: "\<not> (\<exists>y \<in> set (rd_attempts t). at_participant y = p \<and> at_id y = b \<and> attempt_active (now_of t) y)"
    using rows(2) b by (auto simp: attempt_active_def)
  have "\<not> is_valid_participation_hierarchy t ids p b content" if "b \<noteq> 0 \<or> 1 < length ids" for content
  proof (cases "1 < length ids")
    case True
    then show ?thesis using valid_hierarchy_attempt [OF _ rows(1) True] closed by blast
  next
    case False
    then have "ids = [] \<or> length ids = 1" by (cases ids) auto
    with that False show ?thesis by (auto simp: is_valid_participation_hierarchy_def)
  qed
  moreover have "started t (p, b, i)" if "start_result_path ids p t = Inr (t', c)" "started t' (p, b, i)" for t' c i
    using path_starts_active [OF that] closed by blast
  ultimately show ?thesis using rows(3) by (simp add: start_result_def create_attempt_def enter_def t)
qed

text \<open>The attempts of a state are still there in a later one, with the same item to which they belong; their times may have changed.\<close>

definition attempts_kept :: "results_db \<Rightarrow> results_db \<Rightarrow> bool" where
  "attempts_kept s s' =
     (\<forall>x \<in> set (rd_attempts s). \<exists>y \<in> set (rd_attempts s'). at_key y = at_key x \<and> at_root_item y = at_root_item x)"

lemma attempts_kept_refl: "attempts_kept s s"
  by (auto simp: attempts_kept_def)

lemma attempts_kept_trans: "attempts_kept s1 s2 \<Longrightarrow> attempts_kept s2 s3 \<Longrightarrow> attempts_kept s1 s3"
  unfolding attempts_kept_def by metis

lemma end_attempt_row_item: "at_root_item (end_attempt_row t x) = at_root_item x"
  by (simp add: end_attempt_row_def)

lemma end_attempt_keeps:
  assumes "tbl_unique at_key (rd_attempts s)" and "end_attempt depth p a s = Inr s'"
  shows "attempts_kept s s'"
  unfolding attempts_kept_def
proof
  fix x assume "x \<in> set (rd_attempts s)"
  with ended_rows(4) [OF assms] consider "x \<in> set (rd_attempts s')" | "end_attempt_row (now_of s) x \<in> set (rd_attempts s')" by blast
  then show "\<exists>y \<in> set (rd_attempts s'). at_key y = at_key x \<and> at_root_item y = at_root_item x"
    by cases (blast, metis end_attempt_row_key end_attempt_row_item)
qed

lemma enter_keeps: "enter ids p b user s = Inr s' \<Longrightarrow> attempts_kept s s'"
  using entry_ends_with_participation_aux [of ids p b user s s'] by (auto simp: attempts_kept_def)

lemma enter_conditions:
  assumes "enter ids p b user s = Inr s'" and "item_of s (last ids) = Some it" and "x \<in> set (participations s p (last ids))"
  shows "it_allows_multiple_attempts it \<and> at_allows_submissions_until x \<le> now_of s"
proof -
  let ?ps = "participations s p (last ids)"
  obtain state where "item_info_and_entry_state (last ids) p user s = Inr EntryReady"
    using enter_run [OF assms(1)] by metis
  then obtain members admitted team_can_enter violations frozen required where
    "compute_entry_state (?ps \<noteq> []) (\<exists>x \<in> set ?ps. now_of s < at_allows_submissions_until x) it members admitted violations
       frozen required team_can_enter = EntryReady"
    using assms(2) by (auto simp: item_info_and_entry_state_def Let_def bind_result_case split: if_splits option.splits sum.splits)
  with assms(3) show ?thesis
    by (auto simp: compute_entry_state_def is_ready_to_enter_def split: if_splits)
qed

text \<open>
  C29: Whoever entered an item enters it again only if the item allows multiple attempts and the attempt of the first entry no longer
  allows submissions: whatever happens in between, as long as that attempt is not removed (it may have been ended, or its
  times changed), and whatever the time, the hierarchy, the permissions and the team are at the second try.
\<close>

theorem entered_once:
  assumes "enter ids p b user s = Inr s'" and "attempts_kept s' s2" and "item_of s2 (last ids) = Some it2" and "last ids2 = last ids"
    and "enter ids2 p b2 user2 s2 = Inr s3"
  shows "it_allows_multiple_attempts it2 \<and>
    (\<exists>a a'. rd_attempts s' = rd_attempts s @ [a] \<and> a' \<in> set (rd_attempts s2) \<and> at_key a' = at_key a \<and>
       at_allows_submissions_until a' \<le> now_of s2)"
proof -
  from entry_ends_with_participation_aux [OF assms(1)] obtain a where a: "rd_attempts s' = rd_attempts s @ [a]" "at_participant a = p"
    "at_root_item a = Some (last ids)" by blast
  with assms(2) obtain a' where a': "a' \<in> set (rd_attempts s2)" "at_key a' = at_key a" "at_root_item a' = at_root_item a"
    by (auto simp: attempts_kept_def)
  then have "a' \<in> set (participations s2 p (last ids2))" using a assms(4) by (auto simp: participations_def at_key_def)
  from enter_conditions [OF assms(5) _ this] assms(3,4) a(1) a' show ?thesis by auto
qed

end
