(* ===== verification/Hints.thy ===== *)
theory Hints
  imports Attempts
begin

text \<open>
  Asking for a hint, app/api/items/ask_hint.go, from the verified tokens on: the check of the two tokens (items.go), the hints
  requested so far (\<open>GetHintsInfoForActiveAttempt\<close>, app/database/result_store.go), the new list and its count.  A hint is the
  bytes of its JSON value; \<open>marshal\<close> and \<open>unmarshal\<close> of lists of values are those of encoding/json.
\<close>

record token_fields =
  tf_user :: id
  tf_local_item :: string
  tf_item_url :: string
  tf_attempt :: string

datatype token_mismatch = WrongUser id id | WrongLocalItem | WrongItemURL | WrongAttempt

definition check_hint_or_score_token_required_fields :: "token_fields \<Rightarrow> token_fields \<Rightarrow> token_mismatch option" where
  "check_hint_or_score_token_required_fields task other =
     (if tf_user task \<noteq> tf_user other then Some (WrongUser (tf_user other) (tf_user task))
      else if tf_local_item task \<noteq> tf_local_item other then Some WrongLocalItem
      else if tf_item_url task \<noteq> tf_item_url other then Some WrongItemURL
      else if tf_attempt task \<noteq> tf_attempt other then Some WrongAttempt
      else None)"

datatype hint_error = EmptyHint | HintBadToken token_mismatch | HintForbidden submission_refusal | HintNotFound

text \<open>The result with its requested hints, if the attempt still allows submissions.\<close>

definition hints_info_for_active_attempt :: "result_key \<Rightarrow> results_db \<Rightarrow> result_row option" where
  "hints_info_for_active_attempt k s =
     (case k of (p, a, i) \<Rightarrow>
        (case attempt_of s p a of
           None \<Rightarrow> None
         | Some x \<Rightarrow> if now_of s < at_allows_submissions_until x then tbl_find rs_key k (rd_results s) else None))"

definition parse_hints :: "(string \<Rightarrow> string list option) \<Rightarrow> string option \<Rightarrow> string list" where
  "parse_hints unmarshal column =
     (case column of None \<Rightarrow> [] | Some text \<Rightarrow> (case unmarshal text of None \<Rightarrow> [] | Some hs \<Rightarrow> hs))"

definition add_hint_to_list_if_needed :: "string list \<Rightarrow> string \<Rightarrow> string list" where
  "add_hint_to_list_if_needed hs h = (if h \<in> set hs then hs else hs @ [h])"

definition set_hints :: "time \<Rightarrow> string \<Rightarrow> nat \<Rightarrow> result_row \<Rightarrow> result_row" where
  "set_hints now text n r =
     r\<lparr>rs_tasks_with_help := 1, rs_latest_activity_at := now, rs_latest_hint_at := Some now,
       rs_hints_requested := Some text, rs_hints_cached := n\<rparr>"

text \<open>The answer holds the new list and its length for the new task token.\<close>

definition ask_hint ::
  "(string list \<Rightarrow> string) \<Rightarrow> (string \<Rightarrow> string list option) \<Rightarrow> token_fields \<Rightarrow> token_fields \<Rightarrow> result_key \<Rightarrow> string \<Rightarrow>
   results_db \<Rightarrow> hint_error + (results_db \<times> string \<times> nat)" where
  "ask_hint marshal unmarshal task_fields hint_fields k hint s =
     (case k of (p, a, i) \<Rightarrow>
        if hint = [] \<or> hint = ''null'' then Inl EmptyHint
        else case check_hint_or_score_token_required_fields task_fields hint_fields of
               Some e \<Rightarrow> Inl (HintBadToken e)
             | None \<Rightarrow>
                 (case check_submission_rights s p i of
                    Some reason \<Rightarrow> Inl (HintForbidden reason)
                  | None \<Rightarrow>
                      (case hints_info_for_active_attempt k s of
                         None \<Rightarrow> Inl HintNotFound
                       | Some r \<Rightarrow>
                           let hs = add_hint_to_list_if_needed (parse_hints unmarshal (rs_hints_requested r)) hint;
                               upd = set_hints (now_of s) (marshal hs) (length hs);
                               s1 = s\<lparr>rd_results := map (\<lambda>x. if rs_key x = k then upd x else x) (rd_results s)\<rparr>
                           in Inr (schedule_results (mark_as_to_be_propagated k s1), marshal hs, length hs))))"

interpretation hinted: keyed_update rs_key "set_hints t x n"
  by unfold_locales (simp add: set_hints_def rs_key_def)

text \<open>
  An accepted request puts its hint on the list of the result, once: the list keeps the earlier hints in their order, stays free of
  repetitions, the stored count is its length, and asking for the same hint again changes neither.  Only the
  one result is touched, and it waits for its propagation.
\<close>

lemma hint_counted_once:
  assumes "ask_hint marshal unmarshal task hint_token k h s = Inr (s', text, n)"
    and roundtrip: "\<And>r. tbl_find rs_key k (rd_results s) = Some r \<Longrightarrow>
      unmarshal (marshal (add_hint_to_list_if_needed (parse_hints unmarshal (rs_hints_requested r)) h)) =
        Some (add_hint_to_list_if_needed (parse_hints unmarshal (rs_hints_requested r)) h)"
  shows "\<exists>r r'. tbl_find rs_key k (rd_results s) = Some r \<and> tbl_find rs_key k (rd_results s') = Some r' \<and>
    (let old = parse_hints unmarshal (rs_hints_requested r); hs = parse_hints unmarshal (rs_hints_requested r') in
       hs = (if h \<in> set old then old else old @ [h]) \<and> (distinct old \<longrightarrow> distinct hs) \<and> rs_hints_cached r' = length hs \<and> n = length hs \<and>
       (\<forall>s'' text' m. ask_hint marshal unmarshal task hint_token k h s' = Inr (s'', text', m) \<longrightarrow> text' = text \<and> m = n)) \<and>
    filter (\<lambda>x. rs_key x \<noteq> k) (rd_results s') = filter (\<lambda>x. rs_key x \<noteq> k) (rd_results s) \<and>
    map_of (rd_propagate s') k \<noteq> None"
proof -
  obtain p a i where k: "k = (p, a, i)" by (cases k)
  from assms(1) obtain r where info: "hints_info_for_active_attempt k s = Some r"
    by (auto simp: ask_hint_def k split: if_splits option.splits)
  then have r: "tbl_find rs_key k (rd_results s) = Some r"
    by (auto simp: hints_info_for_active_attempt_def k split: option.splits if_splits)
  define old where "old = parse_hints unmarshal (rs_hints_requested r)"
  define hs where "hs = add_hint_to_list_if_needed old h"
  define upd where "upd = set_hints (now_of s) (marshal hs) (length hs)"
  have s': "s' = schedule_results (mark_as_to_be_propagated k (s\<lparr>rd_results := map (\<lambda>x. if rs_key x = k then upd x else x) (rd_results s)\<rparr>))"
    and out: "text = marshal hs" "n = length hs"
    using assms(1) info unfolding upd_def hs_def old_def
    by (auto simp: ask_hint_def k Let_def split: if_splits option.splits)
  have rows: "rd_results s' = map (\<lambda>x. if rs_key x = k then upd x else x) (rd_results s)"
    by (simp add: s' schedule_results_def mark_as_to_be_propagated_def)
  have r': "tbl_find rs_key k (rd_results s') = Some (upd r)"
    unfolding rows upd_def hinted.find_map_upd using r by simp
  have parsed: "parse_hints unmarshal (rs_hints_requested (upd r)) = hs"
    using roundtrip [OF r] by (simp add: upd_def set_hints_def parse_hints_def hs_def old_def)
  have again: "text' = text \<and> m = n" if "ask_hint marshal unmarshal task hint_token k h s' = Inr (s'', text', m)" for s'' text' m
  proof -
    from that obtain x where "hints_info_for_active_attempt k s' = Some x"
      "text' = marshal (add_hint_to_list_if_needed (parse_hints unmarshal (rs_hints_requested x)) h)"
      "m = length (add_hint_to_list_if_needed (parse_hints unmarshal (rs_hints_requested x)) h)"
      by (auto simp: ask_hint_def k Let_def split: if_splits option.splits)
    moreover from this(1) r' have "x = upd r"
      by (auto simp: hints_info_for_active_attempt_def k split: option.splits if_splits)
    ultimately show ?thesis
      using parsed out by (auto simp: add_hint_to_list_if_needed_def hs_def)
  qed
  have frame: "filter (\<lambda>x. rs_key x \<noteq> k) (rd_results s') = filter (\<lambda>x. rs_key x \<noteq> k) (rd_results s)"
    unfolding rows upd_def by (rule hinted.filter_other_key)
  have "map_of (rd_propagate s') k \<noteq> None"
    by (simp add: s' schedule_results_def mark_as_to_be_propagated_def insert_mark_def map_add_def)
  then show ?thesis
    using r r' again frame parsed out
    by (intro exI [of _ r] exI [of _ "upd r"]) (auto simp: Let_def old_def [symmetric] hs_def add_hint_to_list_if_needed_def upd_def set_hints_def)
qed

end
