(* ===== verification/ParticipationExamples.thy ===== *)
theory ParticipationExamples
  imports EntryRules Hints ResultsExamples ThreadExamples
begin

text \<open>
  A user (10) in a class (20) whose root activity is a chapter (1) with a chapter (2), a task (3) and a contest (4): walking, starting,
  entering and ending there, and a hint for the task.  The theorems on participations are applied to these runs.
\<close>

section \<open>The database\<close>

definition ex_content :: "id \<Rightarrow> generated_row" where
  "ex_content i = (ex_seen 20)\<lparr>pgen_item := i\<rparr>"

definition ex_course_db :: db where
  "ex_course_db = ex_empty_db\<lparr>
     db_groups := [ex_group 10 User, (ex_group 20 Class)\<lparr>g_root_activity_id := Some 1\<rparr>, ex_group 30 Class],
     db_groups_ancestors := \<lparr>ga_ancestor = 20, ga_child = 10, ga_expires_at = max_time\<rparr> # map self_row [10, 20, 30],
     db_groups_groups := [participation_relation 20 10 max_time],
     db_permissions_generated := map ex_content [1, 2, 3, 4],
     db_permissions_granted := [(ex_grant 20 4 False None)\<lparr>pg_can_enter_from := 0, pg_can_enter_until := max_time\<rparr>],
     db_items_items := [ex_edge 1 2, ex_edge 2 3, ex_edge 2 4]\<rparr>"

definition ex_started :: "id \<Rightarrow> time \<Rightarrow> result_row" where
  "ex_started i t = (ex_result i 0 t 0)\<lparr>rs_started_at := Some t\<rparr>"

definition ex_course :: results_db where
  "ex_course = ex_results\<lparr>rd_db := ex_course_db,
     rd_items := [ex_item 1, (ex_item 2)\<lparr>it_allows_multiple_attempts := True\<rparr>, (ex_item 3)\<lparr>it_type := Task\<rparr>,
       (ex_item 4)\<lparr>it_requires_explicit_entry := True, it_allows_multiple_attempts := True, it_duration := Some 60,
         it_participants_group := Some 30, it_entry_min_admitted_members_ratio := AdmittedAll\<rparr>],
     rd_results := [ex_started 1 40, ex_started 2 50], rd_propagate := []\<rparr>"

definition course_after :: "'e + results_db \<Rightarrow> results_db" where
  "course_after r = (case r of Inl _ \<Rightarrow> ex_results | Inr s \<Rightarrow> s)"

definition course_and :: "'e + (results_db \<times> 'a) \<Rightarrow> results_db" where
  "course_and r = (case r of Inl _ \<Rightarrow> ex_results | Inr (s, _) \<Rightarrow> s)"

definition ex_path :: results_db where "ex_path = course_and (start_result_path [1, 2, 3] 10 ex_course)"
definition ex_attempt :: results_db where "ex_attempt = course_and (create_attempt [1, 2] 10 0 10 ex_course)"
definition ex_ended :: results_db where "ex_ended = course_after (end_attempt 5 10 1 ex_attempt)"
definition ex_entered :: results_db where "ex_entered = course_after (enter [1, 2, 4] 10 0 10 ex_course)"

text \<open>The participation in the contest ended early.\<close>

definition ex_later :: results_db where "ex_later = course_after (end_attempt 5 10 1 ex_entered)"

fun ex_marshal :: "string list \<Rightarrow> string" where
  "ex_marshal [] = []"
| "ex_marshal (h # hs) = h @ CHR '';'' # ex_marshal hs"

fun ex_unmarshal :: "string \<Rightarrow> string list" where
  "ex_unmarshal [] = []"
| "ex_unmarshal (c # cs) =
     (if c = CHR '';'' then [] # ex_unmarshal cs
      else case ex_unmarshal cs of [] \<Rightarrow> [[c]] | h # hs \<Rightarrow> (c # h) # hs)"

definition ex_token_fields :: token_fields where
  "ex_token_fields = \<lparr>tf_user = 10, tf_local_item = ''3'', tf_item_url = ''u'', tf_attempt = ''10/0''\<rparr>"

definition ex_ask :: "string \<Rightarrow> results_db \<Rightarrow> hint_error + (results_db \<times> string \<times> nat)" where
  "ex_ask h = ask_hint ex_marshal (Some \<circ> ex_unmarshal) ex_token_fields ex_token_fields (10, 0, 3) h"

section \<open>Facts of the runs\<close>

lemma ex_course_unique:
  "tbl_unique at_key (rd_attempts ex_course)" "tbl_unique rs_key (rd_results ex_course)" "now_of ex_course < max_time"
  by code_simp+

lemma ex_path_run: "start_result_path [1, 2, 3] 10 ex_course = Inr (ex_path, 0)"
  by code_simp

lemma ex_attempt_run: "create_attempt [1, 2] 10 0 10 ex_course = Inr (ex_attempt, 1)"
  by code_simp

lemma ex_ended_run: "end_attempt 5 10 1 ex_attempt = Inr ex_ended"
  by code_simp

lemma ex_entered_run: "enter [1, 2, 4] 10 0 10 ex_course = Inr ex_entered"
  by code_simp

lemma ex_later_end: "end_attempt 5 10 1 ex_entered = Inr ex_later" "tbl_unique at_key (rd_attempts ex_entered)"
  by code_simp+

lemma ex_later_run: "enter [1, 2, 4] 10 0 10 ex_later = Inr (course_after (enter [1, 2, 4] 10 0 10 ex_later))"
  by code_simp

lemma ex_ask_run: "ex_ask ''a'' ex_path = Inr (course_and (ex_ask ''a'' ex_path), ''a;'', 1)"
  by code_simp

section \<open>The theorems applied\<close>

lemma hierarchy_valid_iff_witness:
  "is_valid_participation_hierarchy ex_course [1, 2, 3] 10 0 True \<and> \<not> is_valid_participation_hierarchy ex_course [1, 2, 3] 10 1 True \<and>
   \<not> is_valid_participation_hierarchy ex_course [2, 3] 10 0 True"
proof -
  have "hierarchy_path ex_course 10 True [1, 2, 3]" "walk_up ex_course 10 True 0 (rev (butlast [1, 2, 3])) \<noteq> None"
    "walk_up ex_course 10 True 1 (rev (butlast [1, 2, 3])) = None" "\<not> hierarchy_path ex_course 10 True [2, 3]"
    by code_simp+
  then show ?thesis unfolding hierarchy_valid_iff [OF ex_course_unique(1)] by simp
qed

lemma breadcrumbs_unique_witness:
  "breadcrumbs_hierarchy_for_attempt ex_course [1, 2] 10 0 = Some ([(1, 0), (2, 0)], [(2, 1)])"
proof -
  have "[1, 2] \<noteq> ([] :: id list)" by simp
  moreover have "(if hierarchy_path ex_course 10 False [1, 2]
      then map_option (results_for_breadcrumbs ex_course [1, 2]) (walk_up ex_course 10 False 0 (rev [1, 2])) else None) =
    Some ([(1, 0), (2, 0)], [(2, 1)])" by code_simp
  ultimately show ?thesis using breadcrumbs_unique [OF ex_course_unique(1)] by simp
qed

lemma path_started_witness: "breadcrumbs_hierarchy_for_attempt ex_path [1, 2, 3] 10 0 \<noteq> None"
  using path_started [OF ex_course_unique(1,2) ex_path_run] by auto


lemma ended_attempts_closed_witness:
  "is_valid_participation_hierarchy ex_attempt [1, 2, 3] 10 1 True \<and> \<not> is_valid_participation_hierarchy ex_ended [1, 2, 3] 10 1 True \<and>
   start_result [1, 2, 3] 10 1 ex_ended = Inl ParticipationForbidden \<and> enter [1, 2, 4] 10 1 10 ex_ended = Inl ParticipationForbidden"
proof
  show "is_valid_participation_hierarchy ex_attempt [1, 2, 3] 10 1 True" by code_simp
  have unique: "tbl_unique at_key (rd_attempts ex_attempt)" by code_simp
  have "1 < length [1, 2, 3 :: id]" by simp
  then show "\<not> is_valid_participation_hierarchy ex_ended [1, 2, 3] 10 1 True \<and>
      start_result [1, 2, 3] 10 1 ex_ended = Inl ParticipationForbidden \<and> enter [1, 2, 4] 10 1 10 ex_ended = Inl ParticipationForbidden"
    using ended_attempts_closed [OF unique ex_ended_run refl rtrancl_refl, of "[1, 2, 3]"]
      ended_attempts_closed [OF unique ex_ended_run refl rtrancl_refl, of "[1, 2, 4]" True 10] by auto
qed

lemma entry_ends_with_participation_witness:
  "\<exists>r. tbl_find gg_key (30, 10) (db_groups_groups (rd_db ex_entered)) = Some r \<and> gg_expires_at r = 160"
proof -
  have "item_of ex_course (last [1, 2, 4]) = Some (rd_items ex_course ! 3)"
    "it_participants_group (rd_items ex_course ! 3) = Some 30" "total_additional_time ex_course 10 (last [1, 2, 4]) = Inr 0"
    "submissions_until (now_of ex_course) (it_duration (rd_items ex_course ! 3)) 0 = 160"
    by code_simp+
  with entry_ends_with_participation [OF ex_entered_run] show ?thesis by fastforce
qed

lemma entered_once_witness:
  "it_allows_multiple_attempts (rd_items ex_course ! 3) \<and> (\<exists>a \<in> set (rd_attempts ex_later). at_key a = (10, 1) \<and> at_allows_submissions_until a \<le> 100)"
proof -
  have "item_of ex_later (last [1, 2, 4]) = Some (rd_items ex_course ! 3)" "map at_key (rd_attempts ex_entered) = map at_key (rd_attempts ex_course) @ [(10, 1)]"
    "now_of ex_later = 100"
    by code_simp+
  then show ?thesis
    using entered_once [OF ex_entered_run end_attempt_keeps [OF ex_later_end(2,1)] _ refl ex_later_run] by auto
qed

lemma hint_counted_once_witness:
  "\<exists>r. tbl_find rs_key (10, 0, 3) (rd_results (course_and (ex_ask ''a'' ex_path))) = Some r \<and> rs_hints_cached r = 1"
proof -
  have run: "ask_hint ex_marshal (Some \<circ> ex_unmarshal) ex_token_fields ex_token_fields (10, 0, 3) ''a'' ex_path =
      Inr (course_and (ex_ask ''a'' ex_path), ''a;'', 1)"
    using ex_ask_run by (simp only: ex_ask_def)
  have found: "tbl_find rs_key (10, 0, 3) (rd_results ex_path) = Some (started_row 100 (new_result (10, 0, 3)))" by code_simp
  have "(Some \<circ> ex_unmarshal) (ex_marshal (add_hint_to_list_if_needed (parse_hints (Some \<circ> ex_unmarshal) (rs_hints_requested r)) ''a'')) =
      Some (add_hint_to_list_if_needed (parse_hints (Some \<circ> ex_unmarshal) (rs_hints_requested r)) ''a'')"
    if "tbl_find rs_key (10, 0, 3) (rd_results ex_path) = Some r" for r
    using that unfolding found by (auto simp: started_row_def new_result_def parse_hints_def add_hint_to_list_if_needed_def)
  from hint_counted_once [OF run this] show ?thesis by (auto simp: Let_def)
qed

end
