(* ===== verification/ItemRelations.thy ===== *)
theory ItemRelations
  imports Results Ancestors
begin

text \<open>
  The relations of items: the validation of a list of children and the insertion of the relations (app/api/items/items.go), the names and
  numbers of the propagation levels (app/database/item_item_store.go), and the statements on \<open>items_items\<close> with the triggers
  of the table, which mark items, permissions and results for recomputation.
\<close>

section \<open>Levels\<close>

text \<open>The number of a level that exists; \<open>levels_exist\<close> shows that no lookup below panics.\<close>

definition the_level :: "db_error + nat \<Rightarrow> nat" where
  "the_level r = (case r of Inr i \<Rightarrow> i | Inl _ \<Rightarrow> 0)"

definition content_view_propagation_name :: "content_view_propagation \<Rightarrow> string" where
  "content_view_propagation_name p = (case p of ViewNone \<Rightarrow> ''none'' | AsInfo \<Rightarrow> ''as_info'' | AsContent \<Rightarrow> ''as_content'')"

definition upper_view_levels_propagation_name :: "upper_view_levels_propagation \<Rightarrow> string" where
  "upper_view_levels_propagation_name p =
     (case p of UseContentViewPropagation \<Rightarrow> ''use_content_view_propagation''
      | AsContentWithDescendants \<Rightarrow> ''as_content_with_descendants'' | AsIs \<Rightarrow> ''as_is'')"

definition content_view_propagation_index_by_name :: "string \<Rightarrow> db_error + nat" where
  "content_view_propagation_index_by_name = require_db_enum_index_by_name ''items_items.content_view_propagation''"

definition upper_view_levels_propagation_index_by_name :: "string \<Rightarrow> db_error + nat" where
  "upper_view_levels_propagation_index_by_name = require_db_enum_index_by_name ''items_items.upper_view_levels_propagation''"

definition content_view_number :: "content_view_propagation \<Rightarrow> nat" where
  "content_view_number p = the_level (content_view_propagation_index_by_name (content_view_propagation_name p))"

definition upper_view_number :: "upper_view_levels_propagation \<Rightarrow> nat" where
  "upper_view_number p = the_level (upper_view_levels_propagation_index_by_name (upper_view_levels_propagation_name p))"

lemma levels_exist [simp]:
  "content_view_number ViewNone = 1" "content_view_number AsInfo = 2" "content_view_number AsContent = 3"
  "upper_view_number UseContentViewPropagation = 1" "upper_view_number AsContentWithDescendants = 2" "upper_view_number AsIs = 3"
  by code_simp+

lemma the_level_simps [simp]: "the_level (Inr i) = i" "the_level (Inl e) = 0"
  by (simp_all add: the_level_def)

text \<open>'can_grant_view' is no kind of permission: the column name is unknown, and an unknown column reads as the first one, can_view.\<close>

lemma request_help_level [simp]: "permission_index ''can_grant_view'' ''content'' = Inr 3"
  by code_simp

section \<open>Permissions on the children\<close>

record item_permission =
  ip_can_view :: nat
  ip_can_grant_view :: nat
  ip_can_watch :: nat
  ip_can_edit :: nat

record permission_and_type =
  pt_permission :: item_permission
  pt_type :: "item_type option"

text \<open>\<open>AggregatedPermissionsForItems\<close> for one item, and the items with at least a view level.\<close>

definition aggregated_permissions :: "db \<Rightarrow> id \<Rightarrow> id \<Rightarrow> item_permission option" where
  "aggregated_permissions d user i =
     (let rows = filter (\<lambda>p. pgen_item p = i) (matching_group_ancestors d user)
      in if rows = [] then None
         else Some \<lparr>ip_can_view = max_or 0 (map pgen_can_view rows), ip_can_grant_view = max_or 0 (map pgen_can_grant_view rows),
                ip_can_watch = max_or 0 (map pgen_can_watch rows), ip_can_edit = max_or 0 (map pgen_can_edit rows)\<rparr>)"

definition item_with_permissions :: "results_db \<Rightarrow> id \<Rightarrow> nat \<Rightarrow> id \<Rightarrow> permission_and_type option" where
  "item_with_permissions s user level i =
     (case (item_of s i, aggregated_permissions (rd_db s) user i) of
        (Some it, Some p) \<Rightarrow> if level \<le> ip_can_view p then Some \<lparr>pt_permission = p, pt_type = Some (it_type it)\<rparr> else None
      | _ \<Rightarrow> None)"

definition generate_children_info_map :: "results_db \<Rightarrow> id \<Rightarrow> id list \<Rightarrow> (id, permission_and_type) gomap" where
  "generate_children_info_map s user ids =
     [(i, p). i \<leftarrow> ids, Some p \<leftarrow> [item_with_permissions s user (the_level (view_index ''info'')) i]]"

definition generate_old_propagation_levels_map :: "db \<Rightarrow> id \<Rightarrow> (id, items_items_row) gomap" where
  "generate_old_propagation_levels_map d i = [(ii_child e, e). e \<leftarrow> db_items_items d, ii_parent e = i]"

text \<open>A child that is not visible but is a child already counts with no permissions and no type.\<close>

definition stub_info :: permission_and_type where
  "stub_info = \<lparr>pt_permission = \<lparr>ip_can_view = 1, ip_can_grant_view = 1, ip_can_watch = 1, ip_can_edit = 1\<rparr>, pt_type = None\<rparr>"

text \<open>The validator of the list; None stands for an invalid one.  \<open>old\<close> is there for an update only.\<close>

definition check_children ::
  "results_db \<Rightarrow> id \<Rightarrow> (id, items_items_row) gomap option \<Rightarrow> id list \<Rightarrow> (id, permission_and_type) gomap option" where
  "check_children s user old ids =
     (if ids = [] then Some []
      else if \<not> distinct ids then None
      else
        let info = generate_children_info_map s user ids;
            missing = filter (\<lambda>i. map_of info i = None) ids
        in if list_all (\<lambda>i. case old of None \<Rightarrow> False | Some m \<Rightarrow> map_of m i \<noteq> None) missing
           then Some (info @ map (\<lambda>i. (i, stub_info)) missing) else None)"

definition children_allowed :: "item_type \<Rightarrow> (id, permission_and_type) gomap \<Rightarrow> bool" where
  "children_allowed t info = (info = [] \<or> t \<noteq> Task)"

definition child_type_non_skill :: "item_type \<Rightarrow> (id, permission_and_type) gomap \<Rightarrow> id \<Rightarrow> bool" where
  "child_type_non_skill t info i =
     (t = Skill \<or> (case map_of info i of None \<Rightarrow> True | Some p \<Rightarrow> pt_type p \<noteq> Some Skill))"

section \<open>Validation of the propagation levels\<close>

text \<open>A child in a request, None standing for a field that is not set; and the same with all fields.\<close>

record item_child =
  ic_item :: id
  ic_order :: int
  ic_category :: "item_category option"
  ic_score_weight :: "int option"
  ic_content_view_propagation :: "content_view_propagation option"
  ic_upper_view_levels_propagation :: "upper_view_levels_propagation option"
  ic_grant_view_propagation :: "bool option"
  ic_watch_propagation :: "bool option"
  ic_edit_propagation :: "bool option"
  ic_request_help_propagation :: "bool option"

record insert_spec =
  is_parent :: id
  is_child :: id
  is_order :: int
  is_category :: item_category
  is_score_weight :: int
  is_content_view_propagation :: content_view_propagation
  is_upper_view_levels_propagation :: upper_view_levels_propagation
  is_grant_view_propagation :: bool
  is_watch_propagation :: bool
  is_edit_propagation :: bool
  is_request_help_propagation :: bool

datatype item_service_error =
    InvalidItemRequest
  | ItemAccessDenied
  | ItemCycle
  | NotEnoughPermissionsFor string
  | TextIdNotUnique
  | ItemHasChildren
  | ItemServiceFailed db_error

definition lift_item :: "db_error + 'a \<Rightarrow> item_service_error + 'a" where
  "lift_item r = (case r of Inl e \<Rightarrow> Inl (ItemServiceFailed e) | Inr x \<Rightarrow> Inr x)"

definition apply_category_default_value :: "items_items_row option \<Rightarrow> item_category option \<Rightarrow> item_category" where
  "apply_category_default_value old c =
     (case c of Some x \<Rightarrow> x | None \<Rightarrow> (case old of Some e \<Rightarrow> ii_category e | None \<Rightarrow> Undefined))"

definition apply_score_weight_default_value :: "items_items_row option \<Rightarrow> int option \<Rightarrow> int" where
  "apply_score_weight_default_value old w =
     (case w of Some x \<Rightarrow> x | None \<Rightarrow> (case old of Some e \<Rightarrow> int (ii_score_weight e) | None \<Rightarrow> 1))"

definition validate_boolean_propagation :: "string \<Rightarrow> bool option \<Rightarrow> bool option \<Rightarrow> nat \<Rightarrow> nat \<Rightarrow> item_service_error + bool" where
  "validate_boolean_propagation field given old permission required =
     (case given of
        Some v \<Rightarrow>
          if (case old of None \<Rightarrow> False | Some o' \<Rightarrow> \<not> v \<or> o') then Inr v
          else if v \<and> permission < required then Inl (NotEnoughPermissionsFor field)
          else Inr v
      | None \<Rightarrow> (case old of Some o' \<Rightarrow> Inr o' | None \<Rightarrow> Inr (required \<le> permission)))"

definition validate_edit_propagation :: "item_permission \<Rightarrow> items_items_row option \<Rightarrow> item_child \<Rightarrow> item_service_error + bool" where
  "validate_edit_propagation p old c =
     validate_boolean_propagation ''edit_propagation'' (ic_edit_propagation c) (map_option ii_edit_propagation old)
       (ip_can_edit p) (the_level (permission_index ''edit'' ''all_with_grant''))"

definition validate_request_help_propagation :: "item_permission \<Rightarrow> items_items_row option \<Rightarrow> item_child \<Rightarrow> item_service_error + bool" where
  "validate_request_help_propagation p old c =
     validate_boolean_propagation ''request_help_propagation'' (ic_request_help_propagation c)
       (map_option ii_request_help_propagation old) (ip_can_grant_view p) (the_level (permission_index ''can_grant_view'' ''content''))"

definition validate_watch_propagation :: "item_permission \<Rightarrow> items_items_row option \<Rightarrow> item_child \<Rightarrow> item_service_error + bool" where
  "validate_watch_propagation p old c =
     validate_boolean_propagation ''watch_propagation'' (ic_watch_propagation c) (map_option ii_watch_propagation old)
       (ip_can_watch p) (the_level (permission_index ''watch'' ''answer_with_grant''))"

definition validate_grant_view_propagation :: "item_permission \<Rightarrow> items_items_row option \<Rightarrow> item_child \<Rightarrow> item_service_error + bool" where
  "validate_grant_view_propagation p old c =
     validate_boolean_propagation ''grant_view_propagation'' (ic_grant_view_propagation c) (map_option ii_grant_view_propagation old)
       (ip_can_grant_view p) (the_level (permission_index ''grant_view'' ''solution_with_grant''))"

definition default_upper_view_levels_propagation :: "nat \<Rightarrow> upper_view_levels_propagation" where
  "default_upper_view_levels_propagation grant_view =
     (if the_level (permission_index ''grant_view'' ''solution'') \<le> grant_view then AsIs
      else if the_level (permission_index ''grant_view'' ''content_with_descendants'') \<le> grant_view then AsContentWithDescendants
      else UseContentViewPropagation)"

definition validate_upper_view_levels_propagation ::
  "item_permission \<Rightarrow> items_items_row option \<Rightarrow> item_child \<Rightarrow> item_service_error + upper_view_levels_propagation" where
  "validate_upper_view_levels_propagation p old c =
     (case ic_upper_view_levels_propagation c of
        Some v \<Rightarrow>
          if (case old of None \<Rightarrow> False | Some e \<Rightarrow> upper_view_number v \<le> upper_view_number (ii_upper_view_levels_propagation e)) then Inr v
          else if (case v of
                     AsContentWithDescendants \<Rightarrow> ip_can_grant_view p < the_level (permission_index ''grant_view'' ''content_with_descendants'')
                   | AsIs \<Rightarrow> ip_can_grant_view p < the_level (permission_index ''grant_view'' ''solution'')
                   | UseContentViewPropagation \<Rightarrow> False)
          then Inl (NotEnoughPermissionsFor ''upper_view_levels_propagation'')
          else Inr v
      | None \<Rightarrow>
          (case old of
             Some e \<Rightarrow> Inr (ii_upper_view_levels_propagation e)
           | None \<Rightarrow> Inr (default_upper_view_levels_propagation (ip_can_grant_view p))))"

definition default_content_view_propagation :: "nat \<Rightarrow> content_view_propagation" where
  "default_content_view_propagation grant_view =
     (if the_level (permission_index ''grant_view'' ''none'') < grant_view then AsInfo else ViewNone)"

definition validate_content_view_propagation ::
  "item_permission \<Rightarrow> items_items_row option \<Rightarrow> item_child \<Rightarrow> item_service_error + content_view_propagation" where
  "validate_content_view_propagation p old c =
     (case ic_content_view_propagation c of
        Some v \<Rightarrow>
          if (case old of None \<Rightarrow> False | Some e \<Rightarrow> content_view_number v \<le> content_view_number (ii_content_view_propagation e)) then Inr v
          else if (case v of
                     AsInfo \<Rightarrow> ip_can_grant_view p = the_level (permission_index ''grant_view'' ''none'')
                   | AsContent \<Rightarrow> ip_can_grant_view p < the_level (permission_index ''grant_view'' ''content'')
                   | ViewNone \<Rightarrow> False)
          then Inl (NotEnoughPermissionsFor ''content_view_propagation'')
          else Inr v
      | None \<Rightarrow>
          (case old of
             Some e \<Rightarrow> Inr (ii_content_view_propagation e)
           | None \<Rightarrow> Inr (default_content_view_propagation (ip_can_grant_view p))))"

definition validate_child :: "id \<Rightarrow> item_permission \<Rightarrow> items_items_row option \<Rightarrow> item_child \<Rightarrow> item_service_error + insert_spec" where
  "validate_child parent p old c =
     bind_result (validate_content_view_propagation p old c) (\<lambda>content.
     bind_result (validate_upper_view_levels_propagation p old c) (\<lambda>upper.
     bind_result (validate_grant_view_propagation p old c) (\<lambda>grant.
     bind_result (validate_watch_propagation p old c) (\<lambda>watch.
     bind_result (validate_edit_propagation p old c) (\<lambda>edit.
     bind_result (validate_request_help_propagation p old c) (\<lambda>request_help.
       Inr \<lparr>is_parent = parent, is_child = ic_item c, is_order = ic_order c,
            is_category = apply_category_default_value old (ic_category c),
            is_score_weight = apply_score_weight_default_value old (ic_score_weight c), is_content_view_propagation = content,
            is_upper_view_levels_propagation = upper, is_grant_view_propagation = grant, is_watch_propagation = watch,
            is_edit_propagation = edit, is_request_help_propagation = request_help\<rparr>))))))"

text \<open>The children in their order, up to the first refusal; the specifications of their relations to \<open>parent\<close>.\<close>

fun validate_children ::
  "id \<Rightarrow> (id, permission_and_type) gomap \<Rightarrow> (id, items_items_row) gomap \<Rightarrow> item_child list \<Rightarrow> item_service_error + insert_spec list" where
  "validate_children parent info old [] = Inr []"
| "validate_children parent info old (c # cs) =
     (case map_of info (ic_item c) of
        None \<Rightarrow> Inl (ItemServiceFailed (GoPanic ''nil permission''))
      | Some p \<Rightarrow>
          bind_result (validate_child parent (pt_permission p) (map_of old (ic_item c)) c) (\<lambda>spec.
          bind_result (validate_children parent info old cs) (\<lambda>specs. Inr (spec # specs))))"

section \<open>Writing relations\<close>

text \<open>The marks the triggers leave.\<close>

definition mark_item_todo :: "id \<Rightarrow> db \<Rightarrow> db" where
  "mark_item_todo i d = d\<lparr>db_items_propagate := AList.update i Todo (db_items_propagate d)\<rparr>"

definition insert_ignore :: "'k \<Rightarrow> 'v \<Rightarrow> ('k, 'v) gomap \<Rightarrow> ('k, 'v) gomap" where
  "insert_ignore k v m = (if map_of m k = None then m @ [(k, v)] else m)"

definition mark_children_permissions :: "id \<Rightarrow> db \<Rightarrow> db" where
  "mark_children_permissions i d =
     d\<lparr>db_permissions_propagate :=
        fold (\<lambda>k. insert_ignore k Children) [pgen_key p. p \<leftarrow> db_permissions_generated d, pgen_item p = i] (db_permissions_propagate d)\<rparr>"

definition results_of_item :: "results_db \<Rightarrow> id \<Rightarrow> result_key list" where
  "results_of_item s i = [rs_key r. r \<leftarrow> rd_results s, rs_item r = i]"

definition mark_results_propagated :: "id \<Rightarrow> results_db \<Rightarrow> results_db" where
  "mark_results_propagated i s = s\<lparr>rd_propagate := fold insert_mark (results_of_item s i) (rd_propagate s)\<rparr>"

definition mark_results_recomputed :: "id \<Rightarrow> results_db \<Rightarrow> results_db" where
  "mark_results_recomputed i s = s\<lparr>rd_propagate := fold (\<lambda>k. AList.update k ToBeRecomputed) (results_of_item s i) (rd_propagate s)\<rparr>"

definition after_insert_items_items :: "items_items_row \<Rightarrow> results_db \<Rightarrow> results_db" where
  "after_insert_items_items e s =
     mark_results_recomputed (ii_parent e) (mark_results_propagated (ii_child e)
       (s\<lparr>rd_db := mark_children_permissions (ii_parent e) (rd_db s)\<rparr>))"

definition permission_columns ::
  "items_items_row \<Rightarrow> content_view_propagation \<times> upper_view_levels_propagation \<times> bool \<times> bool \<times> bool" where
  "permission_columns e =
     (ii_content_view_propagation e, ii_upper_view_levels_propagation e, ii_grant_view_propagation e, ii_watch_propagation e,
      ii_edit_propagation e)"

definition after_update_items_items :: "items_items_row \<Rightarrow> items_items_row \<Rightarrow> results_db \<Rightarrow> results_db" where
  "after_update_items_items old new s =
     (let s1 = (if permission_columns old \<noteq> permission_columns new
                then s\<lparr>rd_db := mark_children_permissions (ii_parent new) (rd_db s)\<rparr> else s)
      in if ii_category old \<noteq> ii_category new \<or> ii_score_weight old \<noteq> ii_score_weight new
         then mark_results_recomputed (ii_parent new) s1 else s1)"

definition before_delete_items_items :: "items_items_row \<Rightarrow> results_db \<Rightarrow> results_db" where
  "before_delete_items_items e s =
     s\<lparr>rd_db := mark_children_permissions (ii_parent e) (mark_item_todo (ii_child e) (rd_db s)),
       rd_recompute_for_items := insert_ignore (ii_parent e) False (rd_recompute_for_items s)\<rparr>"

definition relation_of_spec :: "insert_spec \<Rightarrow> items_items_row" where
  "relation_of_spec c =
     \<lparr>ii_parent = is_parent c, ii_child = is_child c, ii_child_order = is_order c, ii_category = is_category c,
      ii_content_view_propagation = is_content_view_propagation c, ii_upper_view_levels_propagation = is_upper_view_levels_propagation c,
      ii_grant_view_propagation = is_grant_view_propagation c, ii_watch_propagation = is_watch_propagation c,
      ii_edit_propagation = is_edit_propagation c, ii_request_help_propagation = is_request_help_propagation c,
      ii_score_weight = nat (is_score_weight c)\<rparr>"

definition set_relation_columns :: "items_items_row \<Rightarrow> items_items_row \<Rightarrow> items_items_row" where
  "set_relation_columns e x = e\<lparr>ii_parent := ii_parent x, ii_child := ii_child x\<rparr>"

interpretation relation: keyed_update ii_key "set_relation_columns e"
  by unfold_locales (simp add: ii_key_def set_relation_columns_def)

text \<open>
  One row of the INSERT ... ON DUPLICATE KEY UPDATE of all columns.  The BEFORE INSERT trigger runs in both cases; \<open>score_weight\<close> is an
  unsigned column.
\<close>

definition upsert_items_items :: "insert_spec \<Rightarrow> results_db \<Rightarrow> db_error + results_db" where
  "upsert_items_items c s =
     (if is_score_weight c < 0 then Inl (GoPanic ''Out of range value for column score_weight'')
      else if item_of s (is_parent c) = None \<or> item_of s (is_child c) = None then Inl ForeignKeyConstraint
      else
        let e = relation_of_spec c; t = db_items_items (rd_db s);
            s1 = s\<lparr>rd_db := (mark_item_todo (is_child c) (rd_db s))\<lparr>db_items_items := tbl_upsert ii_key (set_relation_columns e) e t\<rparr>\<rparr>
        in Inr (case tbl_find ii_key (ii_key e) t of
                  None \<Rightarrow> after_insert_items_items e s1
                | Some old \<Rightarrow> after_update_items_items old e s1))"

definition insert_item_items :: "insert_spec list \<Rightarrow> results_db \<Rightarrow> db_error + results_db" where
  "insert_item_items = fold_result upsert_items_items"

definition delete_items_items :: "(items_items_row \<Rightarrow> bool) \<Rightarrow> results_db \<Rightarrow> results_db" where
  "delete_items_items P s =
     (let s1 = fold before_delete_items_items (filter P (db_items_items (rd_db s))) s
      in s1\<lparr>rd_db := (rd_db s1)\<lparr>db_items_items := tbl_delete P (db_items_items (rd_db s1))\<rparr>\<rparr>)"

definition create_new_item_ancestors :: "results_db \<Rightarrow> db_error + results_db" where
  "create_new_item_ancestors s = bind_result (items_create_new_ancestors (rd_db s)) (\<lambda>d. Inr (s\<lparr>rd_db := d\<rparr>))"

end
