(* ===== verification/ItemServices.thy ===== *)
theory ItemServices
  imports ItemRelations
begin

text \<open>
  The services that create, update and delete items: app/api/items/create_item.go, update_item.go and delete_item.go, with
  \<open>ItemStore.DeleteItem\<close> (app/database/item_store.go), from the decoded request on.  A field of a request that is not set is None.
  The strings of an item and the columns that only describe it are left out; \<open>iv_other_columns\<close> tells that one of them is
  set.  The random numbers of \<open>NewID\<close> are an argument.
\<close>

section \<open>Requests\<close>

record item_values =
  iv_text_id :: "string option option"
  iv_no_score :: "bool option"
  iv_read_only :: "bool option"
  iv_validation_type :: "validation_type option"
  iv_entry_min_admitted_members_ratio :: "admitted_members_ratio option"
  iv_entering_time_min :: "time option"
  iv_entering_time_max :: "time option"
  iv_entry_max_team_size :: "int option"
  iv_allows_multiple_attempts :: "bool option"
  iv_entry_is_team :: "bool option"
  iv_entry_frozen_teams :: "bool option"
  iv_duration :: "time option option"
  iv_requires_explicit_entry :: "bool option"
  iv_other_columns :: bool

record parent_request =
  np_item :: "id option"
  np_category :: "item_category option"
  np_score_weight :: "int option"
  np_content_view_propagation :: "content_view_propagation option"
  np_upper_view_levels_propagation :: "upper_view_levels_propagation option"
  np_grant_view_propagation :: "bool option"
  np_watch_propagation :: "bool option"
  np_edit_propagation :: "bool option"
  np_request_help_propagation :: "bool option"

record new_item_request =
  nr_language_tag :: string
  nr_type :: item_type
  nr_item :: item_values
  nr_parent :: "parent_request option"
  nr_as_root_of_group :: "id option"
  nr_children :: "item_child list"

record update_item_request =
  ui_item :: item_values
  ui_children :: "item_child list option"

definition value_or_default :: "'a option \<Rightarrow> 'a \<Rightarrow> 'a" where
  "value_or_default given x = (case given of None \<Rightarrow> x | Some v \<Rightarrow> v)"

definition set_item_values :: "item_values \<Rightarrow> item_row \<Rightarrow> item_row" where
  "set_item_values v it =
     it\<lparr>it_text_id := value_or_default (iv_text_id v) (it_text_id it), it_no_score := value_or_default (iv_no_score v) (it_no_score it),
        it_read_only := value_or_default (iv_read_only v) (it_read_only it),
        it_validation_type := value_or_default (iv_validation_type v) (it_validation_type it),
        it_entry_min_admitted_members_ratio :=
          value_or_default (iv_entry_min_admitted_members_ratio v) (it_entry_min_admitted_members_ratio it),
        it_entering_time_min := value_or_default (iv_entering_time_min v) (it_entering_time_min it),
        it_entering_time_max := value_or_default (iv_entering_time_max v) (it_entering_time_max it),
        it_entry_max_team_size := value_or_default (iv_entry_max_team_size v) (it_entry_max_team_size it),
        it_allows_multiple_attempts := value_or_default (iv_allows_multiple_attempts v) (it_allows_multiple_attempts it),
        it_entry_is_team := value_or_default (iv_entry_is_team v) (it_entry_is_team it),
        it_entry_frozen_teams := value_or_default (iv_entry_frozen_teams v) (it_entry_frozen_teams it),
        it_duration := value_or_default (iv_duration v) (it_duration it),
        it_requires_explicit_entry := value_or_default (iv_requires_explicit_entry v) (it_requires_explicit_entry it)\<rparr>"

text \<open>The defaults of the columns.\<close>

definition default_item_row :: "id \<Rightarrow> item_type \<Rightarrow> item_row" where
  "default_item_row i t =
     \<lparr>it_id = i, it_type = t, it_text_id = None, it_requires_explicit_entry = False, it_no_score = False,
      it_validation_type = ValidationAll, it_read_only = False, it_allows_multiple_attempts = False, it_duration = None,
      it_participants_group = None, it_entry_is_team = False, it_entry_max_team_size = 0,
      it_entry_min_admitted_members_ratio = AdmittedNone, it_entry_frozen_teams = False, it_entering_time_min = min_time,
      it_entering_time_max = max_time\<rparr>"

section \<open>New identifiers\<close>

text \<open>\<open>retryOnDuplicateKeyError\<close>: up to \<open>keyTriesCount\<close> random numbers until one is no key; the remaining numbers are returned.\<close>

definition key_tries_count :: nat where
  "key_tries_count = 10"

fun draw_new_id :: "nat \<Rightarrow> (id \<Rightarrow> bool) \<Rightarrow> id list \<Rightarrow> db_error + (id \<times> id list)" where
  "draw_new_id n taken [] = Inl (GoPanic ''cannot generate a new id'')"
| "draw_new_id n taken (i # is) =
     (if n = 0 then Inl (GoPanic ''cannot generate a new id'')
      else if taken i then draw_new_id (n - 1) taken is else Inr (i, is))"

definition new_group_row :: "id \<Rightarrow> group_type \<Rightarrow> group_row" where
  "new_group_row i t =
     \<lparr>g_id = i, g_type = t, g_is_public = False, g_root_activity_id = None, g_root_skill_id = None,
      g_require_personal_info_access_approval = RequireNone, g_require_lock_membership_approval_until = None,
      g_require_watch_approval = False, g_enforce_max_participants = False, g_max_participants = None, g_frozen_membership = False, g_code = None,
     g_code_expires_at = None, g_code_lifetime = None, g_is_official_session = False\<rparr>"

text \<open>INSERT INTO \<open>groups\<close> with its trigger.\<close>

definition insert_group :: "group_row \<Rightarrow> db \<Rightarrow> db" where
  "insert_group g d =
     d\<lparr>db_groups := db_groups d @ [g],
       db_groups_ancestors := db_groups_ancestors d @ [\<lparr>ga_ancestor = g_id g, ga_child = g_id g, ga_expires_at = max_time\<rparr>]\<rparr>"

definition insert_permissions_granted :: "granted_row \<Rightarrow> db \<Rightarrow> db_error + db" where
  "insert_permissions_granted r d =
     (if tbl_has pg_key (pg_key r) (db_permissions_granted d) then Inl DuplicateEntry
      else if \<not> group_exists d (pg_group r) then Inl ForeignKeyConstraint
      else Inr ((mark_permission_self (pg_group r) (pg_item r) d)\<lparr>db_permissions_granted := db_permissions_granted d @ [r]\<rparr>))"

definition create_contest_participants_group :: "id \<Rightarrow> id list \<Rightarrow> db \<Rightarrow> db_error + (id \<times> id list \<times> db)" where
  "create_contest_participants_group item ids d =
     bind_result (draw_new_id key_tries_count (group_exists d) ids) (\<lambda>(g, ids1).
     bind_result (insert_permissions_granted ((default_granted_row g item g (db_now d))\<lparr>pg_can_view := content_level\<rparr>)
         (insert_group (new_group_row g ContestParticipants) d)) (\<lambda>d1.
       Inr (g, ids1, d1)))"

section \<open>Creating an item\<close>

text \<open>The validator of the parent; the type of a parent that is not given is None.\<close>

definition parent_item_info :: "results_db \<Rightarrow> id \<Rightarrow> new_item_request \<Rightarrow> item_type option option" where
  "parent_item_info s user r =
     (case (case nr_parent r of None \<Rightarrow> None | Some p \<Rightarrow> np_item p) of
        None \<Rightarrow> Some None
      | Some i \<Rightarrow>
          (case item_with_permissions s user content_level i of
             None \<Rightarrow> None
           | Some p \<Rightarrow> if the_level (edit_index ''children'') \<le> ip_can_edit (pt_permission p) then Some (pt_type p) else None))"

definition as_root_of_group_ok :: "db \<Rightarrow> id \<Rightarrow> id option \<Rightarrow> bool" where
  "as_root_of_group_ok d user g =
     (case g of
        None \<Rightarrow> True
      | Some i \<Rightarrow> group_exists d i \<and> (\<exists>m \<in> set (managed_by d user i). gm_can_manage m = 3))"

definition type_skill_ok :: "item_type option \<Rightarrow> item_type \<Rightarrow> bool" where
  "type_skill_ok parent t = (parent = None \<or> t \<noteq> Skill \<or> parent = Some Skill)"

text \<open>
  \<open>cannot_be_set_for_skills\<close> and \<open>duration_requires_explicit_entry\<close>, on the two fields that name them.  On the flag itself the
  second one asks for its being true, since the value of a flag is always valid.
\<close>

definition explicit_entry_ok :: "item_type \<Rightarrow> item_values \<Rightarrow> bool" where
  "explicit_entry_ok t v =
     ((case iv_duration v of Some (Some x) \<Rightarrow> t \<noteq> Skill \<and> iv_requires_explicit_entry v = Some True | _ \<Rightarrow> True) \<and>
      (case iv_requires_explicit_entry v of Some b \<Rightarrow> (b \<longrightarrow> t \<noteq> Skill) \<and> b | None \<Rightarrow> True))"

definition validate_new_item ::
  "string list \<Rightarrow> results_db \<Rightarrow> id \<Rightarrow> new_item_request \<Rightarrow> (id, permission_and_type) gomap option" where
  "validate_new_item languages s user r =
     (case parent_item_info s user r of
        None \<Rightarrow> None
      | Some parent \<Rightarrow>
          (case check_children s user None (map ic_item (nr_children r)) of
             None \<Rightarrow> None
           | Some info \<Rightarrow>
               if parent = Some Task \<or> \<not> as_root_of_group_ok (rd_db s) user (nr_as_root_of_group r) \<or> nr_language_tag r \<notin> set languages \<or>
                  \<not> type_skill_ok parent (nr_type r) \<or> \<not> explicit_entry_ok (nr_type r) (nr_item r) \<or>
                  \<not> children_allowed (nr_type r) info \<or>
                  \<not> list_all (\<lambda>c. child_type_non_skill (nr_type r) info (ic_item c)) (nr_children r)
               then None else Some info))"

definition can_create_items_relations_without_cycles :: "db \<Rightarrow> new_item_request \<Rightarrow> bool" where
  "can_create_items_relations_without_cycles d r =
     (let parent = (case nr_parent r of None \<Rightarrow> 0 | Some p \<Rightarrow> value_or_default (np_item p) 0); ids = map ic_item (nr_children r)
      in parent \<notin> set ids \<and> \<not> (\<exists>(a, c) \<in> set (db_items_ancestors d). c = parent \<and> a \<in> set ids))"

definition text_id_taken :: "results_db \<Rightarrow> item_row \<Rightarrow> bool" where
  "text_id_taken s it =
     (case it_text_id it of None \<Rightarrow> False | Some t \<Rightarrow> (\<exists>x \<in> set (rd_items s). it_id x \<noteq> it_id it \<and> it_text_id x = Some t))"

definition insert_item_row :: "item_type \<Rightarrow> item_values \<Rightarrow> id list \<Rightarrow> results_db \<Rightarrow> item_service_error + (id \<times> id list \<times> results_db)" where
  "insert_item_row t v ids s =
     bind_result (lift_item (draw_new_id key_tries_count (\<lambda>i. item_of s i \<noteq> None) ids)) (\<lambda>(i, ids1).
       let it = set_item_values v (default_item_row i t)
       in if text_id_taken s it then Inl TextIdNotUnique else Inr (i, ids1, s\<lparr>rd_items := rd_items s @ [it]\<rparr>))"

definition update_item_row :: "id \<Rightarrow> (item_row \<Rightarrow> item_row) \<Rightarrow> results_db \<Rightarrow> results_db" where
  "update_item_row i f s = s\<lparr>rd_items := map (\<lambda>it. if it_id it = i then f it else it) (rd_items s)\<rparr>"

text \<open>The relation of the new item with its parent, after the last child.\<close>

definition next_child_order :: "db \<Rightarrow> id \<Rightarrow> int" where
  "next_child_order d parent = max_or 0 (map ii_child_order (filter (\<lambda>e. ii_parent e = parent) (db_items_items d))) + 1"

definition parent_spec :: "db \<Rightarrow> parent_request \<Rightarrow> id \<Rightarrow> id \<Rightarrow> insert_spec" where
  "parent_spec d p parent i =
     \<lparr>is_parent = parent, is_child = i, is_order = next_child_order d parent,
      is_category = value_or_default (np_category p) Undefined, is_score_weight = value_or_default (np_score_weight p) 1,
      is_content_view_propagation = value_or_default (np_content_view_propagation p) AsInfo,
      is_upper_view_levels_propagation = value_or_default (np_upper_view_levels_propagation p) AsIs,
      is_grant_view_propagation = value_or_default (np_grant_view_propagation p) True,
      is_watch_propagation = value_or_default (np_watch_propagation p) True,
      is_edit_propagation = value_or_default (np_edit_propagation p) True,
      is_request_help_propagation = value_or_default (np_request_help_propagation p) True\<rparr>"

definition owner_row :: "id \<Rightarrow> id \<Rightarrow> time \<Rightarrow> granted_row" where
  "owner_row user i now = (default_granted_row user i user now)\<lparr>pg_origin := SelfOrigin, pg_is_owner := True\<rparr>"

text \<open>\<open>specs\<close> are the validated children, still without a parent.\<close>

definition insert_relations_of_item :: "new_item_request \<Rightarrow> insert_spec list \<Rightarrow> id \<Rightarrow> results_db \<Rightarrow> db_error + results_db" where
  "insert_relations_of_item r specs i s =
     (let above = (case nr_parent r of
                     None \<Rightarrow> []
                   | Some p \<Rightarrow> (case np_item p of None \<Rightarrow> [] | Some parent \<Rightarrow> [parent_spec (rd_db s) p parent i]))
      in if nr_parent r = None \<and> specs = [] then Inr s
         else bind_result (insert_item_items (above @ map (\<lambda>c. c\<lparr>is_parent := i\<rparr>) specs) s) create_new_item_ancestors)"

definition insert_item ::
  "id \<Rightarrow> new_item_request \<Rightarrow> insert_spec list \<Rightarrow> id list \<Rightarrow> results_db \<Rightarrow> item_service_error + (id \<times> results_db)" where
  "insert_item user r specs ids s =
     bind_result (insert_item_row (nr_type r) (nr_item r) ids s) (\<lambda>(i, ids1, s1).
     bind_result
       (if iv_requires_explicit_entry (nr_item r) = Some True
        then bind_result (lift_item (create_contest_participants_group i ids1 (rd_db s1))) (\<lambda>(g, ids2, d).
               Inr (update_item_row i (\<lambda>it. it\<lparr>it_participants_group := Some g\<rparr>) (s1\<lparr>rd_db := d\<rparr>)))
        else Inr s1) (\<lambda>s2.
     bind_result (lift_item (insert_permissions_granted (owner_row user i (db_now (rd_db s2))) (rd_db s2))) (\<lambda>d3.
     bind_result (lift_item (insert_relations_of_item r specs i (s2\<lparr>rd_db := d3\<rparr>))) (\<lambda>s4.
       Inr (i, s4)))))"

definition set_new_item_as_root :: "new_item_request \<Rightarrow> id \<Rightarrow> results_db \<Rightarrow> results_db" where
  "set_new_item_as_root r i s =
     (case nr_as_root_of_group r of
        None \<Rightarrow> s
      | Some g \<Rightarrow>
          s\<lparr>rd_db := (rd_db s)\<lparr>db_groups :=
             map (\<lambda>x. if g_id x = g
                      then (if nr_type r = Skill then x\<lparr>g_root_skill_id := Some i\<rparr> else x\<lparr>g_root_activity_id := Some i\<rparr>)
                      else x) (db_groups (rd_db s))\<rparr>\<rparr>)"

definition schedule_both :: "results_db \<Rightarrow> results_db" where
  "schedule_both s = s\<lparr>rd_db := schedule_results_propagation (schedule_permissions_propagation (rd_db s))\<rparr>"

definition create_item ::
  "string list \<Rightarrow> id \<Rightarrow> bool \<Rightarrow> new_item_request \<Rightarrow> id list \<Rightarrow> results_db \<Rightarrow> item_service_error + (id \<times> results_db)" where
  "create_item languages user is_temp_user r ids s =
     (if is_temp_user then Inl ItemAccessDenied
      else case validate_new_item languages s user r of
             None \<Rightarrow> Inl InvalidItemRequest
           | Some info \<Rightarrow>
               if nr_parent r = None \<and> nr_as_root_of_group r = None then Inl InvalidItemRequest
               else if nr_parent r \<noteq> None \<and> nr_children r \<noteq> [] \<and> \<not> can_create_items_relations_without_cycles (rd_db s) r
               then Inl ItemCycle
               else
                 bind_result (validate_children 0 info [] (nr_children r)) (\<lambda>specs.
                 bind_result (insert_item user r specs ids s) (\<lambda>(i, s1).
                   Inr (i, schedule_both (set_new_item_as_root r i s1)))))"

section \<open>Updating an item\<close>

record item_to_update =
  tu_item :: item_row
  tu_can_edit :: nat

definition item_to_update_info :: "results_db \<Rightarrow> id \<Rightarrow> id \<Rightarrow> item_to_update option" where
  "item_to_update_info s user i =
     (case (item_of s i, aggregated_permissions (rd_db s) user i) of
        (Some it, Some p) \<Rightarrow>
          if content_level \<le> ip_can_view p \<and> the_level (edit_index ''children'') \<le> ip_can_edit p
          then Some \<lparr>tu_item = it, tu_can_edit = ip_can_edit p\<rparr> else None
      | _ \<Rightarrow> None)"

text \<open>
  The validator of the duration, which remembers the new values: the change of the flag or of the presence of a duration needs the flag
  to be set if there is a duration.
\<close>

definition update_explicit_entry_ok :: "item_row \<Rightarrow> item_values \<Rightarrow> bool" where
  "update_explicit_entry_ok it v =
     (let duration = value_or_default (iv_duration v) (it_duration it);
          explicit = value_or_default (iv_requires_explicit_entry v) (it_requires_explicit_entry it);
          changed = (duration = None) \<noteq> (it_duration it = None) \<or> explicit \<noteq> it_requires_explicit_entry it
      in (\<not> changed \<or> explicit \<or> duration = None) \<and>
         (it_type it = Skill \<longrightarrow> (case iv_duration v of Some (Some x) \<Rightarrow> False | _ \<Rightarrow> True) \<and> iv_requires_explicit_entry v \<noteq> Some True))"

definition validate_item_update ::
  "results_db \<Rightarrow> id \<Rightarrow> item_row \<Rightarrow> update_item_request \<Rightarrow> (id, permission_and_type) gomap option" where
  "validate_item_update s user it r =
     (let children = value_or_default (ui_children r) [];
          old = generate_old_propagation_levels_map (rd_db s) (it_id it)
      in case check_children s user (Some old) (map ic_item children) of
           None \<Rightarrow> None
         | Some info \<Rightarrow>
             if \<not> children_allowed (it_type it) info \<or> \<not> list_all (\<lambda>c. child_type_non_skill (it_type it) info (ic_item c)) children \<or>
                \<not> update_explicit_entry_ok it (ui_item r)
             then None else Some info)"

definition item_data_given :: "item_values \<Rightarrow> bool" where
  "item_data_given v =
     (iv_text_id v \<noteq> None \<or> iv_no_score v \<noteq> None \<or> iv_read_only v \<noteq> None \<or> iv_validation_type v \<noteq> None \<or>
      iv_entry_min_admitted_members_ratio v \<noteq> None \<or> iv_entering_time_min v \<noteq> None \<or> iv_entering_time_max v \<noteq> None \<or>
      iv_entry_max_team_size v \<noteq> None \<or> iv_allows_multiple_attempts v \<noteq> None \<or> iv_entry_is_team v \<noteq> None \<or>
      iv_entry_frozen_teams v \<noteq> None \<or> iv_duration v \<noteq> None \<or> iv_requires_explicit_entry v \<noteq> None \<or> iv_other_columns v)"

definition update_item_in_db :: "item_row \<Rightarrow> item_values \<Rightarrow> id list \<Rightarrow> results_db \<Rightarrow> item_service_error + results_db" where
  "update_item_in_db it v ids s =
     bind_result
       (if iv_requires_explicit_entry v = Some True \<and> it_participants_group it = None
        then bind_result (lift_item (create_contest_participants_group (it_id it) ids (rd_db s))) (\<lambda>(g, ids1, d).
               Inr (Some g, s\<lparr>rd_db := d\<rparr>))
        else Inr (it_participants_group it, s)) (\<lambda>(g, s1).
       let new = (set_item_values v it)\<lparr>it_participants_group := g\<rparr>
       in if text_id_taken s1 new then Inl TextIdNotUnique else Inr (update_item_row (it_id it) (\<lambda>_. new) s1))"

text \<open>\<open>checkItemsRelationsCycles\<close>.\<close>

definition check_items_relations_cycles :: "db \<Rightarrow> id \<Rightarrow> id list \<Rightarrow> bool" where
  "check_items_relations_cycles d i ids =
     (i \<notin> set ids \<and> \<not> (\<exists>(a, c) \<in> set (db_items_ancestors d). c = i \<and> a \<in> set ids))"

definition replace_children ::
  "id \<Rightarrow> (id, permission_and_type) gomap \<Rightarrow> (id, items_items_row) gomap \<Rightarrow> item_child list \<Rightarrow> results_db \<Rightarrow> item_service_error + results_db" where
  "replace_children i info old children s =
     (let ids = map ic_item children;
          s1 = delete_items_items (\<lambda>e. ii_parent e = i \<and> ii_child e \<notin> set ids) s
      in if \<not> check_items_relations_cycles (rd_db s1) i ids then Inl ItemCycle
         else
           bind_result (validate_children i info old children) (\<lambda>specs.
           bind_result (lift_item (insert_item_items specs s1)) (\<lambda>s2.
             lift_item (create_new_item_ancestors s2))))"

definition update_children_and_run_listeners ::
  "id \<Rightarrow> (id, permission_and_type) gomap \<Rightarrow> (id, items_items_row) gomap \<Rightarrow> update_item_request \<Rightarrow> results_db \<Rightarrow> item_service_error + results_db" where
  "update_children_and_run_listeners i info old r s =
     (case ui_children r of
        Some children \<Rightarrow> bind_result (replace_children i info old children s) (\<lambda>s1. Inr (schedule_both s1))
      | None \<Rightarrow>
          if iv_no_score (ui_item r) \<noteq> None \<or> iv_validation_type (ui_item r) \<noteq> None
          then Inr (let s1 = mark_results_recomputed i s in s1\<lparr>rd_db := schedule_results_propagation (rd_db s1)\<rparr>)
          else Inr s)"

definition update_item :: "id \<Rightarrow> id \<Rightarrow> update_item_request \<Rightarrow> id list \<Rightarrow> results_db \<Rightarrow> item_service_error + results_db" where
  "update_item user i r ids s =
     (case item_to_update_info s user i of
        None \<Rightarrow> Inl ItemAccessDenied
      | Some info \<Rightarrow>
          (case validate_item_update s user (tu_item info) r of
             None \<Rightarrow> Inl InvalidItemRequest
           | Some children_info \<Rightarrow>
               if \<not> item_data_given (ui_item r) \<and> ui_children r = None then Inr s
               else if item_data_given (ui_item r) \<and> tu_can_edit info < the_level (permission_index ''edit'' ''all'')
               then Inl (NotEnoughPermissionsFor ''properties'')
               else
                 bind_result (update_item_in_db (tu_item info) (ui_item r) ids s) (\<lambda>s1.
                   update_children_and_run_listeners i children_info (generate_old_propagation_levels_map (rd_db s) i) r s1)))"

section \<open>Deleting an item\<close>

text \<open>
  DELETE FROM \<open>items\<close>: a relation or an ancestor row with the item above stops it; the rows with the item below, and those of other
  tables that name the item, go with it.  MySQL runs no triggers for the rows that go with it.
\<close>

definition forget_root :: "id \<Rightarrow> group_row \<Rightarrow> group_row" where
  "forget_root i g =
     g\<lparr>g_root_activity_id := (if g_root_activity_id g = Some i then None else g_root_activity_id g),
       g_root_skill_id := (if g_root_skill_id g = Some i then None else g_root_skill_id g)\<rparr>"

definition delete_item_cascade :: "id \<Rightarrow> db \<Rightarrow> db" where
  "delete_item_cascade i d =
     d\<lparr>db_groups := map (forget_root i) (db_groups d),
       db_permissions_granted := tbl_delete (\<lambda>p. pg_item p = i) (db_permissions_granted d),
       db_permissions_generated := tbl_delete (\<lambda>p. pgen_item p = i) (db_permissions_generated d),
       db_permissions_propagate := filter (\<lambda>((g, j), m). j \<noteq> i) (db_permissions_propagate d),
       db_items_items := tbl_delete (\<lambda>e. ii_child e = i) (db_items_items d),
       db_items_ancestors := filter (\<lambda>(a, c). c \<noteq> i) (db_items_ancestors d),
       db_items_propagate := filter (\<lambda>(j, m). j \<noteq> i) (db_items_propagate d)\<rparr>"

definition delete_item_row :: "id \<Rightarrow> results_db \<Rightarrow> db_error + results_db" where
  "delete_item_row i s =
     (if (\<exists>e \<in> set (db_items_items (rd_db s)). ii_parent e = i) \<or> (\<exists>(a, c) \<in> set (db_items_ancestors (rd_db s)). a = i)
      then Inl ForeignKeyConstraint
      else Inr (s\<lparr>rd_db := delete_item_cascade i (rd_db s),
                 rd_items := tbl_delete (\<lambda>it. it_id it = i) (rd_items s),
                 rd_attempts := map (\<lambda>a. if at_root_item a = Some i then a\<lparr>at_root_item := None\<rparr> else a) (rd_attempts s),
                 rd_results := tbl_delete (\<lambda>r. rs_item r = i) (rd_results s),
                 rd_dependencies := tbl_delete (\<lambda>dp. dp_item dp = i \<or> dp_dependent_item dp = i) (rd_dependencies s),
                 rd_contest_items := tbl_delete (\<lambda>c. ct_item c = i) (rd_contest_items s),
                 rd_propagate := filter (\<lambda>((p, a, j), m). j \<noteq> i) (rd_propagate s),
                 rd_recompute_for_items := filter (\<lambda>(j, b). j \<noteq> i) (rd_recompute_for_items s)\<rparr>))"

definition delete_item_store :: "id \<Rightarrow> results_db \<Rightarrow> db_error + results_db" where
  "delete_item_store i s =
     bind_result (delete_item_row i s) (\<lambda>s1.
     bind_result (create_new_item_ancestors s1) (\<lambda>s2. Inr (schedule_both s2)))"

definition delete_item :: "id \<Rightarrow> id \<Rightarrow> results_db \<Rightarrow> item_service_error + results_db" where
  "delete_item user i s =
     (if \<not> (\<exists>p \<in> set (matching_group_ancestors (rd_db s) user). pgen_item p = i \<and> pgen_is_owner p) then Inl ItemAccessDenied
      else if \<exists>e \<in> set (db_items_items (rd_db s)). ii_parent e = i then Inl ItemHasChildren
      else lift_item (delete_item_store i s))"

end
