(* ===== verification/ItemRules.thy ===== *)
theory ItemRules
  imports ItemServices
begin

text \<open>
  What the services on items guarantee: the graph of items stays acyclic with its closure in \<open>items_ancestors\<close>, and no relation propagates
  more than the user may grant; and two marks that are missing.
\<close>

section \<open>The statements on relations\<close>

named_theorems item_frame \<open>how the marks of the triggers leave the tables of items\<close>

abbreviation relations :: "results_db \<Rightarrow> items_items_row list" where
  "relations s \<equiv> db_items_items (rd_db s)"

lemma item_edges_image: "item_edges d = ii_key ` set (db_items_items d)"
  by (auto simp: item_edges_def ii_key_def)

lemma mark_item_todo_frame [item_frame]:
  "db_items_items (mark_item_todo i d) = db_items_items d" "db_items_ancestors (mark_item_todo i d) = db_items_ancestors d"
  "todo (db_items_propagate (mark_item_todo i d)) c = (c = i \<or> todo (db_items_propagate d) c)"
  by (auto simp: mark_item_todo_def update_conv')

lemma mark_children_permissions_frame [item_frame]:
  "db_items_items (mark_children_permissions i d) = db_items_items d"
  "db_items_ancestors (mark_children_permissions i d) = db_items_ancestors d"
  "db_items_propagate (mark_children_permissions i d) = db_items_propagate d"
  by (simp_all add: mark_children_permissions_def)

lemma mark_results_frame [item_frame]:
  "rd_db (mark_results_propagated i s) = rd_db s" "rd_items (mark_results_propagated i s) = rd_items s"
  "rd_db (mark_results_recomputed i s) = rd_db s" "rd_items (mark_results_recomputed i s) = rd_items s"
  by (simp_all add: mark_results_propagated_def mark_results_recomputed_def)

lemma triggers_frame [item_frame]:
  "db_items_items (rd_db (after_insert_items_items e s)) = db_items_items (rd_db s)"
  "db_items_ancestors (rd_db (after_insert_items_items e s)) = db_items_ancestors (rd_db s)"
  "db_items_propagate (rd_db (after_insert_items_items e s)) = db_items_propagate (rd_db s)"
  "rd_items (after_insert_items_items e s) = rd_items s"
  "db_items_items (rd_db (after_update_items_items e' e s)) = db_items_items (rd_db s)"
  "db_items_ancestors (rd_db (after_update_items_items e' e s)) = db_items_ancestors (rd_db s)"
  "db_items_propagate (rd_db (after_update_items_items e' e s)) = db_items_propagate (rd_db s)"
  "rd_items (after_update_items_items e' e s) = rd_items s"
  "rd_items (before_delete_items_items e s) = rd_items s"
  by (simp_all add: after_insert_items_items_def after_update_items_items_def before_delete_items_items_def Let_def item_frame)

lemma relation_of_spec_key [simp]: "ii_key (relation_of_spec c) = (is_parent c, is_child c)"
  by (simp add: relation_of_spec_def ii_key_def)

lemma set_relation_columns_same: "ii_key x = ii_key e \<Longrightarrow> set_relation_columns e x = e"
  by (simp add: set_relation_columns_def ii_key_def)

lemma set_upsert_relation:
  "set (tbl_upsert ii_key (set_relation_columns e) e t) = insert e {x \<in> set t. ii_key x \<noteq> ii_key e}"
  by (auto simp: tbl_upsert_def tbl_has_def set_relation_columns_same)

lemma upsert_items_items_effect:
  assumes "upsert_items_items c s = Inr s'"
  shows "relations s' = tbl_upsert ii_key (set_relation_columns (relation_of_spec c)) (relation_of_spec c) (relations s)"
    and "db_items_ancestors (rd_db s') = db_items_ancestors (rd_db s)" and "rd_items s' = rd_items s"
    and "todo (db_items_propagate (rd_db s')) x \<longleftrightarrow> x = is_child c \<or> todo (db_items_propagate (rd_db s)) x"
    and "item_of s (is_parent c) \<noteq> None" "item_of s (is_child c) \<noteq> None"
  using assms by (auto simp: upsert_items_items_def Let_def item_frame split: if_splits option.splits)

text \<open>The rows of the table after the insertion of several relations, those of the list winning.\<close>

lemma insert_item_items_effect:
  assumes "insert_item_items cs s = Inr s'"
  shows "rd_items s' = rd_items s \<and> db_items_ancestors (rd_db s') = db_items_ancestors (rd_db s) \<and>
    (\<forall>x. todo (db_items_propagate (rd_db s')) x \<longleftrightarrow> x \<in> is_child ` set cs \<or> todo (db_items_propagate (rd_db s)) x) \<and>
    (\<forall>c \<in> set cs. item_of s (is_parent c) \<noteq> None \<and> item_of s (is_child c) \<noteq> None) \<and>
    item_edges (rd_db s') = item_edges (rd_db s) \<union> (\<lambda>c. (is_parent c, is_child c)) ` set cs \<and>
    (\<forall>e \<in> set (relations s'). e \<in> relation_of_spec ` set cs \<or> e \<in> set (relations s) \<and> ii_key e \<notin> (\<lambda>c. (is_parent c, is_child c)) ` set cs)"
  using assms
proof (induction cs arbitrary: s)
  case Nil
  then show ?case by (simp add: insert_item_items_def)
next
  case (Cons c cs)
  then obtain s1 where s1: "upsert_items_items c s = Inr s1" and run: "insert_item_items cs s1 = Inr s'"
    by (auto simp: insert_item_items_def split: sum.splits)
  note one = upsert_items_items_effect [OF s1] and ih = Cons.IH [OF run]
  have rows: "set (relations s1) = insert (relation_of_spec c) {x \<in> set (relations s). ii_key x \<noteq> (is_parent c, is_child c)}"
    unfolding one(1) set_upsert_relation by simp
  have edges: "item_edges (rd_db s1) = insert (is_parent c, is_child c) (item_edges (rd_db s))"
    unfolding item_edges_image rows by (auto simp: image_iff)
  have exist: "item_of s1 j = item_of s j" for j by (simp add: item_of_def one(3))
  show ?case
    using ih one(2-6) unfolding edges rows exist by auto
qed

lemma insert_items_frame_other:
  assumes "insert_item_items cs s = Inr s'" and "\<forall>c \<in> set cs. Q (is_parent c, is_child c)"
  shows "filter (\<lambda>e. \<not> Q (ii_key e)) (relations s') = filter (\<lambda>e. \<not> Q (ii_key e)) (relations s)"
  using assms
proof (induction cs arbitrary: s)
  case Nil
  then show ?case by (simp add: insert_item_items_def)
next
  case (Cons c cs)
  then obtain s1 where s1: "upsert_items_items c s = Inr s1" and run: "insert_item_items cs s1 = Inr s'"
    by (auto simp: insert_item_items_def split: sum.splits)
  have "filter (\<lambda>e. \<not> Q (ii_key e)) (map (\<lambda>x. if ii_key x = ii_key e then set_relation_columns e x else x) t) =
      filter (\<lambda>e. \<not> Q (ii_key e)) t" if "Q (ii_key e)" for e t
    using that by (induction t) (auto simp: set_relation_columns_same)
  moreover have "Q (ii_key (relation_of_spec c))" using Cons.prems(2) by simp
  ultimately have "filter (\<lambda>e. \<not> Q (ii_key e)) (relations s1) = filter (\<lambda>e. \<not> Q (ii_key e)) (relations s)"
    unfolding upsert_items_items_effect(1) [OF s1] tbl_upsert_def by (simp only: filter_append if_distrib [of "filter _"]) simp
  then show ?case using Cons.IH [OF run] Cons.prems(2) by simp
qed

lemma delete_items_items_effect:
  "relations (delete_items_items P s) = tbl_delete P (relations s)"
  "db_items_ancestors (rd_db (delete_items_items P s)) = db_items_ancestors (rd_db s)"
  "rd_items (delete_items_items P s) = rd_items s"
  "todo (db_items_propagate (rd_db (delete_items_items P s))) x \<longleftrightarrow>
     (\<exists>e \<in> set (relations s). P e \<and> ii_child e = x) \<or> todo (db_items_propagate (rd_db s)) x"
proof -
  have "relations (fold before_delete_items_items es s) = relations s \<and>
      db_items_ancestors (rd_db (fold before_delete_items_items es s)) = db_items_ancestors (rd_db s) \<and>
      rd_items (fold before_delete_items_items es s) = rd_items s \<and>
      (todo (db_items_propagate (rd_db (fold before_delete_items_items es s))) x \<longleftrightarrow>
        x \<in> ii_child ` set es \<or> todo (db_items_propagate (rd_db s)) x)" for es
    by (induction es arbitrary: s) (auto simp: before_delete_items_items_def item_frame)
  from this [of "filter P (relations s)"] show
    "relations (delete_items_items P s) = tbl_delete P (relations s)"
    "db_items_ancestors (rd_db (delete_items_items P s)) = db_items_ancestors (rd_db s)"
    "rd_items (delete_items_items P s) = rd_items s"
    "todo (db_items_propagate (rd_db (delete_items_items P s))) x \<longleftrightarrow>
       (\<exists>e \<in> set (relations s). P e \<and> ii_child e = x) \<or> todo (db_items_propagate (rd_db s)) x"
    by (auto simp: delete_items_items_def Let_def)
qed

section \<open>The graph of items\<close>

lemma reach_star: "(x, i) \<in> (E \<union> {i} \<times> C)\<^sup>* \<Longrightarrow> (x, i) \<in> E\<^sup>*"
proof (induction rule: converse_rtrancl_induct)
  case (step y z)
  then show ?case by (cases "(y, z) \<in> E") (auto intro: converse_rtrancl_into_rtrancl)
qed simp

lemma acyclic_star:
  assumes "acyclic E" and "finite C" and "\<And>c. c \<in> C \<Longrightarrow> (c, i) \<notin> E\<^sup>*"
  shows "acyclic (E \<union> {i} \<times> C)"
  using assms(2,3)
proof (induction C rule: finite_induct)
  case (insert c C)
  have "(c, i) \<notin> (E \<union> {i} \<times> C)\<^sup>*"
  proof
    assume "(c, i) \<in> (E \<union> {i} \<times> C)\<^sup>*"
    then have "(c, i) \<in> E\<^sup>*" by (rule reach_star)
    moreover have "(c, i) \<notin> E\<^sup>*" by (rule insert.prems) (rule insertI1)
    ultimately show False by contradiction
  qed
  moreover have "acyclic (E \<union> {i} \<times> C)" by (rule insert.IH) (simp add: insert.prems)
  ultimately have "acyclic (insert (i, c) (E \<union> {i} \<times> C))" by (simp only: acyclic_insert simp_thms)
  moreover have "E \<union> {i} \<times> insert c C = insert (i, c) (E \<union> {i} \<times> C)" by auto
  ultimately show ?case by simp
qed (use assms(1) in simp)

text \<open>Relations name items, they form no cycle, and \<open>items_ancestors\<close> is their closure, with nothing left to recompute.\<close>

definition items_cached :: "db \<Rightarrow> bool" where
  "items_cached d =
     (acyclic (item_edges d) \<and> (\<forall>a c. (a, c) \<in> set (db_items_ancestors d) \<longleftrightarrow> (a, c) \<in> (item_edges d)\<^sup>+) \<and>
      (\<forall>c. \<not> todo (db_items_propagate d) c))"

definition items_ok :: "results_db \<Rightarrow> bool" where
  "items_ok s =
     (items_cached (rd_db s) \<and> (\<forall>(p, c) \<in> item_edges (rd_db s). item_of s p \<noteq> None \<and> item_of s c \<noteq> None))"

lemma items_recomputed:
  assumes "items_cached d" and "acyclic (item_edges d1)" and "db_items_ancestors d1 = db_items_ancestors d"
    and "\<And>p c. \<not> todo (db_items_propagate d1) c \<Longrightarrow> (p, c) \<in> item_edges d1 \<longleftrightarrow> (p, c) \<in> item_edges d"
  shows "\<exists>d2. items_create_new_ancestors d1 = Inr d2 \<and> items_cached d2 \<and> db_items_items d2 = db_items_items d1"
proof -
  have edges: "set (map (\<lambda>e. (ii_parent e, ii_child e)) (db_items_items x)) = item_edges x" for x
    by (auto simp: item_edges_def)
  have "\<exists>anc marks. create_new_ancestors_items (map (\<lambda>e. (ii_parent e, ii_child e)) (db_items_items d1))
      (db_items_ancestors d1) (db_items_propagate d1) = Inr (anc, marks) \<and>
      set anc = (set (map (\<lambda>e. (ii_parent e, ii_child e)) (db_items_items d1)))\<^sup>+ \<and> (\<forall>c. \<not> todo marks c)"
  proof (rule items_ancestors_correct [where old = "map (\<lambda>e. (ii_parent e, ii_child e)) (db_items_items d)"])
    show "acyclic (set (map (\<lambda>e. (ii_parent e, ii_child e)) (db_items_items d1)))" unfolding edges by fact
    show "(a, c) \<in> set (db_items_ancestors d1) \<longleftrightarrow> (a, c) \<in> (set (map (\<lambda>e. (ii_parent e, ii_child e)) (db_items_items d)))\<^sup>+" for a c
      unfolding edges assms(3) using assms(1) by (simp add: items_cached_def)
    show "(p, c) \<in> set (map (\<lambda>e. (ii_parent e, ii_child e)) (db_items_items d1)) \<longleftrightarrow>
        (p, c) \<in> set (map (\<lambda>e. (ii_parent e, ii_child e)) (db_items_items d))" if "\<not> todo (db_items_propagate d1) c" for p c
      unfolding edges by (rule assms(4) [OF that])
  qed
  then obtain anc marks where run: "create_new_ancestors_items (map (\<lambda>e. (ii_parent e, ii_child e)) (db_items_items d1))
      (db_items_ancestors d1) (db_items_propagate d1) = Inr (anc, marks)"
    and closure: "set anc = (item_edges d1)\<^sup>+" "\<forall>c. \<not> todo marks c" unfolding edges by blast
  let ?d2 = "d1\<lparr>db_items_ancestors := anc, db_items_propagate := marks\<rparr>"
  have "item_edges ?d2 = item_edges d1" by (simp add: item_edges_image)
  then have "items_cached ?d2" using closure assms(2) by (simp add: items_cached_def)
  then show ?thesis using run by (simp add: items_create_new_ancestors_def)
qed

lemma new_ancestors_right:
  assumes "create_new_item_ancestors s1 = Inr s2" and "items_cached d" and "acyclic (item_edges (rd_db s1))"
    and "db_items_ancestors (rd_db s1) = db_items_ancestors d"
    and "\<And>p c. \<not> todo (db_items_propagate (rd_db s1)) c \<Longrightarrow> (p, c) \<in> item_edges (rd_db s1) \<longleftrightarrow> (p, c) \<in> item_edges d"
  shows "items_cached (rd_db s2)" "relations s2 = relations s1" "rd_items s2 = rd_items s1"
  using items_recomputed [OF assms(2-5)] assms(1) by (auto simp: create_new_item_ancestors_def)

section \<open>Validated children\<close>

text \<open>The permissions the validation of a child looks at.\<close>

definition child_permission :: "results_db \<Rightarrow> id \<Rightarrow> id \<Rightarrow> item_permission" where
  "child_permission s user c =
     (case item_with_permissions s user (the_level (view_index ''info'')) c of
        Some p \<Rightarrow> pt_permission p | None \<Rightarrow> pt_permission stub_info)"

definition may_use_child :: "results_db \<Rightarrow> id \<Rightarrow> items_items_row option \<Rightarrow> id \<Rightarrow> bool" where
  "may_use_child s user old c = (item_with_permissions s user (the_level (view_index ''info'')) c \<noteq> None \<or> old \<noteq> None)"

lemma map_of_options:
  "map_of [(i, p). i \<leftarrow> is, Some p \<leftarrow> [f i]] j = (if j \<in> set is then f j else None)"
proof (induction "is")
  case (Cons a "is")
  then show ?case by (cases "f a") auto
qed simp

lemma map_of_const: "map_of (map (\<lambda>i. (i, x)) is) j = (if j \<in> set is then Some x else None)"
  by (induction "is") auto

lemma map_of_old_levels: "map_of (generate_old_propagation_levels_map d i) c = tbl_find ii_key (i, c) (db_items_items d)"
proof -
  have "map_of [(ii_child e, e). e \<leftarrow> t, ii_parent e = i] c = tbl_find ii_key (i, c) t" for t
    by (induction t) (auto simp: tbl_find_def ii_key_def)
  then show ?thesis by (simp add: generate_old_propagation_levels_map_def)
qed

lemma check_children_info:
  assumes "check_children s user old ids = Some info" and "c \<in> set ids"
  shows "\<exists>p. map_of info c = Some p \<and> pt_permission p = child_permission s user c \<and>
      may_use_child s user (case old of None \<Rightarrow> None | Some m \<Rightarrow> map_of m c) c"
    and "distinct ids"
proof -
  let ?f = "item_with_permissions s user (the_level (view_index ''info''))"
  let ?info = "generate_children_info_map s user ids"
  have gen: "map_of ?info c = ?f c" using assms(2) by (simp only: generate_children_info_map_def map_of_options if_True)
  from assms show "distinct ids" by (auto simp: check_children_def split: if_splits)
  from assms have info: "info = ?info @ map (\<lambda>i. (i, stub_info)) (filter (\<lambda>i. map_of ?info i = None) ids)"
    and old: "list_all (\<lambda>i. case old of None \<Rightarrow> False | Some m \<Rightarrow> map_of m i \<noteq> None) (filter (\<lambda>i. map_of ?info i = None) ids)"
    by (auto simp: check_children_def Let_def split: if_splits)
  show "\<exists>p. map_of info c = Some p \<and> pt_permission p = child_permission s user c \<and>
      may_use_child s user (case old of None \<Rightarrow> None | Some m \<Rightarrow> map_of m c) c"
  proof (cases "?f c")
    case None
    then have "map_of info c = Some stub_info"
      unfolding info map_add_def map_of_append gen using assms(2) gen by (simp add: map_of_const)
    moreover have "(case old of None \<Rightarrow> False | Some m \<Rightarrow> map_of m c \<noteq> None)"
      using old None gen assms(2) by (simp add: list_all_iff)
    ultimately show ?thesis using None by (auto simp: child_permission_def may_use_child_def split: option.splits)
  next
    case (Some p)
    then have "map_of info c = Some p"
      unfolding info map_add_def map_of_append gen using assms(2) gen by (simp add: map_of_const)
    then show ?thesis using Some by (auto simp: child_permission_def may_use_child_def)
  qed
qed

text \<open>
  What a relation may propagate: nothing above the relation before, or what the permissions on the child allow.
\<close>

definition propagation_allowed :: "item_permission \<Rightarrow> items_items_row option \<Rightarrow> items_items_row \<Rightarrow> bool" where
  "propagation_allowed p old e =
     (let level = (\<lambda>name. the_level (grant_view_index name)) in
      ((\<exists>o'. old = Some o' \<and> content_view_number (ii_content_view_propagation e) \<le> content_view_number (ii_content_view_propagation o')) \<or>
       (case ii_content_view_propagation e of
          ViewNone \<Rightarrow> True | AsInfo \<Rightarrow> ip_can_grant_view p \<noteq> level ''none'' | AsContent \<Rightarrow> level ''content'' \<le> ip_can_grant_view p)) \<and>
      ((\<exists>o'. old = Some o' \<and> upper_view_number (ii_upper_view_levels_propagation e) \<le> upper_view_number (ii_upper_view_levels_propagation o')) \<or>
       (case ii_upper_view_levels_propagation e of
          UseContentViewPropagation \<Rightarrow> True
        | AsContentWithDescendants \<Rightarrow> level ''content_with_descendants'' \<le> ip_can_grant_view p
        | AsIs \<Rightarrow> level ''solution'' \<le> ip_can_grant_view p)) \<and>
      (ii_grant_view_propagation e \<longrightarrow>
         (\<exists>o'. old = Some o' \<and> ii_grant_view_propagation o') \<or> level ''solution_with_grant'' \<le> ip_can_grant_view p) \<and>
      (ii_watch_propagation e \<longrightarrow>
         (\<exists>o'. old = Some o' \<and> ii_watch_propagation o') \<or> the_level (watch_index ''answer_with_grant'') \<le> ip_can_watch p) \<and>
      (ii_edit_propagation e \<longrightarrow>
         (\<exists>o'. old = Some o' \<and> ii_edit_propagation o') \<or> the_level (edit_index ''all_with_grant'') \<le> ip_can_edit p) \<and>
      (ii_request_help_propagation e \<longrightarrow>
         (\<exists>o'. old = Some o' \<and> ii_request_help_propagation o') \<or> level ''content'' \<le> ip_can_grant_view p))"

lemma boolean_propagation_allowed:
  "validate_boolean_propagation field given old permission required = Inr v \<Longrightarrow> v \<Longrightarrow> old = Some True \<or> required \<le> permission"
  by (auto simp: validate_boolean_propagation_def split: option.splits if_splits)

lemma permission_indexes [simp]:
  "permission_index ''grant_view'' x = grant_view_index x" "permission_index ''watch'' x = watch_index x"
  "permission_index ''edit'' x = edit_index x"
  by (simp_all add: grant_view_index_def watch_index_def edit_index_def)

lemma content_propagation_allowed:
  assumes "validate_content_view_propagation p old c = Inr v"
  shows "(\<exists>o'. old = Some o' \<and> content_view_number v \<le> content_view_number (ii_content_view_propagation o')) \<or>
    (case v of ViewNone \<Rightarrow> True | AsInfo \<Rightarrow> ip_can_grant_view p \<noteq> 1 | AsContent \<Rightarrow> 3 \<le> ip_can_grant_view p)"
  using assms
  by (cases old; cases "ic_content_view_propagation c"; cases v)
     (auto simp: validate_content_view_propagation_def default_content_view_propagation_def split: if_splits)

lemma upper_propagation_allowed:
  assumes "validate_upper_view_levels_propagation p old c = Inr v"
  shows "(\<exists>o'. old = Some o' \<and> upper_view_number v \<le> upper_view_number (ii_upper_view_levels_propagation o')) \<or>
    (case v of UseContentViewPropagation \<Rightarrow> True | AsContentWithDescendants \<Rightarrow> 4 \<le> ip_can_grant_view p | AsIs \<Rightarrow> 5 \<le> ip_can_grant_view p)"
  using assms
  by (cases old; cases "ic_upper_view_levels_propagation c"; cases v)
     (auto simp: validate_upper_view_levels_propagation_def default_upper_view_levels_propagation_def split: if_splits)

lemma map_option_True: "map_option f x = Some True \<longleftrightarrow> (\<exists>y. x = Some y \<and> f y)"
  by (cases x) auto

lemma validate_child_allowed:
  assumes "validate_child parent p old c = Inr spec"
  shows "propagation_allowed p old (relation_of_spec spec)" "is_parent spec = parent" "is_child spec = ic_item c"
proof -
  from assms obtain content upper grant watch edit request_help where
    parts: "validate_content_view_propagation p old c = Inr content" "validate_upper_view_levels_propagation p old c = Inr upper"
      "validate_grant_view_propagation p old c = Inr grant" "validate_watch_propagation p old c = Inr watch"
      "validate_edit_propagation p old c = Inr edit" "validate_request_help_propagation p old c = Inr request_help"
    and spec: "is_content_view_propagation spec = content" "is_upper_view_levels_propagation spec = upper"
      "is_grant_view_propagation spec = grant" "is_watch_propagation spec = watch" "is_edit_propagation spec = edit"
      "is_request_help_propagation spec = request_help" "is_parent spec = parent" "is_child spec = ic_item c"
    by (auto simp: validate_child_def bind_result_Inr)
  show "is_parent spec = parent" "is_child spec = ic_item c" by (fact spec)+
  note flags = parts(3-6) [unfolded validate_grant_view_propagation_def validate_watch_propagation_def
      validate_edit_propagation_def validate_request_help_propagation_def, THEN boolean_propagation_allowed]
  show "propagation_allowed p old (relation_of_spec spec)"
    unfolding propagation_allowed_def Let_def
  proof (intro conjI)
    show "(\<exists>o'. old = Some o' \<and> content_view_number (ii_content_view_propagation (relation_of_spec spec))
          \<le> content_view_number (ii_content_view_propagation o')) \<or>
        (case ii_content_view_propagation (relation_of_spec spec) of
          ViewNone \<Rightarrow> True | AsInfo \<Rightarrow> ip_can_grant_view p \<noteq> the_level (grant_view_index ''none'')
        | AsContent \<Rightarrow> the_level (grant_view_index ''content'') \<le> ip_can_grant_view p)"
      using content_propagation_allowed [OF parts(1)] unfolding grant_view_levels the_level_simps by (simp add: relation_of_spec_def spec)
    show "(\<exists>o'. old = Some o' \<and> upper_view_number (ii_upper_view_levels_propagation (relation_of_spec spec))
          \<le> upper_view_number (ii_upper_view_levels_propagation o')) \<or>
        (case ii_upper_view_levels_propagation (relation_of_spec spec) of
          UseContentViewPropagation \<Rightarrow> True
        | AsContentWithDescendants \<Rightarrow> the_level (grant_view_index ''content_with_descendants'') \<le> ip_can_grant_view p
        | AsIs \<Rightarrow> the_level (grant_view_index ''solution'') \<le> ip_can_grant_view p)"
      using upper_propagation_allowed [OF parts(2)] unfolding grant_view_levels the_level_simps by (simp add: relation_of_spec_def spec)
  qed (use flags in \<open>simp_all add: relation_of_spec_def spec map_option_True\<close>)
qed

lemma validate_children_specs:
  assumes "validate_children parent info old cs = Inr specs"
  shows "list_all2 (\<lambda>c spec. \<exists>p. map_of info (ic_item c) = Some p \<and>
    validate_child parent (pt_permission p) (map_of old (ic_item c)) c = Inr spec) cs specs"
  using assms
  by (induction cs arbitrary: specs) (auto simp: bind_result_Inr split: option.splits)

lemma specs_of_children:
  assumes "validate_children parent info old cs = Inr specs"
  shows "is_child ` set specs = ic_item ` set cs" "\<forall>spec \<in> set specs. is_parent spec = parent"
    and "spec \<in> set specs \<Longrightarrow> \<exists>p. map_of info (is_child spec) = Some p \<and> is_child spec \<in> ic_item ` set cs \<and>
      propagation_allowed (pt_permission p) (map_of old (is_child spec)) (relation_of_spec spec)"
proof -
  note specs = validate_children_specs [OF assms]
  have "map is_child specs = map ic_item cs"
    using specs by (induction rule: list_all2_induct) (auto dest: validate_child_allowed)
  then show "is_child ` set specs = ic_item ` set cs" by (metis list.set_map)
  show "\<forall>spec \<in> set specs. is_parent spec = parent"
    using specs by (induction rule: list_all2_induct) (auto dest: validate_child_allowed)
  show "\<exists>p. map_of info (is_child spec) = Some p \<and> is_child spec \<in> ic_item ` set cs \<and>
      propagation_allowed (pt_permission p) (map_of old (is_child spec)) (relation_of_spec spec)" if "spec \<in> set specs"
  proof -
    have "\<exists>c \<in> set cs. \<exists>p. map_of info (ic_item c) = Some p \<and> validate_child parent (pt_permission p) (map_of old (ic_item c)) c = Inr spec"
      using specs that by (induction rule: list_all2_induct) auto
    then obtain c p where "c \<in> set cs" "map_of info (ic_item c) = Some p"
      "validate_child parent (pt_permission p) (map_of old (ic_item c)) c = Inr spec" by blast
    then show ?thesis using validate_child_allowed [of parent "pt_permission p" "map_of old (ic_item c)" c spec] by simp
  qed
qed

end
