(* ===== verification/ItemGuarantees.thy ===== *)
theory ItemGuarantees
  imports ItemRules
begin

text \<open>
  The theorems on the services of \<open>ItemServices\<close>: permissions, the graph of items under any sequence of services, and the results that
  are not marked for a recomputation although their children changed.
\<close>

section \<open>Runs of the update\<close>

lemma item_of_id: "item_of s i = Some it \<Longrightarrow> it_id it = i"
  by (auto simp: item_of_def dest: tbl_find_Some)

lemma item_exists: "item_of s i \<noteq> None \<longleftrightarrow> i \<in> set (map it_id (rd_items s))"
  by (force simp: item_of_def tbl_find_None)

text \<open>Steps that leave the tables about items alone.\<close>

definition same_items :: "results_db \<Rightarrow> results_db \<Rightarrow> bool" where
  "same_items s s' =
     (relations s' = relations s \<and> db_items_ancestors (rd_db s') = db_items_ancestors (rd_db s) \<and>
      db_items_propagate (rd_db s') = db_items_propagate (rd_db s) \<and> map it_id (rd_items s') = map it_id (rd_items s))"

definition same_marks :: "results_db \<Rightarrow> results_db \<Rightarrow> bool" where
  "same_marks s s' =
     (rd_results s' = rd_results s \<and> rd_propagate s' = rd_propagate s \<and> rd_recompute_for_items s' = rd_recompute_for_items s)"

lemma same_items_ok: "same_items s s' \<Longrightarrow> items_ok s' \<longleftrightarrow> items_ok s"
  unfolding items_ok_def items_cached_def item_edges_image same_items_def item_exists by auto

lemma schedule_same: "same_items s (schedule_both s)" "same_marks s (schedule_both s)"
  by (simp_all add: schedule_both_def same_items_def same_marks_def schedule_permissions_propagation_def schedule_results_propagation_def)

lemma lift_item_Inr: "lift_item r = Inr x \<longleftrightarrow> r = Inr x"
  by (simp add: lift_item_def split: sum.split)

lemma insert_permissions_granted_frame:
  "insert_permissions_granted r d = Inr d' \<Longrightarrow>
     db_items_items d' = db_items_items d \<and> db_items_ancestors d' = db_items_ancestors d \<and> db_items_propagate d' = db_items_propagate d"
  by (auto simp: insert_permissions_granted_def mark_permission_self_def split: if_splits)

lemma create_contest_participants_group_frame:
  "create_contest_participants_group i ids d = Inr (g, ids', d') \<Longrightarrow>
     db_items_items d' = db_items_items d \<and> db_items_ancestors d' = db_items_ancestors d \<and> db_items_propagate d' = db_items_propagate d"
  by (auto simp: create_contest_participants_group_def bind_result_Inr insert_group_def dest!: insert_permissions_granted_frame)

lemma update_item_in_db_frame:
  assumes "update_item_in_db it v ids s = Inr s'"
  shows "same_items s s'" and "same_marks s s'"
    and "\<exists>g. rd_items s' = map (\<lambda>x. if it_id x = it_id it then (set_item_values v it)\<lparr>it_participants_group := g\<rparr> else x) (rd_items s)"
proof -
  let ?first = "if iv_requires_explicit_entry v = Some True \<and> it_participants_group it = None
      then bind_result (lift_item (create_contest_participants_group (it_id it) ids (rd_db s))) (\<lambda>(g, ids1, d). Inr (Some g, s\<lparr>rd_db := d\<rparr>))
      else Inr (it_participants_group it, s)"
  from assms obtain g s1 where first: "?first = Inr (g, s1)"
    and s': "s' = update_item_row (it_id it) (\<lambda>_. (set_item_values v it)\<lparr>it_participants_group := g\<rparr>) s1"
    unfolding update_item_in_db_def bind_result_Inr [of ?first] by (auto simp: Let_def split: if_splits)
  from first have s1: "same_items s s1" "same_marks s s1" "rd_items s1 = rd_items s"
    by (auto simp: bind_result_Inr lift_item_Inr same_items_def same_marks_def
        split: if_splits dest!: create_contest_participants_group_frame)
  have "map it_id (map (\<lambda>x. if it_id x = it_id it then (set_item_values v it)\<lparr>it_participants_group := g\<rparr> else x) t) = map it_id t" for t
    by (induction t) (auto simp: set_item_values_def)
  then show "same_items s s'" "same_marks s s'"
    using s1 by (auto simp: s' same_items_def same_marks_def update_item_row_def)
  show "\<exists>g. rd_items s' = map (\<lambda>x. if it_id x = it_id it then (set_item_values v it)\<lparr>it_participants_group := g\<rparr> else x) (rd_items s)"
    by (rule exI [of _ g]) (simp add: s' update_item_row_def s1(3))
qed

lemma update_item_run:
  assumes "update_item user i r ids s = Inr s'"
  shows "\<exists>info children_info s1. item_to_update_info s user i = Some info \<and> validate_item_update s user (tu_item info) r = Some children_info \<and>
    (s' = s \<and> ui_children r = None \<or>
     update_item_in_db (tu_item info) (ui_item r) ids s = Inr s1 \<and>
     update_children_and_run_listeners i children_info (generate_old_propagation_levels_map (rd_db s) i) r s1 = Inr s')"
  using assms by (auto simp: update_item_def bind_result_Inr split: option.splits if_splits)

lemma replace_children_run:
  assumes "replace_children i info old cs s = Inr s'"
  shows "\<exists>specs s2. check_items_relations_cycles (rd_db s) i (map ic_item cs) \<and> validate_children i info old cs = Inr specs \<and>
    insert_item_items specs (delete_items_items (\<lambda>e. ii_parent e = i \<and> ii_child e \<notin> ic_item ` set cs) s) = Inr s2 \<and>
    create_new_item_ancestors s2 = Inr s'"
  using assms
  by (auto simp: replace_children_def Let_def bind_result_Inr lift_item_Inr check_items_relations_cycles_def delete_items_items_effect
      split: if_splits)

text \<open>Whether or not the children are given, the relations of other items are left alone.\<close>

lemma replace_children_rows:
  assumes "replace_children i info old cs s = Inr s'" and "items_ok s"
  shows "filter (\<lambda>e. ii_parent e \<noteq> i) (relations s') = filter (\<lambda>e. ii_parent e \<noteq> i) (relations s)"
    and "e \<in> set (relations s') \<Longrightarrow> ii_parent e = i \<Longrightarrow> ii_child e \<in> ic_item ` set cs \<and>
      (\<exists>p. map_of info (ii_child e) = Some p \<and> propagation_allowed (pt_permission p) (map_of old (ii_child e)) e)"
    and "items_ok s'"
proof -
  let ?P = "\<lambda>e. ii_parent e = i \<and> ii_child e \<notin> ic_item ` set cs"
  let ?s1 = "delete_items_items ?P s"
  from replace_children_run [OF assms(1)] obtain specs s2 where
    no_cycle: "check_items_relations_cycles (rd_db s) i (map ic_item cs)" and specs: "validate_children i info old cs = Inr specs"
    and s2: "insert_item_items specs ?s1 = Inr s2" and anc: "create_new_item_ancestors s2 = Inr s'" by blast
  note del = delete_items_items_effect [where P = ?P and s = s]
  note ins = insert_item_items_effect [OF s2, unfolded del]
  note specs_facts = specs_of_children [OF specs]
  have keys: "(\<lambda>c. (is_parent c, is_child c)) ` set specs = {i} \<times> ic_item ` set cs"
    using specs_facts(1,2) by (force simp: image_iff)
  have kept: "item_edges (rd_db ?s1) = {(p, c) \<in> item_edges (rd_db s). p = i \<longrightarrow> c \<in> ic_item ` set cs}"
    by (force simp: item_edges_image del(1) ii_key_def)
  have edges: "item_edges (rd_db s2) = {(p, c) \<in> item_edges (rd_db s). p \<noteq> i} \<union> {i} \<times> ic_item ` set cs"
    using ins unfolding keys kept by auto
  have ok: "items_cached (rd_db s)" using assms(2) by (simp add: items_ok_def)
  have "acyclic ({(p, c) \<in> item_edges (rd_db s). p \<noteq> i} \<union> {i} \<times> ic_item ` set cs)"
  proof (rule acyclic_star)
    show "acyclic {(p, c) \<in> item_edges (rd_db s). p \<noteq> i}"
      using ok unfolding items_cached_def by (auto intro: acyclic_subset)
    fix c assume c: "c \<in> ic_item ` set cs"
    have "(c, i) \<notin> (item_edges (rd_db s))\<^sup>*"
    proof
      assume "(c, i) \<in> (item_edges (rd_db s))\<^sup>*"
      then have "c = i \<or> (c, i) \<in> (item_edges (rd_db s))\<^sup>+" by (auto dest: rtranclD)
      then show False
        using no_cycle c ok unfolding check_items_relations_cycles_def items_cached_def by auto
    qed
    moreover have "{(p, c) \<in> item_edges (rd_db s). p \<noteq> i}\<^sup>* \<subseteq> (item_edges (rd_db s))\<^sup>*" by (rule rtrancl_mono) auto
    ultimately show "(c, i) \<notin> {(p, c) \<in> item_edges (rd_db s). p \<noteq> i}\<^sup>*" by blast
  qed simp
  then have acyclic: "acyclic (item_edges (rd_db s2))" unfolding edges .
  have marked: "(p, c) \<in> item_edges (rd_db s2) \<longleftrightarrow> (p, c) \<in> item_edges (rd_db s)"
    if "\<not> todo (db_items_propagate (rd_db s2)) c" for p c
  proof -
    from that ins have "c \<notin> ic_item ` set cs" and "\<not> (\<exists>e \<in> set (relations s). ?P e \<and> ii_child e = c)"
      using specs_facts(1) by (auto simp: del(4))
    then show ?thesis unfolding edges by (force simp: item_edges_image ii_key_def)
  qed
  note right = new_ancestors_right [OF anc ok acyclic _ marked]
  have cached: "items_cached (rd_db s')" and rows: "relations s' = relations s2" and items: "rd_items s' = rd_items s"
    using right ins by auto
  show "filter (\<lambda>e. ii_parent e \<noteq> i) (relations s') = filter (\<lambda>e. ii_parent e \<noteq> i) (relations s)"
  proof -
    have "\<forall>c \<in> set specs. fst (is_parent c, is_child c) = i" using specs_facts(2) by simp
    from insert_items_frame_other [OF s2 this] have "filter (\<lambda>e. ii_parent e \<noteq> i) (relations s2) = filter (\<lambda>e. ii_parent e \<noteq> i) (relations ?s1)"
      by (simp add: ii_key_def)
    moreover have "filter (\<lambda>e. ii_parent e \<noteq> i) (tbl_delete ?P t) = filter (\<lambda>e. ii_parent e \<noteq> i) t" for t
      by (induction t) (auto simp: tbl_delete_def)
    ultimately show ?thesis unfolding rows del(1) by simp
  qed
  show "ii_child e \<in> ic_item ` set cs \<and>
      (\<exists>p. map_of info (ii_child e) = Some p \<and> propagation_allowed (pt_permission p) (map_of old (ii_child e)) e)"
    if e: "e \<in> set (relations s')" "ii_parent e = i"
  proof -
    have "e \<in> relation_of_spec ` set specs"
      using ins e unfolding rows keys by (auto simp: del(1) ii_key_def)
    then obtain spec where spec: "spec \<in> set specs" and e_spec: "e = relation_of_spec spec" by blast
    from e_spec have "ii_child e = is_child spec" by (simp add: relation_of_spec_def)
    then show ?thesis using specs_facts(3) [OF spec] by (auto simp: e_spec)
  qed
  have "item_of s p \<noteq> None \<and> item_of s c \<noteq> None" if "(p, c) \<in> item_edges (rd_db s2)" for p c
  proof -
    have same: "item_of ?s1 j = item_of s j" for j by (simp add: item_of_def del(3))
    from that consider "(p, c) \<in> item_edges (rd_db s)" | "(p, c) \<in> (\<lambda>c. (is_parent c, is_child c)) ` set specs"
      unfolding edges keys by blast
    then show ?thesis
    proof cases
      case 1
      then show ?thesis using assms(2) unfolding items_ok_def by blast
    next
      case 2
      then obtain spec where "spec \<in> set specs" "p = is_parent spec" "c = is_child spec" by auto
      then show ?thesis using ins unfolding same by blast
    qed
  qed
  moreover have "item_edges (rd_db s') = item_edges (rd_db s2)" by (simp add: item_edges_image rows)
  moreover have "item_of s' j = item_of s j" for j by (simp add: item_of_def items)
  ultimately show "items_ok s'"
    using cached unfolding items_ok_def by auto
qed

section \<open>No escalation\<close>

text \<open>
  C5: The update of an item changes only the relations with its own children, for a user who sees its content and may edit its
  children.  Every child is one the user sees, or a child already, and a level of propagation is never above both the level before
  and what the permissions of the user on the child allow.
\<close>

theorem update_item_no_escalation:
  assumes "update_item user i r ids s = Inr s'" and "items_ok s"
  shows "filter (\<lambda>e. ii_parent e \<noteq> i) (relations s') = filter (\<lambda>e. ii_parent e \<noteq> i) (relations s) \<and>
    (\<exists>p. aggregated_permissions (rd_db s) user i = Some p \<and> content_level \<le> ip_can_view p \<and> the_level (edit_index ''children'') \<le> ip_can_edit p) \<and>
    (\<forall>e \<in> set (relations s'). ii_parent e = i \<longrightarrow> e \<in> set (relations s) \<or>
       (let old = tbl_find ii_key (i, ii_child e) (relations s) in
          may_use_child s user old (ii_child e) \<and> propagation_allowed (child_permission s user (ii_child e)) old e))"
proof -
  from update_item_run [OF assms(1)] obtain info children_info s1 where
    info: "item_to_update_info s user i = Some info" "validate_item_update s user (tu_item info) r = Some children_info"
    and run: "s' = s \<and> ui_children r = None \<or> update_item_in_db (tu_item info) (ui_item r) ids s = Inr s1 \<and>
      update_children_and_run_listeners i children_info (generate_old_propagation_levels_map (rd_db s) i) r s1 = Inr s'" by blast
  from info(1) have p: "\<exists>p. aggregated_permissions (rd_db s) user i = Some p \<and> content_level \<le> ip_can_view p \<and>
      the_level (edit_index ''children'') \<le> ip_can_edit p" and id: "it_id (tu_item info) = i"
    by (auto simp: item_to_update_info_def item_of_id split: option.splits if_splits)
  show ?thesis
  proof (cases "ui_children r")
    case None
    then have "relations s' = relations s"
      using run update_item_in_db_frame(1) [of "tu_item info" "ui_item r" ids s s1]
      by (auto simp: update_children_and_run_listeners_def Let_def same_items_def mark_results_recomputed_def schedule_results_propagation_def
          split: if_splits)
    then show ?thesis using p by simp
  next
    case (Some cs)
    then have s1: "update_item_in_db (tu_item info) (ui_item r) ids s = Inr s1"
      and "\<exists>s2. replace_children i children_info (generate_old_propagation_levels_map (rd_db s) i) cs s1 = Inr s2 \<and> s' = schedule_both s2"
      using run by (auto simp: update_children_and_run_listeners_def bind_result_Inr)
    then obtain s2 where s2: "replace_children i children_info (generate_old_propagation_levels_map (rd_db s) i) cs s1 = Inr s2"
      and s': "s' = schedule_both s2" by blast
    have same: "same_items s s1" by (rule update_item_in_db_frame(1) [OF s1])
    then have ok: "items_ok s1" using same_items_ok assms(2) by simp
    have rows: "relations s' = relations s2" "relations s1 = relations s"
      using schedule_same(1) [of s2] same by (simp_all add: s' same_items_def)
    from info(2) Some have check: "check_children s user (Some (generate_old_propagation_levels_map (rd_db s) i)) (map ic_item cs) = Some children_info"
      by (auto simp: validate_item_update_def Let_def value_or_default_def id split: option.splits if_splits)
    note children = replace_children_rows [OF s2 ok]
    have "let old = tbl_find ii_key (i, ii_child e) (relations s) in
        may_use_child s user old (ii_child e) \<and> propagation_allowed (child_permission s user (ii_child e)) old e"
      if "e \<in> set (relations s')" "ii_parent e = i" for e
    proof -
      from children(2) [of e] that rows(1) obtain p where "ii_child e \<in> ic_item ` set cs" "map_of children_info (ii_child e) = Some p"
        "propagation_allowed (pt_permission p) (tbl_find ii_key (i, ii_child e) (relations s)) e"
        by (auto simp: map_of_old_levels)
      moreover from this(1) check_children_info(1) [OF check, of "ii_child e"] this(2)
      have "pt_permission p = child_permission s user (ii_child e)"
        "may_use_child s user (tbl_find ii_key (i, ii_child e) (relations s)) (ii_child e)"
        by (auto simp: map_of_old_levels)
      ultimately show ?thesis by (simp add: Let_def)
    qed
    then show ?thesis using children(1) p unfolding rows by blast
  qed
qed

section \<open>Creation\<close>

lemma draw_new_id_fresh: "draw_new_id n taken ids = Inr (i, ids') \<Longrightarrow> \<not> taken i"
  by (induction n taken ids rule: draw_new_id.induct) (auto split: if_splits)

lemma create_item_run:
  assumes "create_item languages user temp r ids s = Inr (i, s')"
  shows "\<exists>info specs s4. validate_new_item languages s user r = Some info \<and>
    (nr_parent r \<noteq> None \<and> nr_children r \<noteq> [] \<longrightarrow> can_create_items_relations_without_cycles (rd_db s) r) \<and>
    validate_children 0 info [] (nr_children r) = Inr specs \<and> insert_item user r specs ids s = Inr (i, s4) \<and>
    s' = schedule_both (set_new_item_as_root r i s4)"
  using assms by (auto simp: create_item_def bind_result_Inr split: if_splits option.splits)

lemma insert_item_run:
  assumes "insert_item user r specs ids s = Inr (i, s')"
  shows "\<exists>s3. item_of s i = None \<and> insert_relations_of_item r specs i s3 = Inr s' \<and> relations s3 = relations s \<and>
    db_items_ancestors (rd_db s3) = db_items_ancestors (rd_db s) \<and> db_items_propagate (rd_db s3) = db_items_propagate (rd_db s) \<and>
    map it_id (rd_items s3) = map it_id (rd_items s) @ [i] \<and>
    (\<exists>g \<in> set (db_permissions_granted (rd_db s3)). pg_group g = user \<and> pg_item g = i \<and> pg_is_owner g)"
proof -
  let ?second = "\<lambda>i ids1 s1. if iv_requires_explicit_entry (nr_item r) = Some True
        then bind_result (lift_item (create_contest_participants_group i ids1 (rd_db s1))) (\<lambda>(g, ids2, d).
               Inr (update_item_row i (\<lambda>it. it\<lparr>it_participants_group := Some g\<rparr>) (s1\<lparr>rd_db := d\<rparr>)))
        else Inr s1"
  from assms obtain ids1 s1 s2 d3 where s1: "insert_item_row (nr_type r) (nr_item r) ids s = Inr (i, ids1, s1)"
    and s2: "?second i ids1 s1 = Inr s2"
    and d3: "insert_permissions_granted (owner_row user i (db_now (rd_db s2))) (rd_db s2) = Inr d3"
    and last: "insert_relations_of_item r specs i (s2\<lparr>rd_db := d3\<rparr>) = Inr s'"
    unfolding insert_item_def by (fastforce simp only: bind_result_Inr lift_item_Inr split_paired_Ex split prod.inject sum.inject)
  from s1 have fresh: "item_of s i = None" and "same_items s (s1\<lparr>rd_items := rd_items s\<rparr>)" and ids: "map it_id (rd_items s1) = map it_id (rd_items s) @ [i]"
    by (auto simp: insert_item_row_def bind_result_Inr lift_item_Inr Let_def same_items_def set_item_values_def default_item_row_def
        split: if_splits dest!: draw_new_id_fresh)
  then have frame1: "relations s1 = relations s" "db_items_ancestors (rd_db s1) = db_items_ancestors (rd_db s)"
    "db_items_propagate (rd_db s1) = db_items_propagate (rd_db s)" by (simp_all add: same_items_def)
  have "map it_id (map (\<lambda>it. if it_id it = i then it\<lparr>it_participants_group := g\<rparr> else it) t) = map it_id t" for g t
    by (induction t) auto
  then have frame2: "relations s2 = relations s1" "db_items_ancestors (rd_db s2) = db_items_ancestors (rd_db s1)"
    "db_items_propagate (rd_db s2) = db_items_propagate (rd_db s1)" "map it_id (rd_items s2) = map it_id (rd_items s1)"
    using s2 by (auto simp: bind_result_Inr lift_item_Inr update_item_row_def split: if_splits dest!: create_contest_participants_group_frame)
  have "owner_row user i (db_now (rd_db s2)) \<in> set (db_permissions_granted d3)"
    using d3 by (auto simp: insert_permissions_granted_def split: if_splits)
  moreover have "pg_group (owner_row user i t) = user \<and> pg_item (owner_row user i t) = i \<and> pg_is_owner (owner_row user i t)" for t
    by (simp add: owner_row_def default_granted_row_def)
  ultimately have owner: "\<exists>g \<in> set (db_permissions_granted d3). pg_group g = user \<and> pg_item g = i \<and> pg_is_owner g" by blast
  show ?thesis
    by (rule exI [of _ "s2\<lparr>rd_db := d3\<rparr>"])
       (use fresh last ids frame1 frame2 owner insert_permissions_granted_frame [OF d3] in simp)
qed

lemma set_new_item_as_root_same: "same_items s (set_new_item_as_root r i s)"
  by (simp add: set_new_item_as_root_def same_items_def split: option.split)

lemma create_new_item_ancestors_frame:
  "create_new_item_ancestors s = Inr s' \<Longrightarrow> db_permissions_granted (rd_db s') = db_permissions_granted (rd_db s) \<and> rd_items s' = rd_items s"
  by (auto simp: create_new_item_ancestors_def items_create_new_ancestors_def bind_result_Inr split: sum.splits)

lemma upsert_items_items_granted:
  "upsert_items_items c s = Inr s' \<Longrightarrow> db_permissions_granted (rd_db s') = db_permissions_granted (rd_db s)"
  by (auto simp: upsert_items_items_def Let_def after_insert_items_items_def after_update_items_items_def mark_results_propagated_def
      mark_results_recomputed_def mark_children_permissions_def mark_item_todo_def split: if_splits option.splits)

lemma insert_item_items_granted:
  "insert_item_items cs s = Inr s' \<Longrightarrow> db_permissions_granted (rd_db s') = db_permissions_granted (rd_db s)"
  unfolding insert_item_items_def
  by (rule fold_result_invariant [where I = "\<lambda>t. db_permissions_granted (rd_db t) = db_permissions_granted (rd_db s)"])
     (auto dest: upsert_items_items_granted)

lemma acyclic_new_item:
  assumes "acyclic E" and "finite C" and "i \<notin> Domain E" "i \<notin> Range E" "i \<notin> C"
    and "A \<subseteq> {p}" and "i \<notin> A" and "\<And>c. p \<in> A \<Longrightarrow> c \<in> C \<Longrightarrow> (c, p) \<notin> E\<^sup>*"
  shows "acyclic (E \<union> A \<times> {i} \<union> {i} \<times> C)"
proof (rule acyclic_star [OF _ assms(2)])
  have reach: "(x, i) \<in> E\<^sup>* \<longleftrightarrow> x = i" for x using assms(4) by (auto elim: rtranclE)
  have leave: "(i, x) \<in> E\<^sup>* \<longleftrightarrow> x = i" for x using assms(3) by (auto elim: converse_rtranclE)
  consider "A = {}" | "A = {p}" using assms(6) by auto
  then have "acyclic (E \<union> A \<times> {i}) \<and> (\<forall>c \<in> C. (c, i) \<notin> (E \<union> A \<times> {i})\<^sup>*)"
  proof cases
    case 1
    then show ?thesis using assms(1,5) reach by auto
  next
    case 2
    then have "E \<union> A \<times> {i} = insert (p, i) E" by auto
    moreover have "acyclic (insert (p, i) E)" using assms(1,7) leave 2 by (auto simp: acyclic_insert)
    moreover have "(c, i) \<notin> (insert (p, i) E)\<^sup>*" if "c \<in> C" for c
      using that assms(5) assms(8) [of c] reach 2 by (auto simp: rtrancl_insert)
    ultimately show ?thesis by simp
  qed
  then show "acyclic (E \<union> A \<times> {i})" "\<And>c. c \<in> C \<Longrightarrow> (c, i) \<notin> (E \<union> A \<times> {i})\<^sup>*" by auto
qed

text \<open>The relation to the parent, if there is one.\<close>

definition parent_specs :: "db \<Rightarrow> new_item_request \<Rightarrow> id \<Rightarrow> insert_spec list" where
  "parent_specs d r i =
     (case nr_parent r of None \<Rightarrow> [] | Some p \<Rightarrow> (case np_item p of None \<Rightarrow> [] | Some parent \<Rightarrow> [parent_spec d p parent i]))"

lemma insert_relations_of_item_run:
  assumes "insert_relations_of_item r specs i s = Inr s'"
  shows "s' = s \<and> specs = [] \<and> nr_parent r = None \<or>
    (\<exists>s2. insert_item_items (parent_specs (rd_db s) r i @ map (\<lambda>c. c\<lparr>is_parent := i\<rparr>) specs) s = Inr s2 \<and> create_new_item_ancestors s2 = Inr s')"
proof (cases "nr_parent r = None \<and> specs = []")
  case True
  then show ?thesis using assms by (simp add: insert_relations_of_item_def)
next
  case False
  then have "bind_result (insert_item_items (parent_specs (rd_db s) r i @ map (\<lambda>c. c\<lparr>is_parent := i\<rparr>) specs) s) create_new_item_ancestors = Inr s'"
    using assms unfolding insert_relations_of_item_def parent_specs_def Let_def by (simp only: if_False)
  then show ?thesis by (simp only: bind_result_Inr) blast
qed

lemma parent_specs_facts:
  assumes "parent_item_info s user r = Some t" and "spec \<in> set (parent_specs d r i)"
  shows "is_child spec = i" "nr_parent r \<noteq> None" "value_or_default (np_item (the (nr_parent r))) 0 = is_parent spec"
    "item_of s (is_parent spec) \<noteq> None"
    "\<exists>p. aggregated_permissions (rd_db s) user (is_parent spec) = Some p \<and> content_level \<le> ip_can_view p \<and>
       the_level (edit_index ''children'') \<le> ip_can_edit p"
    "parent_specs d r i = [spec]"
proof -
  obtain p where p1: "nr_parent r = Some p" using assms(2) by (cases "nr_parent r") (simp_all add: parent_specs_def)
  moreover obtain parent where "np_item p = Some parent" using assms(2) p1 by (cases "np_item p") (simp_all add: parent_specs_def)
  ultimately have p: "nr_parent r = Some p" "np_item p = Some parent" by simp_all
  then have specs: "parent_specs d r i = [parent_spec d p parent i]" by (simp add: parent_specs_def)
  then have spec: "spec = parent_spec d p parent i" using assms(2) by simp
  then have parent: "is_parent spec = parent" "is_child spec = i" by (simp_all add: parent_spec_def)
  have "\<exists>q. item_with_permissions s user content_level parent = Some q \<and> the_level (edit_index ''children'') \<le> ip_can_edit (pt_permission q)"
    using assms(1) p by (auto simp: parent_item_info_def split: option.splits if_splits)
  then obtain q where q: "item_with_permissions s user content_level parent = Some q"
    "the_level (edit_index ''children'') \<le> ip_can_edit (pt_permission q)" by blast
  then have "item_of s parent \<noteq> None" "aggregated_permissions (rd_db s) user parent = Some (pt_permission q)"
    "content_level \<le> ip_can_view (pt_permission q)"
    by (auto simp: item_with_permissions_def split: option.splits if_splits)
  with q(2) p specs spec parent show "is_child spec = i" "nr_parent r \<noteq> None" "value_or_default (np_item (the (nr_parent r))) 0 = is_parent spec"
    "item_of s (is_parent spec) \<noteq> None" "\<exists>p. aggregated_permissions (rd_db s) user (is_parent spec) = Some p \<and>
       content_level \<le> ip_can_view p \<and> the_level (edit_index ''children'') \<le> ip_can_edit p" "parent_specs d r i = [spec]"
    by (simp_all add: value_or_default_def)
qed

lemma propagation_allowed_parent: "propagation_allowed p old (relation_of_spec (c\<lparr>is_parent := i\<rparr>)) = propagation_allowed p old (relation_of_spec c)"
  by (simp add: propagation_allowed_def relation_of_spec_def)

lemma create_item_facts:
  assumes "create_item languages user temp r ids s = Inr (i, s')" and "items_ok s"
  shows "item_of s i = None \<and> items_ok s' \<and>
    (\<exists>g \<in> set (db_permissions_granted (rd_db s')). pg_group g = user \<and> pg_item g = i \<and> pg_is_owner g) \<and>
    filter (\<lambda>e. ii_parent e \<noteq> i \<and> ii_child e \<noteq> i) (relations s') = relations s \<and>
    (\<forall>e \<in> set (relations s'). ii_parent e = i \<longrightarrow>
       may_use_child s user None (ii_child e) \<and> propagation_allowed (child_permission s user (ii_child e)) None e) \<and>
    (\<forall>e \<in> set (relations s'). ii_child e = i \<longrightarrow>
       (\<exists>p. aggregated_permissions (rd_db s) user (ii_parent e) = Some p \<and> content_level \<le> ip_can_view p \<and>
          the_level (edit_index ''children'') \<le> ip_can_edit p))"
proof -
  from create_item_run [OF assms(1)] obtain info specs s4 where valid: "validate_new_item languages s user r = Some info"
    and no_cycle: "nr_parent r \<noteq> None \<and> nr_children r \<noteq> [] \<longrightarrow> can_create_items_relations_without_cycles (rd_db s) r"
    and specs: "validate_children 0 info [] (nr_children r) = Inr specs" and s4: "insert_item user r specs ids s = Inr (i, s4)"
    and s': "s' = schedule_both (set_new_item_as_root r i s4)" by blast
  from insert_item_run [OF s4] obtain s3 where fresh: "item_of s i = None" and run: "insert_relations_of_item r specs i s3 = Inr s4"
    and frame: "relations s3 = relations s" "db_items_ancestors (rd_db s3) = db_items_ancestors (rd_db s)"
      "db_items_propagate (rd_db s3) = db_items_propagate (rd_db s)" "map it_id (rd_items s3) = map it_id (rd_items s) @ [i]"
    and owner: "\<exists>g \<in> set (db_permissions_granted (rd_db s3)). pg_group g = user \<and> pg_item g = i \<and> pg_is_owner g" by blast
  let ?E = "item_edges (rd_db s)" and ?C = "ic_item ` set (nr_children r)"
  let ?all = "parent_specs (rd_db s3) r i @ map (\<lambda>c. c\<lparr>is_parent := i\<rparr>) specs"
  let ?A = "is_parent ` set (parent_specs (rd_db s3) r i)"
  obtain t where t: "parent_item_info s user r = Some t" and check: "check_children s user None (map ic_item (nr_children r)) = Some info"
    using valid by (auto simp: validate_new_item_def split: option.splits if_splits)
  have ok: "items_cached (rd_db s)" "\<And>p c. (p, c) \<in> ?E \<Longrightarrow> item_of s p \<noteq> None \<and> item_of s c \<noteq> None"
    using assms(2) by (auto simp: items_ok_def)
  have outside: "i \<notin> Domain ?E" "i \<notin> Range ?E" using ok(2) fresh by blast+
  note parent = parent_specs_facts [OF t, of _ "rd_db s3" i]
  note children = specs_of_children [OF specs]
  have child: "may_use_child s user None c \<and> (\<exists>p. map_of info c = Some p \<and> pt_permission p = child_permission s user c)" if "c \<in> ?C" for c
    using check_children_info(1) [OF check, of c] that by auto
  have "i \<notin> ?C"
  proof
    assume "i \<in> ?C"
    from child [OF this] show False using fresh by (simp add: may_use_child_def item_with_permissions_def)
  qed
  have keys: "(\<lambda>c. (is_parent c, is_child c)) ` set ?all = ?A \<times> {i} \<union> {i} \<times> ?C"
  proof -
    have "(\<lambda>c. (is_parent c, is_child c)) ` set (parent_specs (rd_db s3) r i) = ?A \<times> {i}" using parent(1) by force
    moreover have "(\<lambda>c. (is_parent c, is_child c)) ` set (map (\<lambda>c. c\<lparr>is_parent := i\<rparr>) specs) = {i} \<times> is_child ` set specs"
      by (auto simp: image_iff)
    ultimately show ?thesis using children(1) by (simp add: image_Un)
  qed
  have "acyclic (?E \<union> ?A \<times> {i} \<union> {i} \<times> ?C)"
  proof (rule acyclic_new_item [where p = "value_or_default (np_item (the (nr_parent r))) 0"])
    show "acyclic ?E" using ok(1) by (simp add: items_cached_def)
    show "i \<notin> ?A" using parent(4) fresh by (metis imageE)
    show "?A \<subseteq> {value_or_default (np_item (the (nr_parent r))) 0}" using parent(3) by auto
    fix c assume "value_or_default (np_item (the (nr_parent r))) 0 \<in> ?A" and c: "c \<in> ?C"
    then have "can_create_items_relations_without_cycles (rd_db s) r" using no_cycle parent(2) by auto
    moreover obtain p where p: "nr_parent r = Some p" using \<open>value_or_default (np_item (the (nr_parent r))) 0 \<in> ?A\<close> parent(2) by auto
    ultimately have q: "value_or_default (np_item p) 0 \<notin> ?C" "(c, value_or_default (np_item p) 0) \<notin> set (db_items_ancestors (rd_db s))"
      using c by (auto simp: can_create_items_relations_without_cycles_def Let_def)
    have "c \<noteq> value_or_default (np_item p) 0" using q(1) c by metis
    moreover have "(c, value_or_default (np_item p) 0) \<notin> ?E\<^sup>+" using q(2) ok(1) by (simp only: items_cached_def not_False_eq_True)
    ultimately show "(c, value_or_default (np_item (the (nr_parent r))) 0) \<notin> ?E\<^sup>*"
      unfolding p option.sel by (metis rtranclD)
  qed (simp_all add: outside \<open>i \<notin> ?C\<close>)
  note acyclic = this
  have edges3: "item_edges (rd_db s3) = ?E" by (simp add: item_edges_image frame(1))
  have cached3: "items_cached (rd_db s3)" using ok(1) frame(2,3) by (simp add: items_cached_def edges3)
  have main: "items_cached (rd_db s4) \<and> item_edges (rd_db s4) \<subseteq> ?E \<union> ?A \<times> {i} \<union> {i} \<times> ?C \<and>
      (\<forall>(p, c) \<in> item_edges (rd_db s4). item_of s4 p \<noteq> None \<and> item_of s4 c \<noteq> None) \<and>
      db_permissions_granted (rd_db s4) = db_permissions_granted (rd_db s3) \<and>
      filter (\<lambda>e. ii_parent e \<noteq> i \<and> ii_child e \<noteq> i) (relations s4) = filter (\<lambda>e. ii_parent e \<noteq> i \<and> ii_child e \<noteq> i) (relations s3) \<and>
      (\<forall>e \<in> set (relations s4). e \<in> relation_of_spec ` set ?all \<or> e \<in> set (relations s))"
  proof -
    have old_exist: "item_of s3 j \<noteq> None" if "item_of s j \<noteq> None" for j using that unfolding item_exists frame(4) by simp
    from insert_relations_of_item_run [OF run] show ?thesis
    proof (elim disjE exE conjE)
      assume "s4 = s3"
      then show ?thesis using cached3 ok(2) old_exist edges3 frame(1) by auto
    next
      fix s5 assume s5: "insert_item_items ?all s3 = Inr s5" and anc: "create_new_item_ancestors s5 = Inr s4"
      note ins = insert_item_items_effect [OF s5, unfolded keys edges3]
      from ins have edges5: "item_edges (rd_db s5) = ?E \<union> ?A \<times> {i} \<union> {i} \<times> ?C" by (simp add: Un_assoc)
      have marked: "(p, c) \<in> item_edges (rd_db s5) \<longleftrightarrow> (p, c) \<in> item_edges (rd_db s3)"
        if "\<not> todo (db_items_propagate (rd_db s5)) c" for p c
      proof -
        from that ins have "c \<notin> snd ` (\<lambda>c. (is_parent c, is_child c)) ` set ?all" by (auto simp: image_image)
        then have "(p, c) \<notin> ?A \<times> {i} \<union> {i} \<times> ?C" unfolding keys by (metis imageI snd_conv)
        then show ?thesis unfolding edges5 edges3 by blast
      qed
      have "acyclic (item_edges (rd_db s5))" unfolding edges5 by (rule acyclic)
      from new_ancestors_right [OF anc cached3 this _ marked] ins
      have right: "items_cached (rd_db s4)" "relations s4 = relations s5" "rd_items s4 = rd_items s5" by auto
      have edges4: "item_edges (rd_db s4) = item_edges (rd_db s5)" by (simp add: item_edges_image right(2))
      have exist: "item_of s4 p \<noteq> None \<and> item_of s4 c \<noteq> None" if "(p, c) \<in> item_edges (rd_db s5)" for p c
      proof -
        have same: "item_of s4 j = item_of s3 j" for j using right(3) ins by (simp add: item_of_def)
        from that consider "(p, c) \<in> ?E" | "(p, c) \<in> (\<lambda>c. (is_parent c, is_child c)) ` set ?all" unfolding keys edges5 by blast
        then show ?thesis
        proof cases
          case 1
          then show ?thesis using ok(2) old_exist unfolding same by blast
        next
          case 2
          then obtain spec where "spec \<in> set ?all" "p = is_parent spec" "c = is_child spec" by auto
          then show ?thesis using ins unfolding same by blast
        qed
      qed
      have "\<forall>c \<in> set ?all. (\<lambda>(p, c). p = i \<or> c = i) (is_parent c, is_child c)" using keys by (force simp: image_iff)
      from insert_items_frame_other [OF s5 this]
      have "filter (\<lambda>e. ii_parent e \<noteq> i \<and> ii_child e \<noteq> i) (relations s4) = filter (\<lambda>e. ii_parent e \<noteq> i \<and> ii_child e \<noteq> i) (relations s3)"
        by (simp add: ii_key_def right(2))
      moreover have "item_edges (rd_db s4) \<subseteq> ?E \<union> ?A \<times> {i} \<union> {i} \<times> ?C" unfolding edges4 edges5 by (rule subset_refl)
      moreover have "\<forall>(p, c) \<in> item_edges (rd_db s4). item_of s4 p \<noteq> None \<and> item_of s4 c \<noteq> None"
        unfolding edges4 using exist by blast
      moreover have "db_permissions_granted (rd_db s4) = db_permissions_granted (rd_db s3)"
        using insert_item_items_granted [OF s5] create_new_item_ancestors_frame [OF anc] by simp
      moreover have "\<forall>e \<in> set (relations s4). e \<in> relation_of_spec ` set ?all \<or> e \<in> set (relations s)"
        using ins unfolding right(2) frame(1) by blast
      ultimately show ?thesis using right(1) by blast
    qed
  qed
  have same: "same_items s4 s'"
    using schedule_same(1) [of "set_new_item_as_root r i s4"] set_new_item_as_root_same [of s4 r i] by (simp add: s' same_items_def)
  have granted: "db_permissions_granted (rd_db s') = db_permissions_granted (rd_db s4)"
    by (simp add: s' schedule_both_def set_new_item_as_root_def schedule_permissions_propagation_def schedule_results_propagation_def split: option.split)
  have rows: "relations s' = relations s4" using same by (simp add: same_items_def)
  have "items_ok s4" using main unfolding items_ok_def by auto
  then have "items_ok s'" using same_items_ok [OF same] by simp
  moreover have "filter (\<lambda>e. ii_parent e \<noteq> i \<and> ii_child e \<noteq> i) (relations s) = relations s"
    using outside by (intro filter_True) (force simp: item_edges_image ii_key_def)
  moreover have "may_use_child s user None (ii_child e) \<and> propagation_allowed (child_permission s user (ii_child e)) None e"
    if e: "e \<in> set (relations s4)" "ii_parent e = i" for e
  proof -
    have "e \<notin> set (relations s)" using outside(1) e(2) by (force simp: item_edges_image ii_key_def)
    then obtain x where x: "x \<in> set ?all" "e = relation_of_spec x" using main e(1) by blast
    then have "is_parent x = i" using e(2) by (simp add: relation_of_spec_def)
    then have "x \<notin> set (parent_specs (rd_db s3) r i)" using parent(4) [of x] fresh by metis
    then have "x \<in> (\<lambda>c. c\<lparr>is_parent := i\<rparr>) ` set specs" using x(1) by (simp only: set_append set_map Un_iff) blast
    then obtain spec where spec: "spec \<in> set specs" "e = relation_of_spec (spec\<lparr>is_parent := i\<rparr>)" using x(2) by blast
    then have "ii_child e = is_child spec" by (simp add: relation_of_spec_def)
    moreover from children(3) [OF spec(1)] obtain p where "map_of info (is_child spec) = Some p" "is_child spec \<in> ?C"
      "propagation_allowed (pt_permission p) None (relation_of_spec spec)" by auto
    moreover from child [OF this(2)] this(1) have "may_use_child s user None (is_child spec)" "pt_permission p = child_permission s user (is_child spec)"
      by auto
    ultimately show ?thesis by (simp add: spec(2) propagation_allowed_parent)
  qed
  moreover have "\<exists>p. aggregated_permissions (rd_db s) user (ii_parent e) = Some p \<and> content_level \<le> ip_can_view p \<and>
      the_level (edit_index ''children'') \<le> ip_can_edit p" if e: "e \<in> set (relations s4)" "ii_child e = i" for e
  proof -
    have "(ii_parent e, i) \<in> item_edges (rd_db s4)" using e by (force simp: item_edges_image ii_key_def)
    then have "ii_parent e \<in> ?A" using main outside(2) \<open>i \<notin> ?C\<close> by blast
    then show ?thesis using parent(5) by auto
  qed
  ultimately show ?thesis
    using fresh owner main unfolding rows granted frame(1) by auto
qed

text \<open>
  C6: A created item is new, owned by its creator, and changes no relation of other items.  It is a child only of an item whose
  children the creator may edit, its children are items the creator sees, with propagations that the permissions of the creator allow, and
  the graph of items stays free of cycles with its closure stored.
\<close>

theorem create_item_no_escalation:
  assumes "create_item languages user temp r ids s = Inr (i, s')" and "items_ok s"
  shows "item_of s i = None \<and> items_ok s' \<and>
    (\<exists>g \<in> set (db_permissions_granted (rd_db s')). pg_group g = user \<and> pg_item g = i \<and> pg_is_owner g) \<and>
    filter (\<lambda>e. ii_parent e \<noteq> i \<and> ii_child e \<noteq> i) (relations s') = relations s \<and>
    (\<forall>e \<in> set (relations s'). ii_parent e = i \<longrightarrow>
       may_use_child s user None (ii_child e) \<and> propagation_allowed (child_permission s user (ii_child e)) None e) \<and>
    (\<forall>e \<in> set (relations s'). ii_child e = i \<longrightarrow>
       (\<exists>p. aggregated_permissions (rd_db s) user (ii_parent e) = Some p \<and> content_level \<le> ip_can_view p \<and>
          the_level (edit_index ''children'') \<le> ip_can_edit p))"
  by (rule create_item_facts [OF assms])

lemma update_item_ok:
  assumes "update_item user i r ids s = Inr s'" and "items_ok s"
  shows "items_ok s'"
proof -
  from update_item_run [OF assms(1)] consider "s' = s" | info :: item_to_update and children_info s1 where
    "update_item_in_db (tu_item info) (ui_item r) ids s = Inr s1"
    "update_children_and_run_listeners i children_info (generate_old_propagation_levels_map (rd_db s) i) r s1 = Inr s'" by blast
  then show ?thesis
  proof cases
    case (2 info children_info s1)
    have ok: "items_ok s1" using same_items_ok [OF update_item_in_db_frame(1) [OF 2(1)]] assms(2) by simp
    show ?thesis
    proof (cases "ui_children r")
      case None
      then have "same_items s1 s'"
        using 2(2) by (auto simp: update_children_and_run_listeners_def Let_def same_items_def mark_results_recomputed_def
            schedule_results_propagation_def split: if_splits)
      then show ?thesis using same_items_ok ok by blast
    next
      case (Some cs)
      then show ?thesis
        using 2(2) ok replace_children_rows(3) same_items_ok [OF schedule_same(1)]
        by (auto simp: update_children_and_run_listeners_def bind_result_Inr)
    qed
  qed (use assms(2) in simp)
qed

section \<open>Deletion\<close>

lemma delete_item_run:
  assumes "delete_item user i s = Inr s'"
  shows "\<exists>s1 s2. delete_item_row i s = Inr s1 \<and> create_new_item_ancestors s1 = Inr s2 \<and> s' = schedule_both s2"
  using assms by (auto simp: delete_item_def lift_item_Inr delete_item_store_def bind_result_Inr split: if_splits)

lemma delete_item_row_effect:
  assumes "delete_item_row i s = Inr s'"
  shows "relations s' = filter (\<lambda>e. ii_child e \<noteq> i) (relations s)" "\<forall>e \<in> set (relations s). ii_parent e \<noteq> i"
    and "db_items_ancestors (rd_db s') = filter (\<lambda>(a, c). c \<noteq> i) (db_items_ancestors (rd_db s))"
    and "db_items_propagate (rd_db s') = filter (\<lambda>(j, m). j \<noteq> i) (db_items_propagate (rd_db s))"
    and "rd_items s' = filter (\<lambda>it. it_id it \<noteq> i) (rd_items s)"
    and "rd_results s' = filter (\<lambda>r. rs_item r \<noteq> i) (rd_results s)"
    and "rd_propagate s' = filter (\<lambda>((p, a, j), m). j \<noteq> i) (rd_propagate s)"
    and "rd_recompute_for_items s' = filter (\<lambda>(j, b). j \<noteq> i) (rd_recompute_for_items s)"
  using assms by (auto simp: delete_item_row_def delete_item_cascade_def tbl_delete_def split: if_splits)

lemma trancl_without_sink:
  assumes "i \<notin> Domain E"
  shows "(a, c) \<in> {(p, c) \<in> E. c \<noteq> i}\<^sup>+ \<longleftrightarrow> (a, c) \<in> E\<^sup>+ \<and> c \<noteq> i"
proof
  assume "(a, c) \<in> {(p, c) \<in> E. c \<noteq> i}\<^sup>+"
  then show "(a, c) \<in> E\<^sup>+ \<and> c \<noteq> i" by (induction rule: trancl_induct) auto
next
  assume "(a, c) \<in> E\<^sup>+ \<and> c \<noteq> i"
  then have "(a, c) \<in> E\<^sup>+" "c \<noteq> i" by simp_all
  then show "(a, c) \<in> {(p, c) \<in> E. c \<noteq> i}\<^sup>+"
  proof (induction rule: trancl_induct)
    case (step b c)
    then have "(b, c) \<in> {(p, c) \<in> E. c \<noteq> i}" "b \<noteq> i" using assms by auto
    then show ?case using step.IH by (meson trancl.trancl_into_trancl)
  qed auto
qed

lemma delete_item_ok:
  assumes "delete_item user i s = Inr s'" and "items_ok s"
  shows "items_ok s'"
proof -
  from delete_item_run [OF assms(1)] obtain s1 s2 where s1: "delete_item_row i s = Inr s1"
    and anc: "create_new_item_ancestors s1 = Inr s2" and s': "s' = schedule_both s2" by blast
  note del = delete_item_row_effect [OF s1]
  have ok: "items_cached (rd_db s)" "\<And>p c. (p, c) \<in> item_edges (rd_db s) \<Longrightarrow> item_of s p \<noteq> None \<and> item_of s c \<noteq> None"
    using assms(2) by (auto simp: items_ok_def)
  have edges: "item_edges (rd_db s1) = {(p, c) \<in> item_edges (rd_db s). c \<noteq> i}"
    by (force simp: item_edges_image del(1) ii_key_def)
  have outside: "i \<notin> Domain (item_edges (rd_db s))" using del(2) by (auto simp: item_edges_image ii_key_def)
  have "\<not> todo (db_items_propagate (rd_db s1)) c" for c
  proof -
    have "map_of (filter (\<lambda>(j, m). j \<noteq> i) xs) c = (if c = i then None else map_of xs c)" for xs :: "(id, computation_state) gomap"
      by (induction xs) auto
    then show ?thesis using ok(1) by (simp add: del(4) items_cached_def)
  qed
  moreover have "acyclic (item_edges (rd_db s1))" using ok(1) unfolding edges items_cached_def by (auto intro: acyclic_subset)
  moreover have "(a, c) \<in> set (db_items_ancestors (rd_db s1)) \<longleftrightarrow> (a, c) \<in> (item_edges (rd_db s1))\<^sup>+" for a c
    using ok(1) unfolding edges trancl_without_sink [OF outside] items_cached_def del(3) by auto
  ultimately have cached: "items_cached (rd_db s1)" by (simp add: items_cached_def)
  then have "acyclic (item_edges (rd_db s1))" by (simp add: items_cached_def)
  from new_ancestors_right [OF anc cached this refl refl]
  have right: "items_cached (rd_db s2)" "relations s2 = relations s1" "rd_items s2 = rd_items s1" by auto
  have same_edges: "item_edges (rd_db s2) = item_edges (rd_db s1)" by (simp add: item_edges_image right(2))
  have "item_of s2 p \<noteq> None \<and> item_of s2 c \<noteq> None" if "(p, c) \<in> item_edges (rd_db s2)" for p c
  proof -
    have "(p, c) \<in> item_edges (rd_db s)" "c \<noteq> i" "p \<noteq> i"
      using that [unfolded same_edges edges] outside by auto
    then show ?thesis using ok(2) [of p c] unfolding item_exists right(3) del(5) by auto
  qed
  then have "items_ok s2" using right(1) unfolding items_ok_def by auto
  then show ?thesis using same_items_ok [OF schedule_same(1)] by (simp add: s')
qed

text \<open>
  The deletion of an item takes its own relations, results and marks away and marks nothing: the results of the chapters it was in keep
  the values computed with it, and no pending recomputation will correct them.
\<close>

lemma deletion_marks_nothing:
  assumes "delete_item user i s = Inr s'"
  shows "relations s' = filter (\<lambda>e. ii_child e \<noteq> i) (relations s) \<and>
    rd_results s' = filter (\<lambda>r. rs_item r \<noteq> i) (rd_results s) \<and>
    rd_propagate s' = filter (\<lambda>((p, a, j), m). j \<noteq> i) (rd_propagate s) \<and>
    rd_recompute_for_items s' = filter (\<lambda>(j, b). j \<noteq> i) (rd_recompute_for_items s)"
proof -
  from delete_item_run [OF assms] obtain s1 s2 where s1: "delete_item_row i s = Inr s1"
    and anc: "create_new_item_ancestors s1 = Inr s2" and s': "s' = schedule_both s2" by blast
  have "rd_results s2 = rd_results s1 \<and> rd_propagate s2 = rd_propagate s1 \<and> rd_recompute_for_items s2 = rd_recompute_for_items s1 \<and>
      relations s2 = relations s1"
    using anc by (auto simp: create_new_item_ancestors_def bind_result_Inr items_create_new_ancestors_def split: sum.splits)
  then show ?thesis
    using schedule_same [of s2] delete_item_row_effect [OF s1] by (simp add: s' same_items_def same_marks_def)
qed

section \<open>Any sequence of services\<close>

inductive item_step :: "results_db \<Rightarrow> results_db \<Rightarrow> bool" where
  created: "create_item languages user temp r ids s = Inr (i, s') \<Longrightarrow> item_step s s'"
| updated: "update_item user i u ids s = Inr s' \<Longrightarrow> item_step s s'"
| deleted: "delete_item user i s = Inr s' \<Longrightarrow> item_step s s'"
| other: "same_items s s' \<Longrightarrow> item_step s s'"

text \<open>
  C4: Whatever sequence of creations, updates and deletions of items is run, and of services that leave the tables of items alone, every
  relation joins existing items, the relations form no cycle, and \<open>items_ancestors\<close> holds exactly their transitive closure.
\<close>

theorem items_stay_ok:
  assumes "item_step\<^sup>*\<^sup>* s s'" and "items_ok s"
  shows "items_ok s'"
  using assms
proof (induction rule: rtranclp_induct)
  case (step y z)
  from step.hyps(2) step.IH [OF step.prems] show ?case
    by (cases rule: item_step.cases) (use create_item_facts update_item_ok delete_item_ok same_items_ok in blast)+
qed

end
