(* ===== verification/ItemListeners.thy ===== *)
theory ItemListeners
  imports ItemGuarantees
begin

text \<open>
  Which results an update of an item marks for a recomputation: all results of the item when the way its score is computed
  changes, unless the request repeats its children.
\<close>

section \<open>Relations that are written back\<close>

text \<open>The columns whose change marks something.\<close>

definition marking_columns :: "items_items_row \<Rightarrow> (content_view_propagation \<times> upper_view_levels_propagation \<times> bool \<times> bool \<times> bool) \<times> item_category \<times> nat" where
  "marking_columns e = (permission_columns e, ii_category e, ii_score_weight e)"

definition only_ordered :: "item_child \<Rightarrow> bool" where
  "only_ordered c =
     (ic_category c = None \<and> ic_score_weight c = None \<and> ic_content_view_propagation c = None \<and>
      ic_upper_view_levels_propagation c = None \<and> ic_grant_view_propagation c = None \<and> ic_watch_propagation c = None \<and>
      ic_edit_propagation c = None \<and> ic_request_help_propagation c = None)"

lemma validate_child_only_ordered:
  assumes "validate_child parent p (Some e) c = Inr spec" and "only_ordered c"
  shows "marking_columns (relation_of_spec spec) = marking_columns e"
  using assms
  by (auto simp: validate_child_def only_ordered_def bind_result_Inr marking_columns_def permission_columns_def relation_of_spec_def
      validate_content_view_propagation_def validate_upper_view_levels_propagation_def validate_grant_view_propagation_def
      validate_watch_propagation_def validate_edit_propagation_def validate_boolean_propagation_def
      apply_category_default_value_def apply_score_weight_default_value_def)

text \<open>Every relation of the list is there already, up to columns that mark nothing.\<close>

definition written_back :: "insert_spec list \<Rightarrow> results_db \<Rightarrow> bool" where
  "written_back specs s =
     (\<forall>c \<in> set specs. map_option marking_columns (tbl_find ii_key (is_parent c, is_child c) (relations s)) =
        Some (marking_columns (relation_of_spec c)))"

lemma upsert_written_back:
  assumes "upsert_items_items c s = Inr s'" and "written_back specs s" and "c \<in> set specs"
  shows "same_marks s s' \<and> written_back specs s'"
proof
  from assms(2,3) obtain old where old: "tbl_find ii_key (is_parent c, is_child c) (relations s) = Some old"
    "marking_columns old = marking_columns (relation_of_spec c)" by (auto simp: written_back_def)
  then show "same_marks s s'"
    using assms(1)
    by (auto simp: upsert_items_items_def Let_def after_update_items_items_def marking_columns_def same_marks_def split: if_splits)
  have "map_option marking_columns (tbl_find ii_key k (relations s')) = map_option marking_columns (tbl_find ii_key k (relations s))" for k
  proof (cases "k = (is_parent c, is_child c)")
    case True
    moreover have "ii_key old = (is_parent c, is_child c)" using tbl_find_Some [OF old(1)] by simp
    ultimately show ?thesis
      using old unfolding upsert_items_items_effect(1) [OF assms(1)] relation.upsert_find by (simp add: set_relation_columns_same)
  next
    case False
    then show ?thesis unfolding upsert_items_items_effect(1) [OF assms(1)] relation.upsert_find by simp
  qed
  then show "written_back specs s'" using assms(2) by (simp add: written_back_def)
qed

lemma insert_written_back:
  assumes "insert_item_items specs s = Inr s'" and "written_back specs s"
  shows "same_marks s s'"
proof -
  have "same_marks s s' \<and> written_back specs s'"
    using assms(1) unfolding insert_item_items_def
  proof (rule fold_result_invariant [where I = "\<lambda>t. same_marks s t \<and> written_back specs t"])
    show "same_marks s s \<and> written_back specs s" using assms(2) by (simp add: same_marks_def)
  qed (auto simp: same_marks_def dest: upsert_written_back)
  then show ?thesis ..
qed

lemma delete_nothing:
  assumes "\<forall>e \<in> set (relations s). \<not> P e"
  shows "same_marks s (delete_items_items P s)"
proof -
  have none: "filter P (relations s) = []" using assms by (simp add: filter_empty_conv)
  show ?thesis unfolding delete_items_items_def none by (simp add: same_marks_def)
qed

lemma replace_children_written_back:
  assumes "replace_children i info (generate_old_propagation_levels_map d i) cs s = Inr s'"
    and "db_items_items d = relations s" and "\<forall>e \<in> set (relations s). ii_parent e = i \<longrightarrow> ii_child e \<in> ic_item ` set cs"
    and "\<forall>c \<in> set cs. only_ordered c \<and> tbl_find ii_key (i, ic_item c) (relations s) \<noteq> None"
  shows "same_marks s s' \<and> map it_id (rd_items s') = map it_id (rd_items s) \<and> rd_items s' = rd_items s"
proof -
  let ?s1 = "delete_items_items (\<lambda>e. ii_parent e = i \<and> ii_child e \<notin> ic_item ` set cs) s"
  from replace_children_run [OF assms(1)] obtain specs s2 where
    specs: "validate_children i info (generate_old_propagation_levels_map d i) cs = Inr specs"
    and s2: "insert_item_items specs ?s1 = Inr s2" and anc: "create_new_item_ancestors s2 = Inr s'" by blast
  have marks1: "same_marks s ?s1" using assms(3) by (intro delete_nothing) blast
  have rows1: "relations ?s1 = relations s"
    unfolding delete_items_items_effect(1) tbl_delete_def using assms(3) by (intro filter_True) blast
  have "written_back specs ?s1"
    unfolding written_back_def rows1
  proof
    fix spec assume "spec \<in> set specs"
    then obtain c p where c: "c \<in> set cs" "validate_child i p (map_of (generate_old_propagation_levels_map d i) (ic_item c)) c = Inr spec"
      using validate_children_specs [OF specs] by (auto simp: list_all2_conv_all_nth in_set_conv_nth) (metis nth_mem)
    moreover from assms(4) c(1) obtain old where old: "tbl_find ii_key (i, ic_item c) (relations s) = Some old" "only_ordered c" by blast
    ultimately have "validate_child i p (Some old) c = Inr spec" by (simp add: map_of_old_levels assms(2))
    then show "map_option marking_columns (tbl_find ii_key (is_parent spec, is_child spec) (relations s)) = Some (marking_columns (relation_of_spec spec))"
      using validate_child_only_ordered [of i p old c spec] validate_child_allowed(2,3) [of i p "Some old" c spec] old by simp
  qed
  then have "same_marks ?s1 s2" by (rule insert_written_back [OF s2])
  moreover have "same_marks s2 s'"
    using anc by (auto simp: create_new_item_ancestors_def bind_result_Inr items_create_new_ancestors_def same_marks_def split: sum.splits)
  moreover have "rd_items s' = rd_items s"
    using create_new_item_ancestors_frame [OF anc] insert_item_items_effect [OF s2] delete_items_items_effect(3) by simp
  ultimately show ?thesis using marks1 by (simp add: same_marks_def)
qed

text \<open>
  An update that changes how the results of an item are computed marks them all for a recomputation when the request does not give the
  children.  When it repeats the children the item has, nothing is marked, although the validation type is changed just
  the same.
\<close>

lemma repeated_children_hide_validation_type:
  assumes "update_item user i r ids s = Inr s'" and "iv_validation_type (ui_item r) = Some t"
    and "\<And>cs. ui_children r = Some cs \<Longrightarrow>
      (\<forall>e \<in> set (relations s). ii_parent e = i \<longrightarrow> ii_child e \<in> ic_item ` set cs) \<and>
      (\<forall>c \<in> set cs. only_ordered c \<and> tbl_find ii_key (i, ic_item c) (relations s) \<noteq> None)"
  shows "(\<exists>it. item_of s' i = Some it \<and> it_validation_type it = t) \<and> rd_recompute_for_items s' = rd_recompute_for_items s \<and>
    (case ui_children r of
       None \<Rightarrow> (\<forall>k. state_of_result s' k = (if k \<in> set (results_of_item s i) then Some ToBeRecomputed else state_of_result s k))
     | Some cs \<Rightarrow> rd_propagate s' = rd_propagate s)"
proof -
  from assms(1,2) obtain info children_info s1 where info: "item_to_update_info s user i = Some info"
    and s1: "update_item_in_db (tu_item info) (ui_item r) ids s = Inr s1"
    and run: "update_children_and_run_listeners i children_info (generate_old_propagation_levels_map (rd_db s) i) r s1 = Inr s'"
    by (auto simp: update_item_def item_data_given_def bind_result_Inr split: option.splits if_splits)
  from info have it: "item_of s i = Some (tu_item info)" "it_id (tu_item info) = i"
    by (auto simp: item_to_update_info_def item_of_id split: option.splits if_splits)
  note frame = update_item_in_db_frame [OF s1]
  obtain g where g: "rd_items s1 = map (\<lambda>x. if it_id x = i then (set_item_values (ui_item r) (tu_item info))\<lparr>it_participants_group := g\<rparr> else x) (rd_items s)"
    using frame(3) it(2) by auto
  have "tbl_find it_id i (map (\<lambda>x. if it_id x = i then y else x) xs) = map_option (\<lambda>_. y) (tbl_find it_id i xs)" if "it_id y = i" for y xs
    using that by (induction xs) (auto simp: tbl_find_def)
  from this [of "(set_item_values (ui_item r) (tu_item info))\<lparr>it_participants_group := g\<rparr>" "rd_items s"] it
  have new: "item_of s1 i = Some ((set_item_values (ui_item r) (tu_item info))\<lparr>it_participants_group := g\<rparr>)"
    by (simp add: item_of_def g set_item_values_def)
  have "it_validation_type ((set_item_values (ui_item r) (tu_item info))\<lparr>it_participants_group := g\<rparr>) = t"
    by (simp add: set_item_values_def value_or_default_def assms(2))
  note type = new this
  show ?thesis
  proof (cases "ui_children r")
    case None
    then have s': "s' = (mark_results_recomputed i s1)\<lparr>rd_db := schedule_results_propagation (rd_db (mark_results_recomputed i s1))\<rparr>"
      using run assms(2) by (simp add: update_children_and_run_listeners_def Let_def)
    have "map_of (fold (\<lambda>k. AList.update k ToBeRecomputed) ks m) k = (if k \<in> set ks then Some ToBeRecomputed else map_of m k)" for ks m and k :: result_key
      by (rule map_of_fold_update)
    then show ?thesis
      using None frame(2) type
      by (auto simp: s' item_of_def mark_results_recomputed_def same_marks_def results_of_item_def)
  next
    case (Some cs)
    then obtain s2 where s2: "replace_children i children_info (generate_old_propagation_levels_map (rd_db s) i) cs s1 = Inr s2" and s': "s' = schedule_both s2"
      using run by (auto simp: update_children_and_run_listeners_def bind_result_Inr)
    have rows: "relations s1 = relations s" using frame(1) by (simp add: same_items_def)
    have "same_marks s1 s2 \<and> map it_id (rd_items s2) = map it_id (rd_items s1) \<and> rd_items s2 = rd_items s1"
      by (rule replace_children_written_back [OF s2]) (use assms(3) [OF Some] rows in simp_all)
    then show ?thesis
      using frame(2) type schedule_same(2) [of s2] Some
      by (auto simp: s' same_marks_def schedule_both_def item_of_def)
  qed
qed

end
