(* ===== verification/ItemExamples.thy ===== *)
theory ItemExamples
  imports ItemListeners ResultsExamples
begin

text \<open>
  A user (10) who owns the chapters (1) and (2) and sees the task (3); the theorems on the item services applied to their runs there, and
  the requests that the validators of the creation treat in an unexpected way.
\<close>

definition ex_right :: "id \<Rightarrow> nat \<Rightarrow> bool \<Rightarrow> generated_row" where
  "ex_right i level owner = \<lparr>pgen_group = 10, pgen_item = i, pgen_can_view = 3, pgen_can_grant_view = level, pgen_can_watch = 1,
     pgen_can_edit = level, pgen_is_owner = owner\<rparr>"

definition ex_items :: results_db where
  "ex_items = ex_results\<lparr>rd_propagate := [],
     rd_db := (rd_db ex_results)\<lparr>db_groups := [ex_group 10 User], db_groups_ancestors := [self_row 10],
       db_permissions_generated := [ex_right 1 3 True, ex_right 2 3 True, ex_right 3 2 True]\<rparr>\<rparr>"

definition no_values :: item_values where
  "no_values = \<lparr>iv_text_id = None, iv_no_score = None, iv_read_only = None, iv_validation_type = None,
     iv_entry_min_admitted_members_ratio = None, iv_entering_time_min = None, iv_entering_time_max = None, iv_entry_max_team_size = None,
     iv_allows_multiple_attempts = None, iv_entry_is_team = None, iv_entry_frozen_teams = None, iv_duration = None,
     iv_requires_explicit_entry = None, iv_other_columns = False\<rparr>"

definition ex_child :: "id \<Rightarrow> item_child" where
  "ex_child i = \<lparr>ic_item = i, ic_order = 1, ic_category = None, ic_score_weight = None, ic_content_view_propagation = None,
     ic_upper_view_levels_propagation = None, ic_grant_view_propagation = None, ic_watch_propagation = None, ic_edit_propagation = None,
     ic_request_help_propagation = None\<rparr>"

definition ex_parent :: "id option \<Rightarrow> parent_request" where
  "ex_parent i = \<lparr>np_item = i, np_category = None, np_score_weight = None, np_content_view_propagation = None,
     np_upper_view_levels_propagation = None, np_grant_view_propagation = None, np_watch_propagation = None,
     np_edit_propagation = None, np_request_help_propagation = None\<rparr>"

text \<open>A chapter below (1) that has the task (3) as its child.\<close>

definition ex_new :: new_item_request where
  "ex_new = \<lparr>nr_language_tag = ''en'', nr_type = Chapter, nr_item = no_values, nr_parent = Some (ex_parent (Some 1)),
     nr_as_root_of_group = None, nr_children = [ex_child 3]\<rparr>"

definition ex_validation :: "item_child list option \<Rightarrow> update_item_request" where
  "ex_validation cs = \<lparr>ui_item = no_values\<lparr>iv_validation_type := Some ValidationOne\<rparr>, ui_children = cs\<rparr>"

text \<open>The chapter (1) gets the task as a second child.\<close>

definition ex_children :: update_item_request where
  "ex_children = \<lparr>ui_item = no_values, ui_children = Some [ex_child 2, ex_child 3]\<rparr>"

definition ex_created :: "item_service_error + id \<times> results_db" where
  "ex_created = create_item [''en''] 10 False ex_new [2, 4] ex_items"

definition items_after :: "item_service_error + results_db \<Rightarrow> results_db" where
  "items_after r = (case r of Inl _ \<Rightarrow> ex_items | Inr s \<Rightarrow> s)"

definition item_row_exists :: "id \<Rightarrow> results_db \<Rightarrow> bool" where
  "item_row_exists i s = (item_of s i \<noteq> None)"

definition relation_keys :: "results_db \<Rightarrow> (id \<times> id) list" where
  "relation_keys s = map ii_key (relations s)"

section \<open>Facts of the runs\<close>

lemma ex_created_run:
  "map_sum id (\<lambda>(i, s). (i, relation_keys s, set (db_items_ancestors (rd_db s)))) ex_created =
   Inr (4, [(1, 2), (2, 3), (1, 4), (4, 3)], {(1, 2), (1, 3), (2, 3), (1, 4), (4, 3)})"
  by code_simp

lemma ex_updated_run:
  "map_sum id relation_keys (update_item 10 1 ex_children [] ex_items) = Inr [(1, 2), (2, 3), (1, 3)]"
  by code_simp

lemma ex_repeated_run:
  "map_sum id (map it_validation_type \<circ> rd_items) (update_item 10 1 (ex_validation (Some [ex_child 2])) [] ex_items) =
   Inr [ValidationOne, ValidationAll, ValidationAll]"
  by code_simp

lemma ex_deleted_run: "map_sum id relation_keys (delete_item 10 3 ex_items) = Inr [(1, 2)]"
  by code_simp

text \<open>
  Two requests of a creation: a flag set to false is refused, even without a duration, and a parent without an item stands in
  for a parent, so that the item is created outside every chapter.
\<close>

lemma creation_quirks:
  "create_item [''en''] 10 False (ex_new\<lparr>nr_item := no_values\<lparr>iv_requires_explicit_entry := Some False\<rparr>\<rparr>) [4] ex_items =
     Inl InvalidItemRequest \<and>
   map_sum id (\<lambda>(i, s). relation_keys s) (create_item [''en''] 10 False (ex_new\<lparr>nr_parent := Some (ex_parent None)\<rparr>) [4] ex_items) =
     Inr [(1, 2), (2, 3), (4, 3)] \<and>
   map_sum id (\<lambda>(i, s). relation_keys s) (create_item [''en''] 10 False (ex_new\<lparr>nr_parent := None\<rparr>) [4] ex_items) =
     Inl InvalidItemRequest"
  by (intro conjI; code_simp)

lemma runs_of:
  "map_sum id f r = Inr y \<Longrightarrow> \<exists>x. r = Inr x \<and> f x = y"
  by (cases r) simp_all

lemma ex_edges: "item_edges (rd_db ex_items) = {(1, 2), (2, 3)}"
proof -
  have "item_edges (rd_db ex_items) = ii_key ` set (relations ex_items)" by (auto simp: item_edges_def ii_key_def)
  moreover have "ii_key ` set (relations ex_items) = {(1, 2), (2, 3)}" by code_simp
  ultimately show ?thesis by simp
qed

lemma ex_closure: "{(1, 2), (2, 3)}\<^sup>+ = {(1, 2), (1, 3), (2, 3 :: id)}"
  by code_simp

lemma ex_items_ok: "items_ok ex_items"
proof -
  have "acyclic {(1, 2), (2, 3 :: id)}" by (simp add: acyclic_def ex_closure)
  moreover have "set (db_items_ancestors (rd_db ex_items)) = {(1, 2), (1, 3), (2, 3)}" by code_simp
  moreover have "db_items_propagate (rd_db ex_items) = []" by code_simp
  moreover have "item_of ex_items 1 \<noteq> None \<and> item_of ex_items 2 \<noteq> None \<and> item_of ex_items 3 \<noteq> None" by code_simp
  ultimately show ?thesis by (simp add: items_ok_def items_cached_def ex_edges ex_closure)
qed

section \<open>The theorems applied\<close>

lemma update_item_no_escalation_witness:
  "\<exists>s e. update_item 10 1 ex_children [] ex_items = Inr s \<and> e \<in> set (relations s) \<and> ii_parent e = 1 \<and> e \<notin> set (relations ex_items) \<and>
     ii_child e = 3 \<and> may_use_child ex_items 10 None 3 \<and> propagation_allowed (child_permission ex_items 10 3) None e"
proof -
  from runs_of [OF ex_updated_run] obtain s where s: "update_item 10 1 ex_children [] ex_items = Inr s"
    and keys: "relation_keys s = [(1, 2), (2, 3), (1, 3)]" by blast
  then have "(1, 3) \<in> set (map ii_key (relations s))" by (simp add: relation_keys_def)
  then obtain e where e: "e \<in> set (relations s)" "ii_parent e = 1" "ii_child e = 3" by (auto simp: ii_key_def)
  have "\<forall>e \<in> set (relations ex_items). ii_key e \<noteq> (1, 3)" and old: "tbl_find ii_key (1, 3) (relations ex_items) = None" by code_simp+
  then have "e \<notin> set (relations ex_items)" using e by (auto simp: ii_key_def)
  moreover have "\<forall>e \<in> set (relations s). ii_parent e = 1 \<longrightarrow> e \<in> set (relations ex_items) \<or>
       (let old = tbl_find ii_key (1, ii_child e) (relations ex_items) in
          may_use_child ex_items 10 old (ii_child e) \<and> propagation_allowed (child_permission ex_items 10 (ii_child e)) old e)"
    using update_item_no_escalation [OF s ex_items_ok] by blast
  ultimately have "may_use_child ex_items 10 None 3 \<and> propagation_allowed (child_permission ex_items 10 3) None e"
    using e old by (auto simp: Let_def)
  with s e \<open>e \<notin> set (relations ex_items)\<close> show ?thesis by blast
qed

lemma create_item_no_escalation_witness:
  "\<exists>s. ex_created = Inr (4, s) \<and> item_of ex_items 4 = None \<and> items_ok s"
proof -
  from runs_of [OF ex_created_run] obtain s where "ex_created = Inr (4, s)" by auto
  then show ?thesis using create_item_no_escalation [of _ _ _ _ _ ex_items 4 s] ex_items_ok unfolding ex_created_def by blast
qed

lemma deletion_marks_nothing_witness:
  "\<exists>s. delete_item 10 3 ex_items = Inr s \<and> map rs_score_computed (rd_results s) = [0, 80] \<and> rd_propagate s = [] \<and>
     rd_recompute_for_items s = []"
proof -
  from runs_of [OF ex_deleted_run] obtain s where s: "delete_item 10 3 ex_items = Inr s" by auto
  have "map rs_score_computed (filter (\<lambda>r. rs_item r \<noteq> 3) (rd_results ex_items)) = [0, 80]"
    and "rd_propagate ex_items = [] \<and> rd_recompute_for_items ex_items = []" by code_simp+
  then show ?thesis using deletion_marks_nothing [OF s] s by simp
qed

lemma items_stay_ok_witness:
  "\<exists>s t. update_item 10 1 ex_children [] ex_items = Inr s \<and> delete_item 10 3 ex_items = Inr t \<and> items_ok s \<and> items_ok t"
proof -
  from runs_of [OF ex_updated_run] obtain s where s: "update_item 10 1 ex_children [] ex_items = Inr s" by auto
  from runs_of [OF ex_deleted_run] obtain t where t: "delete_item 10 3 ex_items = Inr t" by auto
  have "item_step ex_items s" "item_step ex_items t" by (rule item_step.updated [OF s], rule item_step.deleted [OF t])
  then show ?thesis using items_stay_ok [of ex_items, OF _ ex_items_ok] s t by blast
qed

lemma repeated_children_hide_validation_type_witness:
  "\<exists>s t. update_item 10 1 (ex_validation (Some [ex_child 2])) [] ex_items = Inr s \<and> rd_propagate s = [] \<and>
     update_item 10 1 (ex_validation None) [] ex_items = Inr t \<and> state_of_result t (10, 0, 1) = Some ToBeRecomputed"
proof -
  from runs_of [OF ex_repeated_run] obtain s where s: "update_item 10 1 (ex_validation (Some [ex_child 2])) [] ex_items = Inr s" by auto
  have "map_sum id (\<lambda>t. ()) (update_item 10 1 (ex_validation None) [] ex_items) = Inr ()" by code_simp
  from runs_of [OF this] obtain t where t: "update_item 10 1 (ex_validation None) [] ex_items = Inr t" by auto
  have type: "iv_validation_type (ui_item (ex_validation cs)) = Some ValidationOne" for cs by (simp add: ex_validation_def)
  have "(\<forall>e \<in> set (relations ex_items). ii_parent e = 1 \<longrightarrow> ii_child e \<in> ic_item ` set [ex_child 2]) \<and>
      (\<forall>c \<in> set [ex_child 2]. only_ordered c \<and> tbl_find ii_key (1, ic_item c) (relations ex_items) \<noteq> None)" by code_simp
  then have "rd_propagate s = rd_propagate ex_items"
    using repeated_children_hide_validation_type [OF s type] by (simp add: ex_validation_def)
  moreover have "state_of_result t (10, 0, 1) = Some ToBeRecomputed"
    using repeated_children_hide_validation_type [OF t type] by (simp add: ex_validation_def) (simp add: ex_items_def ex_results_simps results_of_item_def)
  ultimately show ?thesis using s t by (simp add: ex_items_def)
qed

end
