(* ===== verification/MembershipServices.thy ===== *)
theory MembershipServices
  imports MembershipGuarantees Entry
begin

text \<open>
  The services that change memberships, from the decoded request on: those of the current user (app/api/currentuser/current_user.go
  with the services that call it, join_group_by_code.go, render_group_group_transition_result.go) and those of managers
  (app/api/groups/groups.go with its callers, create_invitations.go, remove_members.go, create_code.go, remove_code.go, check_code.go),
  and the queries they use (app/database/groups.go, users.go).  They check rights and conditions and call \<open>Transition\<close>.
\<close>

section \<open>Users, rights and conflicts\<close>

record user_row =
  us_group :: id
  us_login :: string
  us_temp :: bool

datatype membership_error =
    NotAllowed
  | LeavingLocked
  | NoLeaveRequestNeeded
  | MembershipFrozen
  | ConflictingParticipations
  | EntryConditionsBroken
  | BadMembershipRequest
  | MembershipFailed db_error

definition lift_membership :: "db_error + 'a \<Rightarrow> membership_error + 'a" where
  "lift_membership r = (case r of Inl e \<Rightarrow> Inl (MembershipFailed e) | Inr x \<Rightarrow> Inr x)"

definition manages_memberships :: "db \<Rightarrow> id \<Rightarrow> id \<Rightarrow> bool" where
  "manages_memberships d user g =
     ((\<exists>m \<in> set (managed_by d user g). gm_can_manage m \<noteq> 1) \<and> (case group_by_id d g of None \<Rightarrow> False | Some x \<Rightarrow> g_type x \<noteq> User))"

text \<open>
  Members of other teams with attempts for the contests of a team.  The check before a user joins (\<open>app/database/users.go\<close>) only looks
  at the time up to which an attempt allows submissions, the one of the managers also at its end.
\<close>

definition conflicting_attempt :: "results_db \<Rightarrow> (attempt_row \<Rightarrow> bool) \<Rightarrow> id \<Rightarrow> gg_row \<Rightarrow> bool" where
  "conflicting_attempt s active team r =
     (gg_is_team_membership r \<and> gg_parent r \<noteq> team \<and>
      (\<exists>it \<in> set (rd_items s). participations s team (it_id it) \<noteq> [] \<and>
         (\<exists>a \<in> set (participations s (gg_parent r) (it_id it)).
            list_ex active (participations s team (it_id it)) \<and> active a \<or> \<not> it_allows_multiple_attempts it)))"

definition team_participations_conflict :: "results_db \<Rightarrow> id \<Rightarrow> id \<Rightarrow> bool" where
  "team_participations_conflict s team user =
     (\<exists>r \<in> set (groups_groups_active (rd_db s)). gg_child r = user \<and>
        conflicting_attempt s (\<lambda>a. now_of s < at_allows_submissions_until a) team r)"

definition is_team :: "db \<Rightarrow> id \<Rightarrow> bool" where
  "is_team d g = (case group_by_id d g of None \<Rightarrow> False | Some x \<Rightarrow> g_type x = Team)"

definition other_teams_members :: "results_db \<Rightarrow> id \<Rightarrow> id list \<Rightarrow> id list" where
  "other_teams_members s parent ids =
     (if \<not> is_team (rd_db s) parent then []
      else [gg_child r. r \<leftarrow> groups_groups_active (rd_db s), gg_child r \<in> set ids \<and>
              conflicting_attempt s (\<lambda>a. now_of s < at_allows_submissions_until a \<and> at_ended_at a = None) parent r])"

section \<open>Services of the current user\<close>

datatype user_action =
    AcceptInvitation
  | RejectInvitation
  | CreateJoinRequest
  | CreateAcceptedJoinRequest
  | CreateLeaveRequest
  | WithdrawJoinRequest
  | WithdrawLeaveRequest
  | LeaveGroup
  | JoinGroupByCode

text \<open>The action to perform; joining by a code does not look it up there.\<close>

fun transition_of_user_action :: "user_action \<Rightarrow> transition_action" where
  "transition_of_user_action AcceptInvitation = UserAcceptsInvitation"
| "transition_of_user_action RejectInvitation = UserRefusesInvitation"
| "transition_of_user_action CreateJoinRequest = UserCreatesJoinRequest"
| "transition_of_user_action CreateAcceptedJoinRequest = UserCreatesAcceptedJoinRequest"
| "transition_of_user_action WithdrawJoinRequest = UserCancelsJoinRequest"
| "transition_of_user_action WithdrawLeaveRequest = UserCancelsLeaveRequest"
| "transition_of_user_action LeaveGroup = UserLeavesGroup"
| "transition_of_user_action CreateLeaveRequest = UserCreatesLeaveRequest"
| "transition_of_user_action JoinGroupByCode = UserJoinsGroupByCode"

definition approval_required_for_leaving :: "db \<Rightarrow> group_row \<Rightarrow> bool" where
  "approval_required_for_leaving d g =
     (case g_require_lock_membership_approval_until g of None \<Rightarrow> False | Some t \<Rightarrow> db_now d < t)"

definition active_rows_of :: "db \<Rightarrow> id \<Rightarrow> id \<Rightarrow> gg_row list" where
  "active_rows_of d g user = filter (\<lambda>r. gg_parent r = g \<and> gg_child r = user) (groups_groups_active d)"

definition leaving_is_locked :: "db \<Rightarrow> id \<Rightarrow> id \<Rightarrow> bool" where
  "leaving_is_locked d g user =
     (case group_by_id d g of
        None \<Rightarrow> False
      | Some x \<Rightarrow>
          \<exists>r \<in> set (active_rows_of d g user).
            gg_lock_membership_approved_at r \<noteq> None \<and> approval_required_for_leaving d x \<or> g_frozen_membership x \<or> g_type x = Base)"

definition leave_request_possible :: "db \<Rightarrow> id \<Rightarrow> id \<Rightarrow> bool" where
  "leave_request_possible d g user =
     (case group_by_id d g of
        None \<Rightarrow> False
      | Some x \<Rightarrow>
          (\<exists>r \<in> set (active_rows_of d g user). gg_lock_membership_approved_at r \<noteq> None) \<and> approval_required_for_leaving d x \<and>
          \<not> g_frozen_membership x)"

text \<open>The error if the user may not join a team, None otherwise.\<close>

definition team_joining_error :: "results_db \<Rightarrow> group_type \<Rightarrow> id \<Rightarrow> id \<Rightarrow> membership_error option" where
  "team_joining_error s t g user =
     (if t \<noteq> Team then None
      else if team_participations_conflict s g user then Some ConflictingParticipations
      else if \<not> entry_conditions_still_satisfied s g user True then Some EntryConditionsBroken
      else None)"

definition check_preconditions_for_group_requests :: "results_db \<Rightarrow> id \<Rightarrow> id \<Rightarrow> user_action \<Rightarrow> membership_error option" where
  "check_preconditions_for_group_requests s user g action =
     (case group_by_id (rd_db s) g of
        None \<Rightarrow> Some NotAllowed
      | Some x \<Rightarrow>
          if g_type x = User \<or> action = CreateJoinRequest \<and> \<not> g_is_public x then Some NotAllowed
          else if g_frozen_membership x then Some MembershipFrozen
          else team_joining_error s (g_type x) g user)"

definition can_manage_group :: "db \<Rightarrow> id \<Rightarrow> id \<Rightarrow> bool" where
  "can_manage_group d user g = (group_exists d g \<and> (\<exists>m \<in> set (managed_by d user g). gm_can_manage m \<noteq> 1))"

text \<open>The result of the user, the approvals to ask for, and the new state.\<close>

type_synonym user_outcome = "transition_result option \<times> group_approvals \<times> results_db"

definition transition_of_user :: "transition_action \<Rightarrow> id \<Rightarrow> id \<Rightarrow> group_approvals \<Rightarrow> results_db \<Rightarrow> membership_error + user_outcome" where
  "transition_of_user action user g approvals s =
     (case transition action g [user] [(user, approvals)] user (rd_db s) of
        Inl e \<Rightarrow> Inl (MembershipFailed e)
      | Inr (results, requests, d) \<Rightarrow> Inr (map_of results user, get_approvals requests user, s\<lparr>rd_db := d\<rparr>))"

definition effective_user_action :: "results_db \<Rightarrow> id \<Rightarrow> id \<Rightarrow> user_action \<Rightarrow> user_action" where
  "effective_user_action s user g action =
     (if action = CreateJoinRequest \<and> can_manage_group (rd_db s) user g then CreateAcceptedJoinRequest else action)"

definition perform_user_group_relation_action ::
  "user_action \<Rightarrow> id \<Rightarrow> id \<Rightarrow> group_approvals \<Rightarrow> results_db \<Rightarrow> membership_error + user_outcome" where
  "perform_user_group_relation_action action0 user g approvals s =
     (let action = effective_user_action s user g action0;
          joining = (if action \<in> {CreateJoinRequest, AcceptInvitation, CreateAcceptedJoinRequest}
                     then check_preconditions_for_group_requests s user g action else None)
      in case joining of
           Some e \<Rightarrow> Inl e
         | None \<Rightarrow>
             if action = LeaveGroup \<and> \<not> group_exists (rd_db s) g then Inl (MembershipFailed RecordNotFound)
             else if action = LeaveGroup \<and> is_team (rd_db s) g \<and> \<not> entry_conditions_still_satisfied s g user True
             then Inl EntryConditionsBroken
             else transition_of_user (transition_of_user_action action) user g approvals s)"

definition perform_group_relation_action ::
  "user_action \<Rightarrow> id \<Rightarrow> bool \<Rightarrow> id \<Rightarrow> string \<Rightarrow> results_db \<Rightarrow> membership_error + user_outcome" where
  "perform_group_relation_action action user is_temp_user g approvals s =
     (if action = LeaveGroup \<and> leaving_is_locked (rd_db s) g user then Inl LeavingLocked
      else if action = CreateLeaveRequest \<and> \<not> leave_request_possible (rd_db s) g user then Inl NoLeaveRequestNeeded
      else if action \<in> {CreateJoinRequest, AcceptInvitation} \<and> is_temp_user then Inl NotAllowed
      else perform_user_group_relation_action action user g
             (if action \<in> {CreateJoinRequest, AcceptInvitation} then approvals_from_string approvals no_approvals else no_approvals) s)"

section \<open>Joining by a code\<close>

definition group_joining_by_code_info :: "string \<Rightarrow> db \<Rightarrow> group_row option" where
  "group_joining_by_code_info code d =
     find (\<lambda>g. g_type g \<noteq> User \<and> g_code g = Some code \<and> (case g_code_expires_at g of None \<Rightarrow> True | Some t \<Rightarrow> db_now d < t)) (db_groups d)"

definition update_group_row :: "id \<Rightarrow> (group_row \<Rightarrow> group_row) \<Rightarrow> db \<Rightarrow> db" where
  "update_group_row g f d = d\<lparr>db_groups := map (\<lambda>x. if g_id x = g then f x else x) (db_groups d)\<rparr>"

text \<open>The first use of a code with a lifetime starts it.\<close>

definition start_code_lifetime :: "group_row \<Rightarrow> db \<Rightarrow> db" where
  "start_code_lifetime g d =
     (case (g_code_expires_at g, g_code_lifetime g) of
        (None, Some t) \<Rightarrow> update_group_row (g_id g) (\<lambda>x. x\<lparr>g_code_expires_at := Some (db_now d + t)\<rparr>) d
      | _ \<Rightarrow> d)"

definition join_group_by_code :: "string \<Rightarrow> id \<Rightarrow> bool \<Rightarrow> string \<Rightarrow> results_db \<Rightarrow> membership_error + user_outcome" where
  "join_group_by_code code user is_temp_user approvals s =
     (if is_temp_user then Inl NotAllowed
      else case group_joining_by_code_info code (rd_db s) of
             None \<Rightarrow> Inl NotAllowed
           | Some g \<Rightarrow>
               if g_frozen_membership g then Inl MembershipFrozen
               else case team_joining_error s (g_type g) (g_id g) user of
                      Some e \<Rightarrow> Inl e
                    | None \<Rightarrow>
                        transition_of_user UserJoinsGroupByCode user (g_id g) (approvals_from_string approvals no_approvals)
                          (s\<lparr>rd_db := start_code_lifetime g (rd_db s)\<rparr>))"

datatype code_fail_reason =
    OkReason
  | NoGroupReason
  | FrozenMembershipReason
  | AlreadyMemberReason
  | ConflictingTeamParticipationReason
  | TeamConditionsNotMetReason

definition check_group_code_for_user :: "results_db \<Rightarrow> id \<Rightarrow> string \<Rightarrow> bool \<times> code_fail_reason \<times> id" where
  "check_group_code_for_user s user code =
     (case group_joining_by_code_info code (rd_db s) of
        None \<Rightarrow> (False, NoGroupReason, 0)
      | Some g \<Rightarrow>
          if g_frozen_membership g then (False, FrozenMembershipReason, g_id g)
          else if active_rows_of (rd_db s) (g_id g) user \<noteq> [] then (False, AlreadyMemberReason, g_id g)
          else if g_type g \<noteq> Team then (True, OkReason, g_id g)
          else if team_participations_conflict s (g_id g) user then (False, ConflictingTeamParticipationReason, g_id g)
          else if \<not> entry_conditions_still_satisfied s (g_id g) user True then (False, TeamConditionsNotMetReason, g_id g)
          else (True, OkReason, g_id g))"

section \<open>The answer to the user\<close>

datatype membership_response =
    UnprocessableEntity string
  | NotFoundResponse
  | ConflictResponse
  | MissingApprovals "string list"
  | UnchangedResponse nat
  | CreatedResponse
  | DeletedResponse
  | UpdatedResponse
  | NothingRendered

definition is_create_action :: "user_action \<Rightarrow> bool" where
  "is_create_action action = (action \<in> {CreateJoinRequest, JoinGroupByCode, CreateAcceptedJoinRequest, CreateLeaveRequest})"

definition render_group_group_transition_success :: "bool \<Rightarrow> bool \<Rightarrow> membership_response" where
  "render_group_group_transition_success create delete =
     (if create then CreatedResponse else if delete then DeletedResponse else UpdatedResponse)"

definition render_group_group_transition_result ::
  "transition_result option \<Rightarrow> group_approvals \<Rightarrow> user_action \<Rightarrow> membership_response" where
  "render_group_group_transition_result result requests action =
     (case result of
        None \<Rightarrow> NothingRendered
      | Some Cycle \<Rightarrow> UnprocessableEntity ''cycles in the group relations graph are not allowed''
      | Some Invalid \<Rightarrow> if is_create_action action then UnprocessableEntity ''a conflicting relation exists'' else NotFoundResponse
      | Some Full \<Rightarrow> ConflictResponse
      | Some ApprovalsMissing \<Rightarrow> MissingApprovals (approvals_to_array requests)
      | Some Unchanged \<Rightarrow> UnchangedResponse (if is_create_action action then 201 else 200)
      | Some Success \<Rightarrow> render_group_group_transition_success (is_create_action action) (action = LeaveGroup))"

section \<open>Services of managers\<close>

datatype bulk_action = AcceptJoinRequests | RejectJoinRequests | AcceptLeaveRequests | RejectLeaveRequests | WithdrawInvitations

fun transition_of_bulk_action :: "bulk_action \<Rightarrow> transition_action" where
  "transition_of_bulk_action AcceptJoinRequests = AdminAcceptsJoinRequest"
| "transition_of_bulk_action RejectJoinRequests = AdminRefusesJoinRequest"
| "transition_of_bulk_action WithdrawInvitations = AdminWithdrawsInvitation"
| "transition_of_bulk_action AcceptLeaveRequests = AdminAcceptsLeaveRequest"
| "transition_of_bulk_action RejectLeaveRequests = AdminRefusesLeaveRequest"

text \<open>The results of a service are those of the store, and three more.\<close>

datatype service_result = Transitioned transition_result | InAnotherTeam | EntryConditionFailed | NotFoundResult

definition transition_by_manager ::
  "transition_action \<Rightarrow> id \<Rightarrow> id list \<Rightarrow> id \<Rightarrow> results_db \<Rightarrow> membership_error + ((id, service_result) gomap \<times> results_db)" where
  "transition_by_manager action parent ids user s =
     (case transition action parent ids [] user (rd_db s) of
        Inl e \<Rightarrow> Inl (MembershipFailed e)
      | Inr (results, requests, d) \<Rightarrow> Inr (map (\<lambda>(i, r). (i, Transitioned r)) results, s\<lparr>rd_db := d\<rparr>))"

text \<open>The type of the group is only read for the two actions that accept requests.\<close>

definition check_preconditions_for_bulk_membership_action ::
  "bulk_action \<Rightarrow> id \<Rightarrow> id \<Rightarrow> id list \<Rightarrow> results_db \<Rightarrow> membership_error + group_type option" where
  "check_preconditions_for_bulk_membership_action action user parent ids s =
     (if \<not> manages_memberships (rd_db s) user parent then Inl NotAllowed
      else if action \<notin> {AcceptJoinRequests, AcceptLeaveRequests} then Inr None
      else case group_by_id (rd_db s) parent of
             None \<Rightarrow> Inl (MembershipFailed RecordNotFound)
           | Some g \<Rightarrow>
               if g_frozen_membership g then Inl MembershipFrozen
               else if g_type g = Team \<and> 1 < length ids then Inl BadMembershipRequest
               else Inr (Some (g_type g)))"

definition perform_bulk_membership_action ::
  "bulk_action \<Rightarrow> id \<Rightarrow> id \<Rightarrow> id list \<Rightarrow> results_db \<Rightarrow> membership_error + ((id, service_result) gomap \<times> results_db)" where
  "perform_bulk_membership_action action user parent ids s =
     (case ids of
        [] \<Rightarrow> Inr ([], s)
      | i # _ \<Rightarrow>
          bind_result (check_preconditions_for_bulk_membership_action action user parent ids s) (\<lambda>t.
            if t = Some Team \<and> action = AcceptJoinRequests \<and> other_teams_members s parent [i] \<noteq> [] then Inr ([(i, InAnotherTeam)], s)
            else if t = Some Team \<and> action \<in> {AcceptJoinRequests, AcceptLeaveRequests} \<and>
                    \<not> entry_conditions_still_satisfied s parent i (action = AcceptJoinRequests)
            then Inr ([(i, EntryConditionFailed)], s)
            else transition_by_manager (transition_of_bulk_action action) parent ids user s))"

definition max_allowed_logins_to_invite :: nat where
  "max_allowed_logins_to_invite = 100"

definition put_results :: "('k, 'v) gomap \<Rightarrow> ('k, 'v) gomap \<Rightarrow> ('k, 'v) gomap" where
  "put_results new old = fold (\<lambda>(k, v). AList.update k v) new old"

definition users_to_invite :: "user_row list \<Rightarrow> string list \<Rightarrow> (id, string) gomap" where
  "users_to_invite users logins = [(us_group u, us_login u). u \<leftarrow> users, us_login u \<in> set logins \<and> \<not> us_temp u]"

definition filter_other_teams_members_out :: "results_db \<Rightarrow> id \<Rightarrow> id list \<Rightarrow> id list \<times> id list" where
  "filter_other_teams_members_out s parent ids =
     (let others = other_teams_members s parent ids in (filter (\<lambda>i. i \<notin> set others) ids, others))"

definition by_login :: "(id, string) gomap \<Rightarrow> (id, service_result) gomap \<Rightarrow> (string, service_result) gomap" where
  "by_login names rs = [(case map_of names i of None \<Rightarrow> [] | Some l \<Rightarrow> l, r). (i, r) \<leftarrow> rs]"

definition create_group_invitations ::
  "user_row list \<Rightarrow> id \<Rightarrow> id \<Rightarrow> string list \<Rightarrow> results_db \<Rightarrow> membership_error + ((string, service_result) gomap \<times> results_db)" where
  "create_group_invitations users user parent logins s =
     (if logins = [] \<or> max_allowed_logins_to_invite < length logins then Inl BadMembershipRequest
      else if \<not> manages_memberships (rd_db s) user parent then Inl NotAllowed
      else
        let names = users_to_invite users logins; results = put_results (map (\<lambda>l. (l, NotFoundResult)) logins) []
        in if names = [] then Inr (results, s)
           else
             let (ids, others) = filter_other_teams_members_out s parent (map fst names);
                 results1 = put_results (by_login names (map (\<lambda>i. (i, InAnotherTeam)) others)) results
             in bind_result (transition_by_manager AdminCreatesInvitation parent ids user s) (\<lambda>(rs, s1).
                  Inr (put_results (by_login names rs) results1, s1)))"

definition remove_members ::
  "user_row list \<Rightarrow> id \<Rightarrow> id \<Rightarrow> id list \<Rightarrow> results_db \<Rightarrow> membership_error + ((id, service_result) gomap \<times> results_db)" where
  "remove_members users user parent ids s =
     (if \<not> manages_memberships (rd_db s) user parent then Inl NotAllowed
      else
        let results = put_results (map (\<lambda>i. (i, NotFoundResult)) ids) [];
            found = filter (\<lambda>i. i \<in> set ids) (map us_group users)
        in if found = [] then Inr (results, s)
           else bind_result (transition_by_manager AdminRemovesUser parent found user s) (\<lambda>(rs, s1).
                  Inr (put_results rs results, s1)))"

section \<open>Codes of groups\<close>

text \<open>A code of ten characters from ten random numbers; the generator gives up after three codes that are in use.\<close>

definition allowed_characters :: string where
  "allowed_characters = ''3456789abcdefghijkmnpqrstuvwxy''"

definition generate_group_code :: "nat list \<Rightarrow> string" where
  "generate_group_code indices = map ((!) allowed_characters) (take 10 indices)"

definition code_taken :: "db \<Rightarrow> id \<Rightarrow> string \<Rightarrow> bool" where
  "code_taken d g code = (\<exists>x \<in> set (db_groups d). g_id x \<noteq> g \<and> g_code x = Some code)"

fun draw_code :: "nat \<Rightarrow> db \<Rightarrow> id \<Rightarrow> string list \<Rightarrow> string option" where
  "draw_code 0 d g codes = None"
| "draw_code (Suc n) d g [] = None"
| "draw_code (Suc n) d g (code # codes) = (if code_taken d g code then draw_code n d g codes else Some code)"

definition create_code :: "id \<Rightarrow> id \<Rightarrow> nat list list \<Rightarrow> db \<Rightarrow> membership_error + (string \<times> db)" where
  "create_code user g randoms d =
     (if \<not> manages_memberships d user g then Inl NotAllowed
      else case draw_code 3 d g (map generate_group_code randoms) of
             None \<Rightarrow> Inl (MembershipFailed (GoPanic ''the code generator is broken''))
           | Some code \<Rightarrow> Inr (code, update_group_row g (\<lambda>x. x\<lparr>g_code := Some code\<rparr>) d))"

definition remove_code :: "id \<Rightarrow> id \<Rightarrow> db \<Rightarrow> membership_error + db" where
  "remove_code user g d =
     (if \<not> manages_memberships d user g then Inl NotAllowed
      else Inr (update_group_row g (\<lambda>x. x\<lparr>g_code := None\<rparr>) d))"

section \<open>What the lists of groups say\<close>

datatype leaving = FrozenTeam | WouldBreakEntryConditions | FreeToLeave

text \<open>The column \<open>can_leave_team\<close> of the list of the memberships of a user.\<close>

definition can_leave_team :: "results_db \<Rightarrow> id \<Rightarrow> id \<Rightarrow> leaving option" where
  "can_leave_team s g user =
     (case group_by_id (rd_db s) g of
        None \<Rightarrow> None
      | Some x \<Rightarrow>
          if g_type x \<noteq> Team then None
          else Some (if g_frozen_membership x then FrozenTeam
                     else if \<not> entry_conditions_still_satisfied s g user False then WouldBreakEntryConditions
                     else FreeToLeave))"

end
