(* ===== verification/GroupUpdate.thy ===== *)
theory GroupUpdate
  imports MembershipServices ItemRelations
begin

text \<open>
  The service that changes a group, app/api/groups/update_group.go, from the decoded request on, and two queries of
  app/database/group_store.go.  A field that is not given is None.  The columns that only describe a group are left out;
  \<open>gu_other_fields_changed\<close> tells that one of them is given with a new value.  The clocks of the server and of the
  database show the same whole second.
\<close>

datatype approval_change = EmptyGroup | Reinvite

record group_update =
  gu_is_public :: "bool option"
  gu_code_lifetime :: "time option option"
  gu_code_expires_at :: "time option option"
  gu_root_activity_id :: "id option option"
  gu_root_skill_id :: "id option option"
  gu_is_official_session :: "bool option"
  gu_frozen_membership :: "bool option"
  gu_max_participants :: "int option option"
  gu_enforce_max_participants :: "bool option"
  gu_require_personal_info :: "personal_info_requirement option"
  gu_require_lock_until :: "time option option"
  gu_require_watch :: "bool option"
  gu_approval_change_action :: "approval_change option"
  gu_other_fields_changed :: bool

section \<open>Participants\<close>

definition is_direct_participant :: "db \<Rightarrow> id \<Rightarrow> gg_row \<Rightarrow> bool" where
  "is_direct_participant d g r = (gg_parent r = g \<and> is_participant d (gg_child r))"

definition direct_participant_ids :: "db \<Rightarrow> id \<Rightarrow> id list" where
  "direct_participant_ids d g = map gg_child (filter (is_direct_participant d g) (db_groups_groups d))"

definition has_participants :: "db \<Rightarrow> id \<Rightarrow> bool" where
  "has_participants d g = list_ex (is_direct_participant d g) (db_groups_groups d)"

section \<open>Validation\<close>

definition given :: "'a option \<Rightarrow> 'a \<Rightarrow> 'a" where
  "given field old = (case field of None \<Rightarrow> old | Some v \<Rightarrow> v)"

definition changes :: "'a option \<Rightarrow> 'a \<Rightarrow> bool" where
  "changes field old = (case field of None \<Rightarrow> False | Some v \<Rightarrow> v \<noteq> old)"

text \<open>\<open>MAX(can_manage_value)\<close>, None if the group is not managed by the user.\<close>

definition can_manage_value :: "db \<Rightarrow> id \<Rightarrow> id \<Rightarrow> nat option" where
  "can_manage_value d user g =
     (let ms = managed_by d user g in if ms = [] \<or> \<not> group_exists d g then None else Some (max_or 0 (map gm_can_manage ms)))"

abbreviation can_manage_index :: "string \<Rightarrow> nat" where
  "can_manage_index name \<equiv> the_level (require_db_enum_index_by_name ''group_managers.can_manage'' name)"

definition rights_to_change :: "nat \<Rightarrow> group_row \<Rightarrow> group_update \<Rightarrow> bool" where
  "rights_to_change can_manage old u =
     ((changes (gu_is_public u) (g_is_public old) \<or> changes (gu_root_activity_id u) (g_root_activity_id old) \<or>
       changes (gu_root_skill_id u) (g_root_skill_id old) \<or> changes (gu_is_official_session u) (g_is_official_session old) \<or>
       changes (gu_require_personal_info u) (g_require_personal_info_access_approval old) \<or>
       changes (gu_require_lock_until u) (g_require_lock_membership_approval_until old) \<or>
       changes (gu_require_watch u) (g_require_watch_approval old) \<or> gu_other_fields_changed u
       \<longrightarrow> can_manage_index ''memberships_and_group'' \<le> can_manage) \<and>
      (changes (gu_code_lifetime u) (g_code_lifetime old) \<or> changes (gu_code_expires_at u) (g_code_expires_at old) \<or>
       changes (gu_frozen_membership u) (g_frozen_membership old) \<or> changes (gu_max_participants u) (g_max_participants old) \<or>
       changes (gu_enforce_max_participants u) (g_enforce_max_participants old)
       \<longrightarrow> can_manage_index ''memberships'' \<le> can_manage))"

definition personal_info_strengthened :: "bool \<Rightarrow> personal_info_requirement \<Rightarrow> personal_info_requirement option \<Rightarrow> bool" where
  "personal_info_strengthened has old new =
     (has \<and>
      (case new of
         None \<Rightarrow> False
       | Some v \<Rightarrow>
           (case old of RequireNone \<Rightarrow> v \<noteq> RequireNone | RequireView \<Rightarrow> v = RequireEdit | RequireEdit \<Rightarrow> False)))"

definition lock_strengthened :: "time \<Rightarrow> bool \<Rightarrow> time option \<Rightarrow> time option \<Rightarrow> bool" where
  "lock_strengthened now has old new =
     (has \<and>
      (case (old, new) of
         (None, None) \<Rightarrow> False
       | (None, Some t) \<Rightarrow> now < t
       | (Some t0, None) \<Rightarrow> False
       | (Some t0, Some t) \<Rightarrow> \<not> t < now + 1 \<and> t0 < t))"

definition watch_strengthened :: "bool \<Rightarrow> bool \<Rightarrow> bool \<Rightarrow> bool" where
  "watch_strengthened has old new = (has \<and> \<not> old \<and> new)"

text \<open>The three fields; one that is not given has the zero value of its type, which strengthens nothing.\<close>

definition some_field_strengthened :: "time \<Rightarrow> bool \<Rightarrow> group_row \<Rightarrow> group_update \<Rightarrow> bool" where
  "some_field_strengthened now has old u =
     (personal_info_strengthened has (g_require_personal_info_access_approval old) (gu_require_personal_info u) \<or>
      lock_strengthened now has (g_require_lock_membership_approval_until old) (given (gu_require_lock_until u) None) \<or>
      watch_strengthened has (g_require_watch_approval old) (given (gu_require_watch u) False))"

definition strengthening_has_action :: "time \<Rightarrow> bool \<Rightarrow> group_row \<Rightarrow> group_update \<Rightarrow> bool" where
  "strengthening_has_action now has old u =
     (gu_approval_change_action u \<noteq> None \<or>
      \<not> (changes (gu_require_personal_info u) (g_require_personal_info_access_approval old) \<and>
         personal_info_strengthened has (g_require_personal_info_access_approval old) (gu_require_personal_info u)) \<and>
      \<not> (changes (gu_require_lock_until u) (g_require_lock_membership_approval_until old) \<and>
         lock_strengthened now has (g_require_lock_membership_approval_until old) (given (gu_require_lock_until u) None)) \<and>
      \<not> (changes (gu_require_watch u) (g_require_watch_approval old) \<and>
         watch_strengthened has (g_require_watch_approval old) (given (gu_require_watch u) False)))"

definition frozen_membership_ok :: "group_row \<Rightarrow> group_update \<Rightarrow> bool" where
  "frozen_membership_ok old u = (changes (gu_frozen_membership u) (g_frozen_membership old) \<longrightarrow> gu_frozen_membership u = Some True)"

definition max_participants_ok :: "group_row \<Rightarrow> group_update \<Rightarrow> bool" where
  "max_participants_ok old u =
     (changes (gu_max_participants u) (g_max_participants old) \<and> gu_max_participants u = Some None
        \<longrightarrow> \<not> given (gu_enforce_max_participants u) (g_enforce_max_participants old))"

definition enforce_max_participants_ok :: "group_row \<Rightarrow> group_update \<Rightarrow> bool" where
  "enforce_max_participants_ok old u =
     (changes (gu_enforce_max_participants u) (g_enforce_max_participants old) \<and> gu_enforce_max_participants u = Some True
        \<longrightarrow> given (gu_max_participants u) (g_max_participants old) \<noteq> None)"

definition code_lifetime_ok :: "group_update \<Rightarrow> bool" where
  "code_lifetime_ok u = (case gu_code_lifetime u of Some (Some t) \<Rightarrow> 0 \<le> t | _ \<Rightarrow> True)"

definition validate_update_group_input :: "time \<Rightarrow> bool \<Rightarrow> nat \<Rightarrow> group_row \<Rightarrow> group_update \<Rightarrow> bool" where
  "validate_update_group_input now has can_manage old u =
     (rights_to_change can_manage old u \<and> code_lifetime_ok u \<and> frozen_membership_ok old u \<and> max_participants_ok old u \<and>
      enforce_max_participants_ok old u \<and> strengthening_has_action now has old u \<and>
      (gu_approval_change_action u = None \<or> some_field_strengthened now has old u))"

section \<open>Root items\<close>

definition viewable_item_type :: "results_db \<Rightarrow> id \<Rightarrow> id \<Rightarrow> item_type option" where
  "viewable_item_type s user i =
     (case item_with_permissions s user (the_level (view_index ''info'')) i of None \<Rightarrow> None | Some p \<Rightarrow> pt_type p)"

definition root_activity_ok :: "results_db \<Rightarrow> id \<Rightarrow> id \<Rightarrow> bool" where
  "root_activity_ok s user i = (case viewable_item_type s user i of None \<Rightarrow> False | Some t \<Rightarrow> t \<noteq> Skill)"

definition official_session_allowed :: "db \<Rightarrow> id \<Rightarrow> id \<Rightarrow> bool" where
  "official_session_allowed d user i =
     (\<exists>p \<in> set (db_permissions_granted d). pg_item p = i \<and> (pg_can_make_session_official p \<or> pg_is_owner p) \<and> anc d (pg_group p) user)"

definition changes_official_session_activity :: "group_row \<Rightarrow> group_update \<Rightarrow> bool" where
  "changes_official_session_activity old u =
     (let official_changed = changes (gu_is_official_session u) (g_is_official_session old)
      in official_changed \<and> gu_is_official_session u = Some True \<or>
         \<not> official_changed \<and> g_is_official_session old \<and> changes (gu_root_activity_id u) (g_root_activity_id old))"

definition root_activity_error :: "results_db \<Rightarrow> id \<Rightarrow> group_row \<Rightarrow> group_update \<Rightarrow> membership_error option" where
  "root_activity_error s user old u =
     (let changed = changes (gu_root_activity_id u) (g_root_activity_id old);
          root = given (gu_root_activity_id u) (g_root_activity_id old)
      in if changed \<and> (case root of None \<Rightarrow> False | Some i \<Rightarrow> \<not> root_activity_ok s user i) then Some NotAllowed
         else if changes_official_session_activity old u
         then (case root of
                 None \<Rightarrow> Some BadMembershipRequest
               | Some i \<Rightarrow> if official_session_allowed (rd_db s) user i then None else Some NotAllowed)
         else None)"

definition root_skill_error :: "results_db \<Rightarrow> id \<Rightarrow> group_row \<Rightarrow> group_update \<Rightarrow> membership_error option" where
  "root_skill_error s user old u =
     (case gu_root_skill_id u of
        Some (Some i) \<Rightarrow> if g_root_skill_id old \<noteq> Some i \<and> viewable_item_type s user i \<noteq> Some Skill then Some NotAllowed else None
      | _ \<Rightarrow> None)"

section \<open>Pending requests\<close>

definition freezes :: "group_row \<Rightarrow> group_update \<Rightarrow> bool" where
  "freezes old u = (gu_frozen_membership u = Some True \<and> \<not> g_frozen_membership old)"

definition should_refuse_pending_requests :: "group_row \<Rightarrow> group_update \<Rightarrow> bool" where
  "should_refuse_pending_requests old u =
     (gu_is_public u = Some False \<and> g_is_public old \<or> freezes old u \<or> gu_approval_change_action u \<noteq> None)"

definition pending_types_to_refuse :: "time \<Rightarrow> group_row \<Rightarrow> group_update \<Rightarrow> pending_type list" where
  "pending_types_to_refuse now old u =
     [JoinRequest] @ (if freezes old u then [LeaveRequest, Invitation] else []) @
     (case (gu_approval_change_action u, gu_require_lock_until u) of
        (Some a, Some t) \<Rightarrow> if lock_strengthened now True (g_require_lock_membership_approval_until old) t then [LeaveRequest] else []
      | _ \<Rightarrow> [])"

fun refused_action :: "pending_type \<Rightarrow> string" where
  "refused_action JoinRequest = ''join_request_refused''"
| "refused_action LeaveRequest = ''leave_request_refused''"
| "refused_action Invitation = ''invitation_withdrawn''"

definition refuse_pending_requests :: "id \<Rightarrow> id \<Rightarrow> pending_type list \<Rightarrow> db \<Rightarrow> db" where
  "refuse_pending_requests g initiator types d =
     (let refused = (\<lambda>r. pr_group r = g \<and> pr_type r \<in> set types)
      in delete_pending_rows refused
           (d\<lparr>db_changes := db_changes d @
                map (\<lambda>r. \<lparr>ch_group = g, ch_member = pr_member r, ch_action = refused_action (pr_type r), ch_at = db_now d,
                          ch_initiator = initiator\<rparr>) (filter refused (db_pending d))\<rparr>))"

definition refuse_sent_group_requests_if_needed :: "id \<Rightarrow> id \<Rightarrow> group_row \<Rightarrow> group_update \<Rightarrow> db \<Rightarrow> db" where
  "refuse_sent_group_requests_if_needed g initiator old u d =
     (if should_refuse_pending_requests old u then refuse_pending_requests g initiator (pending_types_to_refuse (db_now d) old u) d else d)"

section \<open>The service\<close>

definition set_group_values :: "group_update \<Rightarrow> group_row \<Rightarrow> group_row" where
  "set_group_values u g =
     g\<lparr>g_is_public := given (gu_is_public u) (g_is_public g), g_code_lifetime := given (gu_code_lifetime u) (g_code_lifetime g),
       g_code_expires_at := given (gu_code_expires_at u) (g_code_expires_at g),
       g_root_activity_id := given (gu_root_activity_id u) (g_root_activity_id g),
       g_root_skill_id := given (gu_root_skill_id u) (g_root_skill_id g),
       g_is_official_session := given (gu_is_official_session u) (g_is_official_session g),
       g_frozen_membership := given (gu_frozen_membership u) (g_frozen_membership g),
       g_max_participants := given (gu_max_participants u) (g_max_participants g),
       g_enforce_max_participants := given (gu_enforce_max_participants u) (g_enforce_max_participants g),
       g_require_personal_info_access_approval := given (gu_require_personal_info u) (g_require_personal_info_access_approval g),
       g_require_lock_membership_approval_until := given (gu_require_lock_until u) (g_require_lock_membership_approval_until g),
       g_require_watch_approval := given (gu_require_watch u) (g_require_watch_approval g)\<rparr>"

text \<open>The results of the transition are ignored.\<close>

definition change_approvals :: "approval_change option \<Rightarrow> id \<Rightarrow> id \<Rightarrow> db \<Rightarrow> db_error + db" where
  "change_approvals action g user d =
     (case action of
        None \<Rightarrow> Inr d
      | Some a \<Rightarrow>
          (case transition (case a of Reinvite \<Rightarrow> AdminStrengthensApprovalWithReinvite | EmptyGroup \<Rightarrow> AdminStrengthensApprovalWithEmpty)
                  g (direct_participant_ids d g) [] user d of
             Inl e \<Rightarrow> Inl e
           | Inr (results, requests, d') \<Rightarrow> Inr d'))"

definition update_group :: "id \<Rightarrow> id \<Rightarrow> group_update \<Rightarrow> results_db \<Rightarrow> membership_error + results_db" where
  "update_group user g u s =
     (let d = rd_db s in
      case (can_manage_value d user g, group_by_id d g) of
        (Some can_manage, Some old) \<Rightarrow>
          if \<not> validate_update_group_input (db_now d) (has_participants d g) can_manage old u then Inl BadMembershipRequest
          else (case root_activity_error s user old u of
                  Some e \<Rightarrow> Inl e
                | None \<Rightarrow>
                    (case root_skill_error s user old u of
                       Some e \<Rightarrow> Inl e
                     | None \<Rightarrow>
                         bind_result (lift_membership (change_approvals (gu_approval_change_action u) g user d)) (\<lambda>d1.
                           Inr (s\<lparr>rd_db := update_group_row g (set_group_values u)
                                    (refuse_sent_group_requests_if_needed g user old u d1)\<rparr>))))
      | _ \<Rightarrow> Inl NotAllowed)"

end
