(* ===== verification/MembershipServiceRules.thy ===== *)
theory MembershipServiceRules
  imports GroupUpdate
begin

text \<open>
  What the services on memberships and groups guarantee whatever sequence of them is run: nobody becomes a member without the consent of
  both sides, a frozen group never gets a member, stronger requirements leave no member who has not agreed to them, and the
  settings of groups stay sane.
\<close>

section \<open>Transitions seen from outside\<close>

lemma transition_frame:
  assumes "transition action parent children approvals by d = Inr (results, requests, d')" and "keys_ok d" and "db_now d < max_time"
  shows "db_groups d' = db_groups d" "db_now d' = db_now d" "group_by_id d parent \<noteq> None"
proof -
  from assms(1) obtain g p where g: "group_by_id d parent = Some g" and p: "p = transition_plan action parent children approvals g d"
    and w: "transition_writes parent by (group_limits (db_now d) g) (old_actions_map d parent children) approvals p d = Inr d'"
    by (rule transition_run) auto
  show "db_groups d' = db_groups d" "db_now d' = db_now d"
    using transition_writes_pairs(2,3) [OF w assms(2) _ assms(3)] transition_plan_keys p by auto
  show "group_by_id d parent \<noteq> None" using g by simp
qed

definition joins_from :: "transition_action \<Rightarrow> membership_action \<Rightarrow> bool" where
  "joins_from action m =
     (action = UserAcceptsInvitation \<and> m = InvitationCreated \<or>
      (action = AdminCreatesInvitation \<or> action = AdminAcceptsJoinRequest) \<and> m = JoinRequestCreated \<or>
      action \<in> {UserCreatesAcceptedJoinRequest, UserJoinsGroupByCode, UserJoinsGroupByBadge})"

lemma rule_joins:
  "map_of (rule_transitions action) m = Some to \<Longrightarrow> is_active to \<Longrightarrow> \<not> is_active m \<Longrightarrow> joins_from action m"
  by (cases action) (auto simp: joins_from_def split: if_splits)

lemma transition_joins:
  assumes "transition action parent children approvals by d = Inr (results, requests, d')" and "keys_ok d" and "db_now d < max_time"
    and "\<not> active_pair d q c" and "active_pair d' q c"
  shows "q = parent \<and> c \<in> set children \<and> joins_from action (membership d parent c)"
proof -
  from transition_frame(3) [OF assms(1-3)] obtain g where g: "group_by_id d parent = Some g" by blast
  from new_member [OF assms(1-3) g assms(4,5)] obtain to where "q = parent" "c \<in> set children"
    and dec: "child_decision action parent approvals g d c = (Success, to)" and act: "is_active to" "\<not> is_active (membership d parent c)"
    by metis
  moreover have "joins_from action (membership d parent c)"
    using decision_active(2) [OF dec [unfolded child_decision_def] act(1)] act rule_joins by (simp add: state_of_action)
  ultimately show ?thesis by simp
qed

text \<open>Who has a pending request of a kind, read off the state of the pair.\<close>

lemma membership_pending:
  assumes "keys_ok d"
  shows "membership d q c = InvitationCreated \<Longrightarrow> pending_pair d q c = Some Invitation"
    and "membership d q c = JoinRequestCreated \<Longrightarrow> pending_pair d q c = Some JoinRequest"
  unfolding membership_combine [OF assms]
  by (cases "(active_pair d q c, pending_pair d q c)" rule: combine.cases; simp)+

lemma consistent_requests:
  assumes "consistent d"
  shows "pending_pair d q c = Some JoinRequest \<longleftrightarrow> membership d q c = JoinRequestCreated"
proof -
  have keys: "keys_ok d" and "active_pair d q c \<Longrightarrow> pending_pair d q c = None \<or> pending_pair d q c = Some LeaveRequest"
    using assms by (auto simp: consistent_def)
  then show ?thesis
    unfolding membership_combine [OF keys] by (cases "(active_pair d q c, pending_pair d q c)" rule: combine.cases) simp_all
qed

lemma rule_requests:
  "map_of (rule_transitions action) m = Some JoinRequestCreated \<Longrightarrow> action = UserCreatesJoinRequest"
  by (cases action) (auto split: if_splits)

lemma settle_request: "settle a = JoinRequestCreated \<longleftrightarrow> a = JoinRequestCreated"
  by (cases a) simp_all

lemma transition_requests:
  assumes run: "transition action parent children approvals by d = Inr (results, requests, d')" and ok: "consistent d" and now: "db_now d < max_time"
    and req: "pending_pair d' q c = Some JoinRequest" "pending_pair d q c \<noteq> Some JoinRequest"
  shows "q = parent \<and> action = UserCreatesJoinRequest"
proof -
  have keys: "keys_ok d" using ok by (simp add: consistent_def)
  from transition_frame(3) [OF run keys now] obtain g where g: "group_by_id d parent = Some g" by blast
  have "consistent d'" using step_consistent [OF transit [OF run now] ok] .
  then have m: "membership d' q c = JoinRequestCreated" "membership d q c \<noteq> JoinRequestCreated"
    using req ok consistent_requests by auto
  with transition_refinement [OF run keys now g, of q c]
  have "q = parent" and "settle (snd (child_decision action parent approvals g d c)) = JoinRequestCreated"
    by (auto split: if_splits)
  then have "snd (child_decision action parent approvals g d c) = JoinRequestCreated" by (simp add: settle_request)
  then have "map_of (rule_transitions action) (membership d parent c) = Some JoinRequestCreated"
    by (cases action) (auto simp: child_decision_def decision_def outcome_def state_of_action split: option.splits if_splits)
  with \<open>q = parent\<close> show ?thesis using rule_requests by blast
qed

section \<open>States of the services\<close>

text \<open>The tables are consistent, and no frozen group has a pending join request.\<close>

definition memberships_ok :: "db \<Rightarrow> bool" where
  "memberships_ok d =
     (consistent d \<and> tbl_unique g_id (db_groups d) \<and>
      (\<forall>g \<in> set (db_groups d). g_frozen_membership g \<longrightarrow> (\<forall>c. pending_pair d (g_id g) c \<noteq> Some JoinRequest)))"

definition frozen :: "db \<Rightarrow> id \<Rightarrow> bool" where
  "frozen d g = (case group_by_id d g of None \<Rightarrow> False | Some x \<Rightarrow> g_frozen_membership x)"

lemma frozen_no_requests: "memberships_ok d \<Longrightarrow> frozen d g \<Longrightarrow> pending_pair d g c \<noteq> Some JoinRequest"
  by (auto simp: memberships_ok_def frozen_def group_by_id_def dest!: tbl_find_Some split: option.splits)

lemma frozen_all:
  "tbl_unique g_id (db_groups d) \<Longrightarrow>
   (\<forall>g \<in> set (db_groups d). g_frozen_membership g \<longrightarrow> P (g_id g)) \<longleftrightarrow> (\<forall>g. frozen d g \<longrightarrow> P g)"
  unfolding frozen_def group_by_id_def by (auto simp: tbl_find_in_iff split: option.splits dest: tbl_find_Some)

lemma memberships_ok_alt:
  "memberships_ok d \<longleftrightarrow> consistent d \<and> tbl_unique g_id (db_groups d) \<and>
     (\<forall>g. frozen d g \<longrightarrow> (\<forall>c. pending_pair d g c \<noteq> Some JoinRequest))"
  using frozen_all [of d "\<lambda>g. \<forall>c. pending_pair d g c \<noteq> Some JoinRequest"] unfolding memberships_ok_def by blast

lemma transition_memberships_ok:
  assumes run: "transition action parent children approvals by d = Inr (results, requests, d')" and ok: "memberships_ok d" and now: "db_now d < max_time"
    and requests: "action = UserCreatesJoinRequest \<Longrightarrow> \<not> frozen d parent"
  shows "memberships_ok d'" "\<And>g. frozen d' g = frozen d g" "db_now d' = db_now d"
proof -
  have c: "consistent d" and keys: "keys_ok d" using ok by (auto simp: memberships_ok_def consistent_def)
  note f = transition_frame [OF run keys now]
  show same: "frozen d' g = frozen d g" for g by (simp add: frozen_def group_by_id_def f)
  have "consistent d'" using step_consistent [OF transit [OF run now] c] .
  moreover have "pending_pair d' g c \<noteq> Some JoinRequest" if "frozen d' g" for g c
    using transition_requests [OF run c now, of g c] frozen_no_requests [OF ok, of g c] that requests same by blast
  ultimately show "memberships_ok d'" using ok by (simp add: memberships_ok_alt f(1))
  show "db_now d' = db_now d" by (rule f(2))
qed

section \<open>The services\<close>

text \<open>One successful run of a service by the given user; the services of a user pass one of seven actions.\<close>

definition requested_actions :: "user_action list" where
  "requested_actions =
     [AcceptInvitation, RejectInvitation, CreateJoinRequest, CreateLeaveRequest, WithdrawJoinRequest, WithdrawLeaveRequest, LeaveGroup]"

inductive membership_service :: "id \<Rightarrow> results_db \<Rightarrow> results_db \<Rightarrow> bool" for actor where
  of_user: "action \<in> set requested_actions \<Longrightarrow>
    perform_group_relation_action action actor temp g approvals s = Inr (result, requests, s') \<Longrightarrow> membership_service actor s s'"
| by_code: "join_group_by_code code actor temp approvals s = Inr (result, requests, s') \<Longrightarrow> membership_service actor s s'"
| in_bulk: "perform_bulk_membership_action bulk actor parent ids s = Inr (results, s') \<Longrightarrow> membership_service actor s s'"
| inviting: "create_group_invitations users actor parent logins s = Inr (names, s') \<Longrightarrow> membership_service actor s s'"
| removing: "remove_members users actor parent ids s = Inr (results, s') \<Longrightarrow> membership_service actor s s'"

text \<open>What a service has checked before it calls a transition.\<close>

definition permitted :: "db \<Rightarrow> id \<Rightarrow> transition_action \<Rightarrow> id \<Rightarrow> id list \<Rightarrow> bool" where
  "permitted d actor action parent children =
     ((action \<in> {UserAcceptsInvitation, UserCreatesJoinRequest, UserCreatesAcceptedJoinRequest, UserJoinsGroupByCode, AdminAcceptsJoinRequest}
         \<longrightarrow> \<not> frozen d parent) \<and>
      (action \<in> {UserAcceptsInvitation, UserCreatesAcceptedJoinRequest, UserJoinsGroupByCode} \<longrightarrow> children = [actor]) \<and>
      (action = UserCreatesAcceptedJoinRequest \<longrightarrow> can_manage_group d actor parent) \<and>
      (action = UserJoinsGroupByCode \<longrightarrow> (\<exists>code g. group_joining_by_code_info code d = Some g \<and> g_id g = parent)) \<and>
      (action \<in> {AdminCreatesInvitation, AdminAcceptsJoinRequest} \<longrightarrow> manages_memberships d actor parent) \<and>
      action \<noteq> UserJoinsGroupByBadge)"

text \<open>The start of the lifetime of a code does not touch memberships.\<close>

definition same_members :: "db \<Rightarrow> db \<Rightarrow> bool" where
  "same_members d d0 =
     (db_groups_groups d0 = db_groups_groups d \<and> db_pending d0 = db_pending d \<and> db_now d0 = db_now d \<and>
      map g_id (db_groups d0) = map g_id (db_groups d) \<and> (\<forall>g. frozen d0 g = frozen d g))"

lemma update_group_row_find:
  assumes "\<And>x. g_id (f x) = g_id x"
  shows "group_by_id (update_group_row g f d) i = (if i = g then map_option f (group_by_id d i) else group_by_id d i)"
proof -
  have "tbl_find g_id i (map (\<lambda>x. if g_id x = g then f x else x) xs) = (if i = g then map_option f (tbl_find g_id i xs) else tbl_find g_id i xs)" for xs
    using assms by (induction xs) (auto simp: tbl_find_def)
  then show ?thesis by (simp add: group_by_id_def update_group_row_def)
qed

lemma start_code_lifetime_same: "same_members d (start_code_lifetime g d)"
proof -
  have "frozen (update_group_row (g_id g) (\<lambda>x. x\<lparr>g_code_expires_at := t\<rparr>) d) i = frozen d i" for i t
    by (auto simp: frozen_def update_group_row_find split: option.splits)
  moreover have "map g_id (map (\<lambda>x. if g_id x = j then x\<lparr>g_code_expires_at := t\<rparr> else x) xs) = map g_id xs" for j t xs
    by (induction xs) auto
  ultimately show ?thesis
    by (auto simp: start_code_lifetime_def same_members_def update_group_row_def split: option.splits)
qed

lemma same_members_pairs:
  assumes "same_members d d0"
  shows "active_pair d0 q c = active_pair d q c" "pending_pair d0 q c = pending_pair d q c" "keys_ok d0 = keys_ok d"
    "membership d0 q c = membership d q c" "memberships_ok d0 = memberships_ok d"
proof -
  show *: "active_pair d0 q c = active_pair d q c" "pending_pair d0 q c = pending_pair d q c" "keys_ok d0 = keys_ok d" for q c
    using assms by (simp_all add: same_members_def active_pair_def pending_pair_def keys_ok_def)
  have "groups_groups_active d0 = groups_groups_active d"
    using assms by (simp add: same_members_def groups_groups_active_def)
  then show "membership d0 q c = membership d q c"
    using assms by (simp add: membership_def old_state_def status_rows_def same_members_def)
  show "memberships_ok d0 = memberships_ok d"
    using assms * by (simp add: memberships_ok_alt consistent_def same_members_def tbl_unique_def)
qed

lemma transition_of_user_run:
  "transition_of_user action user g approvals s = Inr (result, requests, s') \<Longrightarrow>
   \<exists>results rs d. transition action g [user] [(user, approvals)] user (rd_db s) = Inr (results, rs, d) \<and>
     s' = s\<lparr>rd_db := d\<rparr> \<and> result = map_of results user"
  by (auto simp: transition_of_user_def split: sum.splits)

lemma transition_by_manager_run:
  "transition_by_manager action parent ids user s = Inr (results, s') \<Longrightarrow>
   \<exists>rs reqs d. transition action parent ids [] user (rd_db s) = Inr (rs, reqs, d) \<and> s' = s\<lparr>rd_db := d\<rparr> \<and>
     results = map (\<lambda>(i, r). (i, Transitioned r)) rs"
  by (auto simp: transition_by_manager_def split: sum.splits)

lemma preconditions_not_frozen:
  "check_preconditions_for_group_requests s user g action = None \<Longrightarrow> \<not> frozen (rd_db s) g"
  by (auto simp: check_preconditions_for_group_requests_def frozen_def split: option.splits if_splits)

lemma same_members_refl: "same_members d d"
  by (simp add: same_members_def)

lemma user_action_run:
  assumes "perform_group_relation_action action user temp g approvals s = Inr (result, requests, s')" and "action \<in> set requested_actions"
  shows "\<exists>t a results rs d. transition t g [user] [(user, a)] user (rd_db s) = Inr (results, rs, d) \<and> s' = s\<lparr>rd_db := d\<rparr> \<and>
    permitted (rd_db s) user t g [user]"
proof -
  define eff where "eff = effective_user_action s user g action"
  obtain a where a: "perform_user_group_relation_action action user g a s = Inr (result, requests, s')"
    using assms(1) by (auto simp: perform_group_relation_action_def split: if_splits)
  have run: "transition_of_user (transition_of_user_action eff) user g a s = Inr (result, requests, s')"
    and pre: "eff \<in> {CreateJoinRequest, AcceptInvitation, CreateAcceptedJoinRequest} \<Longrightarrow>
      check_preconditions_for_group_requests s user g eff = None"
    using a by (auto simp: perform_user_group_relation_action_def eff_def [symmetric] Let_def split: option.splits if_splits)
  have accepted: "eff = CreateAcceptedJoinRequest \<Longrightarrow> can_manage_group (rd_db s) user g" and "eff \<noteq> JoinGroupByCode"
    using assms(2) by (auto simp: eff_def effective_user_action_def requested_actions_def split: if_splits)
  then have "permitted (rd_db s) user (transition_of_user_action eff) g [user]"
    using pre preconditions_not_frozen [of s user g eff] by (cases eff) (auto simp: permitted_def)
  with transition_of_user_run [OF run] show ?thesis by blast
qed

lemma code_run:
  assumes "join_group_by_code code user temp approvals s = Inr (result, requests, s')"
  shows "\<exists>g a results rs d. group_joining_by_code_info code (rd_db s) = Some g \<and> \<not> g_frozen_membership g \<and>
    transition UserJoinsGroupByCode (g_id g) [user] [(user, a)] user (start_code_lifetime g (rd_db s)) = Inr (results, rs, d) \<and>
    s' = s\<lparr>rd_db := d\<rparr> \<and> result = map_of results user"
proof -
  from assms obtain g where g: "group_joining_by_code_info code (rd_db s) = Some g" "\<not> g_frozen_membership g"
    and run: "transition_of_user UserJoinsGroupByCode user (g_id g) (approvals_from_string approvals no_approvals)
      (s\<lparr>rd_db := start_code_lifetime g (rd_db s)\<rparr>) = Inr (result, requests, s')"
    by (auto simp: join_group_by_code_def split: option.splits if_splits)
  from transition_of_user_run [OF run] show ?thesis using g by fastforce
qed

lemma code_group: "group_joining_by_code_info code d = Some g \<Longrightarrow> g \<in> set (db_groups d)"
  by (auto simp: group_joining_by_code_info_def find_Some_iff)

lemma group_by_id_of: "tbl_unique g_id (db_groups d) \<Longrightarrow> g \<in> set (db_groups d) \<Longrightarrow> group_by_id d (g_id g) = Some g"
  by (simp add: group_by_id_def tbl_find_in_iff)

lemma bulk_run:
  assumes "perform_bulk_membership_action bulk user parent ids s = Inr (results, s')"
  shows "s' = s \<or> (\<exists>rs reqs d. transition (transition_of_bulk_action bulk) parent ids [] user (rd_db s) = Inr (rs, reqs, d) \<and>
    s' = s\<lparr>rd_db := d\<rparr> \<and> permitted (rd_db s) user (transition_of_bulk_action bulk) parent ids)"
proof (cases ids)
  case Nil
  then show ?thesis using assms by (simp add: perform_bulk_membership_action_def)
next
  case (Cons i rest)
  then obtain t where pre: "check_preconditions_for_bulk_membership_action bulk user parent ids s = Inr t"
    and run: "s' = s \<or> transition_by_manager (transition_of_bulk_action bulk) parent ids user s = Inr (results, s')"
    using assms by (auto simp: perform_bulk_membership_action_def bind_result_Inr split: if_splits)
  have "permitted (rd_db s) user (transition_of_bulk_action bulk) parent ids"
    using pre by (cases bulk) (auto simp: check_preconditions_for_bulk_membership_action_def permitted_def frozen_def split: if_splits option.splits)
  with run transition_by_manager_run show ?thesis by blast
qed

lemma invitations_run:
  assumes "create_group_invitations users user parent logins s = Inr (names, s')"
  shows "s' = s \<or> (\<exists>ids rs reqs d. transition AdminCreatesInvitation parent ids [] user (rd_db s) = Inr (rs, reqs, d) \<and>
    s' = s\<lparr>rd_db := d\<rparr> \<and> permitted (rd_db s) user AdminCreatesInvitation parent ids)"
proof -
  have m: "manages_memberships (rd_db s) user parent" using assms by (auto simp: create_group_invitations_def split: if_splits)
  moreover have "s' = s \<or> (\<exists>ids rs. transition_by_manager AdminCreatesInvitation parent ids user s = Inr (rs, s'))"
    using assms by (auto simp: create_group_invitations_def Let_def bind_result_Inr filter_other_teams_members_out_def split: if_splits)
  ultimately show ?thesis using transition_by_manager_run [of AdminCreatesInvitation parent _ user s _ s'] by (simp add: permitted_def) blast
qed

lemma removal_run:
  assumes "remove_members users user parent ids s = Inr (results, s')"
  shows "s' = s \<or> (\<exists>ids rs reqs d. transition AdminRemovesUser parent ids [] user (rd_db s) = Inr (rs, reqs, d) \<and>
    s' = s\<lparr>rd_db := d\<rparr> \<and> permitted (rd_db s) user AdminRemovesUser parent ids)"
proof -
  have "s' = s \<or> (\<exists>ids rs. transition_by_manager AdminRemovesUser parent ids user s = Inr (rs, s'))"
    using assms by (auto simp: remove_members_def Let_def bind_result_Inr split: if_splits)
  then show ?thesis using transition_by_manager_run [of AdminRemovesUser parent _ user s _ s'] by (simp add: permitted_def) blast
qed

lemma service_transition:
  assumes "membership_service actor s s'" and "tbl_unique g_id (db_groups (rd_db s))"
  shows "s' = s \<or>
    (\<exists>d0 action parent children approvals results requests d'.
       transition action parent children approvals actor d0 = Inr (results, requests, d') \<and> s' = s\<lparr>rd_db := d'\<rparr> \<and>
       same_members (rd_db s) d0 \<and> permitted (rd_db s) actor action parent children)"
  using assms(1)
proof cases
  case (of_user action temp g approvals result requests)
  from user_action_run [OF of_user(2,1)] show ?thesis using same_members_refl by metis
next
  case (by_code code temp approvals result requests)
  from code_run [OF by_code] obtain g a results rs d where g: "group_joining_by_code_info code (rd_db s) = Some g" "\<not> g_frozen_membership g"
    and run: "transition UserJoinsGroupByCode (g_id g) [actor] [(actor, a)] actor (start_code_lifetime g (rd_db s)) = Inr (results, rs, d)"
    and s': "s' = s\<lparr>rd_db := d\<rparr>" by blast
  have "\<not> frozen (rd_db s) (g_id g)" using group_by_id_of [OF assms(2) code_group [OF g(1)]] g(2) by (simp add: frozen_def)
  then have "permitted (rd_db s) actor UserJoinsGroupByCode (g_id g) [actor]" using g(1) by (auto simp: permitted_def)
  with run s' start_code_lifetime_same show ?thesis by metis
next
  case (in_bulk bulk parent ids results)
  from bulk_run [OF in_bulk] show ?thesis using same_members_refl by metis
next
  case (inviting users parent logins names)
  from invitations_run [OF inviting] show ?thesis using same_members_refl by metis
next
  case (removing users parent ids results)
  from removal_run [OF removing] show ?thesis using same_members_refl by metis
qed


section \<open>Updates of groups\<close>

lemma update_group_run:
  assumes "update_group user g u s = Inr s'"
  obtains can_manage old d1 where "can_manage_value (rd_db s) user g = Some can_manage" and "group_by_id (rd_db s) g = Some old"
    and "validate_update_group_input (now_of s) (has_participants (rd_db s) g) can_manage old u"
    and "root_activity_error s user old u = None"
    and "change_approvals (gu_approval_change_action u) g user (rd_db s) = Inr d1"
    and "s' = s\<lparr>rd_db := update_group_row g (set_group_values u) (refuse_sent_group_requests_if_needed g user old u d1)\<rparr>"
  using assms by (auto simp: update_group_def Let_def bind_result_Inr lift_membership_def split: option.splits if_splits sum.splits)

lemma change_approvals_run:
  "change_approvals (Some a) g user d = Inr d' \<Longrightarrow>
   \<exists>action results requests. transition action g (direct_participant_ids d g) [] user d = Inr (results, requests, d') \<and>
     (action = AdminStrengthensApprovalWithReinvite \<or> action = AdminStrengthensApprovalWithEmpty)"
  by (cases a) (auto simp: change_approvals_def split: sum.splits)

lemma change_approvals_ok:
  assumes "change_approvals a g user d = Inr d'" and "memberships_ok d" and "db_now d < max_time"
  shows "memberships_ok d' \<and> db_groups d' = db_groups d \<and> db_now d' = db_now d \<and> (active_pair d' q c \<longrightarrow> active_pair d q c)"
proof (cases a)
  case None
  then show ?thesis using assms by (simp add: change_approvals_def)
next
  case (Some x)
  then obtain action results requests where run: "transition action g (direct_participant_ids d g) [] user d = Inr (results, requests, d')"
    and action: "action = AdminStrengthensApprovalWithReinvite \<or> action = AdminStrengthensApprovalWithEmpty"
    using change_approvals_run assms(1) by blast
  have keys: "keys_ok d" using assms(2) by (simp add: memberships_ok_def consistent_def)
  have "active_pair d q c" if "active_pair d' q c"
    using transition_joins [OF run keys assms(3) _ that] action by (auto simp: joins_from_def)
  then show ?thesis
    using transition_memberships_ok [OF run assms(2,3)] transition_frame [OF run keys assms(3)] action by auto
qed

lemma refuse_pending_pairs:
  assumes "keys_ok d"
  shows "pending_pair (refuse_pending_requests g by types d) q c =
      (if q = g \<and> (\<exists>t \<in> set types. pending_pair d q c = Some t) then None else pending_pair d q c)"
    and "keys_ok (refuse_pending_requests g by types d)"
proof -
  let ?P = "\<lambda>r. pr_group r = g \<and> pr_type r \<in> set types"
  have u: "tbl_unique pr_key (db_pending d)" using assms by (simp add: keys_ok_def)
  have "tbl_find pr_key k (tbl_delete ?P (db_pending d)) =
      (case tbl_find pr_key k (db_pending d) of None \<Rightarrow> None | Some r \<Rightarrow> if ?P r then None else Some r)" for k
    by (rule tbl_find_delete [OF u])
  from this [of "(q, c)"] show "pending_pair (refuse_pending_requests g by types d) q c =
      (if q = g \<and> (\<exists>t \<in> set types. pending_pair d q c = Some t) then None else pending_pair d q c)"
  proof (cases "tbl_find pr_key (q, c) (db_pending d)")
    case (Some r)
    then have "pr_group r = q" using tbl_find_Some [OF Some] by (simp add: pr_key_def)
    with Some \<open>tbl_find pr_key (q, c) (tbl_delete ?P (db_pending d)) = _\<close> show ?thesis
      by (auto simp: pending_pair_def refuse_pending_requests_def delete_pending_rows_def Let_def)
  qed (simp add: pending_pair_def refuse_pending_requests_def delete_pending_rows_def Let_def)
  show "keys_ok (refuse_pending_requests g by types d)"
    using assms by (simp add: keys_ok_def refuse_pending_requests_def delete_pending_rows_def Let_def tbl_unique_delete)
qed

lemma update_group_pairs:
  assumes d1: "change_approvals (gu_approval_change_action u) g user (rd_db s) = Inr d1" and ok: "memberships_ok (rd_db s)" and now: "now_of s < max_time"
    and d2: "d2 = refuse_sent_group_requests_if_needed g user old u d1"
  shows "active_pair (update_group_row g f d2) q c = active_pair d1 q c"
    and "pending_pair (update_group_row g f d2) q c =
      (if should_refuse_pending_requests old u \<and> q = g \<and>
          (\<exists>t \<in> set (pending_types_to_refuse (now_of s) old u). pending_pair d1 q c = Some t) then None else pending_pair d1 q c)"
    and "keys_ok (update_group_row g f d2)" and "db_groups d2 = db_groups (rd_db s)" and "db_now d2 = now_of s"
proof -
  note e1 = change_approvals_ok [OF d1 ok now]
  have keys1: "keys_ok d1" using e1 by (simp add: memberships_ok_def consistent_def)
  show groups: "db_groups d2 = db_groups (rd_db s)" "db_now d2 = now_of s"
    using e1 by (simp_all add: d2 refuse_sent_group_requests_if_needed_def refuse_pending_requests_def delete_pending_rows_def Let_def)
  have rels: "db_groups_groups d2 = db_groups_groups d1"
    by (simp add: d2 refuse_sent_group_requests_if_needed_def refuse_pending_requests_def delete_pending_rows_def Let_def)
  then show "active_pair (update_group_row g f d2) q c = active_pair d1 q c"
    using e1 groups by (simp add: update_group_row_def active_pair_def)
  have "pending_pair (update_group_row g f d2) q c = pending_pair d2 q c" by (simp add: update_group_row_def pending_pair_def)
  then show "pending_pair (update_group_row g f d2) q c =
      (if should_refuse_pending_requests old u \<and> q = g \<and>
          (\<exists>t \<in> set (pending_types_to_refuse (now_of s) old u). pending_pair d1 q c = Some t) then None else pending_pair d1 q c)"
    using refuse_pending_pairs(1) [OF keys1, of g user "pending_types_to_refuse (db_now d1) old u" q c] e1
    by (cases "should_refuse_pending_requests old u") (simp_all add: d2 refuse_sent_group_requests_if_needed_def)
  have "keys_ok d2" using keys1 refuse_pending_pairs(2) [OF keys1] by (simp add: d2 refuse_sent_group_requests_if_needed_def)
  then show "keys_ok (update_group_row g f d2)" by (simp add: update_group_row_def keys_ok_def)
qed

lemma update_group_ok:
  assumes run: "update_group user g u s = Inr s'" and ok: "memberships_ok (rd_db s)" and now: "now_of s < max_time"
  shows "memberships_ok (rd_db s') \<and> now_of s' = now_of s \<and> (frozen (rd_db s) q \<longrightarrow> frozen (rd_db s') q) \<and>
    (active_pair (rd_db s') q c \<longrightarrow> active_pair (rd_db s) q c)"
proof -
  from run obtain can_manage old d1 where old: "group_by_id (rd_db s) g = Some old"
    and valid: "validate_update_group_input (now_of s) (has_participants (rd_db s) g) can_manage old u"
    and d1: "change_approvals (gu_approval_change_action u) g user (rd_db s) = Inr d1"
    and s': "s' = s\<lparr>rd_db := update_group_row g (set_group_values u) (refuse_sent_group_requests_if_needed g user old u d1)\<rparr>"
    by (rule update_group_run)
  define d2 where "d2 = refuse_sent_group_requests_if_needed g user old u d1"
  note e1 = change_approvals_ok [OF d1 ok now]
  note groups = update_group_pairs(4,5) [OF d1 ok now d2_def]
  have active: "active_pair (rd_db s') q c = active_pair d1 q c"
    and pending: "pending_pair (rd_db s') q c =
      (if should_refuse_pending_requests old u \<and> q = g \<and>
          (\<exists>t \<in> set (pending_types_to_refuse (now_of s) old u). pending_pair d1 q c = Some t) then None else pending_pair d1 q c)"
    and keys: "keys_ok (rd_db s')" for q c
    using update_group_pairs(1-3) [OF d1 ok now d2_def, of "set_group_values u"] by (simp_all add: s' d2_def [symmetric])
  have frozen: "frozen (rd_db s') q \<longleftrightarrow> frozen (rd_db s) q \<or> q = g \<and> freezes old u" for q
  proof -
    have "group_by_id d2 q = group_by_id (rd_db s) q" by (simp add: group_by_id_def groups)
    then have "group_by_id (rd_db s') q = (if q = g then Some (set_group_values u old) else group_by_id (rd_db s) q)"
      using update_group_row_find [of "set_group_values u" g d2 q] old
      by (cases "q = g") (simp_all add: s' d2_def [symmetric] set_group_values_def)
    moreover have "given (gu_frozen_membership u) (g_frozen_membership old) \<longleftrightarrow> g_frozen_membership old \<or> freezes old u"
      using valid by (auto simp: validate_update_group_input_def frozen_membership_ok_def given_def changes_def freezes_def split: option.splits)
    ultimately show ?thesis using old by (simp add: frozen_def set_group_values_def)
  qed
  have no_requests: "pending_pair (rd_db s') q c \<noteq> Some JoinRequest" if "frozen (rd_db s') q" for q c
  proof (cases "frozen (rd_db s) q")
    case True
    then have "frozen d1 q" using e1 by (simp add: frozen_def group_by_id_def)
    then show ?thesis using frozen_no_requests [of d1 q c] e1 unfolding pending by (simp split: if_split)
  next
    case False
    with that frozen show ?thesis unfolding pending
      by (auto simp: should_refuse_pending_requests_def pending_types_to_refuse_def)
  qed
  have "consistent (rd_db s')"
    using e1 keys unfolding memberships_ok_def consistent_def active pending by (auto split: if_splits)
  moreover have "map g_id (db_groups (rd_db s')) = map g_id (db_groups (rd_db s))"
    by (simp add: s' d2_def [symmetric] update_group_row_def groups set_group_values_def)
  moreover have "tbl_unique g_id (db_groups (rd_db s))" using ok by (simp add: memberships_ok_def)
  ultimately have "memberships_ok (rd_db s')" using no_requests by (simp add: memberships_ok_alt tbl_unique_def)
  moreover have "now_of s' = now_of s" by (simp add: s' d2_def [symmetric] update_group_row_def groups)
  ultimately show ?thesis using frozen e1 unfolding active by simp
qed

section \<open>Any sequence of services\<close>

inductive groups_step :: "results_db \<Rightarrow> results_db \<Rightarrow> bool" where
  service: "membership_service actor s s' \<Longrightarrow> now_of s < max_time \<Longrightarrow> groups_step s s'"
| updating: "update_group user g u s = Inr s' \<Longrightarrow> now_of s < max_time \<Longrightarrow> groups_step s s'"
| passing: "now_of s \<le> t \<Longrightarrow> groups_step s (s\<lparr>rd_db := (rd_db s)\<lparr>db_now := t\<rparr>\<rparr>)"

lemma service_keeps:
  assumes "membership_service actor s s'" and ok: "memberships_ok (rd_db s)" and now: "now_of s < max_time"
  shows "memberships_ok (rd_db s') \<and> frozen (rd_db s') g = frozen (rd_db s) g \<and>
    (frozen (rd_db s) g \<longrightarrow> active_pair (rd_db s') g c \<longrightarrow> active_pair (rd_db s) g c)"
proof -
  have unique: "tbl_unique g_id (db_groups (rd_db s))" and keys: "keys_ok (rd_db s)"
    using ok by (auto simp: memberships_ok_def consistent_def)
  from service_transition [OF assms(1) unique] consider "s' = s"
    | (run) d0 action parent children approvals results requests d'
      where "transition action parent children approvals actor d0 = Inr (results, requests, d')" "s' = s\<lparr>rd_db := d'\<rparr>"
        "same_members (rd_db s) d0" "permitted (rd_db s) actor action parent children" by metis
  then show ?thesis
  proof cases
    case run
    note pairs = same_members_pairs [OF run(3)]
    have now0: "db_now d0 < max_time" and froz: "frozen d0 q = frozen (rd_db s) q" for q
      using run(3) now by (auto simp: same_members_def)
    have requests: "\<not> frozen d0 parent" if "action = UserCreatesJoinRequest"
      using run(4) that by (simp add: permitted_def froz)
    note t = transition_memberships_ok [OF run(1) _ now0 requests]
    have "active_pair (rd_db s) g c" if fr: "frozen (rd_db s) g" and new: "active_pair d' g c"
    proof (rule ccontr)
      assume old: "\<not> active_pair (rd_db s) g c"
      then have "g = parent" and "joins_from action (membership (rd_db s) parent c)"
        using transition_joins [OF run(1) _ now0 _ new] keys by (simp_all add: pairs)
      moreover have "membership (rd_db s) parent c \<noteq> JoinRequestCreated"
        using membership_pending(2) [OF keys] frozen_no_requests [OF ok fr] \<open>g = parent\<close> by blast
      ultimately show False using run(4) fr unfolding joins_from_def permitted_def by auto
    qed
    then show ?thesis using t ok by (simp add: run(2) pairs froz)
  qed (use ok in simp)
qed

text \<open>
  C13: Whatever sequence of services on memberships and of updates of groups is run, a group whose membership is frozen stays frozen, and
  nobody becomes a member of it again: its members can only get fewer.
\<close>

theorem frozen_groups_closed:
  assumes "groups_step\<^sup>*\<^sup>* s s'" and "memberships_ok (rd_db s)" and "frozen (rd_db s) g"
  shows "memberships_ok (rd_db s') \<and> frozen (rd_db s') g \<and> (active_pair (rd_db s') g c \<longrightarrow> active_pair (rd_db s) g c)"
  using assms(1)
proof (induction rule: rtranclp_induct)
  case (step y z)
  then have ok: "memberships_ok (rd_db y)" and froz: "frozen (rd_db y) g" and pair: "active_pair (rd_db y) g c \<longrightarrow> active_pair (rd_db s) g c"
    by simp_all
  from step.hyps(2) show ?case
  proof cases
    case (service actor)
    then show ?thesis using service_keeps [OF service(1) ok service(2), of g c] froz pair by simp
  next
    case (updating user q u)
    then show ?thesis using update_group_ok [OF updating(1) ok updating(2), of g c] froz pair by simp
  next
    case (passing t)
    have "active_pair (rd_db z) q d \<Longrightarrow> active_pair (rd_db y) q d" and "pending_pair (rd_db z) q d = pending_pair (rd_db y) q d" for q d
      using passing by (auto simp: active_pair_def pending_pair_def)
    moreover have "keys_ok (rd_db z) = keys_ok (rd_db y)" "frozen (rd_db z) q = frozen (rd_db y) q" for q
      using passing by (simp_all add: keys_ok_def frozen_def group_by_id_def)
    ultimately show ?thesis using ok froz pair passing unfolding memberships_ok_alt consistent_def by auto
  qed
qed (use assms in simp)

section \<open>Stronger requirements\<close>

lemma active_not_dropped:
  assumes "c \<in> set children" and "is_active (membership d parent c)" and "action \<notin> set limited_actions"
  shows "map_of (p_results (transition_plan action parent children approvals g d)) c = Some (fst (child_decision action parent approvals g d c))"
proof -
  let ?olds = "old_actions_map d parent children"
  let ?p0 = "build_transitions_plan parent children ?olds (group_limits (db_now d) g) approvals action"
  obtain res to where dec: "child_decision action parent approvals g d c = (res, to)" by (cases "child_decision action parent approvals g d c")
  have view: "plan_view ?p0 c = decision_view (membership d parent c) (res, to)"
    using assms(1) dec by (simp add: build_plan_view get_state_of child_decision_def state_of_action)
  then have "map_of (p_check_cycle ?p0) c = None" using assms(2) by (simp add: plan_view_def decision_view_def)
  then have "plan_view (perform_cycles_checking d parent ?p0) c = decision_view (membership d parent c) (res, to)"
    by (simp add: cycles_view view)
  then show ?thesis
    using assms(3) dec by (simp add: transition_plan_def Let_def enforce_max_size_def plan_view_def decision_view_def)
qed

lemma active_membership:
  assumes "consistent d"
  shows "active_pair d q c \<longleftrightarrow> membership d q c = IsMember \<or> membership d q c = LeaveRequestCreated"
proof -
  have keys: "keys_ok d" and "active_pair d q c \<Longrightarrow> pending_pair d q c = None \<or> pending_pair d q c = Some LeaveRequest"
    using assms by (auto simp: consistent_def)
  then show ?thesis
    unfolding membership_combine [OF keys] by (cases "(active_pair d q c, pending_pair d q c)" rule: combine.cases) simp_all
qed

lemma strengthening_removes:
  assumes run: "transition action g children [] user d = Inr (results, requests, d')" and ok: "consistent d" and now: "db_now d < max_time"
    and action: "action = AdminStrengthensApprovalWithReinvite \<or> action = AdminStrengthensApprovalWithEmpty"
    and c: "c \<in> set children" "c \<noteq> g"
  shows "\<not> active_pair d' g c"
proof (cases "active_pair d g c")
  case False
  have keys: "keys_ok d" using ok by (simp add: consistent_def)
  then show ?thesis using False transition_joins [OF run keys now False] action by (auto simp: joins_from_def)
next
  case True
  have keys: "keys_ok d" using ok by (simp add: consistent_def)
  from run obtain row where row: "group_by_id d g = Some row" and res: "results = p_results (transition_plan action g children [] row d)"
    by (rule transition_run) auto
  have member: "membership d g c = IsMember \<or> membership d g c = LeaveRequestCreated"
    using True active_membership [OF ok] by simp
  then have "\<exists>to. child_decision action g [] row d c = (Success, to) \<and> settle to \<noteq> IsMember \<and> settle to \<noteq> LeaveRequestCreated"
    using action c(2) by (auto simp: child_decision_def decision_def outcome_def state_of_action has_approvals_def)
  moreover have "map_of results c = Some (fst (child_decision action g [] row d c))"
    unfolding res using member action by (intro active_not_dropped [OF c(1)]) (auto simp: limited_actions_def)
  ultimately have "membership d' g c \<noteq> IsMember" "membership d' g c \<noteq> LeaveRequestCreated"
    using transition_refinement [OF run keys now row, of g c] by auto
  moreover have "consistent d'" by (rule step_consistent [OF transit [OF run now] ok])
  ultimately show ?thesis by (simp add: active_membership)
qed

lemma strengthened_has_action:
  "some_field_strengthened now has old u \<Longrightarrow> strengthening_has_action now has old u \<Longrightarrow> gu_approval_change_action u \<noteq> None"
  by (auto simp: some_field_strengthened_def strengthening_has_action_def personal_info_strengthened_def lock_strengthened_def
      watch_strengthened_def given_def changes_def split: option.splits personal_info_requirement.splits)

lemma participant_listed:
  "active_pair d g c \<Longrightarrow> is_participant d c \<Longrightarrow> c \<in> set (direct_participant_ids d g)"
  by (force simp: active_pair_def direct_participant_ids_def is_direct_participant_def)

lemma has_participants_iff: "has_participants d g \<longleftrightarrow> direct_participant_ids d g \<noteq> []"
  by (auto simp: has_participants_def direct_participant_ids_def list_ex_iff filter_empty_conv)

text \<open>
  C14: When an update strengthens what a group requires of its members to approve, no user and no team stays a member, and no request
  to join is left: nobody is bound by requirements that they have not approved.
\<close>

theorem strengthening_empties_group:
  assumes "update_group user g u s = Inr s'" and "memberships_ok (rd_db s)" and "now_of s < max_time"
    and "group_by_id (rd_db s) g = Some old" and "some_field_strengthened (now_of s) True old u"
    and "is_participant (rd_db s) c" and "c \<noteq> g"
  shows "\<not> active_pair (rd_db s') g c \<and> (has_participants (rd_db s) g \<longrightarrow> pending_pair (rd_db s') g c \<noteq> Some JoinRequest)"
proof -
  from assms(1) obtain can_manage row d1 where row: "group_by_id (rd_db s) g = Some row"
    and valid: "validate_update_group_input (now_of s) (has_participants (rd_db s) g) can_manage row u"
    and d1: "change_approvals (gu_approval_change_action u) g user (rd_db s) = Inr d1"
    and s': "s' = s\<lparr>rd_db := update_group_row g (set_group_values u) (refuse_sent_group_requests_if_needed g user row u d1)\<rparr>"
    by (rule update_group_run)
  have old: "row = old" using row assms(4) by simp
  note pairs = update_group_pairs(1,2) [OF d1 assms(2,3) refl, of "set_group_values u" old g c]
  show ?thesis
  proof (cases "has_participants (rd_db s) g")
    case False
    then have "\<not> active_pair (rd_db s) g c" using participant_listed [of "rd_db s" g c] assms(6) by (auto simp: has_participants_iff)
    then show ?thesis using False update_group_ok [OF assms(1-3), of g c] by blast
  next
    case True
    then have "gu_approval_change_action u \<noteq> None"
      using valid assms(5) strengthened_has_action unfolding validate_update_group_input_def old by auto
    then obtain a where a: "gu_approval_change_action u = Some a" by blast
    from change_approvals_run [OF d1 [unfolded a]] obtain action results requests
      where run: "transition action g (direct_participant_ids (rd_db s) g) [] user (rd_db s) = Inr (results, requests, d1)"
        and action: "action = AdminStrengthensApprovalWithReinvite \<or> action = AdminStrengthensApprovalWithEmpty" by blast
    have ok: "consistent (rd_db s)" using assms(2) by (simp add: memberships_ok_def)
    have "\<not> active_pair d1 g c"
    proof (cases "active_pair (rd_db s) g c")
      case True
      then show ?thesis using strengthening_removes [OF run ok assms(3) action] participant_listed assms(6,7) by blast
    next
      case False
      then show ?thesis using change_approvals_ok [OF d1 assms(2,3), of g c] by blast
    qed
    then show ?thesis
      using pairs by (auto simp: s' old should_refuse_pending_requests_def a pending_types_to_refuse_def)
  qed
qed

lemma given_unchanged: "\<not> changes field old \<Longrightarrow> given field old = old"
  by (auto simp: given_def changes_def split: option.splits)

lemma can_manage_numbers: "can_manage_index ''memberships'' = 2" "can_manage_index ''memberships_and_group'' = 3"
  by code_simp+

lemma can_manage_value_attained:
  assumes "can_manage_value d user g = Some v"
  shows "\<exists>m \<in> set (managed_by d user g). gm_can_manage m = v"
proof -
  have "managed_by d user g \<noteq> []" and "v = max_or 0 (map gm_can_manage (managed_by d user g))"
    using assms by (auto simp: can_manage_value_def Let_def split: if_splits)
  then obtain m ms where ms: "managed_by d user g = m # ms" and "v = fold max (map gm_can_manage ms) (gm_can_manage m)"
    by (cases "managed_by d user g") (auto simp: max_or_def)
  then have "v = Max (set (map gm_can_manage (managed_by d user g)))" by (simp add: Max.set_eq_fold [symmetric] del: Max_insert)
  then have "v \<in> set (map gm_can_manage (managed_by d user g))" using Max_in ms by (metis finite_set list.map_disc_iff list.distinct(1) set_empty)
  then show ?thesis by auto
qed

lemma set_group_values_rights:
  assumes "rights_to_change v old u"
  shows "set_group_values u old = old \<or> 2 \<le> v \<and>
    (set_group_values u old = old\<lparr>g_code_lifetime := g_code_lifetime (set_group_values u old),
       g_code_expires_at := g_code_expires_at (set_group_values u old), g_frozen_membership := g_frozen_membership (set_group_values u old),
       g_max_participants := g_max_participants (set_group_values u old),
       g_enforce_max_participants := g_enforce_max_participants (set_group_values u old)\<rparr> \<or> 3 \<le> v)"
proof (cases "3 \<le> v")
  case False
  with assms have group: "given (gu_is_public u) (g_is_public old) = g_is_public old"
      "given (gu_root_activity_id u) (g_root_activity_id old) = g_root_activity_id old"
      "given (gu_root_skill_id u) (g_root_skill_id old) = g_root_skill_id old"
      "given (gu_is_official_session u) (g_is_official_session old) = g_is_official_session old"
      "given (gu_require_personal_info u) (g_require_personal_info_access_approval old) = g_require_personal_info_access_approval old"
      "given (gu_require_lock_until u) (g_require_lock_membership_approval_until old) = g_require_lock_membership_approval_until old"
      "given (gu_require_watch u) (g_require_watch_approval old) = g_require_watch_approval old"
    by (simp_all add: rights_to_change_def can_manage_numbers given_unchanged)
  show ?thesis
  proof (cases "2 \<le> v")
    case True
    then show ?thesis by (simp add: set_group_values_def group)
  next
    case False
    with assms have "given (gu_code_lifetime u) (g_code_lifetime old) = g_code_lifetime old"
        "given (gu_code_expires_at u) (g_code_expires_at old) = g_code_expires_at old"
        "given (gu_frozen_membership u) (g_frozen_membership old) = g_frozen_membership old"
        "given (gu_max_participants u) (g_max_participants old) = g_max_participants old"
        "given (gu_enforce_max_participants u) (g_enforce_max_participants old) = g_enforce_max_participants old"
      by (simp_all add: rights_to_change_def can_manage_numbers given_unchanged)
    then have "set_group_values u old = old" by (simp add: set_group_values_def group)
    then show ?thesis by simp
  qed
qed simp

text \<open>
  C15: An update of a group is made by one of its managers and, beyond the code, the size limit and the freezing, by one who manages the group
  itself.  Afterwards an enforced size limit has a value, and an official session has a root activity.
\<close>

theorem update_group_sound:
  assumes "update_group user g u s = Inr s'" and "memberships_ok (rd_db s)" and "now_of s < max_time" and "group_by_id (rd_db s) g = Some old"
    and "g_enforce_max_participants old \<longrightarrow> g_max_participants old \<noteq> None" and "g_is_official_session old \<longrightarrow> g_root_activity_id old \<noteq> None"
  shows "\<exists>new. group_by_id (rd_db s') g = Some new \<and>
    (g_enforce_max_participants new \<longrightarrow> g_max_participants new \<noteq> None) \<and> (g_is_official_session new \<longrightarrow> g_root_activity_id new \<noteq> None) \<and>
    (\<exists>m \<in> set (managed_by (rd_db s) user g).
       new = old \<or> 2 \<le> gm_can_manage m \<and>
       (new = old\<lparr>g_code_lifetime := g_code_lifetime new, g_code_expires_at := g_code_expires_at new,
          g_frozen_membership := g_frozen_membership new, g_max_participants := g_max_participants new,
          g_enforce_max_participants := g_enforce_max_participants new\<rparr> \<or> 3 \<le> gm_can_manage m)) \<and>
    (\<forall>q. q \<noteq> g \<longrightarrow> group_by_id (rd_db s') q = group_by_id (rd_db s) q)"
proof -
  from assms(1) obtain can_manage row d1 where cm: "can_manage_value (rd_db s) user g = Some can_manage" and row: "group_by_id (rd_db s) g = Some row"
    and valid: "validate_update_group_input (now_of s) (has_participants (rd_db s) g) can_manage row u" and root: "root_activity_error s user row u = None"
    and d1: "change_approvals (gu_approval_change_action u) g user (rd_db s) = Inr d1"
    and s': "s' = s\<lparr>rd_db := update_group_row g (set_group_values u) (refuse_sent_group_requests_if_needed g user row u d1)\<rparr>"
    by (rule update_group_run)
  have old: "row = old" using row assms(4) by simp
  have same: "group_by_id (refuse_sent_group_requests_if_needed g user old u d1) q = group_by_id (rd_db s) q" for q
    using update_group_pairs(4) [OF d1 assms(2,3) refl, of old] by (simp add: group_by_id_def)
  have rows: "group_by_id (rd_db s') q = (if q = g then Some (set_group_values u old) else group_by_id (rd_db s) q)" for q
    using update_group_row_find [of "set_group_values u" g "refuse_sent_group_requests_if_needed g user old u d1" q] assms(4) same
    by (cases "q = g") (simp_all add: s' old set_group_values_def)
  let ?new = "set_group_values u old"
  have "g_enforce_max_participants ?new \<longrightarrow> g_max_participants ?new \<noteq> None"
    using valid assms(5) unfolding old
    by (auto simp: validate_update_group_input_def max_participants_ok_def enforce_max_participants_ok_def changes_def given_def
        set_group_values_def split: option.splits)
  moreover have "g_is_official_session ?new \<longrightarrow> g_root_activity_id ?new \<noteq> None"
    using root assms(6) unfolding old
    by (auto simp: root_activity_error_def changes_official_session_activity_def changes_def given_def Let_def
        set_group_values_def split: option.splits if_splits)
  moreover have "rights_to_change can_manage old u" using valid by (simp add: validate_update_group_input_def old)
  moreover obtain m where "m \<in> set (managed_by (rd_db s) user g)" "gm_can_manage m = can_manage"
    using can_manage_value_attained [OF cm] by blast
  ultimately show ?thesis using set_group_values_rights [of can_manage old u] rows by auto
qed

end
