(* ===== verification/MembershipChecks.thy ===== *)
theory MembershipChecks
  imports MembershipServiceRules MembershipSuccess
begin

text \<open>
  The checks of the services compared with each other: the check of a code with joining by it, the two searches for members of other
  teams, and an invitation with the acceptance of a request.
\<close>

section \<open>Codes\<close>

lemma active_rows_of_iff: "active_rows_of d g user \<noteq> [] \<longleftrightarrow> active_pair d g user"
  by (auto simp: active_rows_of_def groups_groups_active_def active_pair_def filter_empty_conv)

text \<open>The result of a child is that of its decision, unless the plan drops the child.\<close>

lemma transition_result_of:
  assumes p: "p = transition_plan action parent children approvals g d" and c: "c \<in> set children"
  shows "\<exists>r. map_of (p_results p) c = Some r \<and>
      (r = fst (child_decision action parent approvals g d c) \<or>
       fst (child_decision action parent approvals g d c) = Success \<and>
         (r = Full \<or> r = Cycle \<and> is_ancestor_row d c parent))"
proof -
  let ?li = "group_limits (db_now d) g"
  let ?p0 = "build_transitions_plan parent children (old_actions_map d parent children) ?li approvals action"
  let ?p1 = "perform_cycles_checking d parent ?p0"
  let ?dec = "child_decision action parent approvals g d c"
  have p0: "plan_view ?p0 c = decision_view (membership d parent c) ?dec"
    using c get_state_of [OF c, symmetric, where d = d and parent = parent]
    by (simp add: build_plan_view child_decision_def state_of_action [symmetric])
  have changes: "fst ?dec = Success" if "map_of (p_changed ?p0) c \<noteq> None \<or> map_of (p_check_cycle ?p0) c \<noteq> None"
    using p0 that by (cases ?dec) (auto simp: plan_view_def decision_view_def split: if_splits)
  have p2: "p = enforce_max_size d action parent ?li ?p1"
    by (simp add: p transition_plan_def Let_def)
  have p1: "plan_view ?p1 c = plan_view ?p0 c \<or>
      fst ?dec = Success \<and> map_of (p_results ?p1) c = Some Cycle \<and> map_of (p_changed ?p1) c = None \<and> is_ancestor_row d c parent"
  proof (cases "map_of (p_check_cycle ?p0) c \<noteq> None \<and> (\<exists>r \<in> set (db_groups_ancestors d). ga_ancestor r = c \<and> ga_child r = parent)")
    case True
    then have "plan_view ?p1 c = (Some Cycle, None, False, True, False, False, None)"
      unfolding cycles_view [of d parent ?p0 c] by (rule if_P)
    then show ?thesis using True changes by (auto simp: plan_view_def is_ancestor_row_def)
  next
    case False
    show ?thesis unfolding cycles_view [of d parent ?p0 c] if_not_P [OF False] by (rule disjI1 [OF refl])
  qed
  have v0: "map_of (p_results ?p0) c = Some (fst ?dec)"
    using p0 by (cases ?dec) (simp add: plan_view_def decision_view_def)
  from max_size_view [of d action parent ?li ?p1 c] show ?thesis
  proof
    assume "plan_view (enforce_max_size d action parent ?li ?p1) c = plan_view ?p1 c"
    then have "map_of (p_results p) c = map_of (p_results ?p1) c" unfolding p2 by (simp add: plan_view_def)
    with p1 v0 show ?thesis by (auto simp: plan_view_def)
  next
    assume full: "map_of (p_changed ?p1) c \<noteq> None \<and> plan_view (enforce_max_size d action parent ?li ?p1) c =
      (Some Full, None, False, map_of (p_check_cycle ?p1) c \<noteq> None, False, False, None)"
    then have "fst ?dec = Success" using p1 changes by (auto simp: plan_view_def)
    moreover have "map_of (p_results p) c = Some Full" using full unfolding p2 by (simp add: plan_view_def)
    ultimately show ?thesis by simp
  qed
qed

lemma joining_result:
  assumes run: "transition UserJoinsGroupByCode g [user] approvals user d = Inr (results, requests, d')"
    and ok: "consistent d" and now: "db_now d < max_time"
  shows "\<exists>res. map_of results user = Some res \<and> (res = Invalid \<longleftrightarrow> user = g \<or> active_pair d g user) \<and> res \<noteq> Unchanged \<and>
    (res = Cycle \<longrightarrow> is_ancestor_row d user g)"
proof -
  from run obtain row p where p: "p = transition_plan UserJoinsGroupByCode g [user] approvals row d" and res: "results = p_results p"
    by (rule transition_run) auto
  have keys: "keys_ok d" using ok by (simp add: consistent_def)
  have "(user = g \<or> active_pair d g user \<longleftrightarrow> fst (child_decision UserJoinsGroupByCode g approvals row d user) = Invalid) \<and>
      fst (child_decision UserJoinsGroupByCode g approvals row d user) \<notin> {Unchanged, Cycle}"
    using active_membership [OF ok, of g user] membership_combine [OF keys, of g user]
    by (cases "(active_pair d g user, pending_pair d g user)" rule: combine.cases)
       (simp_all add: child_decision_def decision_def outcome_def state_of_action)
  with transition_result_of [OF p, of user] show ?thesis by (auto simp: res)
qed

lemma result_cases: "res = Some Success \<or> res = Some ApprovalsMissing \<or> res = Some Full \<or> res = Some Cycle \<or> res = Some Invalid \<or>
    res = Some Unchanged \<or> res = None"
proof (cases res)
  case (Some r)
  then show ?thesis by (cases r) simp_all
qed simp

lemma group_by_id_exists: "group_exists d i \<longleftrightarrow> group_by_id d i \<noteq> None"
  by (simp add: group_exists_def group_by_id_def tbl_has_find)

lemma start_code_lifetime_keeps:
  "group_exists (start_code_lifetime x d) i = group_exists d i"
  "ancestors_cached (start_code_lifetime x d) = ancestors_cached d"
  "team_flags_ok (start_code_lifetime x d) = team_flags_ok d"
  "is_ancestor_row (start_code_lifetime x d) i j = is_ancestor_row d i j"
proof -
  have e: "group_exists (start_code_lifetime x d) i = group_exists d i" for i
    by (auto simp: start_code_lifetime_def group_by_id_exists update_group_row_find split: option.split)
  have t: "team_parent (start_code_lifetime x d) p = team_parent d p" for p
    by (auto simp: start_code_lifetime_def team_parent_def update_group_row_find split: option.split)
  have same: "db_now (start_code_lifetime x d) = db_now d" "db_groups_groups (start_code_lifetime x d) = db_groups_groups d"
    "db_groups_ancestors (start_code_lifetime x d) = db_groups_ancestors d" "db_groups_propagate (start_code_lifetime x d) = db_groups_propagate d"
    by (auto simp: start_code_lifetime_def update_group_row_def split: option.split)
  show "group_exists (start_code_lifetime x d) i = group_exists d i" by (rule e)
  show "ancestors_cached (start_code_lifetime x d) = ancestors_cached d" by (simp add: ancestors_cached_def same e)
  show "team_flags_ok (start_code_lifetime x d) = team_flags_ok d" by (simp add: team_flags_ok_def same t)
  show "is_ancestor_row (start_code_lifetime x d) i j = is_ancestor_row d i j" by (simp add: is_ancestor_row_def same)
qed

text \<open>Users have no members.\<close>

definition without_members :: "db \<Rightarrow> id \<Rightarrow> bool" where
  "without_members d i = ((\<forall>r \<in> set (db_groups_groups d). gg_parent r \<noteq> i) \<and>
     (\<forall>r \<in> set (db_groups_ancestors d). ga_ancestor r = i \<longrightarrow> ga_child r = i))"

text \<open>
  C16: The check of a code tells a user who is not temporary what joining by the code will do.  With a valid code the service
  succeeds, and the user is a member afterwards, or is told that approvals are missing or the group is full.  With an invalid code
  nobody joins: the reason given is the error of joining; for a member already, the relation is in conflict, or, in
  a team, one of the two errors of the participations comes first.
\<close>

theorem check_code_agrees:
  assumes check: "check_group_code_for_user s user code = (valid, reason, g)"
    and ok: "memberships_ok (rd_db s)" "ancestors_cached (rd_db s)" "team_flags_ok (rd_db s)"
    and user: "group_exists (rd_db s) user" "without_members (rd_db s) user" "user \<noteq> g"
  shows "case reason of
      OkReason \<Rightarrow> valid \<and> (\<exists>res q s'. join_group_by_code code user False approvals s = Inr (Some res, q, s') \<and>
        res \<in> {Success, ApprovalsMissing, Full} \<and> (res = Success \<longleftrightarrow> active_pair (rd_db s') g user))
    | NoGroupReason \<Rightarrow> \<not> valid \<and> join_group_by_code code user False approvals s = Inl NotAllowed
    | FrozenMembershipReason \<Rightarrow> \<not> valid \<and> join_group_by_code code user False approvals s = Inl MembershipFrozen
    | ConflictingTeamParticipationReason \<Rightarrow> \<not> valid \<and> join_group_by_code code user False approvals s = Inl ConflictingParticipations
    | TeamConditionsNotMetReason \<Rightarrow> \<not> valid \<and> join_group_by_code code user False approvals s = Inl EntryConditionsBroken
    | AlreadyMemberReason \<Rightarrow> \<not> valid \<and> active_pair (rd_db s) g user \<and> (case join_group_by_code code user False approvals s of
        Inl e \<Rightarrow> is_team (rd_db s) g \<and> e \<in> {ConflictingParticipations, EntryConditionsBroken} | Inr (res, q, s') \<Rightarrow> res = Some Invalid)"
proof (cases "group_joining_by_code_info code (rd_db s)")
  case None
  then show ?thesis using check by (auto simp: check_group_code_for_user_def join_group_by_code_def)
next
  case (Some x)
  then have g: "g = g_id x" using check by (auto simp: check_group_code_for_user_def split: if_splits)
  let ?d = "start_code_lifetime x (rd_db s)" and ?a = "approvals_from_string approvals no_approvals"
  have same: "same_members (rd_db s) ?d" by (rule start_code_lifetime_same)
  note pairs = same_members_pairs [OF same] and keeps = start_code_lifetime_keeps
  have ok': "consistent ?d" using ok(1) by (simp add: memberships_ok_def consistent_def pairs)
  have row: "group_by_id (rd_db s) (g_id x) = Some x"
    using group_by_id_of code_group [OF Some] ok(1) by (simp add: memberships_ok_def)
  have now: "db_now ?d < max_time" using same ok(2) by (simp add: same_members_def ancestors_cached_def)
  have leaf: "(user, y) \<notin> (set (group_edges (db_groups_groups ?d)))\<^sup>+" for y
  proof
    assume "(user, y) \<in> (set (group_edges (db_groups_groups ?d)))\<^sup>+"
    then obtain z where "(user, z) \<in> set (group_edges (db_groups_groups ?d))" by (meson tranclD)
    with user(2) same show False by (auto simp: group_edges_set without_members_def same_members_def)
  qed
  have "group_exists (rd_db s) g" using code_group [OF Some] by (auto simp: g group_exists_def tbl_has_def)
  then have exist: "group_exists ?d g" "group_exists ?d user" using user(1) by (simp_all add: keeps)
  obtain results requests d' where run: "transition UserJoinsGroupByCode g [user] [(user, ?a)] user ?d = Inr (results, requests, d')"
      and ok_after: "consistent d'"
    using transition_total [OF ok', of g "[user]" UserJoinsGroupByCode "[(user, ?a)]" user] ok(2,3) exist leaf by (auto simp: keeps)
  obtain res where res: "map_of results user = Some res" "res = Invalid \<longleftrightarrow> active_pair (rd_db s) g user" "res \<notin> {Unchanged, Cycle}"
  proof -
    have "\<not> is_ancestor_row ?d user g" unfolding keeps using user(2,3) by (auto simp: without_members_def is_ancestor_row_def)
    then show ?thesis using joining_result [OF run ok' now] user(3) that by (auto simp: pairs)
  qed
  have joined: "res = Success \<longleftrightarrow> active_pair d' g user" if "\<not> active_pair (rd_db s) g user"
  proof -
    obtain row where row: "group_by_id ?d g = Some row" using run by (rule transition_run)
    have keys: "keys_ok ?d" using ok' by (simp add: consistent_def)
    note t = transition_refinement [OF run keys now row, of g user]
    show ?thesis
    proof (cases "res = Success")
      case False
      have "\<not> is_active (membership ?d g user)" using that counted_states(1) [OF ok', of g user] by (simp add: pairs)
      with False t res(1) show ?thesis unfolding counted_states(1) [OF ok_after] by simp
    next
      case True
      then obtain to where dec: "child_decision UserJoinsGroupByCode g [(user, ?a)] row ?d user = (Success, to)"
        using transition_result_of [OF refl, of user "[user]" UserJoinsGroupByCode g "[(user, ?a)]" row ?d] run row res(1)
        by (cases "child_decision UserJoinsGroupByCode g [(user, ?a)] row ?d user") (auto simp: transition_def Let_def split: sum.splits)
      then have "is_active to" by (auto simp: child_decision_def decision_def outcome_def split: if_splits)
      with t res(1) True dec show ?thesis unfolding counted_states(1) [OF ok_after] by (simp add: settle_counted)
    qed
  qed
  have result: "transition_of_user UserJoinsGroupByCode user g ?a (s\<lparr>rd_db := ?d\<rparr>) = Inr (Some res, get_approvals requests user, s\<lparr>rd_db := d'\<rparr>)"
    using run res(1) by (simp add: transition_of_user_def)
  have cases: "res \<in> {Success, ApprovalsMissing, Full}" if "res \<noteq> Invalid" using that res(3) by (cases res) simp_all
  show ?thesis
  proof (cases "active_rows_of (rd_db s) g user \<noteq> []")
    case True
    then have "active_pair (rd_db s) g user" by (simp add: active_rows_of_iff)
    with True check Some result res row show ?thesis
      by (auto simp: is_team_def check_group_code_for_user_def join_group_by_code_def team_joining_error_def g split: if_splits)
  next
    case False
    then have inactive: "\<not> active_pair (rd_db s) g user" by (simp add: active_rows_of_iff)
    with res(2) cases have "res \<in> {Success, ApprovalsMissing, Full}" by blast
    with False check Some result joined [OF inactive] show ?thesis
      by (auto simp: check_group_code_for_user_def join_group_by_code_def team_joining_error_def g split: if_splits)
  qed
qed

text \<open>
  The lifetime of a code starts even when nobody joins: the transaction is committed before the result of the transition is looked at.
\<close>

lemma failed_join_starts_code:
  assumes "join_group_by_code code user False approvals s = Inr (Some res, requests, s')" and "res \<noteq> Success"
    and "group_joining_by_code_info code (rd_db s) = Some g" and "g_code_expires_at g = None" and "g_code_lifetime g = Some t"
    and "memberships_ok (rd_db s)" and "now_of s < max_time"
  shows "(\<exists>new. group_by_id (rd_db s') (g_id g) = Some new \<and> g_code_expires_at new = Some (now_of s + t)) \<and>
    (active_pair (rd_db s') q c \<longleftrightarrow> active_pair (rd_db s) q c)"
proof -
  let ?d = "start_code_lifetime g (rd_db s)"
  from code_run [OF assms(1)] assms(3) obtain a results rs d
    where run: "transition UserJoinsGroupByCode (g_id g) [user] [(user, a)] user ?d = Inr (results, rs, d)"
    and s': "s' = s\<lparr>rd_db := d\<rparr>" and res: "Some res = map_of results user" by auto
  note pairs = same_members_pairs [OF start_code_lifetime_same [of "rd_db s" g]]
  have keys: "keys_ok ?d" and now: "db_now ?d < max_time" and ok: "consistent ?d"
    using assms(6,7) start_code_lifetime_same [of "rd_db s" g] by (auto simp: memberships_ok_def consistent_def pairs same_members_def)
  have "group_by_id (rd_db s) (g_id g) = Some g"
    using group_by_id_of code_group [OF assms(3)] assms(6) by (simp add: memberships_ok_def)
  then have "group_by_id ?d (g_id g) = Some (g\<lparr>g_code_expires_at := Some (now_of s + t)\<rparr>)"
    using assms(4,5) by (simp add: start_code_lifetime_def update_group_row_find)
  moreover have "db_groups d = db_groups ?d" using transition_frame(1) [OF run keys now] .
  ultimately have "\<exists>new. group_by_id (rd_db s') (g_id g) = Some new \<and> g_code_expires_at new = Some (now_of s + t)"
    by (simp add: s' group_by_id_def)
  moreover have "active_pair d q c \<longleftrightarrow> active_pair ?d q c"
  proof -
    from transition_frame(3) [OF run keys now] obtain row where row: "group_by_id ?d (g_id g) = Some row" by blast
    have other: "map_of results c \<noteq> Some Success" if "c = user" using res [symmetric] assms(2) that by simp
    have foreign: "map_of results c = None" if "c \<noteq> user"
    proof -
      from run obtain row p where p: "p = transition_plan UserJoinsGroupByCode (g_id g) [user] [(user, a)] row ?d" and rp: "results = p_results p"
        by (rule transition_run) auto
      show ?thesis using final_plan_view_other [of c "[user]"] that by (simp add: rp p plan_view_def)
    qed
    have "membership d q c = membership ?d q c"
      using transition_refinement [OF run keys now row, of q c] other foreign by (cases "c = user") auto
    moreover have "consistent d" by (rule step_consistent [OF transit [OF run now] ok])
    ultimately show ?thesis using ok by (simp add: active_membership)
  qed
  ultimately show ?thesis by (simp add: s' pairs)
qed

section \<open>Teams\<close>

text \<open>The two searches agree when ended attempts allow no submissions.\<close>

lemma conflict_checks_agree:
  assumes "is_team (rd_db s) team"
    and "\<forall>a \<in> set (rd_attempts s). now_of s < at_allows_submissions_until a \<longrightarrow> at_ended_at a = None"
  shows "other_teams_members s team [user] \<noteq> [] \<longleftrightarrow> team_participations_conflict s team user"
proof -
  have "conflicting_attempt s (\<lambda>a. now_of s < at_allows_submissions_until a \<and> at_ended_at a = None) team r =
      conflicting_attempt s (\<lambda>a. now_of s < at_allows_submissions_until a) team r" for r
  proof -
    have "\<forall>a \<in> set (participations s p i). now_of s < at_allows_submissions_until a \<and> at_ended_at a = None \<longleftrightarrow>
        now_of s < at_allows_submissions_until a" for p i
      using assms(2) by (auto simp: participations_def)
    then show ?thesis unfolding conflicting_attempt_def list_ex_iff by blast
  qed
  then show ?thesis using assms(1) by (auto simp: other_teams_members_def team_participations_conflict_def)
qed

text \<open>
  Leaving a team is checked as if the user joined once more: the service looks at the entry conditions of the present members, the
  leaving one included, and never at those of the members who stay, which the list of memberships shows.
\<close>

lemma leaving_ignores_departure:
  assumes "is_team (rd_db s) g" and "active_pair (rd_db s) g user" and "\<not> leaving_is_locked (rd_db s) g user"
  shows "perform_group_relation_action LeaveGroup user temp g approvals s =
    (if \<exists>it \<in> set (rd_items s). breaks_entry_conditions s (counted_members (rd_db s) (team_children (rd_db s) g))
          (active_participation_starts s g (it_id it)) it
     then Inl EntryConditionsBroken else transition_of_user UserLeavesGroup user g no_approvals s)"
proof -
  have "user \<in> set (team_children (rd_db s) g)"
    using assms(2) by (auto simp: team_children_def groups_groups_active_def active_pair_def)
  then have "counted_members (rd_db s) (updated_members (rd_db s) g user True) = counted_members (rd_db s) (team_children (rd_db s) g)"
    by (simp add: counted_members_def updated_members_def insert_absorb)
  moreover have "group_exists (rd_db s) g"
    using assms(1) by (auto simp: is_team_def group_exists_def group_by_id_def tbl_has_def split: option.splits dest!: tbl_find_Some)
  ultimately show ?thesis
    using assms(1,3)
    by (simp add: perform_group_relation_action_def perform_user_group_relation_action_def effective_user_action_def
        entry_conditions_still_satisfied_def)
qed

lemma build_one_transition_results: "distinct (map fst (p_results p)) \<Longrightarrow> distinct (map fst (p_results (build_one_transition i old to p)))"
  by (simp add: build_one_transition_def distinct_update)

lemma plan_child_results:
  "distinct (map fst (p_results p)) \<Longrightarrow> distinct (map fst (p_results (plan_child parent olds li approvals action i p)))"
  unfolding plan_child_def Let_def
  by (auto simp: distinct_update build_one_transition_results split: option.split prod.split)

lemma delete_ids_results: "distinct (map fst (p_results p)) \<Longrightarrow> distinct (map fst (p_results (delete_ids_from_plan ids status p)))"
  unfolding delete_ids_from_plan_def by (induction ids arbitrary: p) (simp_all add: delete_id_from_plan_def distinct_update)

lemma transition_plan_results_distinct: "distinct (map fst (p_results (transition_plan action parent children approvals g d)))"
proof -
  have "distinct (map fst (p_results (build_transitions_plan parent children olds li approvals action)))" for olds li
    unfolding build_transitions_plan_def by (induction children rule: rev_induct) (simp_all add: empty_plan_def plan_child_results)
  then have "distinct (map fst (p_results (perform_cycles_checking d parent
      (build_transitions_plan parent children (old_actions_map d parent children) (group_limits (db_now d) g) approvals action))))"
    unfolding perform_cycles_checking_def by (auto intro!: delete_ids_results)
  then have "distinct (map fst (p_results (enforce_max_size d action parent (group_limits (db_now d) g) (perform_cycles_checking d parent
      (build_transitions_plan parent children (old_actions_map d parent children) (group_limits (db_now d) g) approvals action)))))"
    unfolding enforce_max_size_def Let_def by (auto intro!: delete_ids_results)
  then show ?thesis by (simp add: transition_plan_def Let_def)
qed

lemma single_key:
  assumes "\<And>i. i \<noteq> c \<Longrightarrow> map_of m i = None" and "distinct (map fst m)"
  shows "m = [] \<or> (\<exists>r. m = [(c, r)])"
proof (cases m)
  case (Cons x xs)
  have keys: "k = c" if "k \<in> fst ` set m" for k
    using assms(1) [of k] that by (metis map_of_eq_None_iff)
  have "fst x = c" using keys [of "fst x"] Cons by simp
  moreover have "xs = []"
  proof (cases xs)
    case (Cons y ys)
    then have "fst y = c" using keys [of "fst y"] \<open>m = x # xs\<close> by simp
    then show ?thesis using assms(2) \<open>m = x # xs\<close> Cons \<open>fst x = c\<close> by simp
  qed simp
  ultimately show ?thesis using Cons by (cases x) simp
qed simp

text \<open>
  An invitation accepts the pending request of a user to join a team without looking at the entry conditions of the team's participations:
  where the acceptance of the same request is refused because the conditions would be broken, the invitation makes the user a member.
\<close>

lemma invitation_skips_entry_conditions:
  assumes "create_group_invitations users actor g [login] s = Inr (names, s')"
    and "users_to_invite users [login] = [(c, login)]" and "map_of names login = Some (Transitioned Success)"
    and "memberships_ok (rd_db s)" and "now_of s < max_time" and "pending_pair (rd_db s) g c = Some JoinRequest"
    and "group_by_id (rd_db s) g = Some row" and "g_type row = Team"
    and "g_require_personal_info_access_approval row = RequireNone" and "g_require_lock_membership_approval_until row = None"
    and "\<not> g_require_watch_approval row" and "\<not> entry_conditions_still_satisfied s g c True" and "other_teams_members s g [c] = []"
  shows "perform_bulk_membership_action AcceptJoinRequests actor g [c] s = Inr ([(c, EntryConditionFailed)], s) \<and>
    active_pair (rd_db s') g c"
proof -
  have frozen: "\<not> g_frozen_membership row"
    using frozen_no_requests [OF assms(4), of g c] assms(6,7) by (auto simp: frozen_def)
  have manages: "manages_memberships (rd_db s) actor g" using assms(1) by (auto simp: create_group_invitations_def split: if_splits)
  have refused: "perform_bulk_membership_action AcceptJoinRequests actor g [c] s = Inr ([(c, EntryConditionFailed)], s)"
    using manages frozen assms(7,8,12,13)
    by (simp add: perform_bulk_membership_action_def check_preconditions_for_bulk_membership_action_def)
  have cons: "consistent (rd_db s)" and keys: "keys_ok (rd_db s)" using assms(4) by (auto simp: memberships_ok_def consistent_def)
  obtain rs where run: "transition_by_manager AdminCreatesInvitation g [c] actor s = Inr (rs, s')"
    and names: "names = put_results (by_login [(c, login)] rs) [(login, NotFoundResult)]"
    using assms(1,2,13)
    by (auto simp: create_group_invitations_def bind_result_Inr filter_other_teams_members_out_def put_results_def by_login_def
        split: if_splits)
  from transition_by_manager_run [OF run] obtain results requests d
    where t: "transition AdminCreatesInvitation g [c] [] actor (rd_db s) = Inr (results, requests, d)" and s': "s' = s\<lparr>rd_db := d\<rparr>"
    and rs: "rs = map (\<lambda>(i, r). (i, Transitioned r)) results" by blast
  from t obtain p where p: "p = transition_plan AdminCreatesInvitation g [c] [] row (rd_db s)" and results: "results = p_results p"
    by (rule transition_run) (use assms(7) in auto)
  have "map_of results i = None" if "i \<noteq> c" for i
    using final_plan_view_other [of i "[c]"] that by (simp add: results p plan_view_def)
  then have single: "results = [] \<or> (\<exists>r. results = [(c, r)])"
    using transition_plan_results_distinct [of AdminCreatesInvitation g "[c]" "[]" row "rd_db s"]
    unfolding results p by (rule single_key)
  have success: "map_of results c = Some Success"
    using single assms(3) by (auto simp: names rs by_login_def put_results_def)
  have m: "membership (rd_db s) g c = JoinRequestCreated" using consistent_requests [OF cons] assms(6) by blast
  have "fst (child_decision AdminCreatesInvitation g [] row (rd_db s) c) = Success"
    using transition_result_of [OF p, of c] success by (auto simp: results)
  then have "c \<noteq> g" by (auto simp: child_decision_def decision_def)
  then have "snd (child_decision AdminCreatesInvitation g [] row (rd_db s) c) = JoinRequestAccepted"
    using m assms(9-11)
    by (simp add: child_decision_def decision_def outcome_def state_of_action approvals_ok_def Let_def group_limits_def no_approvals_def)
  then have "membership d g c = IsMember"
    using success transition_refinement [OF t keys assms(5,7), of g c] by simp
  moreover have "consistent d" by (rule step_consistent [OF transit [OF t assms(5)] cons])
  ultimately show ?thesis using refused by (simp add: s' active_membership)
qed

end
