(* ===== verification/MembershipServiceExamples.thy ===== *)
theory MembershipServiceExamples
  imports MembershipChecks ItemExamples ThreadExamples
begin

text \<open>
  A manager (11) of a class (1), of a class with a code (5) that is full, of a frozen group (6) and of a team (7) that takes part in a
  contest (4) for teams of one; a team (8) of which one user (13) is admitted to the contest (5); a user (10) who asked to join the class and the team.  The theorems on the services are applied there.
\<close>

section \<open>The database\<close>

definition ex_free :: "id \<Rightarrow> group_type \<Rightarrow> group_row" where
  "ex_free i t = (ex_group i t)\<lparr>g_require_watch_approval := False, g_enforce_max_participants := False\<rparr>"

definition ex_manages :: "id \<Rightarrow> manager_row" where
  "ex_manages g = \<lparr>gm_group = g, gm_manager = 11, gm_can_grant_group_access = False, gm_can_watch_members = False, gm_can_manage = 3\<rparr>"

definition ex_request :: "id \<Rightarrow> pending_row" where
  "ex_request g = \<lparr>pr_group = g, pr_member = 10, pr_type = JoinRequest, pr_personal_info_view_approved = False,
     pr_lock_membership_approved = False, pr_watch_approved = False, pr_at = 50\<rparr>"

definition ex_class :: group_row where
  "ex_class = (ex_group 5 Class)\<lparr>g_require_watch_approval := False, g_code := Some ''code'', g_code_lifetime := Some 60\<rparr>"

definition ex_groups_db :: db where
  "ex_groups_db = ex_empty_db\<lparr>
     db_groups := [ex_free 1 Class, ex_class, (ex_free 6 Class)\<lparr>g_frozen_membership := True\<rparr>, ex_free 7 Team, ex_free 8 Team,
       ex_free 10 User, ex_free 11 User, ex_free 12 User, ex_free 13 User],
     db_groups_groups := [relation_row max_time 1 False (None, None, None) 12, relation_row max_time 5 False (None, None, None) 12,
       relation_row max_time 5 False (None, None, None) 13, relation_row max_time 7 True (None, None, None) 13,
       relation_row max_time 8 True (None, None, None) 12, relation_row max_time 8 True (None, None, None) 13],
     db_groups_ancestors := [\<lparr>ga_ancestor = 1, ga_child = 12, ga_expires_at = max_time\<rparr>, \<lparr>ga_ancestor = 5, ga_child = 12, ga_expires_at = max_time\<rparr>,
       \<lparr>ga_ancestor = 5, ga_child = 13, ga_expires_at = max_time\<rparr>] @ map self_row [1, 5, 6, 7, 8, 10, 11, 12, 13],
     db_pending := map ex_request [1, 7], db_managers := map ex_manages [1, 5, 6, 7],
     db_permissions_granted := [(ex_grant 13 5 False None)\<lparr>pg_can_enter_from := 0, pg_can_enter_until := max_time\<rparr>]\<rparr>"

definition ex_participation :: "id \<Rightarrow> id \<Rightarrow> attempt_row" where
  "ex_participation p i = \<lparr>at_participant = p, at_id = 0, at_creator = None, at_parent = None, at_root_item = Some i, at_created_at = 10,
     at_ended_at = None, at_allows_submissions_until = max_time\<rparr>"

definition ex_groups :: results_db where
  "ex_groups = ex_results\<lparr>rd_db := ex_groups_db, rd_propagate := [],
     rd_items := [(ex_item 4)\<lparr>it_entry_is_team := True, it_entry_max_team_size := 1\<rparr>,
       (ex_item 5)\<lparr>it_entry_is_team := True, it_entry_max_team_size := 3, it_entry_min_admitted_members_ratio := AdmittedOne\<rparr>],
     rd_attempts := [ex_participation 7 4, ex_participation 8 5],
     rd_results := [(new_result (7, 0, 4))\<lparr>rs_started_at := Some 20\<rparr>, (new_result (8, 0, 5))\<lparr>rs_started_at := Some 20\<rparr>]\<rparr>"

definition ex_users :: "user_row list" where
  "ex_users = [\<lparr>us_group = 10, us_login = ''ada'', us_temp = False\<rparr>, \<lparr>us_group = 11, us_login = ''bob'', us_temp = False\<rparr>]"

definition no_update :: group_update where
  "no_update = \<lparr>gu_is_public = None, gu_code_lifetime = None, gu_code_expires_at = None, gu_root_activity_id = None,
     gu_root_skill_id = None, gu_is_official_session = None, gu_frozen_membership = None, gu_max_participants = None,
     gu_enforce_max_participants = None, gu_require_personal_info = None, gu_require_lock_until = None, gu_require_watch = None,
     gu_approval_change_action = None, gu_other_fields_changed = False\<rparr>"

definition ex_strengthen :: group_update where
  "ex_strengthen = no_update\<lparr>gu_require_watch := Some True, gu_approval_change_action := Some EmptyGroup\<rparr>"

definition state_after :: "'e + 'r \<times> results_db \<Rightarrow> results_db" where
  "state_after r = (case r of Inl _ \<Rightarrow> ex_results | Inr (_, s) \<Rightarrow> s)"

definition ex_accepting :: "membership_error + (id, service_result) gomap \<times> results_db" where
  "ex_accepting = perform_bulk_membership_action AcceptJoinRequests 11 1 [10] ex_groups"

definition ex_joining :: "membership_error + user_outcome" where
  "ex_joining = join_group_by_code ''code'' 10 False '''' ex_groups"

definition ex_inviting :: "membership_error + (string, service_result) gomap \<times> results_db" where
  "ex_inviting = create_group_invitations ex_users 11 7 [''ada''] ex_groups"

definition ex_strengthened :: "membership_error + results_db" where
  "ex_strengthened = update_group 11 1 ex_strengthen ex_groups"

section \<open>Facts of the runs\<close>

lemma ex_accepting_run: "ex_accepting = Inr ([(10, Transitioned Success)], state_after ex_accepting)"
  by code_simp

lemma ex_joining_run: "ex_joining = Inr (Some Full, no_approvals, state_after (map_sum id snd ex_joining))"
  by code_simp

lemma ex_inviting_run: "ex_inviting = Inr ([(''ada'', Transitioned Success)], state_after ex_inviting)"
  by code_simp

lemma ex_strengthened_run: "ex_strengthened = Inr (state_after (map_sum id (Pair ()) ex_strengthened))"
  by code_simp

lemma few_pairs:
  assumes "list_all (\<lambda>r. \<not> active_pair d (pr_group r) (pr_member r)) (db_pending d)" and "keys_ok d"
    and "tbl_unique g_id (db_groups d)"
    and "list_all (\<lambda>g. g_frozen_membership g \<longrightarrow> g_id g \<notin> pr_group ` set (db_pending d)) (db_groups d)"
  shows "memberships_ok d"
proof -
  have found: "\<exists>r \<in> set (db_pending d). pr_group r = q \<and> pr_member r = c" if "pending_pair d q c \<noteq> None" for q c
    using that by (auto simp: pending_pair_def pr_key_def dest!: tbl_find_Some)
  have "consistent d"
    using assms(1,2) found by (fastforce simp: consistent_def list_all_iff)
  moreover have "pending_pair d (g_id g) c \<noteq> Some JoinRequest" if "g \<in> set (db_groups d)" "g_frozen_membership g" for g c
    using assms(4) that found [of "g_id g" c] by (fastforce simp: list_all_iff image_iff)
  ultimately show ?thesis using assms(3) by (simp add: memberships_ok_def)
qed

lemma ex_groups_ok: "memberships_ok (rd_db ex_groups)" "consistent (rd_db ex_groups)" "now_of ex_groups < max_time"
proof -
  show "memberships_ok (rd_db ex_groups)" by (rule few_pairs; code_simp)
  then show "consistent (rd_db ex_groups)" by (simp add: memberships_ok_def)
  show "now_of ex_groups < max_time" by code_simp
qed

lemma ex_accepting_service: "membership_service 11 ex_groups (state_after ex_accepting)"
  using membership_service.in_bulk [of AcceptJoinRequests 11 1 "[10]" ex_groups] ex_accepting_run by (simp add: ex_accepting_def)

section \<open>Witnesses\<close>


theorem frozen_groups_closed_witness:
  "frozen (rd_db (state_after ex_accepting)) 6 \<and> \<not> active_pair (rd_db (state_after ex_accepting)) 6 10"
proof -
  have "groups_step\<^sup>*\<^sup>* ex_groups (state_after ex_accepting)"
    by (rule r_into_rtranclp, rule groups_step.service [OF ex_accepting_service ex_groups_ok(3)])
  moreover have "frozen (rd_db ex_groups) 6" "\<not> active_pair (rd_db ex_groups) 6 10" by code_simp+
  ultimately show ?thesis using frozen_groups_closed [OF _ ex_groups_ok(1), of _ 6 10] by blast
qed

theorem strengthening_empties_group_witness:
  "active_pair (rd_db ex_groups) 1 12 \<and> (\<exists>s. update_group 11 1 ex_strengthen ex_groups = Inr s \<and>
     \<not> active_pair (rd_db s) 1 12 \<and> pending_pair (rd_db s) 1 12 \<noteq> Some JoinRequest)"
proof -
  have "some_field_strengthened (now_of ex_groups) True (ex_free 1 Class) ex_strengthen" "is_participant (rd_db ex_groups) 12"
    and "group_by_id (rd_db ex_groups) 1 = Some (ex_free 1 Class)" "active_pair (rd_db ex_groups) 1 12" "has_participants (rd_db ex_groups) 1"
    by code_simp+
  then show ?thesis
    using strengthening_empties_group [OF ex_strengthened_run [unfolded ex_strengthened_def] ex_groups_ok(1,3), of _ 12]
      ex_strengthened_run [unfolded ex_strengthened_def] by fastforce
qed

theorem update_group_sound_witness:
  "\<exists>s new m. update_group 11 1 ex_strengthen ex_groups = Inr s \<and> group_by_id (rd_db s) 1 = Some new \<and>
     m \<in> set (managed_by (rd_db ex_groups) 11 1) \<and> (new = ex_free 1 Class \<or> 2 \<le> gm_can_manage m)"
proof -
  have "group_by_id (rd_db ex_groups) 1 = Some (ex_free 1 Class)" "\<not> g_enforce_max_participants (ex_free 1 Class)"
    "\<not> g_is_official_session (ex_free 1 Class)"
    by code_simp+
  then show ?thesis
    using update_group_sound [OF ex_strengthened_run [unfolded ex_strengthened_def] ex_groups_ok(1,3)]
      ex_strengthened_run [unfolded ex_strengthened_def] by metis
qed

lemma few_relations_cached:
  assumes "db_now d < max_time" and "\<forall>r \<in> set (db_groups_groups d). gg_expires_at r = max_time"
    and "list_all (\<lambda>r. group_exists d (gg_parent r) \<and> group_exists d (gg_child r)) (db_groups_groups d)"
    and flat: "list_all (\<lambda>e. list_all (\<lambda>f. snd e \<noteq> fst f) (group_edges (db_groups_groups d))) (group_edges (db_groups_groups d))"
    and anc: "\<forall>r \<in> set (db_groups_ancestors d). ga_expires_at r = max_time"
      "list_all (\<lambda>g. (g_id g, g_id g) \<in> set (map (\<lambda>r. (ga_ancestor r, ga_child r)) (db_groups_ancestors d))) (db_groups d)"
      "{(a, c) \<in> set (map (\<lambda>r. (ga_ancestor r, ga_child r)) (db_groups_ancestors d)). a \<noteq> c} = set (group_edges (db_groups_groups d))"
    and "db_groups_propagate d = []"
  shows "ancestors_cached d"
proof -
  let ?E = "set (group_edges (db_groups_groups d))"
  have "\<not> (\<exists>x y z. (x, y) \<in> ?E \<and> (y, z) \<in> ?E)" using flat by (fastforce simp: list_all_iff)
  then have "?E\<^sup>+ = ?E" by (intro trancl_id transI) blast
  moreover from this flat have "acyclic ?E" by (fastforce simp: acyclic_def list_all_iff)
  moreover have "groups_rel u (db_groups_groups d) = ?E" if "u < max_time" for u
    using assms(2) that by (auto simp: groups_rel_def group_edges_def)
  moreover have "groups_up u (db_groups_ancestors d) c = {a. (a, c) \<in> ?E}" if "u < max_time" for u c
    unfolding anc(3) [symmetric] using anc(1) that by (fastforce simp: groups_up_def image_iff)
  ultimately show ?thesis
    using assms by (fastforce simp: ancestors_cached_def has_self_row_def list_all_iff group_exists_def tbl_has_def)
qed

lemma proper_pairs: "{(a, c) \<in> set xs. a \<noteq> c} = set (filter (\<lambda>(a, c). a \<noteq> c) xs)"
  by auto

lemma ex_groups_cached: "ancestors_cached ex_groups_db"
  by (rule few_relations_cached; (unfold proper_pairs)?, code_simp)

theorem check_code_agrees_witness:
  "check_group_code_for_user ex_groups 10 ''code'' = (True, OkReason, 5) \<and>
   (\<exists>res q s. ex_joining = Inr (Some res, q, s) \<and> res \<in> {Success, ApprovalsMissing, Full} \<and> (res = Success \<longleftrightarrow> active_pair (rd_db s) 5 10))"
proof -
  have check: "check_group_code_for_user ex_groups 10 ''code'' = (True, OkReason, 5)" by code_simp
  have db: "rd_db ex_groups = ex_groups_db" by (simp add: ex_groups_def)
  have facts: "team_flags_ok ex_groups_db" "group_exists ex_groups_db 10" "without_members ex_groups_db 10" by code_simp+
  from check_code_agrees [OF check, of "''''"] ex_groups_ok(1) ex_groups_cached facts check show ?thesis
    by (simp add: db ex_joining_def)
qed

theorem failed_join_starts_code_witness:
  "\<exists>q s new. ex_joining = Inr (Some Full, q, s) \<and> group_by_id (rd_db s) 5 = Some new \<and>
     g_code_expires_at ex_class = None \<and> g_code_expires_at new = Some 160"
proof -
  have g: "group_joining_by_code_info ''code'' (rd_db ex_groups) = Some ex_class" by code_simp
  have "g_code_expires_at ex_class = None" "g_code_lifetime ex_class = Some 60" "g_id ex_class = 5" "now_of ex_groups = 100" by code_simp+
  then have "\<exists>new. group_by_id (rd_db (state_after (map_sum id snd ex_joining))) 5 = Some new \<and> g_code_expires_at new = Some 160"
    using failed_join_starts_code [OF ex_joining_run [unfolded ex_joining_def] _ g _ _ ex_groups_ok(1,3)] by (simp add: ex_joining_def)
  moreover have "g_code_expires_at ex_class = None" by code_simp
  ultimately show ?thesis using ex_joining_run by blast
qed

theorem leaving_ignores_departure_witness:
  "can_leave_team ex_groups 8 13 = Some WouldBreakEntryConditions \<and>
   (\<exists>q s. perform_group_relation_action LeaveGroup 13 False 8 [] ex_groups = Inr (Some Success, q, s))"
proof -
  have "is_team (rd_db ex_groups) 8" "active_pair (rd_db ex_groups) 8 13" "\<not> leaving_is_locked (rd_db ex_groups) 8 13" by code_simp+
  note run = leaving_ignores_departure [OF this, of False "[]"]
  have listed: "can_leave_team ex_groups 8 13 = Some WouldBreakEntryConditions" by code_simp
  have "\<not> (\<exists>it \<in> set (rd_items ex_groups). breaks_entry_conditions ex_groups (counted_members (rd_db ex_groups) (team_children (rd_db ex_groups) 8))
      (active_participation_starts ex_groups 8 (it_id it)) it)" by code_simp
  then have leave: "perform_group_relation_action LeaveGroup 13 False 8 [] ex_groups = transition_of_user UserLeavesGroup 13 8 no_approvals ex_groups"
    unfolding run by (simp only: if_False)
  have "map_sum id fst (transition_of_user UserLeavesGroup 13 8 no_approvals ex_groups) = Inr (Some Success)" by code_simp
  then show ?thesis unfolding leave using listed runs_of by fastforce
qed

theorem invitation_skips_entry_conditions_witness:
  "perform_bulk_membership_action AcceptJoinRequests 11 7 [10] ex_groups = Inr ([(10, EntryConditionFailed)], ex_groups) \<and>
   (\<exists>s. ex_inviting = Inr ([(''ada'', Transitioned Success)], s) \<and> active_pair (rd_db s) 7 10)"
proof -
  have facts: "users_to_invite ex_users [''ada''] = [(10, ''ada'')]" "map_of [(''ada'', Transitioned Success)] ''ada'' = Some (Transitioned Success)"
    "pending_pair (rd_db ex_groups) 7 10 = Some JoinRequest" "group_by_id (rd_db ex_groups) 7 = Some (ex_free 7 Team)" "g_type (ex_free 7 Team) = Team"
    "g_require_personal_info_access_approval (ex_free 7 Team) = RequireNone" "g_require_lock_membership_approval_until (ex_free 7 Team) = None"
    "\<not> g_require_watch_approval (ex_free 7 Team)" "\<not> entry_conditions_still_satisfied ex_groups 7 10 True" "other_teams_members ex_groups 7 [10] = []"
    by code_simp+
  show ?thesis
    using invitation_skips_entry_conditions [OF ex_inviting_run [unfolded ex_inviting_def] facts(1,2) ex_groups_ok(1,3) facts(3-10)]
      ex_inviting_run by (auto simp: ex_inviting_def)
qed

end
