(* ===== verification/Transactions.thy ===== *)
theory Transactions
  imports ResultsListed ResultsUnlocking UpdatePermissions
begin

text \<open>
  Transactions of app/database/db.go and data_store.go: retries after deadlocks, rollback, and the propagations that are scheduled in a
  transaction and run after its commit.  What other transactions do in the meantime, and the failures of the connection, are arguments:
  \<open>te_others n\<close> is what others have committed before attempt \<open>n\<close> begins, \<open>te_begin\<close>, \<open>te_commit\<close>, \<open>te_rollback\<close> the errors of
  these statements in that attempt.  A failed attempt leaves the database to the others: MySQL undoes its writes.
  A COMMIT that returns an error is taken as not applied (the error of a connection lost after the server has committed is not told apart).
\<close>

section \<open>One transaction with its retries\<close>

datatype tx_error = Deadlock | LockWaitTimeout | RetriesLimitExceeded | NamedLockWaitTimeout | TxError string

text \<open>How a function called in a transaction, or the transaction itself, ends.\<close>

datatype tx_result = Succeeded | Failed tx_error | Panicked tx_error

text \<open>The values in the context of \<open>InTransaction\<close>: the propagations that wait, and whether the transaction has been retried on purpose.\<close>

record awaiting =
  aw_permissions :: bool
  aw_results :: bool
  aw_retried :: bool

type_synonym 's tx = "nat \<Rightarrow> 's \<Rightarrow> awaiting \<Rightarrow> tx_result \<times> 's \<times> awaiting"

record 's tx_env =
  te_others :: "nat \<Rightarrow> 's \<Rightarrow> 's"
  te_begin :: "nat \<Rightarrow> tx_error option"
  te_commit :: "nat \<Rightarrow> tx_error option"
  te_rollback :: "nat \<Rightarrow> tx_error option"

definition transaction_retries_limit :: nat where
  "transaction_retries_limit = 30"

definition is_retryable_error :: "tx_error \<Rightarrow> bool" where
  "is_retryable_error e = (e \<in> {Deadlock, LockWaitTimeout})"

fun error_of :: "tx_result \<Rightarrow> tx_error option" where
  "error_of Succeeded = None"
| "error_of (Failed e) = Some e"
| "error_of (Panicked e) = Some e"

text \<open>
  \<open>inTransactionWithCount\<close> with \<open>handleDeadlockAndLockWaitTimeout\<close>; \<open>left\<close> is the number of retries that are left.  The error of a commit
  is returned without a retry, whatever it is.
\<close>

fun in_transaction_with_count :: "'s tx_env \<Rightarrow> 's tx \<Rightarrow> nat \<Rightarrow> nat \<Rightarrow> 's \<Rightarrow> awaiting \<Rightarrow> tx_result \<times> 's \<times> awaiting" where
  "in_transaction_with_count env tx left n s aw =
     (let s0 = te_others env n s
      in case te_begin env n of
           Some e \<Rightarrow> (Failed e, s0, aw)
         | None \<Rightarrow>
             (case tx n s0 aw of (r, s1, aw1) \<Rightarrow>
                (case error_of r of
                   None \<Rightarrow> (case te_commit env n of None \<Rightarrow> (Succeeded, s1, aw1) | Some e \<Rightarrow> (Failed e, s0, aw1))
                 | Some e \<Rightarrow>
                     if \<not> is_retryable_error e then (r, s0, aw1)
                     else (case te_rollback env n of
                             Some e1 \<Rightarrow> (Failed e1, s0, aw1)
                           | None \<Rightarrow>
                               (case left of
                                  0 \<Rightarrow> (Failed RetriesLimitExceeded, s0, aw1)
                                | Suc l \<Rightarrow> in_transaction_with_count env tx l (n + 1) s0 aw1)))))"

declare in_transaction_with_count.simps [simp del]

definition in_transaction :: "'s tx_env \<Rightarrow> 's tx \<Rightarrow> 's \<Rightarrow> tx_result \<times> 's \<times> awaiting" where
  "in_transaction env tx s =
     in_transaction_with_count env tx transaction_retries_limit 0 s \<lparr>aw_permissions = False, aw_results = False, aw_retried = False\<rparr>"

text \<open>A context for tests makes the first attempt that succeeds fail with a deadlock.\<close>

definition force_retry :: "bool \<Rightarrow> 's tx \<Rightarrow> 's tx" where
  "force_retry forced tx n s aw =
     (case tx n s aw of (r, s1, aw1) \<Rightarrow>
        if r = Succeeded \<and> forced \<and> \<not> aw_retried aw then (Failed Deadlock, s1, aw1\<lparr>aw_retried := True\<rparr>) else (r, s1, aw1))"

section \<open>The propagations after the commit\<close>

record prohibited_propagations =
  ph_permissions :: bool
  ph_results :: bool

text \<open>\<open>lock_free\<close> tells whether the named lock of the propagation of results is got in time.  None is a propagation that does not end.\<close>

definition run_awaiting_propagations ::
  "prohibited_propagations \<Rightarrow> bool \<Rightarrow> awaiting \<Rightarrow> results_db \<Rightarrow> (tx_result \<times> results_db) option" where
  "run_awaiting_propagations ph lock_free aw s =
     (case (if aw_permissions aw \<and> \<not> ph_permissions ph then compute_access_with_triggers s else Some s) of
        None \<Rightarrow> None
      | Some s1 \<Rightarrow>
          if aw_results aw \<and> \<not> ph_results ph
          then if lock_free then map_option (Pair Succeeded) (process_results_recompute_for_items_and_propagate s1)
               else Some (Failed NamedLockWaitTimeout, s1)
          else Some (Succeeded, s1))"

definition data_store_in_transaction ::
  "results_db tx_env \<Rightarrow> bool \<Rightarrow> prohibited_propagations \<Rightarrow> bool \<Rightarrow> results_db tx \<Rightarrow> results_db \<Rightarrow> (tx_result \<times> results_db) option" where
  "data_store_in_transaction env forced ph lock_free tx s =
     (case in_transaction env (force_retry forced tx) s of (r, s1, aw) \<Rightarrow>
        if r = Succeeded then run_awaiting_propagations ph lock_free aw s1 else Some (r, s1))"

text \<open>A service as a function in a transaction: what it schedules is added to what earlier attempts have scheduled.\<close>

definition unscheduled :: "results_db \<Rightarrow> results_db" where
  "unscheduled s = s\<lparr>rd_db := (rd_db s)\<lparr>db_permissions_scheduled := False, db_results_scheduled := False\<rparr>\<rparr>"

definition service_tx :: "(results_db \<Rightarrow> 'e + results_db) \<Rightarrow> results_db tx" where
  "service_tx svc n s aw =
     (case svc (unscheduled s) of
        Inl e \<Rightarrow> (Failed (TxError ''rollback''), s, aw)
      | Inr s1 \<Rightarrow> (Succeeded, s1, aw\<lparr>aw_permissions := aw_permissions aw \<or> db_permissions_scheduled (rd_db s1),
                                aw_results := aw_results aw \<or> db_results_scheduled (rd_db s1)\<rparr>))"

definition on_db :: "(db \<Rightarrow> 'e + db) \<Rightarrow> results_db \<Rightarrow> 'e + results_db" where
  "on_db svc s = map_sum id (\<lambda>d. s\<lparr>rd_db := d\<rparr>) (svc (rd_db s))"

text \<open>\<open>SchedulePropagation\<close> outside a transaction; \<open>endpoint_called\<close> tells whether the endpoint took the request.\<close>

definition schedule_all :: "results_db tx" where
  "schedule_all n s aw = (Succeeded, s, aw\<lparr>aw_permissions := True, aw_results := True\<rparr>)"

definition schedule_propagation ::
  "results_db tx_env \<Rightarrow> bool \<Rightarrow> prohibited_propagations \<Rightarrow> bool \<Rightarrow> bool \<Rightarrow> results_db \<Rightarrow> (tx_result \<times> results_db) option" where
  "schedule_propagation env forced ph lock_free endpoint_called s =
     (if endpoint_called then Some (Succeeded, s) else data_store_in_transaction env forced ph lock_free schedule_all s)"

end
