(* ===== verification/TransactionRules.thy ===== *)
theory TransactionRules
  imports Transactions PermissionRules
begin

text \<open>
  What a transaction with retries promises: all or nothing of one single attempt, the outcome of the first attempt that does not fail with
  a deadlock or a timeout, and propagations that end and leave no mark.
\<close>

section \<open>Attempts\<close>

text \<open>What an attempt finds: the database with the commits of the others, and the flags left by the attempts before.\<close>

primrec others_upto :: "'s tx_env \<Rightarrow> 's \<Rightarrow> nat \<Rightarrow> 's" where
  "others_upto env s 0 = te_others env 0 s"
| "others_upto env s (Suc n) = te_others env (Suc n) (others_upto env s n)"

definition nothing_awaiting :: awaiting where
  "nothing_awaiting = \<lparr>aw_permissions = False, aw_results = False, aw_retried = False\<rparr>"

primrec awaiting_before :: "'s tx_env \<Rightarrow> 's tx \<Rightarrow> 's \<Rightarrow> nat \<Rightarrow> awaiting" where
  "awaiting_before env tx s 0 = nothing_awaiting"
| "awaiting_before env tx s (Suc n) = snd (snd (tx n (others_upto env s n) (awaiting_before env tx s n)))"

definition attempt :: "'s tx_env \<Rightarrow> 's tx \<Rightarrow> 's \<Rightarrow> nat \<Rightarrow> tx_result \<times> 's \<times> awaiting" where
  "attempt env tx s n = tx n (others_upto env s n) (awaiting_before env tx s n)"

definition fails_retryably :: "'s tx_env \<Rightarrow> 's tx \<Rightarrow> 's \<Rightarrow> nat \<Rightarrow> bool" where
  "fails_retryably env tx s n =
     (te_begin env n = None \<and> te_rollback env n = None \<and>
      (case error_of (fst (attempt env tx s n)) of None \<Rightarrow> False | Some e \<Rightarrow> is_retryable_error e))"

lemma error_of_None: "error_of r = None \<longleftrightarrow> r = Succeeded"
  by (cases r) simp_all

text \<open>One attempt of the loop, from what the attempt finds.\<close>

definition conclude :: "'s tx_env \<Rightarrow> 's tx \<Rightarrow> 's \<Rightarrow> nat \<Rightarrow> tx_result \<times> 's \<times> awaiting" where
  "conclude env tx s n =
     (let s0 = others_upto env s n in
      case te_begin env n of
        Some e \<Rightarrow> (Failed e, s0, awaiting_before env tx s n)
      | None \<Rightarrow>
          (case attempt env tx s n of (r, s1, aw1) \<Rightarrow>
             (case error_of r of
                None \<Rightarrow> (case te_commit env n of None \<Rightarrow> (Succeeded, s1, aw1) | Some e \<Rightarrow> (Failed e, s0, aw1))
              | Some e \<Rightarrow>
                  if \<not> is_retryable_error e then (r, s0, aw1)
                  else (case te_rollback env n of Some e1 \<Rightarrow> (Failed e1, s0, aw1) | None \<Rightarrow> (Failed RetriesLimitExceeded, s0, aw1)))))"

definition before :: "'s tx_env \<Rightarrow> 's \<Rightarrow> nat \<Rightarrow> 's" where
  "before env s n = (case n of 0 \<Rightarrow> s | Suc m \<Rightarrow> others_upto env s m)"

lemma others_before: "te_others env n (before env s n) = others_upto env s n"
  by (cases n) (simp_all add: before_def)

lemma attempt_step:
  "in_transaction_with_count env tx left n (before env s n) (awaiting_before env tx s n) =
     (if fails_retryably env tx s n \<and> left \<noteq> 0
      then in_transaction_with_count env tx (left - 1) (Suc n) (before env s (Suc n)) (awaiting_before env tx s (Suc n))
      else conclude env tx s n)"
proof -
  obtain r s1 aw1 where a: "attempt env tx s n = (r, s1, aw1)" by (cases "attempt env tx s n")
  then have run: "tx n (others_upto env s n) (awaiting_before env tx s n) = (r, s1, aw1)" by (simp add: attempt_def)
  have next_: "before env s (Suc n) = others_upto env s n" "awaiting_before env tx s (Suc n) = aw1" by (simp_all add: before_def run)
  show ?thesis
    unfolding next_ by (subst in_transaction_with_count.simps, cases left)
      (simp_all add: conclude_def fails_retryably_def a run others_before Let_def split: option.split)
qed

lemma retries:
  assumes "\<forall>n < m. fails_retryably env tx s n" and "m \<le> transaction_retries_limit"
  shows "in_transaction env tx s =
    in_transaction_with_count env tx (transaction_retries_limit - m) m (before env s m) (awaiting_before env tx s m)"
  using assms
proof (induction m)
  case 0
  then show ?case by (simp add: in_transaction_def before_def nothing_awaiting_def)
next
  case (Suc m)
  then have "in_transaction env tx s =
      in_transaction_with_count env tx (transaction_retries_limit - m) m (before env s m) (awaiting_before env tx s m)" by simp
  also have "\<dots> = in_transaction_with_count env tx (transaction_retries_limit - m - 1) (Suc m) (before env s (Suc m)) (awaiting_before env tx s (Suc m))"
    using Suc.prems by (subst attempt_step) simp
  finally show ?case by simp
qed

text \<open>The outcome of a transaction is that of the first attempt that does not fail retryably, or of the last one.\<close>

lemma concludes:
  obtains m where "m \<le> transaction_retries_limit" "\<forall>n < m. fails_retryably env tx s n"
    "fails_retryably env tx s m \<longrightarrow> m = transaction_retries_limit" "in_transaction env tx s = conclude env tx s m"
proof -
  let ?stop = "\<lambda>m. \<not> fails_retryably env tx s m \<or> m = transaction_retries_limit"
  define m where "m = (LEAST m. ?stop m)"
  have stop: "?stop m" and le: "m \<le> transaction_retries_limit"
    unfolding m_def by (rule LeastI, blast) (rule Least_le, blast)
  have before: "\<forall>n < m. fails_retryably env tx s n" using not_less_Least [of _ ?stop] unfolding m_def by blast
  have "in_transaction env tx s = conclude env tx s m"
    unfolding retries [OF before le] using stop by (subst attempt_step) auto
  with that le before stop show thesis by blast
qed

lemma conclude_cases:
  assumes "conclude env tx s n = (r, s', aw)"
  shows "(r = Succeeded \<and> attempt env tx s n = (Succeeded, s', aw) \<and> te_begin env n = None \<and> te_commit env n = None) \<or>
    (r \<noteq> Succeeded \<and> s' = others_upto env s n)"
  using assms
  by (cases "attempt env tx s n") (auto simp: conclude_def Let_def error_of_None split: option.splits if_splits)

section \<open>All or nothing\<close>

text \<open>
  C9: A transaction is all or nothing, whatever panics, deadlocks and failures of the connection happen: if it succeeds, the database is what
  one single attempt made of the database as the other transactions had left it when that attempt began; otherwise it is as they left it.
\<close>

theorem transaction_atomic:
  assumes "in_transaction env tx s = (r, s', aw)"
  shows "\<exists>m \<le> 30. (if r = Succeeded then attempt env tx s m = (Succeeded, s', aw) \<and> te_commit env m = None
    else s' = others_upto env s m)"
proof -
  obtain m where "m \<le> transaction_retries_limit" "in_transaction env tx s = conclude env tx s m" by (rule concludes)
  with assms conclude_cases [of env tx s m r s' aw] show ?thesis by (auto simp: transaction_retries_limit_def)
qed

text \<open>
  C10: A transaction gets through up to thirty deadlocks and timeouts: it commits if one of the attempts up to the thirty-first succeeds and
  those before fail retryably, and gives up after the thirty-first with an error of its own.
\<close>

theorem transaction_retried:
  assumes "\<forall>n < m. fails_retryably env tx s n" and "m \<le> 30"
  shows "(te_begin env m = None \<and> te_commit env m = None \<and> attempt env tx s m = (Succeeded, s', aw)
      \<longrightarrow> in_transaction env tx s = (Succeeded, s', aw)) \<and>
    (m = 30 \<and> fails_retryably env tx s m \<longrightarrow>
      (\<exists>aw. in_transaction env tx s = (Failed RetriesLimitExceeded, others_upto env s 30, aw)))"
proof -
  have run: "in_transaction env tx s = in_transaction_with_count env tx (30 - m) m (before env s m) (awaiting_before env tx s m)"
    using retries [OF assms(1)] assms(2) by (simp add: transaction_retries_limit_def)
  have "in_transaction env tx s = (Succeeded, s', aw)"
    if "te_begin env m = None" "te_commit env m = None" "attempt env tx s m = (Succeeded, s', aw)"
    using that unfolding run by (subst attempt_step) (simp add: conclude_def fails_retryably_def)
  moreover have "\<exists>aw. in_transaction env tx s = (Failed RetriesLimitExceeded, others_upto env s 30, aw)"
    if "m = 30" "fails_retryably env tx s m"
    using that unfolding run
    by (subst attempt_step, cases "attempt env tx s m") (auto simp: conclude_def fails_retryably_def Let_def split: option.splits)
  ultimately show ?thesis by blast
qed

section \<open>The propagations\<close>

lemma round_start_marks:
  assumes "round_start s" and "rd_results s' = rd_results s" "rd_attempts s' = rd_attempts s" "rd_items s' = rd_items s" "rd_db s' = rd_db s"
    and "distinct (map fst (rd_propagate s'))"
    and "\<And>k. state_of_result s' k \<noteq> state_of_result s k \<Longrightarrow> state_of_result s' k = Some ToBeRecomputed \<and> k \<in> rs_key ` set (rd_results s)"
  shows "round_start s'"
proof -
  have within: "within_attempt s' a i = within_attempt s a i" for a i using assms(5) by (cases "at_root_item a") (simp_all add: within_attempt_def)
  have exists: "result_exists s' k = result_exists s k" for k using assms(2) by (simp add: result_exists_def)
  have old: "state_of_result s k \<noteq> Some Recomputing" "state_of_result s k \<noteq> Some Propagating"
    "state_of_result s k \<noteq> None \<Longrightarrow> result_exists s k" for k
    using assms(1) unfolding round_start_def tables_ok_def propagate_ok_def no_state_def by blast+
  have "state_of_result s' k \<noteq> Some Recomputing" "state_of_result s' k \<noteq> Some Propagating" for k
    using old [of k] assms(7) [of k] by (cases "state_of_result s' k = state_of_result s k"; simp)+
  moreover have "result_exists s k" if "state_of_result s' k \<noteq> None" for k
  proof (cases "state_of_result s' k = state_of_result s k")
    case True
    with that old(3) show ?thesis by metis
  next
    case False
    with assms(7) have "k \<in> rs_key ` set (rd_results s)" by blast
    then show ?thesis by (auto simp: result_exists_def tbl_has_def)
  qed
  ultimately show ?thesis
    using assms(1-6) unfolding round_start_def tables_ok_def propagate_ok_def no_state_def within exists by simp
qed

lemma mark_listed_frame:
  assumes "round_start s"
  shows "\<exists>marks lst. mark_listed 20000 s = Some (s\<lparr>rd_propagate := marks, rd_recompute_for_items := lst\<rparr>) \<and>
    round_start (s\<lparr>rd_propagate := marks\<rparr>)"
  using assms
proof (induction "card (set (results_of_listed_items s))" arbitrary: s rule: less_induct)
  case less
  show ?case
  proof (cases "results_of_listed_items s = []")
    case True
    then show ?thesis using less.prems by (subst mark_listed.simps) (auto intro!: exI [of _ "rd_propagate s"])
  next
    case False
    let ?s = "mark_listed_chunk 20000 s"
    have run: "mark_listed 20000 s = mark_listed 20000 ?s" using False by (subst mark_listed.simps) simp
    have chunk: "set (take 20000 (results_of_listed_items s)) \<subseteq> rs_key ` set (rd_results s)"
      by (auto dest!: in_set_takeD simp: results_of_listed_items_def)
    have state: "state_of_result ?s k =
        (if k \<in> set (take 20000 (results_of_listed_items s)) then Some ToBeRecomputed else state_of_result s k)" for k
      by (rule mark_listed_chunk_state)
    have "distinct (map fst (rd_propagate ?s))"
      using less.prems by (simp add: mark_listed_chunk_def distinct_fold_update round_start_def tables_ok_def propagate_ok_def)
    moreover have "state_of_result ?s k = Some ToBeRecomputed \<and> k \<in> rs_key ` set (rd_results s)"
      if "state_of_result ?s k \<noteq> state_of_result s k" for k
      using that chunk unfolding state by (simp split: if_splits) blast
    ultimately have "round_start ?s"
      by (intro round_start_marks [OF less.prems]) (simp_all add: mark_listed_chunk_def)
    from less.hyps [OF mark_listed_chunk_shrinks [OF _ False] this] obtain marks lst
      where "mark_listed 20000 ?s = Some (?s\<lparr>rd_propagate := marks, rd_recompute_for_items := lst\<rparr>)" "round_start (?s\<lparr>rd_propagate := marks\<rparr>)"
      by auto
    then show ?thesis unfolding run by (auto simp: mark_listed_chunk_def)
  qed
qed

lemma process_results_settles:
  assumes "round_start s" and "access_ready (rd_db s)" and "\<forall>m g i. \<not> marked (rd_db s) m g i"
  shows "\<exists>s'. process_results_recompute_for_items_and_propagate s = Some s' \<and> rd_propagate s' = [] \<and> same_frame s s' \<and>
    access_ready (rd_db s') \<and> (\<forall>m g i. \<not> marked (rd_db s') m g i)"
proof -
  let ?s = "s\<lparr>rd_recompute_for_items := map (\<lambda>(i, b). (i, True)) (rd_recompute_for_items s)\<rparr>"
  have "distinct (map fst (rd_propagate s))" using assms(1) by (simp add: round_start_def tables_ok_def propagate_ok_def)
  then have "round_start ?s" by (intro round_start_marks [OF assms(1)]) simp_all
  from mark_listed_frame [OF this] obtain marks lst
    where listed: "set_results_propagation_from_listed_items s = Some (?s\<lparr>rd_propagate := marks, rd_recompute_for_items := lst\<rparr>)"
    and start: "round_start (?s\<lparr>rd_propagate := marks\<rparr>)" by (auto simp: set_results_propagation_from_listed_items_def)
  let ?s1 = "?s\<lparr>rd_propagate := marks, rd_recompute_for_items := lst\<rparr>"
  have "distinct (map fst marks)" using start by (simp add: round_start_def tables_ok_def propagate_ok_def)
  then have "round_start ?s1" by (intro round_start_marks [OF start]) simp_all
  moreover have "access_ready (rd_db ?s1)" using assms(2) by simp
  ultimately have "\<exists>s' is'. propagate_results propagation_chunk_size recomputation_chunk_size None [] ?s1 = Some (s', is') \<and>
      rd_propagate s' = [] \<and> same_frame ?s1 s' \<and> True \<and>
      access_ready (rd_db s') \<and> (rd_db s' = rd_db ?s1 \<or> (\<forall>m g i. \<not> marked (rd_db s') m g i))"
    by (rule propagate_results_full [where I = "\<lambda>_. True" and Q = "\<lambda>_. True"]) (simp_all add: propagation_chunk_size_def recomputation_chunk_size_def)
  then obtain s' is' where run: "propagate_results propagation_chunk_size recomputation_chunk_size None [] ?s1 = Some (s', is')"
    and s': "rd_propagate s' = []" "same_frame ?s1 s'" "access_ready (rd_db s')"
    "rd_db s' = rd_db ?s1 \<or> (\<forall>m g i. \<not> marked (rd_db s') m g i)" by blast
  have "same_frame s s'" using s'(2) by (simp add: same_frame_def)
  moreover have "\<forall>m g i. \<not> marked (rd_db s') m g i" using s'(4)
  proof
    assume "rd_db s' = rd_db ?s1"
    then have "rd_db s' = rd_db s" by simp
    with assms(3) show ?thesis by simp
  qed
  ultimately show ?thesis
    using run s'(1,3) listed by (simp add: process_results_recompute_for_items_and_propagate_def)
qed

text \<open>What a transaction leaves for the propagations to work on.\<close>

definition propagation_ready :: "results_db \<Rightarrow> bool" where
  "propagation_ready s = (round_start s \<and> access_ready (rd_db s))"

definition permissions_settled :: "results_db \<Rightarrow> bool" where
  "permissions_settled s = ((\<forall>m g i. \<not> marked (rd_db s) m g i) \<and> (\<forall>k. pair_consistent (rd_db s) k))"

lemma unmarked_settled: "access_ready (rd_db s) \<Longrightarrow> \<forall>m g i. \<not> marked (rd_db s) m g i \<Longrightarrow> permissions_settled s"
  by (force simp: permissions_settled_def access_ready_def access_invariant_def self_marked_def marked_def)

lemma computed_access_settles:
  assumes "propagation_ready s"
  shows "\<exists>s'. compute_access_with_triggers s = Some s' \<and> propagation_ready s' \<and> same_frame s s' \<and> (\<forall>m g i. \<not> marked (rd_db s') m g i)"
proof -
  have start: "round_start s" and ready_: "access_ready (rd_db s)" using assms by (simp_all add: propagation_ready_def)
  have inv: "access_invariant (rd_db s)" using ready_ by (simp add: access_ready_def)
  from compute_access_with_triggers_ends [OF start inv] obtain s' where
    s': "compute_access_with_triggers s = Some s'" "compute_all_access (rd_db s) = Some (rd_db s')" "round_start s'"
    "access_invariant (rd_db s')" "same_frame s s'" "db_now (rd_db s') = db_now (rd_db s)" by blast
  from compute_all_access_ends [OF inv] s'(2) have "db_permissions_granted (rd_db s') = db_permissions_granted (rd_db s)"
    and "\<forall>m g i. \<not> marked (rd_db s') m g i" by auto
  with s' ready_ show ?thesis by (auto simp: propagation_ready_def access_ready_def)
qed

lemma caches_fresh:
  assumes "in_transaction env (force_retry forced tx) s = (Succeeded, s1, aw)" and "propagation_ready s1"
    and "\<not> ph_permissions ph" and "\<not> ph_results ph" and "lock_free"
    and "aw_permissions aw \<or> (\<forall>m g i. \<not> marked (rd_db s1) m g i)"
  shows "\<exists>s'. data_store_in_transaction env forced ph lock_free tx s = Some (Succeeded, s') \<and> permissions_settled s' \<and>
    (aw_results aw \<longrightarrow> rd_propagate s' = []) \<and> same_frame s1 s'"
proof -
  have "\<exists>s2. (if aw_permissions aw \<and> \<not> ph_permissions ph then compute_access_with_triggers s1 else Some s1) = Some s2 \<and>
      propagation_ready s2 \<and> same_frame s1 s2 \<and> (\<forall>m g i. \<not> marked (rd_db s2) m g i)"
    using computed_access_settles [OF assms(2)] assms(2,3,6) by auto
  then obtain s2 where s2: "(if aw_permissions aw \<and> \<not> ph_permissions ph then compute_access_with_triggers s1 else Some s1) = Some s2"
    "round_start s2" "access_ready (rd_db s2)" "same_frame s1 s2" "\<forall>m g i. \<not> marked (rd_db s2) m g i"
    by (auto simp: propagation_ready_def)
  show ?thesis
  proof (cases "aw_results aw")
    case True
    from process_results_settles [OF s2(2,3,5)] obtain s' where "process_results_recompute_for_items_and_propagate s2 = Some s'"
      "rd_propagate s' = []" "same_frame s2 s'" "access_ready (rd_db s')" "\<forall>m g i. \<not> marked (rd_db s') m g i" by blast
    with s2 True assms(1,4,5) unmarked_settled [of s'] same_frame_trans [OF s2(4)] show ?thesis
      by (simp add: data_store_in_transaction_def run_awaiting_propagations_def)
  next
    case False
    with s2 assms(1) unmarked_settled [of s2] show ?thesis
      by (simp add: data_store_in_transaction_def run_awaiting_propagations_def)
  qed
qed

text \<open>
  C8: When a transaction is committed, the propagations it scheduled run to their end, and the answer is a success.  Then the generated
  permissions of every group on every item are what the granted permissions and the parents of the item give, and none is
  marked; if results were scheduled, no mark of a result is left.  This presupposes that no propagation is prohibited, that the named
  lock is got, and that marks on permissions were scheduled.  The values of the results are the matter of
  \<open>chapters_computed\<close>, and the ancestors of groups are recomputed within the transaction.
\<close>

theorem propagations_run_after_commit:
  assumes "in_transaction env (force_retry forced tx) s = (Succeeded, s1, aw)" and "propagation_ready s1"
    and "\<not> ph_permissions ph" and "\<not> ph_results ph" and "lock_free"
    and "aw_permissions aw \<or> (\<forall>m g i. \<not> marked (rd_db s1) m g i)"
  shows "\<exists>s'. data_store_in_transaction env forced ph lock_free tx s = Some (Succeeded, s') \<and> permissions_settled s' \<and>
    (aw_results aw \<longrightarrow> rd_propagate s' = []) \<and> same_frame s1 s'"
  using assms by (rule caches_fresh)

section \<open>Services in transactions\<close>

text \<open>What the propagation of permissions asks of a service: it keeps the tables in order, and it schedules when it leaves marks.\<close>

definition unmarked :: "results_db \<Rightarrow> bool" where
  "unmarked s = (\<forall>m g i. \<not> marked (rd_db s) m g i)"

lemma round_start_db:
  assumes "round_start s" and "db_items_ancestors d = db_items_ancestors (rd_db s)"
  shows "round_start (s\<lparr>rd_db := d\<rparr>)"
proof -
  have "within_attempt (s\<lparr>rd_db := d\<rparr>) a i = within_attempt s a i" for a i
    using assms(2) by (cases "at_root_item a") (simp_all add: within_attempt_def)
  moreover have "result_exists (s\<lparr>rd_db := d\<rparr>) k = result_exists s k" for k by (simp add: result_exists_def)
  ultimately show ?thesis using assms(1) unfolding round_start_def tables_ok_def propagate_ok_def no_state_def
    by (simp del: map_of_eq_Some_iff)
qed

lemma schedule_frame:
  "access_ready (d\<lparr>db_permissions_scheduled := p\<rparr>) = access_ready d" "access_ready (d\<lparr>db_results_scheduled := r\<rparr>) = access_ready d"
  "marked (d\<lparr>db_permissions_scheduled := p\<rparr>) = marked d" "marked (d\<lparr>db_results_scheduled := r\<rparr>) = marked d"
proof -
  have frame: "item_edges (d\<lparr>db_permissions_scheduled := p\<rparr>) = item_edges d" "item_edges (d\<lparr>db_results_scheduled := r\<rparr>) = item_edges d"
    by (simp_all add: item_edges_def)
  show m: "marked (d\<lparr>db_permissions_scheduled := p\<rparr>) = marked d" "marked (d\<lparr>db_results_scheduled := r\<rparr>) = marked d"
    by (simp_all add: marked_def fun_eq_iff)
  have pair: "pair_consistent (d\<lparr>db_permissions_scheduled := p\<rparr>) = pair_consistent d" "pair_consistent (d\<lparr>db_results_scheduled := r\<rparr>) = pair_consistent d"
    by (simp_all add: fun_eq_iff pair_consistent_def access_def compute_pair_def generated_row_of_def Let_def)
  show "access_ready (d\<lparr>db_permissions_scheduled := p\<rparr>) = access_ready d" "access_ready (d\<lparr>db_results_scheduled := r\<rparr>) = access_ready d"
    by (simp_all add: access_ready_def access_invariant_def access_keys_ok_def self_marked_def m pair frame)
qed

lemma unscheduled_ready: "propagation_ready s \<Longrightarrow> propagation_ready (unscheduled s)" "unmarked s \<Longrightarrow> unmarked (unscheduled s)"
  by (simp_all add: propagation_ready_def unscheduled_def round_start_db schedule_frame unmarked_def)

locale settling_service =
  fixes svc :: "results_db \<Rightarrow> 'e + results_db"
  assumes settles: "propagation_ready s \<Longrightarrow> unmarked s \<Longrightarrow> svc s = Inr s' \<Longrightarrow>
    propagation_ready s' \<and> (unmarked s' \<or> db_permissions_scheduled (rd_db s'))"
begin

lemma in_effect:
  assumes "in_transaction env (force_retry forced (service_tx svc)) s = (Succeeded, s1, aw)"
    and others: "\<forall>n. propagation_ready (others_upto env s n) \<and> unmarked (others_upto env s n)"
    and ph: "\<not> ph_permissions ph" "\<not> ph_results ph"
  shows "\<exists>s'. data_store_in_transaction env forced ph True (service_tx svc) s = Some (Succeeded, s') \<and> permissions_settled s' \<and>
    (aw_results aw \<longrightarrow> rd_propagate s' = []) \<and> same_frame s1 s' \<and> (\<exists>n. svc (unscheduled (others_upto env s n)) = Inr s1)"
proof -
  obtain m where "in_transaction env (force_retry forced (service_tx svc)) s = conclude env (force_retry forced (service_tx svc)) s m"
    by (rule concludes)
  with assms(1) conclude_cases [of env "force_retry forced (service_tx svc)" s m Succeeded s1 aw]
  have "attempt env (force_retry forced (service_tx svc)) s m = (Succeeded, s1, aw)" by simp
  then have run: "svc (unscheduled (others_upto env s m)) = Inr s1" and flag: "db_permissions_scheduled (rd_db s1) \<longrightarrow> aw_permissions aw"
    by (auto simp: attempt_def force_retry_def service_tx_def split: sum.splits if_splits)
  from settles [OF _ _ run] others unscheduled_ready
  have ok: "propagation_ready s1" and marks: "unmarked s1 \<or> db_permissions_scheduled (rd_db s1)" by blast+
  have "aw_permissions aw \<or> (\<forall>m g i. \<not> marked (rd_db s1) m g i)" using marks flag by (auto simp: unmarked_def)
  from caches_fresh [OF assms(1) ok ph TrueI this] obtain s' where
    "data_store_in_transaction env forced ph True (service_tx svc) s = Some (Succeeded, s')" "permissions_settled s'"
    "aw_results aw \<longrightarrow> rd_propagate s' = []" "same_frame s1 s'" by blast
  with run show ?thesis by blast
qed

end

lemma update_permissions_settles:
  assumes "propagation_ready s" and "unmarked s" and "on_db (update_permissions all_users user source g item inp) s = Inr s'"
  shows "propagation_ready s' \<and> (unmarked s' \<or> db_permissions_scheduled (rd_db s'))"
proof -
  from assms(3) obtain d where d: "update_permissions all_users user source g item inp (rd_db s) = Inr d" and s': "s' = s\<lparr>rd_db := d\<rparr>"
    by (cases "update_permissions all_users user source g item inp (rd_db s)") (auto simp: on_db_def)
  from d show ?thesis
  proof (cases rule: update_permissions_run)
    case unchanged
    then show ?thesis using assms(1,2) by (simp add: s' unmarked_def propagation_ready_def)
  next
    case (saved v dm)
    let ?dm = "resolve_all_users_group all_users dm"
    let ?upd = "apply_data_map (db_now (rd_db s)) ?dm"
    let ?d = "upsert_permissions_granted ?upd (?upd (default_granted_row g item source (db_now (rd_db s)))) (rd_db s)"
    have ready_: "access_ready ?d"
      using upsert_access_ready assms(1) by (simp add: propagation_ready_def apply_data_map_def pg_key_def)
    have d': "d = ?d\<lparr>db_permissions_scheduled := True\<rparr> \<or> d = ?d\<lparr>db_permissions_scheduled := True, db_results_scheduled := True\<rparr>"
      using saved(4) by (auto simp: save_permissions_def Let_def schedule_permissions_propagation_def schedule_results_propagation_def split: if_splits)
    then have "access_ready d" "db_permissions_scheduled d" "db_items_ancestors d = db_items_ancestors (rd_db s)"
      using ready_ by (auto simp: schedule_frame upsert_permissions_granted_frame)
    with assms(1) round_start_db [of s d] show ?thesis by (simp add: s' propagation_ready_def)
  qed
qed

interpretation granting: settling_service "on_db (update_permissions all_users user source g item inp)" for all_users user source g item inp
  by unfold_locales (rule update_permissions_settles)

text \<open>
  C7: A change of permissions is in effect when the service returns: on a database whose caches are fresh, the transaction with the service,
  retried as often as it takes, is followed by propagations after which the generated permissions of every group on every item
  agree with the granted ones and with those on the parents of the item.
\<close>

theorem granted_permissions_in_effect:
  assumes "in_transaction env (force_retry forced (service_tx (on_db (update_permissions all_users user source g item inp)))) s = (Succeeded, s1, aw)"
    and "\<forall>n. propagation_ready (others_upto env s n) \<and> unmarked (others_upto env s n)" and "\<not> ph_permissions ph" and "\<not> ph_results ph"
  shows "\<exists>s'. data_store_in_transaction env forced ph True (service_tx (on_db (update_permissions all_users user source g item inp))) s =
      Some (Succeeded, s') \<and> permissions_settled s' \<and> (aw_results aw \<longrightarrow> rd_propagate s' = []) \<and> same_frame s1 s' \<and>
    (\<exists>n. on_db (update_permissions all_users user source g item inp) (unscheduled (others_upto env s n)) = Inr s1)"
  using assms by (rule granting.in_effect)

end
