(* ===== verification/TransactionExamples.thy ===== *)
theory TransactionExamples
  imports TransactionRules PermissionExamples ResultsExamples
begin

text \<open>Transactions that run into deadlocks, and the update of permissions with the propagations after it.\<close>

section \<open>Deadlocks\<close>

text \<open>Others add 1 before every attempt; the transaction adds 10, with a deadlock in its first two attempts.\<close>

definition ex_env :: "int tx_env" where
  "ex_env = \<lparr>te_others = \<lambda>n x. x + 1, te_begin = \<lambda>n. None, te_commit = \<lambda>n. None, te_rollback = \<lambda>n. None\<rparr>"

definition ex_adding :: "nat \<Rightarrow> int tx" where
  "ex_adding deadlocks n x aw = (if n < deadlocks then Panicked Deadlock else Succeeded, x + 10, aw)"

lemma ex_adding_run: "in_transaction ex_env (ex_adding 2) 0 = (Succeeded, 13, nothing_awaiting)"
  by code_simp

lemma ex_giving_up_run: "in_transaction ex_env (ex_adding 31) 0 = (Failed RetriesLimitExceeded, 31, nothing_awaiting)"
  by code_simp

lemma ex_adding_fails: "list_all (fails_retryably ex_env (ex_adding 2) 0) [0, 1]"
  by code_simp

theorem transaction_atomic_witness:
  "(\<exists>m. m \<le> 30 \<and> attempt ex_env (ex_adding 2) 0 m = (Succeeded, 13, nothing_awaiting)) \<and>
   (\<exists>m. m \<le> 30 \<and> 31 = others_upto ex_env 0 m)"
  using transaction_atomic [OF ex_adding_run] transaction_atomic [OF ex_giving_up_run] by auto

theorem transaction_retried_witness: "in_transaction ex_env (ex_adding 2) 0 = (Succeeded, 13, nothing_awaiting)"
proof -
  have "\<forall>n < 2. fails_retryably ex_env (ex_adding 2) 0 n"
    using ex_adding_fails by (simp add: less_2_cases_iff)
  moreover have "te_begin ex_env 2 = None \<and> te_commit ex_env 2 = None \<and> attempt ex_env (ex_adding 2) 0 2 = (Succeeded, 13, nothing_awaiting)"
    by code_simp
  ultimately show ?thesis using transaction_retried [of 2 ex_env "ex_adding 2" 0 13 nothing_awaiting] by simp
qed

section \<open>Permissions\<close>

text \<open>User 30 owns the item 5, which the class 10 sees; the permissions of both wait for their computation.\<close>

definition ex_owned_db :: db where
  "ex_owned_db = ex_permissions_db\<lparr>
     db_permissions_granted := [(default_granted_row 30 5 30 50)\<lparr>pg_is_owner := True\<rparr>, (default_granted_row 10 5 10 50)\<lparr>pg_can_view := 2\<rparr>],
     db_permissions_generated := [], db_permissions_propagate := [((30, 5), Self), ((10, 5), Self)]\<rparr>"

definition ex_owned :: results_db where
  "ex_owned = ex_results\<lparr>rd_db := ex_owned_db, rd_results := [], rd_attempts := [], rd_propagate := []\<rparr>"

definition ex_idle :: "results_db tx_env" where
  "ex_idle = \<lparr>te_others = \<lambda>n s. s, te_begin = \<lambda>n. None, te_commit = \<lambda>n. None, te_rollback = \<lambda>n. None\<rparr>"

definition ex_allowed :: prohibited_propagations where
  "ex_allowed = \<lparr>ph_permissions = False, ph_results = False\<rparr>"

definition ex_computing :: "tx_result \<times> results_db \<times> awaiting" where
  "ex_computing = in_transaction ex_idle (force_retry True schedule_all) ex_owned"

definition ex_settled :: results_db where
  "ex_settled = fst (access_step_with_triggers (fst (access_step_with_triggers ex_owned)))"

definition ex_granting :: "results_db tx" where
  "ex_granting = service_tx (on_db (update_permissions 99 30 10 20 5 ex_lower_view))"

definition ex_granted :: "tx_result \<times> results_db \<times> awaiting" where
  "ex_granted = in_transaction ex_idle (force_retry False ex_granting) ex_settled"

lemma ex_owned_ready: "propagation_ready ex_owned"
proof -
  have none: "access ex_owned_db k = no_access k" for k
    by (simp add: access_def tbl_find_def ex_owned_db_def)
  have "pair_consistent ex_owned_db (g, i) \<or> self_marked ex_owned_db g i" for g i
  proof (cases "(g = 10 \<or> g = 30) \<and> i = 5")
    case True
    then show ?thesis by (auto simp: self_marked_def marked_def ex_owned_db_def)
  next
    case False
    then show ?thesis
      unfolding pair_consistent_def none compute_pair_def generated_row_of_def Let_def
      by (auto simp: no_access_def ex_owned_db_def ex_permissions_db_def ex_empty_db_def default_granted_row_def ifnull_max_def
          parent_levels_def parent_view_def generated_lookup_def tbl_find_def)
  qed
  moreover have "item_edges ex_owned_db = {}" by (simp add: item_edges_def ex_owned_db_def ex_permissions_db_def ex_empty_db_def)
  moreover have "db_items_ancestors ex_owned_db = []" by (simp add: ex_owned_db_def ex_permissions_db_def ex_empty_db_def)
  ultimately have "access_invariant ex_owned_db"
    by (auto simp: access_invariant_def access_keys_ok_def marked_def ex_owned_db_def acyclic_def)
  moreover have "\<not> marked ex_owned_db Children g i" for g i by (auto simp: marked_def ex_owned_db_def)
  moreover have "tbl_unique pg_key (db_permissions_granted ex_owned_db)" "db_now ex_owned_db < max_time" by code_simp+
  moreover have "round_start ex_owned"
    by (simp add: ex_owned_def ex_results_simps round_start_def tables_ok_def propagate_ok_def no_state_def tbl_unique_def)
  ultimately show ?thesis by (auto simp: propagation_ready_def access_ready_def ex_owned_def)
qed

theorem propagations_run_after_commit_witness:
  "\<exists>s'. data_store_in_transaction ex_idle True ex_allowed True schedule_all ex_owned = Some (Succeeded, s') \<and> permissions_settled s' \<and>
     rd_propagate s' = []"
proof -
  have run: "in_transaction ex_idle (force_retry True schedule_all) ex_owned =
      (Succeeded, ex_owned, \<lparr>aw_permissions = True, aw_results = True, aw_retried = True\<rparr>)"
    by code_simp
  have "\<not> ph_permissions ex_allowed" "\<not> ph_results ex_allowed" by (simp_all add: ex_allowed_def)
  from propagations_run_after_commit [OF run ex_owned_ready this, of True] show ?thesis by simp blast
qed

lemma ex_settled_ready: "propagation_ready ex_settled \<and> unmarked ex_settled"
proof -
  have "0 < snd (access_step_with_triggers ex_owned)" "snd (access_step_with_triggers (fst (access_step_with_triggers ex_owned))) = 0"
    by code_simp+
  then have "compute_access_with_triggers ex_owned = Some ex_settled"
    by (subst compute_access_with_triggers.simps, simp, subst compute_access_with_triggers.simps, simp add: ex_settled_def)
  with computed_access_settles [OF ex_owned_ready] show ?thesis by (auto simp: unmarked_def)
qed

lemma ex_idle_others: "others_upto ex_idle s n = s"
  by (induction n) (simp_all add: ex_idle_def)

theorem granted_permissions_in_effect_witness:
  "\<exists>s'. data_store_in_transaction ex_idle False ex_allowed True ex_granting ex_settled = Some (Succeeded, s') \<and> permissions_settled s' \<and>
     rd_propagate s' = []"
proof -
  have run: "in_transaction ex_idle (force_retry False ex_granting) ex_settled = (Succeeded, fst (snd ex_granted), snd (snd ex_granted))"
    and aw: "aw_results (snd (snd ex_granted))" by code_simp+
  have others: "\<forall>n. propagation_ready (others_upto ex_idle ex_settled n) \<and> unmarked (others_upto ex_idle ex_settled n)"
    using ex_settled_ready by (simp add: ex_idle_others)
  have "\<not> ph_permissions ex_allowed" "\<not> ph_results ex_allowed" by (simp_all add: ex_allowed_def)
  from granted_permissions_in_effect [OF run [unfolded ex_granting_def] others this] aw show ?thesis by (auto simp: ex_granting_def)
qed

end
