(* ===== verification/Dependencies.thy ===== *)
theory Dependencies
  imports ItemRelations Threads TransactionRules
begin

text \<open>
  Dependencies between items, app/api/items/create_dependency.go, apply_dependency.go and delete_dependency.go: a score on the prerequisite
  unlocks the dependent item.  The propagation of results unlocks for new scores; applying a dependency unlocks for the
  scores there are.
\<close>

section \<open>The services\<close>

datatype dependency_error =
    DependencyNotFound
  | DependencyForbidden
  | DependencyExists
  | DependencyInvalid
  | DependencyFailed db_error

definition lift_dependency :: "db_error + 'a \<Rightarrow> dependency_error + 'a" where
  "lift_dependency r = (case r of Inl e \<Rightarrow> Inl (DependencyFailed e) | Inr x \<Rightarrow> Inr x)"

text \<open>The levels the user has on the item, if all may be edited and, where asked for, view of the content may be granted.\<close>

definition may_edit_all :: "db \<Rightarrow> id \<Rightarrow> bool \<Rightarrow> id \<Rightarrow> bool" where
  "may_edit_all d user granting i =
     (case aggregated_permissions d user i of
        None \<Rightarrow> False
      | Some p \<Rightarrow> the_level (edit_index ''all'') \<le> ip_can_edit p \<and> (granting \<longrightarrow> the_level (grant_view_index ''content'') \<le> ip_can_grant_view p))"

definition default_dependency_score :: nat where
  "default_dependency_score = 100"

definition dependency_score :: "int option \<Rightarrow> dependency_error + nat" where
  "dependency_score score =
     (case score of
        None \<Rightarrow> Inr default_dependency_score
      | Some n \<Rightarrow> if 0 \<le> n \<and> n \<le> 100 then Inr (nat n) else Inl DependencyInvalid)"

definition create_dependency :: "id \<Rightarrow> id \<Rightarrow> id \<Rightarrow> int option \<Rightarrow> bool \<Rightarrow> results_db \<Rightarrow> dependency_error + results_db" where
  "create_dependency user dep prerequisite score granting s =
     bind_result (dependency_score score) (\<lambda>n.
       bind_result (lift_dependency (can_view_item_info (rd_db s) user prerequisite)) (\<lambda>visible.
         if \<not> visible \<or> \<not> may_edit_all (rd_db s) user granting dep then Inl DependencyForbidden
         else if \<exists>dp \<in> set (rd_dependencies s). dp_item dp = prerequisite \<and> dp_dependent_item dp = dep then Inl DependencyExists
         else Inr (s\<lparr>rd_dependencies := rd_dependencies s @
                       [\<lparr>dp_item = prerequisite, dp_dependent_item = dep, dp_score = n, dp_grant_content_view = granting\<rparr>]\<rparr>)))"

definition delete_dependency :: "id \<Rightarrow> id \<Rightarrow> id \<Rightarrow> results_db \<Rightarrow> dependency_error + results_db" where
  "delete_dependency user dep prerequisite s =
     bind_result (lift_dependency (has_item_permission (rd_db s) user dep (edit_index ''all'') pgen_can_edit)) (\<lambda>found.
       if \<not> found then Inl DependencyForbidden
       else Inr (s\<lparr>rd_dependencies :=
              filter (\<lambda>dp. \<not> (dp_item dp = prerequisite \<and> dp_dependent_item dp = dep)) (rd_dependencies s)\<rparr>))"

text \<open>
  The rows of the SELECT: participant, item, and the values to grant, as for the propagation; and the ON DUPLICATE KEY UPDATE, which, other
  than that of the propagation, leaves \<open>can_enter_until\<close> as it is.
\<close>

definition participants_to_unlock :: "results_db \<Rightarrow> id \<Rightarrow> id \<Rightarrow> (id \<times> id \<times> nat \<times> time) list" where
  "participants_to_unlock s dep prerequisite =
     [(rs_participant r, it_id it, if it_requires_explicit_entry it then 1 else content_level,
       if it_requires_explicit_entry it then db_now (rd_db s) else max_time).
        dp \<leftarrow> rd_dependencies s, dp_item dp = prerequisite \<and> dp_dependent_item dp = dep \<and> dp_grant_content_view dp,
        r \<leftarrow> rd_results s, rs_item r = dp_item dp \<and> of_nat (dp_score dp) \<le> rs_score_computed r,
        it \<leftarrow> rd_items s, it_id it = dp_dependent_item dp]"

definition apply_unlock_update :: "time \<Rightarrow> nat \<Rightarrow> time \<Rightarrow> granted_row \<Rightarrow> granted_row" where
  "apply_unlock_update now view enter_from g =
     (let raise_view = (view = content_level \<and> pg_can_view g < content_level);
          earlier = (enter_from \<noteq> max_time \<and> enter_from < pg_can_enter_from g)
      in g\<lparr>pg_latest_update_at := (if raise_view \<or> earlier \<or> enter_from \<noteq> max_time \<and> pg_can_enter_until g \<noteq> max_time
                                 then now else pg_latest_update_at g),
           pg_can_view := (if raise_view then content_level else pg_can_view g),
           pg_can_enter_from := (if earlier then enter_from else pg_can_enter_from g)\<rparr>)"

definition unlock_by_dependency :: "id \<times> id \<times> nat \<times> time \<Rightarrow> db \<times> nat \<Rightarrow> db \<times> nat" where
  "unlock_by_dependency u dn =
     (case u of (p, i, view, enter_from) \<Rightarrow>
        let d = fst dn; row = unlocking_row (db_now d) p i view enter_from; upd = apply_unlock_update (db_now d) view enter_from
        in (upsert_permissions_granted upd row d,
            snd dn + (case tbl_find pg_key (pg_key row) (db_permissions_granted d) of
                        None \<Rightarrow> 1 | Some g \<Rightarrow> if upd g = g then 0 else 2)))"

definition apply_dependency :: "id \<Rightarrow> id \<Rightarrow> id \<Rightarrow> results_db \<Rightarrow> dependency_error + results_db" where
  "apply_dependency user dep prerequisite s =
     (if \<not> (\<exists>dp \<in> set (rd_dependencies s). dp_dependent_item dp = dep \<and> dp_item dp = prerequisite \<and> dp_grant_content_view dp)
      then Inl DependencyNotFound
      else if \<not> may_edit_all (rd_db s) user True dep then Inl DependencyForbidden
      else let (d, n) = fold unlock_by_dependency (participants_to_unlock s dep prerequisite) (rd_db s, 0)
           in Inr (s\<lparr>rd_db := if 0 < n then schedule_results_propagation (schedule_permissions_propagation d) else d\<rparr>))"

section \<open>Applying a dependency\<close>

lemma apply_run:
  assumes "apply_dependency user dep prerequisite s = Inr s'"
  obtains d n where "fold unlock_by_dependency (participants_to_unlock s dep prerequisite) (rd_db s, 0) = (d, n)"
    and "s' = s\<lparr>rd_db := if 0 < n then schedule_results_propagation (schedule_permissions_propagation d) else d\<rparr>"
    and "may_edit_all (rd_db s) user True dep"
  using assms by (auto simp: apply_dependency_def split: prod.splits if_splits)

lemma unlock_by_dependency_db:
  "fst (unlock_by_dependency (p, i, view, t) dn) =
     upsert_permissions_granted (apply_unlock_update (db_now (fst dn)) view t) (unlocking_row (db_now (fst dn)) p i view t) (fst dn)"
  by (simp add: unlock_by_dependency_def Let_def)

interpretation app: keyed_update pg_key "apply_unlock_update now view t" for now view t
  by unfold_locales (simp add: pg_key_def apply_unlock_update_def Let_def)

lemma unlock_by_dependency_find:
  "tbl_find pg_key k (db_permissions_granted (fst (unlock_by_dependency (p, i, view, t) dn))) =
     (if k = (p, i, p, ItemUnlocking)
      then (case tbl_find pg_key k (db_permissions_granted (fst dn)) of
              None \<Rightarrow> Some (unlocking_row (db_now (fst dn)) p i view t)
            | Some g \<Rightarrow> Some (apply_unlock_update (db_now (fst dn)) view t g))
      else tbl_find pg_key k (db_permissions_granted (fst dn)))"
  by (simp add: unlock_by_dependency_db upsert_granted app.upsert_find)

lemma unlock_by_dependency_now: "db_now (fst (unlock_by_dependency u dn)) = db_now (fst dn)"
  by (cases u) (simp add: unlock_by_dependency_db upsert_permissions_granted_frame)

text \<open>Statements that upsert one row per participant, with an idempotent update.\<close>

lemma fold_upserts:
  assumes step: "\<And>p dn. db_now (fst dn) = now \<Longrightarrow> db_now (fst (f p dn)) = now"
      "\<And>p dn k. db_now (fst dn) = now \<Longrightarrow> tbl_find pg_key k (db_permissions_granted (fst (f p dn))) =
        (if k = key p then Some (case tbl_find pg_key k (db_permissions_granted (fst dn)) of None \<Rightarrow> new p | Some g \<Rightarrow> upd g)
         else tbl_find pg_key k (db_permissions_granted (fst dn)))"
    and key: "\<And>p q. key p = key q \<Longrightarrow> p = q" and idem: "\<And>g. upd (upd g) = upd g" "\<And>p. upd (new p) = new p"
    and now: "db_now (fst dn) = now"
  shows "tbl_find pg_key k (db_permissions_granted (fst (fold f ps dn))) =
    (if \<exists>p \<in> set ps. k = key p
     then Some (case tbl_find pg_key k (db_permissions_granted (fst dn)) of None \<Rightarrow> new (THE p. k = key p) | Some g \<Rightarrow> upd g)
     else tbl_find pg_key k (db_permissions_granted (fst dn)))"
  using now
proof (induction ps arbitrary: dn)
  case (Cons p ps)
  have the_key: "(THE q. key p = key q) = p" by (rule the_equality) (auto dest: key)
  show ?case
    using Cons.IH [OF step(1) [OF Cons.prems, of p]] step(2) [OF Cons.prems, of k p]
    by (auto simp: idem the_key split: option.splits)
qed simp

text \<open>The participants with a result that reaches the score of the dependency.\<close>

definition reached :: "results_db \<Rightarrow> id \<Rightarrow> id \<Rightarrow> id \<Rightarrow> bool" where
  "reached s dep prerequisite p =
     (\<exists>dp \<in> set (rd_dependencies s). \<exists>r \<in> set (rd_results s). dp_item dp = prerequisite \<and> dp_dependent_item dp = dep \<and>
        dp_grant_content_view dp \<and> rs_item r = prerequisite \<and> of_nat (dp_score dp) \<le> rs_score_computed r \<and> rs_participant r = p)"

lemma set_participants_to_unlock:
  "u \<in> set (participants_to_unlock s dep prerequisite) \<longleftrightarrow>
    (\<exists>it \<in> set (rd_items s). it_id it = dep \<and> (\<exists>p. reached s dep prerequisite p \<and> u = unlock_entry (db_now (rd_db s)) p it))"
  unfolding participants_to_unlock_def reached_def
  by (simp only: in_concat_if in_singleton unlock_entry_def [symmetric]) (rule iffI; elim bexE conjE exE; metis)

lemma same_item: "tbl_unique it_id (rd_items s) \<Longrightarrow> it \<in> set (rd_items s) \<Longrightarrow> it' \<in> set (rd_items s) \<Longrightarrow> it_id it = it_id it' \<Longrightarrow> it = it'"
  by (auto simp: tbl_unique_def distinct_map dest: inj_onD)

text \<open>Rows for one item, as entries of participants.\<close>

lemma entries_of_participants:
  assumes "\<And>u. u \<in> set us \<Longrightarrow> \<exists>p. u = unlock_entry now p it"
  shows "us = map (\<lambda>p. unlock_entry now p it) (map fst us)"
proof -
  have "unlock_entry now (fst u) it = u" if "u \<in> set us" for u
    using assms [OF that] by (auto simp: unlock_entry_def)
  then show ?thesis by (simp add: map_idI)
qed

lemma fold_entries:
  assumes us: "\<And>u. u \<in> set us \<longleftrightarrow> (\<exists>p. P p \<and> u = unlock_entry now p it)"
    and step: "\<And>p dn k. db_now (fst dn) = now \<Longrightarrow> db_now (fst (f (unlock_entry now p it) dn)) = now \<and>
      tbl_find pg_key k (db_permissions_granted (fst (f (unlock_entry now p it) dn))) =
        (if k = (p, it_id it, p, ItemUnlocking)
         then Some (case tbl_find pg_key k (db_permissions_granted (fst dn)) of None \<Rightarrow> new p | Some g \<Rightarrow> upd g)
         else tbl_find pg_key k (db_permissions_granted (fst dn)))"
    and idem: "\<And>g. upd (upd g) = upd g" "\<And>p. upd (new p) = new p" and now: "db_now (fst dn) = now"
  shows "tbl_find pg_key (p, i, q, org) (db_permissions_granted (fst (fold f us dn))) =
    (if P p \<and> (i, q, org) = (it_id it, p, ItemUnlocking)
     then Some (case tbl_find pg_key (p, i, q, org) (db_permissions_granted (fst dn)) of None \<Rightarrow> new p | Some g \<Rightarrow> upd g)
     else tbl_find pg_key (p, i, q, org) (db_permissions_granted (fst dn)))"
proof -
  have "\<exists>p. u = unlock_entry now p it" if "u \<in> set us" for u using us that by blast
  from entries_of_participants [OF this] have "us = map (\<lambda>p. unlock_entry now p it) (map fst us)" .
  then have "fold f us dn = fold f (map (\<lambda>p. unlock_entry now p it) (map fst us)) dn" by simp
  then have run: "fold f us dn = fold (\<lambda>p. f (unlock_entry now p it)) (map fst us) dn" by (simp only: fold_map comp_def)
  have participants: "p \<in> set (map fst us) \<longleftrightarrow> P p" for p using us by (force simp: unlock_entry_def)
  note found = fold_upserts [where f = "\<lambda>p. f (unlock_entry now p it)" and key = "\<lambda>p. (p, it_id it, p, ItemUnlocking)" and
      new = new and upd = upd and ps = "map fst us" and k = "(p, i, q, org)" and now = now]
  show ?thesis unfolding run by (subst found) (use step idem now participants in \<open>auto split: option.split\<close>)
qed

lemma apply_unlock_update_idem:
  "apply_unlock_update now view t (apply_unlock_update now view t g) = apply_unlock_update now view t g"
  "apply_unlock_update now view t (unlocking_row now p i view t) = unlocking_row now p i view t"
  by (auto simp: apply_unlock_update_def Let_def unlocking_row_def default_granted_row_def)

lemma unlock_update_idem:
  "unlock_update now view t (unlock_update now view t g) = unlock_update now view t g"
  "unlock_update now view t (unlocking_row now p i view t) = unlocking_row now p i view t"
  by (auto simp: unlock_update_def unlocking_row_def default_granted_row_def)

definition unlock_values :: "time \<Rightarrow> item_row \<Rightarrow> nat \<times> time" where
  "unlock_values now it = (if it_requires_explicit_entry it then (1, now) else (content_level, max_time))"

lemma unlock_entry_values: "unlock_entry now p it = (p, it_id it, fst (unlock_values now it), snd (unlock_values now it))"
  by (simp add: unlock_entry_def unlock_values_def)

text \<open>
  Applying a dependency writes one grant for every participant who reaches its score and touches no other grant of any group.
\<close>

lemma apply_dependency_grants:
  assumes run: "apply_dependency user dep prerequisite s = Inr s'"
    and it: "it \<in> set (rd_items s)" "it_id it = dep" "tbl_unique it_id (rd_items s)"
  shows "tbl_find pg_key (p, i, q, org) (db_permissions_granted (rd_db s')) =
    (if reached s dep prerequisite p \<and> (i, q, org) = (dep, p, ItemUnlocking)
     then Some (case tbl_find pg_key (p, i, q, org) (db_permissions_granted (rd_db s)) of
         None \<Rightarrow> (case unlock_values (db_now (rd_db s)) it of (view, start) \<Rightarrow> unlocking_row (db_now (rd_db s)) p dep view start)
       | Some g \<Rightarrow> (case unlock_values (db_now (rd_db s)) it of (view, start) \<Rightarrow> apply_unlock_update (db_now (rd_db s)) view start g))
     else tbl_find pg_key (p, i, q, org) (db_permissions_granted (rd_db s)))"
proof -
  obtain d n where d: "fold unlock_by_dependency (participants_to_unlock s dep prerequisite) (rd_db s, 0) = (d, n)"
    "s' = s\<lparr>rd_db := if 0 < n then schedule_results_propagation (schedule_permissions_propagation d) else d\<rparr>"
    using apply_run [OF run] by metis
  have granted: "db_permissions_granted (rd_db s') = db_permissions_granted d"
    by (simp add: d(2) schedule_results_propagation_def schedule_permissions_propagation_def)
  have us: "u \<in> set (participants_to_unlock s dep prerequisite) \<longleftrightarrow>
      (\<exists>p. reached s dep prerequisite p \<and> u = unlock_entry (db_now (rd_db s)) p it)" for u
    unfolding set_participants_to_unlock using it same_item [OF it(3)] by blast
  obtain view start where v: "unlock_values (db_now (rd_db s)) it = (view, start)" by fastforce
  have step: "db_now (fst dn) = db_now (rd_db s) \<Longrightarrow>
      db_now (fst (unlock_by_dependency (unlock_entry (db_now (rd_db s)) p it) dn)) = db_now (rd_db s) \<and>
      tbl_find pg_key k (db_permissions_granted (fst (unlock_by_dependency (unlock_entry (db_now (rd_db s)) p it) dn))) =
        (if k = (p, it_id it, p, ItemUnlocking)
         then Some (case tbl_find pg_key k (db_permissions_granted (fst dn)) of
             None \<Rightarrow> unlocking_row (db_now (rd_db s)) p dep view start | Some g \<Rightarrow> apply_unlock_update (db_now (rd_db s)) view start g)
         else tbl_find pg_key k (db_permissions_granted (fst dn)))" for p dn k
    by (simp add: unlock_entry_values v it(2) unlock_by_dependency_find unlock_by_dependency_now split: option.split)
  show ?thesis
    using fold_entries [OF us step apply_unlock_update_idem, of "(rd_db s, 0)" p i q org] by (simp add: granted v it(2) d(1) split: option.split)
qed

text \<open>The same for the propagation, whose SELECT leaves out the rows for which nothing is left to unlock.\<close>

lemma unlock_items_grants:
  assumes run: "unlock_items participant s = (s', n, js)" and unique: "tbl_unique pg_key (db_permissions_granted (rd_db s))"
    and it: "it \<in> set (rd_items s)" "it_id it = dep" "tbl_unique it_id (rd_items s)"
    and only: "\<forall>dp \<in> set (rd_dependencies s). dp_dependent_item dp = dep \<and> dp_item dp = prerequisite"
    and all: "\<forall>r \<in> set (rd_results s). rs_item r = prerequisite \<longrightarrow> state_of_result s (rs_key r) = Some Propagating"
  shows "tbl_find pg_key (p, i, q, org) (db_permissions_granted (rd_db s')) =
    (if (reached s dep prerequisite p \<and> \<not> unlocked (rd_db s) p it) \<and> (i, q, org) = (dep, p, ItemUnlocking)
     then Some (case tbl_find pg_key (p, i, q, org) (db_permissions_granted (rd_db s)) of
         None \<Rightarrow> (case unlock_values (db_now (rd_db s)) it of (view, start) \<Rightarrow> unlocking_row (db_now (rd_db s)) p dep view start)
       | Some g \<Rightarrow> (case unlock_values (db_now (rd_db s)) it of (view, start) \<Rightarrow> unlock_update (db_now (rd_db s)) view start g))
     else tbl_find pg_key (p, i, q, org) (db_permissions_granted (rd_db s)))"
proof -
  have us: "u \<in> set (items_to_unlock s) \<longleftrightarrow>
      (\<exists>p. (reached s dep prerequisite p \<and> \<not> unlocked (rd_db s) p it) \<and> u = unlock_entry (db_now (rd_db s)) p it)" for u
  proof
    assume "u \<in> set (items_to_unlock s)"
    then obtain r dp it' where "r \<in> set (rd_results s)" "dp \<in> set (rd_dependencies s)" "dp_item dp = rs_item r"
      "of_nat (dp_score dp) \<le> rs_score_computed r" "dp_grant_content_view dp" "it' \<in> set (rd_items s)" "it_id it' = dp_dependent_item dp"
      "\<not> unlocked (rd_db s) (rs_participant r) it'" "u = unlock_entry (db_now (rd_db s)) (rs_participant r) it'"
      unfolding set_items_to_unlock [OF unique] by blast
    moreover from calculation have "it' = it" using only same_item [OF it(3)] it(1,2) by metis
    moreover from calculation have "reached s dep prerequisite (rs_participant r)" using only unfolding reached_def by metis
    ultimately show "\<exists>p. (reached s dep prerequisite p \<and> \<not> unlocked (rd_db s) p it) \<and> u = unlock_entry (db_now (rd_db s)) p it" by blast
  next
    assume "\<exists>p. (reached s dep prerequisite p \<and> \<not> unlocked (rd_db s) p it) \<and> u = unlock_entry (db_now (rd_db s)) p it"
    then show "u \<in> set (items_to_unlock s)"
      unfolding set_items_to_unlock [OF unique] reached_def using it(1,2) all by metis
  qed
  obtain view start where v: "unlock_values (db_now (rd_db s)) it = (view, start)" by fastforce
  have step: "db_now (fst dn) = db_now (rd_db s) \<Longrightarrow>
      db_now (fst (unlock_item (unlock_entry (db_now (rd_db s)) p it) dn)) = db_now (rd_db s) \<and>
      tbl_find pg_key k (db_permissions_granted (fst (unlock_item (unlock_entry (db_now (rd_db s)) p it) dn))) =
        (if k = (p, it_id it, p, ItemUnlocking)
         then Some (case tbl_find pg_key k (db_permissions_granted (fst dn)) of
             None \<Rightarrow> unlocking_row (db_now (rd_db s)) p dep view start | Some g \<Rightarrow> unlock_update (db_now (rd_db s)) view start g)
         else tbl_find pg_key k (db_permissions_granted (fst dn)))" for p dn k
    by (simp add: unlock_entry_values v it(2) unlock_item_find split: option.split)
  show ?thesis
    using fold_entries [OF us step unlock_update_idem, of "(rd_db s, 0)" p i q org]
    by (simp add: unlock_items_db(1) [OF run] v it(2) split: option.split)
qed

text \<open>Where nothing is left to unlock, applying a dependency changes nothing; elsewhere the propagation alone resets the end of the entry.\<close>

lemma apply_unlock_update_unlocked:
  assumes "already_unlocked now it g" and "unlock_values now it = (view, start)"
  shows "apply_unlock_update now view start g = g"
  using assms by (cases "it_requires_explicit_entry it") (simp_all add: already_unlocked_alt unlock_values_def apply_unlock_update_def Let_def)

lemma apply_unlock_update_entry:
  assumes "it_requires_explicit_entry it" and "unlock_values now it = (view, start)" and "now < max_time" and "\<not> already_unlocked now it g"
  shows "unlock_update now view start g = (apply_unlock_update now view start g)\<lparr>pg_can_enter_until := max_time\<rparr>"
  using assms by (cases g) (simp add: already_unlocked_alt unlock_values_def apply_unlock_update_def unlock_update_def Let_def, linarith?)

lemma apply_unlock_update_plain:
  assumes "\<not> it_requires_explicit_entry it" and "unlock_values now it = (view, start)" and "\<not> already_unlocked now it g"
  shows "unlock_update now view start g = apply_unlock_update now view start g"
  using assms by (simp add: already_unlocked_alt unlock_values_def apply_unlock_update_def unlock_update_def Let_def)

lemma already_unlocked_end:
  "already_unlocked now it g \<Longrightarrow> it_requires_explicit_entry it \<Longrightarrow> g\<lparr>pg_can_enter_until := max_time\<rparr> = g"
  by (cases g) (simp add: already_unlocked_alt)

lemma unlocking_row_end: "(unlocking_row now p i view start)\<lparr>pg_can_enter_until := max_time\<rparr> = unlocking_row now p i view start"
  by (simp add: unlocking_row_def default_granted_row_def)

definition as_propagated :: "results_db \<Rightarrow> id \<Rightarrow> id \<Rightarrow> results_db" where
  "as_propagated s dep prerequisite =
     s\<lparr>rd_dependencies := filter (\<lambda>dp. dp_item dp = prerequisite \<and> dp_dependent_item dp = dep) (rd_dependencies s),
       rd_propagate := map (\<lambda>r. (rs_key r, Propagating)) (filter (\<lambda>r. rs_item r = prerequisite) (rd_results s))\<rparr>"

text \<open>
  C11: Applying a dependency compared with the propagation, had it just processed all results of the prerequisite: the granted permissions
  are the same afterwards, row by row, but for one column.  The unlocking grants of the participants who reached the score
  of a dependent item that requires an explicit entry have no end after the propagation, and keep the end they had
  after the dependency was applied (see \<open>applied_dependency_keeps_end\<close>).
\<close>

theorem apply_agrees_with_propagation:
  assumes "apply_dependency user dep prerequisite s = Inr s'"
    and "unlock_items None (as_propagated s dep prerequisite) = (s'', n, js)"
    and "tbl_unique pg_key (db_permissions_granted (rd_db s))" and "tbl_unique it_id (rd_items s)" and "db_now (rd_db s) < max_time"
    and "it \<in> set (rd_items s)" and "it_id it = dep"
  shows "tbl_find pg_key (p, i, q, org) (db_permissions_granted (rd_db s'')) =
    map_option (\<lambda>g. if it_requires_explicit_entry it \<and> reached s dep prerequisite p \<and> (i, q, org) = (dep, p, ItemUnlocking)
                     then g\<lparr>pg_can_enter_until := max_time\<rparr> else g)
      (tbl_find pg_key (p, i, q, org) (db_permissions_granted (rd_db s')))"
proof -
  let ?s = "as_propagated s dep prerequisite"
  have frame: "rd_db ?s = rd_db s" "rd_items ?s = rd_items s" "rd_results ?s = rd_results s" by (simp_all add: as_propagated_def)
  have only: "\<forall>dp \<in> set (rd_dependencies ?s). dp_dependent_item dp = dep \<and> dp_item dp = prerequisite"
    by (simp add: as_propagated_def)
  have "map_of (map (\<lambda>r. (rs_key r, Propagating)) rs) (rs_key r) = Some Propagating" if "r \<in> set rs" for r rs
    using that by (induction rs) auto
  then have all: "\<forall>r \<in> set (rd_results ?s). rs_item r = prerequisite \<longrightarrow> state_of_result ?s (rs_key r) = Some Propagating"
    by (simp add: as_propagated_def)
  have reach: "reached ?s dep prerequisite p = reached s dep prerequisite p"
    unfolding reached_def by (auto simp: as_propagated_def)
  have tables: "tbl_unique pg_key (db_permissions_granted (rd_db ?s))" "it \<in> set (rd_items ?s)" "tbl_unique it_id (rd_items ?s)"
    using assms(3,4,6) by (simp_all add: frame)
  note theirs = unlock_items_grants [OF assms(2) tables(1,2) assms(7) tables(3) only all, of p i q org, unfolded frame reach]
  note ours = apply_dependency_grants [OF assms(1,6,7,4), of p i q org]
  obtain view start where v: "unlock_values (db_now (rd_db s)) it = (view, start)" by fastforce
  show ?thesis
  proof (cases "reached s dep prerequisite p \<and> (i, q, org) = (dep, p, ItemUnlocking)")
    case False
    then show ?thesis unfolding ours theirs by (cases "tbl_find pg_key (p, i, q, org) (db_permissions_granted (rd_db s))") auto
  next
    case True
    then have k: "i = dep" "q = p" "org = ItemUnlocking" "reached s dep prerequisite p" by simp_all
    show ?thesis
    proof (cases "tbl_find pg_key (p, dep, p, ItemUnlocking) (db_permissions_granted (rd_db s))")
      case None
      then show ?thesis unfolding ours theirs v by (simp add: k unlocked_def assms(7) unlocking_row_end)
    next
      case (Some g)
      let ?now = "db_now (rd_db s)"
      have u: "unlocked (rd_db s) p it = already_unlocked ?now it g" using Some by (simp add: unlocked_def assms(7))
      have mine: "tbl_find pg_key (p, i, q, org) (db_permissions_granted (rd_db s')) = Some (apply_unlock_update ?now view start g)"
        unfolding ours v using Some by (simp add: k)
      have others: "tbl_find pg_key (p, i, q, org) (db_permissions_granted (rd_db s'')) =
          Some (if already_unlocked ?now it g then g else unlock_update ?now view start g)"
        unfolding theirs v u using Some by (simp add: k)
      show ?thesis
      proof (cases "already_unlocked ?now it g")
        case True
        then show ?thesis unfolding mine others apply_unlock_update_unlocked [OF True v] by (simp add: already_unlocked_end)
      next
        case False
        then show ?thesis
          unfolding mine others using k apply_unlock_update_plain [OF _ v False]
          by (simp add: apply_unlock_update_entry [OF _ v assms(5) False])
      qed
    qed
  qed
qed

text \<open>
  Applying a dependency does not reset the end of an earlier entry, other than the propagation: a participant who reached
  the score, but has an unlocking grant with an end on an item that requires an explicit entry, is still locked out of it afterwards.
\<close>

lemma applied_dependency_keeps_end:
  assumes "apply_dependency user dep prerequisite s = Inr s'" and "tbl_unique it_id (rd_items s)"
    and "it \<in> set (rd_items s)" and "it_id it = dep" and "it_requires_explicit_entry it" and "reached s dep prerequisite p"
    and "tbl_find pg_key (p, dep, p, ItemUnlocking) (db_permissions_granted (rd_db s)) = Some g" and "pg_can_enter_until g \<noteq> max_time"
  shows "\<exists>g'. tbl_find pg_key (p, dep, p, ItemUnlocking) (db_permissions_granted (rd_db s')) = Some g' \<and>
    pg_can_enter_until g' = pg_can_enter_until g \<and> \<not> unlocked (rd_db s') p it"
  using apply_dependency_grants [OF assms(1,3,4,2), of p dep p ItemUnlocking] assms(4-8)
  by (simp add: unlock_values_def unlocked_def already_unlocked_alt apply_unlock_update_def Let_def)

section \<open>Applying a dependency in a transaction\<close>

lemma unlock_by_dependency_state:
  assumes "access_ready (fst dn)" and "\<forall>m g i. \<not> marked (fst dn) m g i \<or> 0 < snd dn"
  shows "access_ready (fst (unlock_by_dependency u dn)) \<and> db_items_ancestors (fst (unlock_by_dependency u dn)) = db_items_ancestors (fst dn) \<and>
    (\<forall>m g i. \<not> marked (fst (unlock_by_dependency u dn)) m g i \<or> 0 < snd (unlock_by_dependency u dn))"
proof -
  obtain p i view start where u: "u = (p, i, view, start)" by (cases u)
  let ?upd = "apply_unlock_update (db_now (fst dn)) view start" and ?row = "unlocking_row (db_now (fst dn)) p i view start"
  have "marked (upsert_permissions_granted ?upd ?row (fst dn)) = marked (fst dn)"
    if "tbl_find pg_key (pg_key ?row) (db_permissions_granted (fst dn)) = Some g" "?upd g = g" for g
    using that by (simp add: upsert_permissions_granted_def Let_def marked_def fun_eq_iff)
  then show ?thesis
    using upsert_access_ready [OF assms(1) app.key_upd] assms(2)
    by (auto simp: u unlock_by_dependency_db upsert_permissions_granted_frame unlock_by_dependency_def Let_def split: option.split)
qed

lemma apply_dependency_settles:
  assumes "propagation_ready s" and "unmarked s" and "apply_dependency user dep prerequisite s = Inr s'"
  shows "propagation_ready s' \<and> (unmarked s' \<or> db_permissions_scheduled (rd_db s'))"
proof -
  obtain d n where d: "fold unlock_by_dependency (participants_to_unlock s dep prerequisite) (rd_db s, 0) = (d, n)"
    and s': "s' = s\<lparr>rd_db := if 0 < n then schedule_results_propagation (schedule_permissions_propagation d) else d\<rparr>"
    using apply_run [OF assms(3)] by metis
  have "access_ready (fst dn) \<Longrightarrow> \<forall>m g i. \<not> marked (fst dn) m g i \<or> 0 < snd dn \<Longrightarrow>
      access_ready (fst (fold unlock_by_dependency us dn)) \<and> db_items_ancestors (fst (fold unlock_by_dependency us dn)) = db_items_ancestors (fst dn) \<and>
      (\<forall>m g i. \<not> marked (fst (fold unlock_by_dependency us dn)) m g i \<or> 0 < snd (fold unlock_by_dependency us dn))" for us dn
  proof (induction us arbitrary: dn)
    case (Cons u us)
    then show ?case using Cons.IH [of "unlock_by_dependency u dn"] unlock_by_dependency_state [OF Cons.prems, of u] by simp
  qed simp
  from this [of "(rd_db s, 0)" "participants_to_unlock s dep prerequisite"] assms(1,2) d
  have "access_ready d" "db_items_ancestors d = db_items_ancestors (rd_db s)" "\<forall>m g i. \<not> marked d m g i \<or> 0 < n"
    by (simp_all add: propagation_ready_def unmarked_def)
  then show ?thesis
    using assms(1) round_start_db [of s]
    by (auto simp: s' propagation_ready_def unmarked_def schedule_results_propagation_def schedule_permissions_propagation_def schedule_frame)
qed

interpretation applying: settling_service "apply_dependency user dep prerequisite" for user dep prerequisite
  by unfold_locales (rule apply_dependency_settles)

section \<open>Creating and deleting\<close>

text \<open>A new dependency unlocks nothing by itself; creating it needs more rights than deleting it.\<close>

lemma create_dependency_frame:
  assumes "create_dependency user dep prerequisite score granting s = Inr s'"
  shows "rd_db s' = rd_db s \<and> (\<exists>n. n \<le> 100 \<and> rd_dependencies s' = rd_dependencies s @
      [\<lparr>dp_item = prerequisite, dp_dependent_item = dep, dp_score = n, dp_grant_content_view = granting\<rparr>])"
proof -
  obtain n visible where n: "dependency_score score = Inr n" "lift_dependency (can_view_item_info (rd_db s) user prerequisite) = Inr visible"
    using assms unfolding create_dependency_def by (auto simp: bind_result_case split: sum.splits)
  have "n \<le> 100" using n(1) by (auto simp: dependency_score_def default_dependency_score_def split: option.splits if_splits)
  with assms n show ?thesis by (auto simp: create_dependency_def split: if_splits)
qed

lemma deleted_dependency:
  assumes "create_dependency user dep prerequisite score granting s = Inr s1" and "delete_dependency user' dep prerequisite s1 = Inr s2"
  shows "rd_dependencies s2 = rd_dependencies s"
proof -
  have "\<forall>dp \<in> set (rd_dependencies s). \<not> (dp_item dp = prerequisite \<and> dp_dependent_item dp = dep)"
    using assms(1) unfolding create_dependency_def by (auto simp: bind_result_case split: sum.splits if_splits)
  moreover obtain n where "rd_dependencies s1 = rd_dependencies s @
      [\<lparr>dp_item = prerequisite, dp_dependent_item = dep, dp_score = n, dp_grant_content_view = granting\<rparr>]"
    using create_dependency_frame [OF assms(1)] by blast
  ultimately show ?thesis
    using assms(2) unfolding delete_dependency_def by (auto simp: bind_result_case intro!: filter_True split: sum.splits if_splits)
qed

end
