(* ===== verification/DependencyExamples.thy ===== *)
theory DependencyExamples
  imports Dependencies TransactionExamples
begin

text \<open>User 30 may edit the item 4, which a score of 80 on the task 3 unlocks; 10 has the score, and entered the item before.\<close>

definition ex_rule :: results_db where
  "ex_rule = ex_unlock\<lparr>rd_items := map ex_item [1, 2, 3] @ [(ex_item 4)\<lparr>it_requires_explicit_entry := True\<rparr>],
     rd_db := (rd_db ex_unlock)\<lparr>db_groups_ancestors := [self_row 10, self_row 30],
       db_permissions_generated := [(ex_generated 30 5 4 False)\<lparr>pgen_item := 4\<rparr>],
       db_permissions_granted := [(unlocking_row 10 10 4 1 500)]\<rparr>\<rparr>"

definition ex_rule_entered :: results_db where
  "ex_rule_entered = ex_rule\<lparr>rd_db := (rd_db ex_rule)\<lparr>db_permissions_granted := [(unlocking_row 10 10 4 1 20)\<lparr>pg_can_enter_until := 30\<rparr>]\<rparr>\<rparr>"

definition applied :: "dependency_error + results_db \<Rightarrow> results_db" where
  "applied r = (case r of Inl _ \<Rightarrow> ex_results | Inr s \<Rightarrow> s)"

definition ex_reapplied :: results_db where
  "ex_reapplied = applied (apply_dependency 30 4 3 ex_rule_entered)"

definition ex_propagated_rule :: "results_db \<times> nat \<times> id list" where
  "ex_propagated_rule = unlock_items None (as_propagated ex_rule_entered 4 3)"

lemma ex_reapplied_run: "apply_dependency 30 4 3 ex_rule_entered = Inr ex_reapplied"
  by code_simp

lemma ex_propagated_rule_run:
  "unlock_items None (as_propagated ex_rule_entered 4 3) = (fst ex_propagated_rule, fst (snd ex_propagated_rule), snd (snd ex_propagated_rule))"
  by (simp add: ex_propagated_rule_def)

definition ex_entry_item :: item_row where
  "ex_entry_item = (ex_item 4)\<lparr>it_requires_explicit_entry := True\<rparr>"

lemma ex_rule_tables:
  "tbl_unique pg_key (db_permissions_granted (rd_db ex_rule_entered))" "tbl_unique it_id (rd_items ex_rule_entered)" "db_now (rd_db ex_rule_entered) < max_time"
  "it_id ex_entry_item = 4" "it_requires_explicit_entry ex_entry_item"
  "tbl_unique it_id (rd_items ex_rule_entered)" "ex_entry_item \<in> set (rd_items ex_rule_entered)" "reached ex_rule_entered 4 3 10"
  by code_simp+

theorem apply_agrees_with_propagation_witness:
  "\<exists>g. tbl_find pg_key (10, 4, 10, ItemUnlocking) (db_permissions_granted (rd_db ex_reapplied)) = Some g \<and> pg_can_enter_until g = 30 \<and>
    tbl_find pg_key (10, 4, 10, ItemUnlocking) (db_permissions_granted (rd_db (fst ex_propagated_rule))) = Some (g\<lparr>pg_can_enter_until := max_time\<rparr>)"
proof -
  have "reached ex_rule_entered 4 3 10" "tbl_find pg_key (10, 4, 10, ItemUnlocking) (db_permissions_granted (rd_db ex_reapplied)) =
      Some ((unlocking_row 100 10 4 1 20)\<lparr>pg_can_enter_until := 30\<rparr>)" by code_simp+
  then show ?thesis
    using apply_agrees_with_propagation [OF ex_reapplied_run ex_propagated_rule_run ex_rule_tables(1-3) ex_rule_tables(7,4),
      of 10 4 10 ItemUnlocking] ex_rule_tables(5) by simp
qed

lemma applied_dependency_keeps_end_witness:
  "\<exists>g'. tbl_find pg_key (10, 4, 10, ItemUnlocking) (db_permissions_granted (rd_db ex_reapplied)) = Some g' \<and>
     pg_can_enter_until g' = 30 \<and> \<not> unlocked (rd_db ex_reapplied) 10 ex_entry_item"
proof -
  have "tbl_find pg_key (10, 4, 10, ItemUnlocking) (db_permissions_granted (rd_db ex_rule_entered)) =
      Some ((unlocking_row 10 10 4 1 20)\<lparr>pg_can_enter_until := 30\<rparr>)" by code_simp
  from applied_dependency_keeps_end [OF ex_reapplied_run ex_rule_tables(6,7,4,5,8) this] show ?thesis by (simp add: max_time_def)
qed

end
